(* ===== verification/Rtmp_Prelude.thy ===== *)
theory Rtmp_Prelude
  imports Main "HOL-Library.Word"
begin

text \<open>
  Shared vocabulary of the development: the machine integers of the Rust source, the
  result of a fallible call, the operations of a mutable object that may fail, and the
  slice operations of Rust with their panics.

  A Rust \<open>Result<T>\<close> is \<open>'a result\<close>. Its left side is either an error code that the
  function returns or a panic: an index, a slice or a \<open>copy_from_slice\<close> out of range ends
  the thread in Rust, so it must be a value of the model that a theorem can rule out.
  A method that takes \<open>&mut self\<close> is an \<open>('s, 'a) op\<close>: it returns the result and the object
  as the call left it, on the error paths too.
  \<open>usize\<close> values are \<open>nat\<close>; where the source uses saturating or checked arithmetic on them
  the width (64 bits) is written out.
\<close>

unbundle bit_operations_syntax

type_synonym u8 = "8 word"
type_synonym u16 = "16 word"
type_synonym u32 = "32 word"
type_synonym u64 = "64 word"
type_synonym bytes = "u8 list"

section \<open>Errors and results\<close>

datatype error_code =
    EOk
  | EIo
  | ETimeout
  | EProtocol
  | EHandshake
  | EChunk
  | EAmf
  | EUnsupported
  | EAuth
  | EInternal

fun error_code_as_i32 :: "error_code \<Rightarrow> int" where
  "error_code_as_i32 EOk = 0"
| "error_code_as_i32 EIo = -1"
| "error_code_as_i32 ETimeout = -2"
| "error_code_as_i32 EProtocol = -3"
| "error_code_as_i32 EHandshake = -4"
| "error_code_as_i32 EChunk = -5"
| "error_code_as_i32 EAmf = -6"
| "error_code_as_i32 EUnsupported = -7"
| "error_code_as_i32 EAuth = -8"
| "error_code_as_i32 EInternal = -9"

datatype failure = Err error_code | Panic

type_synonym 'a result = "failure + 'a"

type_synonym ('s, 'a) op = "'s \<Rightarrow> 'a result \<times> 's"

abbreviation err :: "error_code \<Rightarrow> 'a result" where
  "err e \<equiv> Inl (Err e)"

abbreviation panic :: "'a result" where
  "panic \<equiv> Inl Panic"

definition bindR :: "'a result \<Rightarrow> ('a \<Rightarrow> 'b result) \<Rightarrow> 'b result" where
  "bindR r f = (case r of Inl e \<Rightarrow> Inl e | Inr x \<Rightarrow> f x)"

text \<open>\<open>r.map_err(|_| e)\<close>: only a returned error is replaced, a panic is not caught.\<close>

definition map_errR :: "error_code \<Rightarrow> 'a result \<Rightarrow> 'a result" where
  "map_errR e r =
     (case r of Inl (Err _) \<Rightarrow> err e | Inl Panic \<Rightarrow> panic | Inr x \<Rightarrow> Inr x)"

definition retS :: "'a \<Rightarrow> ('s, 'a) op" where
  "retS x = (\<lambda>s. (Inr x, s))"

definition failS :: "failure \<Rightarrow> ('s, 'a) op" where
  "failS e = (\<lambda>s. (Inl e, s))"

definition liftS :: "'a result \<Rightarrow> ('s, 'a) op" where
  "liftS r = (\<lambda>s. (r, s))"

definition getS :: "('s \<Rightarrow> 'a) \<Rightarrow> ('s, 'a) op" where
  "getS f = (\<lambda>s. (Inr (f s), s))"

definition modS :: "('s \<Rightarrow> 's) \<Rightarrow> ('s, unit) op" where
  "modS f = (\<lambda>s. (Inr (), f s))"

text \<open>The \<open>?\<close> operator: go on with the value, or leave with the error and the state so far.\<close>

definition bindS :: "('s, 'a) op \<Rightarrow> ('a \<Rightarrow> ('s, 'b) op) \<Rightarrow> ('s, 'b) op" where
  "bindS m f = (\<lambda>s. case m s of (Inl e, s') \<Rightarrow> (Inl e, s') | (Inr x, s') \<Rightarrow> f x s')"

definition thenS :: "('s, 'a) op \<Rightarrow> ('s, 'b) op \<Rightarrow> ('s, 'b) op" where
  "thenS m n = bindS m (\<lambda>_. n)"

definition map_errS :: "error_code \<Rightarrow> ('s, 'a) op \<Rightarrow> ('s, 'a) op" where
  "map_errS e m = (\<lambda>s. case m s of (r, s') \<Rightarrow> (map_errR e r, s'))"

text \<open>An operation that drops its value: \<open>m?; Ok(())\<close>.\<close>

definition voidS :: "('s, 'a) op \<Rightarrow> ('s, unit) op" where
  "voidS m = bindS m (\<lambda>_. retS ())"

text \<open>Running an operation of a field of a larger object.\<close>

definition zoomS ::
  "('t \<Rightarrow> 's) \<Rightarrow> ('s \<Rightarrow> 't \<Rightarrow> 't) \<Rightarrow> ('s, 'a) op \<Rightarrow> ('t, 'a) op" where
  "zoomS get_f put_f m = (\<lambda>t. case m (get_f t) of (r, s') \<Rightarrow> (r, put_f s' t))"

section \<open>Rust slices\<close>

definition idx :: "'a list \<Rightarrow> nat \<Rightarrow> 'a result" where
  "idx xs i = (if i < length xs then Inr (xs ! i) else panic)"

text \<open>\<open>xs[a..b]\<close>\<close>

definition subslice :: "'a list \<Rightarrow> nat \<Rightarrow> nat \<Rightarrow> 'a list result" where
  "subslice xs a b = (if a \<le> b \<and> b \<le> length xs then Inr (take (b - a) (drop a xs)) else panic)"

text \<open>\<open>xs.get(i)\<close>\<close>

definition get_opt :: "'a list \<Rightarrow> nat \<Rightarrow> 'a option" where
  "get_opt xs i = (if i < length xs then Some (xs ! i) else None)"

text \<open>\<open>dst[a..a + src.len()].copy_from_slice(src)\<close>\<close>

definition copy_at :: "'a list \<Rightarrow> nat \<Rightarrow> 'a list \<Rightarrow> 'a list result" where
  "copy_at dst a src =
     (if a + length src \<le> length dst
      then Inr (take a dst @ src @ drop (a + length src) dst) else panic)"

text \<open>\<open>dst[i] = v\<close>\<close>

definition set_idx :: "'a list \<Rightarrow> nat \<Rightarrow> 'a \<Rightarrow> 'a list result" where
  "set_idx xs i v = (if i < length xs then Inr (xs[i := v]) else panic)"

section \<open>Integer helpers\<close>

definition USIZE_MAX :: nat where
  "USIZE_MAX = 2 ^ 64 - 1"

definition sat_mul :: "nat \<Rightarrow> nat \<Rightarrow> nat" where
  "sat_mul a b = min (a * b) USIZE_MAX"

definition sat_add :: "nat \<Rightarrow> nat \<Rightarrow> nat" where
  "sat_add a b = min (a + b) USIZE_MAX"

section \<open>Generic lemmas\<close>

named_theorems op_simps \<open>unfolding of the state operations\<close>

lemma retS_apply [simp, op_simps]: "retS x s = (Inr x, s)"
  by (simp add: retS_def)

lemma failS_apply [simp, op_simps]: "failS e s = (Inl e, s)"
  by (simp add: failS_def)

lemma liftS_apply [simp, op_simps]: "liftS r s = (r, s)"
  by (simp add: liftS_def)

lemma getS_apply [simp, op_simps]: "getS f s = (Inr (f s), s)"
  by (simp add: getS_def)

lemma modS_apply [simp, op_simps]: "modS f s = (Inr (), f s)"
  by (simp add: modS_def)

lemma bindS_apply [op_simps]:
  "bindS m f s = (case m s of (Inl e, s') \<Rightarrow> (Inl e, s') | (Inr x, s') \<Rightarrow> f x s')"
  by (simp add: bindS_def)

lemma bindS_Inr [simp]: "m s = (Inr x, s') \<Longrightarrow> bindS m f s = f x s'"
  by (simp add: bindS_def)

lemma bindS_Inl [simp]: "m s = (Inl e, s') \<Longrightarrow> bindS m f s = (Inl e, s')"
  by (simp add: bindS_def)

lemma thenS_apply [op_simps]:
  "thenS m n s = (case m s of (Inl e, s') \<Rightarrow> (Inl e, s') | (Inr x, s') \<Rightarrow> n s')"
  by (simp add: thenS_def bindS_def)

lemma thenS_Inr [simp]: "m s = (Inr x, s') \<Longrightarrow> thenS m n s = n s'"
  by (simp add: thenS_def)

lemma thenS_Inl [simp]: "m s = (Inl e, s') \<Longrightarrow> thenS m n s = (Inl e, s')"
  by (simp add: thenS_def)

lemma map_errR_simps [simp, op_simps]:
  "map_errR e (Inr x) = Inr x"
  "map_errR e (err e') = err e"
  "map_errR e panic = panic"
  by (simp_all add: map_errR_def)

lemma map_errS_apply [op_simps]:
  "map_errS e m s = (case m s of (r, s') \<Rightarrow> (map_errR e r, s'))"
  by (simp add: map_errS_def)

lemma map_errS_Inr [simp]: "m s = (Inr x, s') \<Longrightarrow> map_errS e m s = (Inr x, s')"
  by (simp add: map_errS_def)

lemma map_errS_err [simp]: "m s = (err e', s') \<Longrightarrow> map_errS e m s = (err e, s')"
  by (simp add: map_errS_def)

lemma bindR_simps [simp, op_simps]:
  "bindR (Inr x) f = f x" "bindR (Inl e) f = Inl e"
  by (simp_all add: bindR_def)

lemma bindR_assoc: "bindR (bindR m f) g = bindR m (\<lambda>x. bindR (f x) g)"
  by (simp add: bindR_def split: sum.splits)

lemma bindR_Inr_right [simp]: "bindR m Inr = m"
  by (simp add: bindR_def split: sum.splits)

lemma voidS_Inr [simp]: "m s = (Inr x, s') \<Longrightarrow> voidS m s = (Inr (), s')"
  by (simp add: voidS_def)

lemma voidS_Inl [simp]: "m s = (Inl e, s') \<Longrightarrow> voidS m s = (Inl e, s')"
  by (simp add: voidS_def)

lemma map_errR_eq_panic [simp]: "map_errR e r = panic \<longleftrightarrow> r = panic"
  by (auto simp: map_errR_def split: sum.splits failure.splits)

lemma map_errR_eq_Inr [simp]: "map_errR e r = Inr x \<longleftrightarrow> r = Inr x"
  by (auto simp: map_errR_def split: sum.splits failure.splits)

lemma idx_in [simp]: "i < length xs \<Longrightarrow> idx xs i = Inr (xs ! i)"
  by (simp add: idx_def)

lemma idx_Cons_simps [simp]:
  "idx (x # xs) 0 = Inr x"
  "idx (x # xs) (Suc i) = idx xs i"
  "idx (x # xs) (numeral k) = idx xs (pred_numeral k)"
  by (simp_all add: idx_def numeral_eq_Suc)

lemma idx_one [simp]: "idx (x # y # xs) 1 = Inr y"
  by (simp add: idx_def)

lemma subslice_ok [simp]:
  "a \<le> b \<Longrightarrow> b \<le> length xs \<Longrightarrow> subslice xs a b = Inr (take (b - a) (drop a xs))"
  by (simp add: subslice_def)

lemma copy_at_ok [simp]:
  "a + length src \<le> length dst \<Longrightarrow>
   copy_at dst a src = Inr (take a dst @ src @ drop (a + length src) dst)"
  by (simp add: copy_at_def)

lemma length_copy_at: "copy_at dst a src = Inr d \<Longrightarrow> length d = length dst"
  by (auto simp: copy_at_def split: if_splits)

lemma set_idx_ok [simp]: "i < length xs \<Longrightarrow> set_idx xs i v = Inr (xs[i := v])"
  by (simp add: set_idx_def)

lemma get_opt_ok [simp]: "i < length xs \<Longrightarrow> get_opt xs i = Some (xs ! i)"
  by (simp add: get_opt_def)

lemma get_opt_None [simp]: "length xs \<le> i \<Longrightarrow> get_opt xs i = None"
  by (simp add: get_opt_def)

lemma ex_prefix_drop: "\<exists>u. xs = u @ drop n xs"
  by (metis append_take_drop_id)

end
