(* ===== verification/Rtmp_Bytes.thy ===== *)
theory Rtmp_Bytes
  imports Rtmp_Prelude
begin

text \<open>
  Byte order: \<open>src/src/bytes.rs\<close> and the standard library's \<open>to_be_bytes\<close>,
  \<open>to_le_bytes\<close> and \<open>from_be_bytes\<close> that the encoders and parsers use. The lemmas show
  that each pair of conversions is inverse, which every wire format of the library rests on.
\<close>

section \<open>Definitions\<close>

definition u16_be :: "u8 \<Rightarrow> u8 \<Rightarrow> u16" where
  "u16_be b0 b1 = push_bit 8 (ucast b0) OR ucast b1"

definition u24_be :: "u8 \<Rightarrow> u8 \<Rightarrow> u8 \<Rightarrow> u32" where
  "u24_be b0 b1 b2 = push_bit 16 (ucast b0) OR push_bit 8 (ucast b1) OR ucast b2"

definition u32_be :: "u8 \<Rightarrow> u8 \<Rightarrow> u8 \<Rightarrow> u8 \<Rightarrow> u32" where
  "u32_be b0 b1 b2 b3 =
     push_bit 24 (ucast b0) OR push_bit 16 (ucast b1) OR push_bit 8 (ucast b2) OR ucast b3"

definition u32_le :: "u8 \<Rightarrow> u8 \<Rightarrow> u8 \<Rightarrow> u8 \<Rightarrow> u32" where
  "u32_le b0 b1 b2 b3 =
     ucast b0 OR push_bit 8 (ucast b1) OR push_bit 16 (ucast b2) OR push_bit 24 (ucast b3)"

definition be16 :: "u16 \<Rightarrow> bytes" where
  "be16 w = [ucast (drop_bit 8 w), ucast w]"

definition be24 :: "u32 \<Rightarrow> bytes" where
  "be24 w = [ucast (drop_bit 16 w AND 0xFF), ucast (drop_bit 8 w AND 0xFF), ucast (w AND 0xFF)]"

definition be32 :: "u32 \<Rightarrow> bytes" where
  "be32 w = [ucast (drop_bit 24 w), ucast (drop_bit 16 w), ucast (drop_bit 8 w), ucast w]"

definition le32 :: "u32 \<Rightarrow> bytes" where
  "le32 w = [ucast w, ucast (drop_bit 8 w), ucast (drop_bit 16 w), ucast (drop_bit 24 w)]"

definition be64 :: "u64 \<Rightarrow> bytes" where
  "be64 w = [ucast (drop_bit 56 w), ucast (drop_bit 48 w), ucast (drop_bit 40 w),
     ucast (drop_bit 32 w), ucast (drop_bit 24 w), ucast (drop_bit 16 w),
     ucast (drop_bit 8 w), ucast w]"

definition byteswap16 :: "u16 \<Rightarrow> u16" where
  "byteswap16 w = push_bit 8 w OR drop_bit 8 w"

definition byteswap32 :: "u32 \<Rightarrow> u32" where
  "byteswap32 w = push_bit 24 w OR push_bit 8 (w AND 0xFF00)
     OR drop_bit 8 (w AND 0xFF0000) OR drop_bit 24 w"

definition byteswap64 :: "u64 \<Rightarrow> u64" where
  "byteswap64 w =
     push_bit 32 (ucast (byteswap32 (ucast w))) OR ucast (byteswap32 (ucast (drop_bit 32 w)))"

definition ntoh24 :: "bytes \<Rightarrow> u32 result" where
  "ntoh24 buf =
     bindR (idx buf 0) (\<lambda>b0. bindR (idx buf 1) (\<lambda>b1. bindR (idx buf 2) (\<lambda>b2.
       Inr (u24_be b0 b1 b2))))"

definition hton24 :: "bytes \<Rightarrow> u32 \<Rightarrow> bytes result" where
  "hton24 buf val =
     bindR (set_idx buf 0 (ucast (drop_bit 16 val AND 0xFF))) (\<lambda>buf.
     bindR (set_idx buf 1 (ucast (drop_bit 8 val AND 0xFF))) (\<lambda>buf.
     set_idx buf 2 (ucast (val AND 0xFF))))"

definition ntoh32 :: "bytes \<Rightarrow> u32 result" where
  "ntoh32 buf =
     bindR (idx buf 0) (\<lambda>b0. bindR (idx buf 1) (\<lambda>b1.
     bindR (idx buf 2) (\<lambda>b2. bindR (idx buf 3) (\<lambda>b3. Inr (u32_be b0 b1 b2 b3)))))"

definition ntoh16 :: "bytes \<Rightarrow> u16 result" where
  "ntoh16 buf = bindR (idx buf 0) (\<lambda>b0. bindR (idx buf 1) (\<lambda>b1. Inr (u16_be b0 b1)))"

text \<open>The loop \<open>bits |= (b[i] as u64) << ((7 - i) * 8)\<close> of the AMF readers.\<close>

definition u64_of_be :: "bytes \<Rightarrow> u64 result" where
  "u64_of_be b =
     (if length b < 8 then panic
      else Inr (fold (\<lambda>i bits. bits OR push_bit ((7 - i) * 8) (ucast (b ! i))) [0..<8] 0))"

section \<open>Inverse laws\<close>

named_theorems be_simps \<open>byte-order conversions\<close>

lemma length_be [simp]:
  "length (be16 v) = 2" "length (be24 w) = 3" "length (be32 w) = 4" "length (le32 w) = 4"
  "length (be64 x) = 8"
  by (simp_all add: be16_def be24_def be32_def le32_def be64_def)

lemma be_neq_Nil [simp]:
  "be16 v \<noteq> []" "be24 w \<noteq> []" "be32 w \<noteq> []" "le32 w \<noteq> []" "be64 x \<noteq> []"
  by (simp_all add: be16_def be24_def be32_def le32_def be64_def)

lemma bit_u8_less [dest]: "bit (b :: u8) n \<Longrightarrow> n < 8"
  using bit_imp_le_length [of b n] by simp

lemma bit_255 [simp]: "bit (255 :: int) n \<longleftrightarrow> n < 8"
proof -
  have "(255 :: int) = mask 8"
    by (simp add: mask_eq_exp_minus_1)
  then show ?thesis
    by (simp only: bit_mask_iff) simp
qed

lemma bit_low [simp]: "\<not> bit (b :: u8) (8 + n)" "\<not> bit (b :: u8) (16 + n)" "\<not> bit (b :: u8) (24 + n)"
  by (auto dest: bit_u8_less)

text \<open>A word is rebuilt byte by byte from the least significant end.\<close>

lemma ucast_byte [simp]: "ucast (ucast (w :: 'a::len word) :: u8) = take_bit 8 w"
  by (rule bit_word_eqI) (auto simp: bit_simps)

lemma no_high_bit:
  fixes w :: "'a::len word"
  assumes "unat w < 2 ^ k" "bit w n"
  shows "n < k"
proof (rule ccontr)
  assume "\<not> n < k"
  have "bit (unat w) n" using assms(2) by (simp add: bit_unsigned_iff)
  then have "odd (unat w div 2 ^ n)" by (simp add: bit_iff_odd)
  then have "2 ^ n \<le> unat w" by (metis div_less even_zero not_le)
  moreover have "2 ^ k \<le> (2 ^ n :: nat)" using \<open>\<not> n < k\<close> by simp
  ultimately show False using assms(1) by simp
qed

lemma join_byte:
  "push_bit k (take_bit 8 (drop_bit k w)) OR take_bit k w = take_bit (k + 8) (w :: 'a::len word)"
proof (rule bit_word_eqI)
  fix n assume "n < LENGTH('a)"
  then show "bit (push_bit k (take_bit 8 (drop_bit k w)) OR take_bit k w) n
      = bit (take_bit (k + 8) w) n"
    by (cases "k \<le> n") (auto simp: bit_simps)
qed

lemma take_bit_full [simp]:
  "take_bit 16 (v :: u16) = v" "take_bit 32 (w :: u32) = w" "take_bit 64 (x :: u64) = x"
  by (rule bit_word_eqI; simp add: bit_simps)+

lemmas join_bytes =
  join_byte [of 8, simplified] join_byte [of 16, simplified] join_byte [of 24, simplified]
  join_byte [of 32, simplified] join_byte [of 40, simplified] join_byte [of 48, simplified]
  join_byte [of 56, simplified]

lemma u16_be_be16 [be_simps]: "u16_be (ucast (drop_bit 8 w)) (ucast w) = w"
  by (simp add: u16_be_def join_bytes)

lemma u32_be_be32 [be_simps]:
  "u32_be (ucast (drop_bit 24 w)) (ucast (drop_bit 16 w)) (ucast (drop_bit 8 w)) (ucast w) = w"
  by (simp add: u32_be_def join_bytes)

lemma u32_le_le32 [be_simps]:
  "u32_le (ucast w) (ucast (drop_bit 8 w)) (ucast (drop_bit 16 w)) (ucast (drop_bit 24 w)) = w"
  using u32_be_be32 [of w] by (simp add: u32_le_def u32_be_def or.commute or.left_commute)

lemma be16_u16_be [be_simps]: "be16 (u16_be b0 b1) = [b0, b1]"
  by (auto simp: be16_def u16_be_def bit_simps intro!: bit_word_eqI)

lemma be32_u32_be [be_simps]: "be32 (u32_be b0 b1 b2 b3) = [b0, b1, b2, b3]"
  by (auto simp: be32_def u32_be_def bit_simps intro!: bit_word_eqI)

lemma le32_u32_le [be_simps]: "le32 (u32_le b0 b1 b2 b3) = [b0, b1, b2, b3]"
  by (auto simp: le32_def u32_le_def bit_simps intro!: bit_word_eqI)

lemma be24_u24_be [be_simps]: "be24 (u24_be b0 b1 b2) = [b0, b1, b2]"
  by (auto simp: be24_def u24_be_def bit_simps intro!: bit_word_eqI)

lemma ucast_and_255 [simp]: "ucast (w AND 0xFF :: u32) = (ucast w :: u8)"
  by (rule bit_word_eqI) (auto simp: bit_simps)

lemma u24_be_be24_take:
  "u24_be (ucast (drop_bit 16 w)) (ucast (drop_bit 8 w)) (ucast w) = take_bit 24 w"
  by (simp add: u24_be_def join_bytes)

lemma u24_be_be24 [be_simps]:
  assumes "w \<le> 0xFFFFFF"
  shows "u24_be (ucast (drop_bit 16 w)) (ucast (drop_bit 8 w)) (ucast w) = w"
proof -
  have "unat w < 2 ^ 24"
    using assms by (simp add: word_le_nat_alt)
  then have "take_bit 24 w = w"
    by (simp add: take_bit_eq_mod word_unat_eq_iff unat_mod)
  then show ?thesis
    by (simp add: u24_be_be24_take)
qed

lemma u24_be_bound: "u24_be b0 b1 b2 \<le> 0xFFFFFF"
proof -
  have "u24_be b0 b1 b2 = take_bit 24 (u24_be b0 b1 b2)"
    by (rule bit_word_eqI) (auto simp: u24_be_def bit_simps)
  then have "unat (u24_be b0 b1 b2) = unat (u24_be b0 b1 b2 mod 2 ^ 24)"
    by (simp only: take_bit_eq_mod)
  then have "unat (u24_be b0 b1 b2) < 2 ^ 24"
    by (simp add: unat_mod)
  then show ?thesis
    by (simp add: word_le_nat_alt)
qed

section \<open>The parsers on encoded values\<close>

lemma ntoh16_be16 [be_simps]: "ntoh16 (be16 v @ rest) = Inr v"
  by (simp add: ntoh16_def be16_def u16_be_be16)

lemma ntoh32_be32 [be_simps]: "ntoh32 (be32 v @ rest) = Inr v"
  by (simp add: ntoh32_def be32_def u32_be_be32)

lemma ntoh24_be24 [be_simps]: "v \<le> 0xFFFFFF \<Longrightarrow> ntoh24 (be24 v @ rest) = Inr v"
  by (simp add: ntoh24_def be24_def u24_be_be24)

lemma u64_of_be_unroll:
  "u64_of_be (b0 # b1 # b2 # b3 # b4 # b5 # b6 # b7 # rest) =
     Inr (push_bit 56 (ucast b0) OR push_bit 48 (ucast b1) OR push_bit 40 (ucast b2) OR
          push_bit 32 (ucast b3) OR push_bit 24 (ucast b4) OR push_bit 16 (ucast b5) OR
          push_bit 8 (ucast b6) OR ucast b7)"
  by (simp add: u64_of_be_def upt_conv_Cons or.assoc)

lemma u64_of_be_be64 [be_simps]: "u64_of_be (be64 w @ rest) = Inr w"
  by (simp add: be64_def u64_of_be_unroll join_bytes)

text \<open>Swapping exchanges the bytes, so swapping twice is the identity.\<close>

lemma byteswap16_be: "byteswap16 (u16_be b0 b1) = u16_be b1 b0"
  by (rule bit_word_eqI) (auto simp: byteswap16_def u16_be_def bit_simps)

lemma byteswap16_involution: "byteswap16 (byteswap16 w) = w"
  by (metis byteswap16_be u16_be_be16)

end
