(* ===== verification/Byte_Queue.thy ===== *)
theory Byte_Queue
  imports Rtmp_Prelude
begin

text \<open>
  The contract between the buffer and everything that encodes into it or decodes from it:
  a first-in first-out queue of bytes with a limit on what it holds. A write appends all its
  bytes or fails and appends none; a read takes exactly the bytes asked for or fails and takes
  none.

  Inside the locale are the judgements the codecs are verified with, and the rules that
  compose them along \<open>bindS\<close>, the \<open>?\<close> of the source:

  \<^item> \<open>emits m x bs\<close>: with room for \<open>bs\<close>, the writer \<open>m\<close> returns \<open>x\<close> and appends exactly \<open>bs\<close>;
  \<^item> \<open>parses m bs x\<close>: in front of \<open>bs\<close>, the reader \<open>m\<close> returns \<open>x\<close> and consumes exactly \<open>bs\<close>;
  \<^item> \<open>appends m\<close> and \<open>consumes m\<close>: on every path, errors included, \<open>m\<close> does not panic, keeps the
    queue well formed and only appends to (takes a prefix of) its contents;
  \<^item> \<open>yields m P\<close>: whenever the reader \<open>m\<close> succeeds, its value and the bytes it consumed satisfy \<open>P\<close>.
\<close>

locale byte_queue =
  fixes wf :: "'s \<Rightarrow> bool"
    and contents :: "'s \<Rightarrow> bytes"
    and room :: "'s \<Rightarrow> nat \<Rightarrow> bool"
    and push :: "bytes \<Rightarrow> ('s, nat) op"
    and reserve :: "nat \<Rightarrow> ('s, unit) op"
    and pull :: "nat \<Rightarrow> ('s, bytes) op"
    and avail :: "'s \<Rightarrow> nat"
    and peek :: "'s \<Rightarrow> bytes result"
    and drain :: "nat \<Rightarrow> 's \<Rightarrow> 's"
  assumes write_ok: "wf s \<Longrightarrow> room s (length d) \<Longrightarrow>
      \<exists>s'. push d s = (Inr (length d), s') \<and> wf s' \<and> contents s' = contents s @ d \<and>
        (\<forall>n. room s' n \<longleftrightarrow> room s (length d + n))"
    and write_nil: "push [] s = (Inr 0, s)"
    and write_full: "wf s \<Longrightarrow> \<not> room s (length d) \<Longrightarrow> d \<noteq> [] \<Longrightarrow>
      \<exists>s'. push d s = (err EInternal, s') \<and> wf s' \<and> contents s' = contents s"
    and room_mono: "room s n \<Longrightarrow> m \<le> n \<Longrightarrow> room s m"
    and reserve_ok: "wf s \<Longrightarrow> room s n \<Longrightarrow>
      \<exists>s'. reserve n s = (Inr (), s') \<and> wf s' \<and> contents s' = contents s \<and>
        (\<forall>m. room s' m \<longleftrightarrow> room s m)"
    and reserve_full: "wf s \<Longrightarrow> \<not> room s n \<Longrightarrow>
      \<exists>s'. reserve n s = (err EInternal, s') \<and> wf s' \<and> contents s' = contents s"
    and read_ok: "wf s \<Longrightarrow> n \<le> length (contents s) \<Longrightarrow>
      \<exists>s'. pull n s = (Inr (take n (contents s)), s') \<and> wf s' \<and> contents s' = drop n (contents s)"
    and read_short: "wf s \<Longrightarrow> length (contents s) < n \<Longrightarrow> pull n s = (err EIo, s)"
    and avail_contents: "wf s \<Longrightarrow> avail s = length (contents s)"
    and peek_contents: "wf s \<Longrightarrow> peek s = Inr (contents s)"
    and drain_ok: "wf s \<Longrightarrow> wf (drain n s)"
    and drain_contents: "wf s \<Longrightarrow> contents (drain n s) = drop n (contents s)"
begin

definition emits :: "('s, 'a) op \<Rightarrow> 'a \<Rightarrow> bytes \<Rightarrow> bool" where
  "emits m x bs \<longleftrightarrow> (\<forall>s. wf s \<longrightarrow> room s (length bs) \<longrightarrow>
     (\<exists>s'. m s = (Inr x, s') \<and> wf s' \<and> contents s' = contents s @ bs \<and>
        (\<forall>n. room s' n \<longleftrightarrow> room s (length bs + n))))"

definition parses :: "('s, 'a) op \<Rightarrow> bytes \<Rightarrow> 'a \<Rightarrow> bool" where
  "parses m bs x \<longleftrightarrow> (\<forall>s rest. wf s \<longrightarrow> contents s = bs @ rest \<longrightarrow>
     (\<exists>s'. m s = (Inr x, s') \<and> wf s' \<and> contents s' = rest))"

definition appends :: "('s, 'a) op \<Rightarrow> bool" where
  "appends m \<longleftrightarrow> (\<forall>s. wf s \<longrightarrow> fst (m s) \<noteq> panic \<and> wf (snd (m s)) \<and>
     (\<exists>w. contents (snd (m s)) = contents s @ w))"

definition consumes :: "('s, 'a) op \<Rightarrow> bool" where
  "consumes m \<longleftrightarrow> (\<forall>s. wf s \<longrightarrow> fst (m s) \<noteq> panic \<and> wf (snd (m s)) \<and>
     (\<exists>u. contents s = u @ contents (snd (m s))))"

subsection \<open>Writers\<close>

lemma emitsE:
  assumes "emits m x bs" "wf s" "room s (length bs)"
  obtains s' where "m s = (Inr x, s')" "wf s'" "contents s' = contents s @ bs"
    "\<And>n. room s' n \<longleftrightarrow> room s (length bs + n)"
  using assms unfolding emits_def by blast

lemma emits_write [intro]: "emits (push d) (length d) d"
  unfolding emits_def using write_ok by blast

lemma emits_ret [intro]: "emits (retS x) x []"
  by (simp add: emits_def)

lemma emits_lift [intro]: "emits (liftS (Inr x)) x []"
  by (simp add: emits_def)

lemma emits_bind:
  assumes m: "emits m x bs" and f: "emits (f x) y cs"
  shows "emits (bindS m f) y (bs @ cs)"
  unfolding emits_def
proof (intro allI impI)
  fix s assume s: "wf s" "room s (length (bs @ cs))"
  then have "room s (length bs)" by (auto intro: room_mono)
  with m s(1) obtain s1 where s1: "m s = (Inr x, s1)" "wf s1" "contents s1 = contents s @ bs"
    "\<And>n. room s1 n \<longleftrightarrow> room s (length bs + n)" by (elim emitsE) auto
  then have "room s1 (length cs)" using s(2) by simp
  with f s1(2) obtain s2 where "f x s1 = (Inr y, s2)" "wf s2" "contents s2 = contents s1 @ cs"
    "\<And>n. room s2 n \<longleftrightarrow> room s1 (length cs + n)" by (elim emitsE) auto
  then show "\<exists>s'. bindS m f s = (Inr y, s') \<and> wf s' \<and> contents s' = contents s @ (bs @ cs) \<and>
      (\<forall>n. room s' n \<longleftrightarrow> room s (length (bs @ cs) + n))"
    using s1 by (simp add: add.assoc)
qed

lemma emits_then:
  "emits m x bs \<Longrightarrow> emits n y cs \<Longrightarrow> emits (thenS m n) y (bs @ cs)"
  unfolding thenS_def by (rule emits_bind)

lemma emits_void: "emits m x bs \<Longrightarrow> emits (voidS m) () bs"
  unfolding voidS_def using emits_bind [of m x bs "\<lambda>_. retS ()" "()" "[]"] by auto

lemma emits_map_err: "emits m x bs \<Longrightarrow> emits (map_errS e m) x bs"
  unfolding emits_def by (metis map_errS_Inr)

lemma emits_if: "emits (if c then m else n) x bs \<longleftrightarrow> (if c then emits m x bs else emits n x bs)"
  by simp

text \<open>The two shapes in which the encoders write: \<open>buf.write(d).map_err(..)?\<close>, then more or nothing.\<close>

lemma emits_put: "emits (voidS (map_errS e (push d))) () d"
  by (rule emits_void, rule emits_map_err, rule emits_write)

lemma emits_put_then: "emits m y cs \<Longrightarrow> emits (thenS (map_errS e (push d)) m) y (d @ cs)"
  by (rule emits_then [OF emits_map_err [OF emits_write]])

text \<open>Reserving no more than what is then written changes nothing when there is room.\<close>

lemma emits_reserve_plain:
  assumes "n \<le> length bs" "emits m x bs"
  shows "emits (thenS (reserve n) m) x bs"
  unfolding emits_def
proof (intro allI impI)
  fix s assume s: "wf s" "room s (length bs)"
  then have "room s n" using assms(1) by (auto intro: room_mono)
  from reserve_ok [OF s(1) this] obtain s1 where s1: "reserve n s = (Inr (), s1)" "wf s1"
    "contents s1 = contents s" "\<forall>m. room s1 m \<longleftrightarrow> room s m" by blast
  from assms(2) s1(2) obtain s2 where "m s1 = (Inr x, s2)" "wf s2" "contents s2 = contents s1 @ bs"
    "\<And>n. room s2 n \<longleftrightarrow> room s1 (length bs + n)"
    by (rule emitsE) (use s s1(4) in auto)
  with s1 show "\<exists>s'. thenS (reserve n) m s = (Inr x, s') \<and> wf s' \<and>
      contents s' = contents s @ bs \<and> (\<forall>n. room s' n \<longleftrightarrow> room s (length bs + n))"
    by simp
qed

lemma emits_reserve:
  assumes "n \<le> length bs" "emits m x bs"
  shows "emits (thenS (map_errS e (reserve n)) m) x bs"
  unfolding emits_def
proof (intro allI impI)
  fix s assume s: "wf s" "room s (length bs)"
  then have "room s n" using assms(1) by (auto intro: room_mono)
  from reserve_ok [OF s(1) this]
  have "thenS (map_errS e (reserve n)) m s = thenS (reserve n) m s" by auto
  with emits_reserve_plain [OF assms] s
  show "\<exists>s'. thenS (map_errS e (reserve n)) m s = (Inr x, s') \<and> wf s' \<and>
      contents s' = contents s @ bs \<and> (\<forall>n. room s' n \<longleftrightarrow> room s (length bs + n))"
    by (simp add: emits_def)
qed

text \<open>Reserving all of it first makes the whole write all-or-nothing.\<close>

lemma reserve_fails:
  assumes "wf s" "\<not> room s n"
  shows "\<exists>s'. thenS (map_errS e (reserve n)) m s = (err e, s') \<and> wf s' \<and> contents s' = contents s"
  using reserve_full [OF assms] by fastforce

lemma reserve_plain_fails:
  assumes "wf s" "\<not> room s n"
  shows "\<exists>s'. thenS (reserve n) m s = (err EInternal, s') \<and> wf s' \<and> contents s' = contents s"
  using reserve_full [OF assms] by fastforce

lemmas emits_intros = emits_put emits_put_then emits_ret

lemma appendsD:
  assumes "appends m" "wf s"
  shows "fst (m s) \<noteq> panic" "wf (snd (m s))" "\<exists>w. contents (snd (m s)) = contents s @ w"
  using assms by (simp_all add: appends_def)

lemma appends_write [intro]: "appends (push d)"
  unfolding appends_def
proof (intro allI impI)
  fix s assume "wf s"
  with write_ok [of s d] write_full [of s d]
  show "fst (push d s) \<noteq> panic \<and> wf (snd (push d s)) \<and>
      (\<exists>w. contents (snd (push d s)) = contents s @ w)"
    by (cases "d = []"; cases "room s (length d)") (auto simp: write_nil)
qed

lemma appends_reserve [intro]: "appends (reserve n)"
  unfolding appends_def
proof (intro allI impI)
  fix s assume "wf s"
  with reserve_ok [of s n] reserve_full [of s n]
  show "fst (reserve n s) \<noteq> panic \<and> wf (snd (reserve n s)) \<and>
      (\<exists>w. contents (snd (reserve n s)) = contents s @ w)"
    by (cases "room s n") auto
qed

lemma appends_ret [intro]: "appends (retS x)"
  by (simp add: appends_def)

lemma appends_fail [intro]: "e \<noteq> Panic \<Longrightarrow> appends (failS e)"
  by (simp add: appends_def)

lemma appends_bind [intro]:
  assumes m: "appends m" and f: "\<And>x. appends (f x)"
  shows "appends (bindS m f)"
  unfolding appends_def
proof (intro allI impI)
  fix s assume s: "wf s"
  obtain r s1 where ms: "m s = (r, s1)" by fastforce
  from appendsD [OF m s] ms obtain w where s1: "r \<noteq> panic" "wf s1" "contents s1 = contents s @ w"
    by auto
  show "fst (bindS m f s) \<noteq> panic \<and> wf (snd (bindS m f s)) \<and>
      (\<exists>w. contents (snd (bindS m f s)) = contents s @ w)"
  proof (cases r)
    case (Inl e)
    with ms s1 show ?thesis by simp
  next
    case (Inr x)
    with ms s1 appendsD [OF f [of x] s1(2)] show ?thesis by fastforce
  qed
qed

lemma appends_then [intro]: "appends m \<Longrightarrow> appends n \<Longrightarrow> appends (thenS m n)"
  unfolding thenS_def by blast

lemma appends_void [intro]: "appends m \<Longrightarrow> appends (voidS m)"
  unfolding voidS_def by blast

lemma appends_map_err [intro]: "appends m \<Longrightarrow> appends (map_errS e m)"
  by (simp add: appends_def map_errS_def split: prod.splits) fastforce

lemma appends_if [intro]: "(c \<Longrightarrow> appends m) \<Longrightarrow> (\<not> c \<Longrightarrow> appends n) \<Longrightarrow> appends (if c then m else n)"
  by simp

subsection \<open>Readers\<close>

lemma parsesE:
  assumes "parses m bs x" "wf s" "contents s = bs @ rest"
  obtains s' where "m s = (Inr x, s')" "wf s'" "contents s' = rest"
  using assms unfolding parses_def by blast

lemma parses_read: "n = length bs \<Longrightarrow> parses (pull n) bs bs"
  unfolding parses_def using read_ok [of _ n] by fastforce

lemma parses_map_err: "parses m bs x \<Longrightarrow> parses (map_errS e m) bs x"
  unfolding parses_def by (metis map_errS_Inr)

lemma parses_ret [intro]: "parses (retS x) [] x"
  by (simp add: parses_def)

lemma parses_lift: "r = Inr x \<Longrightarrow> parses (liftS r) [] x"
  by (simp add: parses_def)

text \<open>Looking ahead without consuming.\<close>

lemma parses_look:
  assumes "\<And>s rest. wf s \<Longrightarrow> contents s = bs @ rest \<Longrightarrow> m s = (Inr v, s)" and "parses (f v) bs x"
  shows "parses (bindS m f) bs x"
  using assms unfolding parses_def by simp

text \<open>Skipping bytes that are there: \<open>if buf.available() < n { return Err(..) } buf.drain(n)\<close>.\<close>

lemma parses_drain:
  assumes "n = length bs"
  shows "parses (bindS (getS avail) (\<lambda>a. if a < n then failS e else modS (drain n))) bs ()"
  using assms by (simp add: parses_def avail_contents drain_ok drain_contents)

lemma parses_bind:
  assumes m: "parses m bs x" and f: "parses (f x) cs y"
  shows "parses (bindS m f) (bs @ cs) y"
  unfolding parses_def
proof (intro allI impI)
  fix s rest assume s: "wf s" "contents s = (bs @ cs) @ rest"
  from m s obtain s1 where s1: "m s = (Inr x, s1)" "wf s1" "contents s1 = cs @ rest"
    by (auto elim: parsesE)
  from f s1(2,3) obtain s2 where "f x s1 = (Inr y, s2)" "wf s2" "contents s2 = rest"
    by (rule parsesE)
  with s1 show "\<exists>s'. bindS m f s = (Inr y, s') \<and> wf s' \<and> contents s' = rest"
    by simp
qed

text \<open>Forms of the rule for the shapes in which the decoders read.\<close>

lemma parses_bind_last:
  assumes "parses m bs x" "parses (f x) [] y"
  shows "parses (bindS m f) bs y"
  using parses_bind [where f = f, OF assms] by (simp only: append_Nil2)

lemma parses_bind_Cons:
  assumes "parses m [b] x" "parses (f x) bs y"
  shows "parses (bindS m f) (b # bs) y"
  using parses_bind [where f = f, OF assms] by (simp only: append_Cons append_Nil)

lemma parses_bind_lift:
  assumes "r = Inr v" "parses (f v) bs x"
  shows "parses (bindS (liftS r) f) bs x"
  using parses_bind [where f = f, OF parses_lift [OF assms(1)] assms(2)] by (simp only: append_Nil)

lemma parses_pull_last:
  assumes "n = length bs" "parses (f bs) [] y"
  shows "parses (bindS (map_errS e (pull n)) f) bs y"
  by (rule parses_bind_last [where f = f, OF parses_map_err [OF parses_read [OF assms(1)]] assms(2)])

lemma parses_then: "parses m bs x \<Longrightarrow> parses n cs y \<Longrightarrow> parses (thenS m n) (bs @ cs) y"
  unfolding thenS_def by (rule parses_bind)

lemma parses_void: "parses m bs x \<Longrightarrow> parses (voidS m) bs ()"
  unfolding voidS_def using parses_bind [of m bs x "\<lambda>_. retS ()" "[]" "()"] by auto

text \<open>A reader applied to the queue a writer filled returns what the writer encoded.\<close>

lemma emits_parses:
  assumes "emits w u bs" "parses r bs x" "wf s" "contents s = []" "room s (length bs)"
  shows "\<exists>s1 s2. w s = (Inr u, s1) \<and> r s1 = (Inr x, s2) \<and> contents s2 = []"
proof -
  from assms(1,3,5) obtain s1 where s1: "w s = (Inr u, s1)" "wf s1" "contents s1 = contents s @ bs"
    by (rule emitsE)
  from assms(2) s1(2) obtain s2 where "r s1 = (Inr x, s2)" "contents s2 = []"
    by (rule parsesE [where rest = "[]"]) (simp_all add: s1 assms)
  with s1 show ?thesis by blast
qed

lemma consumesD:
  assumes "consumes m" "wf s"
  shows "fst (m s) \<noteq> panic" "wf (snd (m s))" "\<exists>u. contents s = u @ contents (snd (m s))"
  using assms by (simp_all add: consumes_def)

lemma consumes_read [intro]: "consumes (pull n)"
  unfolding consumes_def
proof (intro allI impI)
  fix s assume "wf s"
  with read_ok [of s n] read_short [of s n]
  show "fst (pull n s) \<noteq> panic \<and> wf (snd (pull n s)) \<and>
      (\<exists>u. contents s = u @ contents (snd (pull n s)))"
    by (cases "n \<le> length (contents s)") (auto simp: ex_prefix_drop)
qed

lemma consumes_ret [intro]: "consumes (retS x)"
  by (simp add: consumes_def)

lemma consumes_fail [intro]: "e \<noteq> Panic \<Longrightarrow> consumes (failS e)"
  by (simp add: consumes_def)

lemma consumes_lift [intro]: "r \<noteq> panic \<Longrightarrow> consumes (liftS r)"
  by (simp add: consumes_def)

lemma consumes_get [intro]: "consumes (getS f)"
  by (simp add: consumes_def)

lemma consumes_drain [intro]: "consumes (modS (drain n))"
  by (simp add: consumes_def drain_ok drain_contents ex_prefix_drop)

lemma consumes_bind [intro]:
  assumes m: "consumes m" and f: "\<And>x s. wf s \<Longrightarrow> fst (m s) = Inr x \<Longrightarrow> consumes (f x)"
  shows "consumes (bindS m f)"
  unfolding consumes_def
proof (intro allI impI)
  fix s assume s: "wf s"
  obtain r s1 where ms: "m s = (r, s1)" by fastforce
  from consumesD [OF m s] ms obtain u where s1: "r \<noteq> panic" "wf s1" "contents s = u @ contents s1"
    by auto
  show "fst (bindS m f s) \<noteq> panic \<and> wf (snd (bindS m f s)) \<and>
      (\<exists>u. contents s = u @ contents (snd (bindS m f s)))"
  proof (cases r)
    case (Inl e)
    with ms s1 show ?thesis by simp
  next
    case (Inr x)
    then have "consumes (f x)" using f [OF s] ms by simp
    from consumesD [OF this s1(2)] Inr ms s1 show ?thesis by fastforce
  qed
qed

lemma consumes_then [intro]: "consumes m \<Longrightarrow> consumes n \<Longrightarrow> consumes (thenS m n)"
  unfolding thenS_def by blast

lemma consumes_void [intro]: "consumes m \<Longrightarrow> consumes (voidS m)"
  unfolding voidS_def by blast

lemma consumes_map_err [intro]: "consumes m \<Longrightarrow> consumes (map_errS e m)"
  by (simp add: consumes_def map_errS_def split: prod.splits) fastforce

lemma consumes_if [intro]:
  "(c \<Longrightarrow> consumes m) \<Longrightarrow> (\<not> c \<Longrightarrow> consumes n) \<Longrightarrow> consumes (if c then m else n)"
  by simp

text \<open>The bytes a successful read returns are as many as were asked for.\<close>

lemma read_length: "wf s \<Longrightarrow> fst (pull n s) = Inr b \<Longrightarrow> length b = n"
  using read_ok [of s n] read_short [of s n] by (cases "n \<le> length (contents s)") auto

subsection \<open>What a successful reader saw\<close>

definition yields :: "('s, 'a) op \<Rightarrow> ('a \<Rightarrow> bytes \<Rightarrow> bool) \<Rightarrow> bool" where
  "yields m P \<longleftrightarrow> (\<forall>s x s'. wf s \<longrightarrow> m s = (Inr x, s') \<longrightarrow>
     wf s' \<and> (\<exists>u. contents s = u @ contents s' \<and> P x u))"

lemma yieldsE:
  assumes "yields m P" "wf s" "m s = (Inr x, s')"
  obtains u where "wf s'" "contents s = u @ contents s'" "P x u"
  using assms unfolding yields_def by blast

lemma yields_read: "yields (pull n) (\<lambda>d u. d = u \<and> length u = n)"
  unfolding yields_def
proof (intro allI impI)
  fix s d s' assume s: "wf s" "pull n s = (Inr d, s')"
  then have "n \<le> length (contents s)" using read_short [OF s(1)] by (cases "length (contents s) < n") auto
  with read_ok [OF s(1), of n] s(2) show "wf s' \<and> (\<exists>u. contents s = u @ contents s' \<and> d = u \<and> length u = n)"
    by auto
qed

lemma yields_mono: "yields m P \<Longrightarrow> (\<And>x u. P x u \<Longrightarrow> Q x u) \<Longrightarrow> yields m Q"
  unfolding yields_def by blast

lemma yields_ret: "P x [] \<Longrightarrow> yields (retS x) P"
  by (simp add: yields_def)

lemma yields_fail: "yields (failS e) P"
  by (simp add: yields_def)

lemma yields_lift: "(\<And>x. r = Inr x \<Longrightarrow> P x []) \<Longrightarrow> yields (liftS r) P"
  by (simp add: yields_def)

lemma yields_get: "yields (getS f) (\<lambda>_ u. u = [])"
  by (simp add: yields_def)

lemma yields_map_err: "yields m P \<Longrightarrow> yields (map_errS e m) P"
  by (auto simp: yields_def map_errS_def split: prod.splits)

lemma yields_if: "(c \<Longrightarrow> yields m P) \<Longrightarrow> (\<not> c \<Longrightarrow> yields n P) \<Longrightarrow> yields (if c then m else n) P"
  by simp

lemma yields_bind:
  assumes m: "yields m P" and f: "\<And>x u. P x u \<Longrightarrow> yields (f x) (\<lambda>y v. Q y (u @ v))"
  shows "yields (bindS m f) Q"
  unfolding yields_def
proof (intro allI impI)
  fix s y s' assume s: "wf s" "bindS m f s = (Inr y, s')"
  then obtain x s1 where x: "m s = (Inr x, s1)" "f x s1 = (Inr y, s')"
    by (auto simp: bindS_def split: prod.splits sum.splits)
  from m s(1) x(1) obtain u where u: "wf s1" "contents s = u @ contents s1" "P x u" by (rule yieldsE)
  from f [OF u(3)] u(1) x(2) obtain v where "wf s'" "contents s1 = v @ contents s'" "Q y (u @ v)" by (rule yieldsE)
  with u(2) show "wf s' \<and> (\<exists>u. contents s = u @ contents s' \<and> Q y u)" by auto
qed

end

end
