(* ===== verification/Rtmp_Buffer.thy ===== *)
theory Rtmp_Buffer
  imports Rtmp_Bytes Byte_Queue
begin

text \<open>
  The growable byte buffer of \<open>src/src/buffer.rs\<close>: a vector with a write cursor and a read
  cursor. The operations are those of \<open>impl Buffer\<close>; \<open>Buffer::data\<close> is a list, the cursors are
  natural numbers and a slice out of range is a panic.

  The abstraction of a buffer is its unread bytes (\<open>contents\<close>), and \<open>buf_inv\<close> is the invariant
  of its cursors. The locale \<open>byte_queue\<close> states what the rest of the library relies on (a
  first-in first-out byte queue with a size limit) and carries the rules for composing
  writers and readers; the interpretation at the end shows that the buffer keeps that contract.
\<close>

section \<open>State and operations\<close>

definition BUFFER_MAX_SIZE :: nat where
  "BUFFER_MAX_SIZE = 64 * 1024 * 1024"

definition BUFFER_INITIAL_SIZE :: nat where
  "BUFFER_INITIAL_SIZE = 4096"

definition BUFFER_RESET_CAPACITY :: nat where
  "BUFFER_RESET_CAPACITY = BUFFER_INITIAL_SIZE"

definition RECV_BUFFER_KEEP_CAPACITY :: nat where
  "RECV_BUFFER_KEEP_CAPACITY = 512 * 1024"

definition BUFFER_GROW_FACTOR :: nat where
  "BUFFER_GROW_FACTOR = 2"

record buffer =
  buf_data :: bytes
  buf_size :: nat
  buf_rpos :: nat
  buf_owned :: bool

definition buf_new :: buffer where
  "buf_new = \<lparr>buf_data = replicate BUFFER_INITIAL_SIZE 0, buf_size = 0, buf_rpos = 0,
     buf_owned = True\<rparr>"

definition buf_with_capacity :: "nat \<Rightarrow> buffer" where
  "buf_with_capacity capacity = \<lparr>buf_data = replicate capacity 0, buf_size = 0, buf_rpos = 0,
     buf_owned = True\<rparr>"

definition buf_from_slice :: "bytes \<Rightarrow> buffer" where
  "buf_from_slice d = \<lparr>buf_data = d, buf_size = length d, buf_rpos = 0, buf_owned = True\<rparr>"

definition buf_from_static :: "bytes \<Rightarrow> buffer" where
  "buf_from_static d = \<lparr>buf_data = d, buf_size = length d, buf_rpos = 0, buf_owned = False\<rparr>"

definition buf_available :: "buffer \<Rightarrow> nat" where
  "buf_available b = buf_size b - buf_rpos b"

definition buf_space :: "buffer \<Rightarrow> nat" where
  "buf_space b = length (buf_data b) - buf_size b"

definition buf_capacity :: "buffer \<Rightarrow> nat" where
  "buf_capacity b = length (buf_data b)"

definition buf_peek :: "buffer \<Rightarrow> bytes result" where
  "buf_peek b = subslice (buf_data b) (buf_rpos b) (buf_size b)"

definition buf_as_slice :: "buffer \<Rightarrow> bytes result" where
  "buf_as_slice b = subslice (buf_data b) 0 (buf_size b)"

text \<open>\<open>compact\<close>: \<open>copy_within(read_pos..size, 0)\<close> moves the unread bytes to the front.\<close>

definition buf_compact :: "(buffer, unit) op" where
  "buf_compact = (\<lambda>b.
     if buf_rpos b = 0 then (Inr (), b)
     else if buf_rpos b \<ge> buf_size b then (Inr (), b\<lparr>buf_size := 0, buf_rpos := 0\<rparr>)
     else (case subslice (buf_data b) (buf_rpos b) (buf_size b) of
         Inl e \<Rightarrow> (Inl e, b)
       | Inr unread \<Rightarrow>
           (Inr (), b\<lparr>buf_data := unread @ drop (length unread) (buf_data b),
              buf_size := buf_size b - buf_rpos b, buf_rpos := 0\<rparr>)))"

text \<open>
  The growth loop of \<open>ensure_capacity\<close>. It starts at \<open>data.len().max(BUFFER_INITIAL_SIZE)\<close>,
  so \<open>0 < cap\<close> holds whenever it runs; the guard only makes the recursion total.
\<close>

function grow_cap :: "nat \<Rightarrow> nat \<Rightarrow> nat" where
  "grow_cap cap needed =
     (if cap < needed \<and> 0 < cap
      then (let cap' = sat_mul cap BUFFER_GROW_FACTOR in
            if cap' > BUFFER_MAX_SIZE then BUFFER_MAX_SIZE else grow_cap cap' needed)
      else cap)"
  by pat_completeness auto
termination
  by (relation "measure (\<lambda>(cap, needed). needed - cap)")
    (auto simp: sat_mul_def BUFFER_GROW_FACTOR_def BUFFER_MAX_SIZE_def USIZE_MAX_def min_def
      split: if_splits)

declare grow_cap.simps [simp del]

definition resize :: "bytes \<Rightarrow> nat \<Rightarrow> bytes" where
  "resize d n = take n d @ replicate (n - length d) 0"

definition buf_ensure_capacity :: "nat \<Rightarrow> (buffer, unit) op" where
  "buf_ensure_capacity needed = (\<lambda>b.
     if needed \<le> length (buf_data b) then (Inr (), b)
     else if \<not> buf_owned b then (err EInternal, b)
     else if needed > BUFFER_MAX_SIZE then (err EInternal, b)
     else (Inr (), b\<lparr>buf_data :=
       resize (buf_data b) (grow_cap (max (length (buf_data b)) BUFFER_INITIAL_SIZE) needed)\<rparr>))"

text \<open>The first statement of \<open>make_room\<close>: a fully drained buffer rewinds for free.\<close>

definition buf_rewind :: "buffer \<Rightarrow> buffer" where
  "buf_rewind b =
     (if buf_rpos b > 0 \<and> buf_rpos b \<ge> buf_size b
      then b\<lparr>buf_size := 0, buf_rpos := 0\<rparr> else b)"

definition buf_make_room :: "nat \<Rightarrow> (buffer, unit) op" where
  "buf_make_room additional = (\<lambda>b0.
     let b = buf_rewind b0 in
     if additional > BUFFER_MAX_SIZE \<or> buf_available b > BUFFER_MAX_SIZE - additional
     then (err EInternal, b)
     else if additional \<le> buf_space b then (Inr (), b)
     else bindS buf_compact (\<lambda>_ b'. buf_ensure_capacity (buf_size b' + additional) b') b)"

definition buf_write :: "bytes \<Rightarrow> (buffer, nat) op" where
  "buf_write d =
     (if d = [] then retS 0
      else bindS (buf_make_room (length d)) (\<lambda>_ b.
        case copy_at (buf_data b) (buf_size b) d of
          Inl e \<Rightarrow> (Inl e, b)
        | Inr d' \<Rightarrow>
            (Inr (length d), b\<lparr>buf_data := d', buf_size := buf_size b + length d\<rparr>)))"

definition buf_reserve :: "nat \<Rightarrow> (buffer, unit) op" where
  "buf_reserve additional = buf_make_room additional"

text \<open>\<open>read(&mut out)\<close>: the argument is \<open>out.len()\<close>, the value the bytes copied into \<open>out\<close>.\<close>

definition buf_read :: "nat \<Rightarrow> (buffer, bytes) op" where
  "buf_read n = (\<lambda>b.
     if buf_rpos b + n > buf_size b then (err EIo, b)
     else (case subslice (buf_data b) (buf_rpos b) (buf_rpos b + n) of
         Inl e \<Rightarrow> (Inl e, b)
       | Inr out \<Rightarrow> (Inr out, b\<lparr>buf_rpos := buf_rpos b + n\<rparr>)))"

definition buf_reset :: "buffer \<Rightarrow> buffer" where
  "buf_reset b =
     (let b1 = b\<lparr>buf_size := 0, buf_rpos := 0\<rparr> in
      if buf_owned b1 \<and> length (buf_data b1) > BUFFER_RESET_CAPACITY
      then b1\<lparr>buf_data := take BUFFER_RESET_CAPACITY (buf_data b1)\<rparr> else b1)"

definition buf_release_excess :: "nat \<Rightarrow> (buffer, unit) op" where
  "buf_release_excess keep = (\<lambda>b.
     if \<not> buf_owned b \<or> length (buf_data b) \<le> keep \<or> buf_available b > keep div 2
     then (Inr (), b)
     else bindS buf_compact (\<lambda>_ b'.
       (Inr (), b'\<lparr>buf_data := take (max (buf_size b') BUFFER_INITIAL_SIZE) (buf_data b')\<rparr>)) b)"

definition buf_drain :: "nat \<Rightarrow> buffer \<Rightarrow> buffer" where
  "buf_drain len b = b\<lparr>buf_rpos := buf_rpos b + min len (buf_available b)\<rparr>"

definition buf_take :: "buffer \<Rightarrow> bytes \<times> buffer" where
  "buf_take b =
     (let out = take (buf_size b) (buf_data b);
          out' = (if buf_rpos b > 0 then drop (min (buf_rpos b) (length out)) out else out)
      in (out', b\<lparr>buf_size := 0, buf_rpos := 0,
            buf_data := (if buf_owned b then [] else replicate (length (buf_data b)) 0)\<rparr>))"

definition buf_set_size :: "nat \<Rightarrow> buffer \<Rightarrow> buffer" where
  "buf_set_size n b = b\<lparr>buf_size := min n (length (buf_data b))\<rparr>"

definition buf_set_read_pos :: "nat \<Rightarrow> buffer \<Rightarrow> buffer" where
  "buf_set_read_pos pos b = b\<lparr>buf_rpos := min pos (buf_size b)\<rparr>"

definition buf_clone :: "buffer \<Rightarrow> buffer" where
  "buf_clone b = b\<lparr>buf_owned := True\<rparr>"

section \<open>Invariant and abstraction\<close>

definition buf_inv :: "buffer \<Rightarrow> bool" where
  "buf_inv b \<longleftrightarrow> buf_rpos b \<le> buf_size b \<and> buf_size b \<le> length (buf_data b)"

definition contents :: "buffer \<Rightarrow> bytes" where
  "contents b = take (buf_size b - buf_rpos b) (drop (buf_rpos b) (buf_data b))"

text \<open>Exactly when \<open>n\<close> more bytes can be reserved, and a write of \<open>n > 0\<close> bytes succeeds.\<close>

definition buf_room :: "buffer \<Rightarrow> nat \<Rightarrow> bool" where
  "buf_room b n \<longleftrightarrow>
     length (contents b) + n \<le> BUFFER_MAX_SIZE \<and>
     (buf_owned b \<or> length (contents b) + n \<le> length (buf_data b))"

section \<open>Facts about the representation\<close>

lemma length_contents: "buf_inv b \<Longrightarrow> length (contents b) = buf_size b - buf_rpos b"
  by (auto simp: buf_inv_def contents_def)

lemma buf_available_contents: "buf_inv b \<Longrightarrow> buf_available b = length (contents b)"
  by (simp add: length_contents buf_available_def)

lemma buf_peek_contents: "buf_inv b \<Longrightarrow> buf_peek b = Inr (contents b)"
  by (simp add: buf_inv_def contents_def buf_peek_def)

lemma buf_inv_fresh [simp]:
  "buf_inv buf_new" "buf_inv (buf_with_capacity n)" "buf_inv (buf_from_slice d)"
  "buf_inv (buf_from_static d)"
  by (simp_all add: buf_inv_def buf_new_def buf_with_capacity_def buf_from_slice_def
      buf_from_static_def)

lemma contents_fresh [simp]:
  "contents buf_new = []" "contents (buf_with_capacity n) = []"
  "contents (buf_from_slice d) = d" "contents (buf_from_static d) = d"
  by (simp_all add: contents_def buf_new_def buf_with_capacity_def buf_from_slice_def
      buf_from_static_def)

lemma owned_fresh [simp]:
  "buf_owned buf_new" "buf_owned (buf_with_capacity n)" "buf_owned (buf_from_slice d)"
  by (simp_all add: buf_new_def buf_with_capacity_def buf_from_slice_def)

lemma grow_cap_enough:
  assumes "0 < cap" and "needed \<le> BUFFER_MAX_SIZE"
  shows "needed \<le> grow_cap cap needed"
  using assms
proof (induction cap needed rule: grow_cap.induct)
  case (1 cap needed)
  show ?case
  proof (cases "cap < needed")
    case True
    then show ?thesis
      using "1.IH" [OF _ refl] "1.prems"
      by (subst grow_cap.simps)
        (auto simp: Let_def sat_mul_def BUFFER_GROW_FACTOR_def USIZE_MAX_def)
  next
    case False
    then show ?thesis
      by (subst grow_cap.simps) simp
  qed
qed

lemma grow_cap_bound:
  assumes "cap \<le> BUFFER_MAX_SIZE"
  shows "grow_cap cap needed \<le> BUFFER_MAX_SIZE"
  using assms
proof (induction cap needed rule: grow_cap.induct)
  case (1 cap needed)
  then show ?case
    by (subst grow_cap.simps) (auto simp: Let_def)
qed


lemma buf_compact_eq:
  assumes "buf_inv b"
  shows "buf_compact b = (Inr (),
    b\<lparr>buf_data := contents b @ drop (length (contents b)) (buf_data b),
      buf_size := length (contents b), buf_rpos := 0\<rparr>)"
proof (cases "buf_rpos b = 0")
  case True
  then have "contents b = take (buf_size b) (buf_data b)"
    by (simp add: contents_def)
  with True assms show ?thesis
    by (simp add: buf_compact_def buf_inv_def min_def)
next
  case False
  have len: "length (contents b) = buf_size b - buf_rpos b"
    by (rule length_contents [OF assms])
  show ?thesis
  proof (cases "buf_size b \<le> buf_rpos b")
    case True
    with False len show ?thesis by (simp add: buf_compact_def)
  next
    case lt: False
    have "subslice (buf_data b) (buf_rpos b) (buf_size b) = Inr (contents b)"
      using buf_peek_contents [OF assms] by (simp add: buf_peek_def)
    with lt False len show ?thesis by (simp add: buf_compact_def)
  qed
qed

lemma buf_compact_ok:
  assumes "buf_inv b"
  obtains b' where "buf_compact b = (Inr (), b')" "buf_inv b'" "contents b' = contents b"
    "buf_rpos b' = 0" "buf_size b' = length (contents b)"
    "length (buf_data b') = length (buf_data b)" "buf_owned b' = buf_owned b"
proof
  have le: "length (contents b) \<le> length (buf_data b)"
    by (simp add: contents_def)
  define b' where "b' = b\<lparr>buf_data := contents b @ drop (length (contents b)) (buf_data b),
    buf_size := length (contents b), buf_rpos := 0\<rparr>"
  show "buf_compact b = (Inr (), b')"
    unfolding b'_def by (rule buf_compact_eq [OF assms])
  show "buf_inv b'" "length (buf_data b') = length (buf_data b)"
    using le by (simp_all add: b'_def buf_inv_def)
  show "contents b' = contents b"
    unfolding contents_def [of b'] by (simp add: b'_def)
qed simp_all

lemma length_resize [simp]: "length (resize d n) = n"
  by (simp add: resize_def)

lemma take_resize: "m \<le> length d \<Longrightarrow> m \<le> n \<Longrightarrow> take m (resize d n) = take m d"
  by (simp add: resize_def min_def)

lemma buf_ensure_capacity_ok:
  assumes "buf_inv b" "buf_rpos b = 0" "buf_owned b \<or> needed \<le> length (buf_data b)"
    "needed \<le> BUFFER_MAX_SIZE"
  obtains b' where "buf_ensure_capacity needed b = (Inr (), b')" "buf_inv b'"
    "contents b' = contents b" "buf_size b' = buf_size b" "buf_owned b' = buf_owned b"
    "needed \<le> length (buf_data b')" "\<not> buf_owned b \<longrightarrow> buf_data b' = buf_data b"
proof (cases "needed \<le> length (buf_data b)")
  case True
  then show thesis
    using that assms by (simp add: buf_ensure_capacity_def)
next
  case False
  define n where "n = grow_cap (max (length (buf_data b)) BUFFER_INITIAL_SIZE) needed"
  have "needed \<le> n"
    unfolding n_def by (rule grow_cap_enough) (auto simp: assms BUFFER_INITIAL_SIZE_def max_def)
  then show thesis
    using that [of "b\<lparr>buf_data := resize (buf_data b) n\<rparr>"] False assms
    by (simp add: buf_ensure_capacity_def n_def buf_inv_def contents_def take_resize)
qed

lemma buf_rewind [simp]:
  "contents (buf_rewind b) = contents b" "buf_owned (buf_rewind b) = buf_owned b"
  "buf_data (buf_rewind b) = buf_data b" "buf_inv b \<Longrightarrow> buf_inv (buf_rewind b)"
  by (simp_all add: buf_rewind_def contents_def buf_inv_def)

lemma buf_space_contents: "buf_inv b \<Longrightarrow> buf_space b + length (contents b) \<le> length (buf_data b)"
  by (simp add: length_contents buf_space_def buf_inv_def)

lemma buf_make_room_fast:
  assumes "buf_inv b" "length (contents b) + n \<le> BUFFER_MAX_SIZE"
    "n \<le> buf_space (buf_rewind b)"
  shows "buf_make_room n b = (Inr (), buf_rewind b)"
  using assms by (auto simp: buf_make_room_def buf_available_contents Let_def)

lemma buf_make_room_slow:
  assumes "buf_inv b" "length (contents b) + n \<le> BUFFER_MAX_SIZE"
    "\<not> n \<le> buf_space (buf_rewind b)" "buf_compact (buf_rewind b) = (Inr (), b2)"
  shows "buf_make_room n b = buf_ensure_capacity (buf_size b2 + n) b2"
  using assms by (auto simp: buf_make_room_def buf_available_contents Let_def)

lemma buf_make_room_limit:
  assumes "buf_inv b" "\<not> length (contents b) + n \<le> BUFFER_MAX_SIZE"
  shows "buf_make_room n b = (err EInternal, buf_rewind b)"
  using assms by (auto simp: buf_make_room_def buf_available_contents Let_def)

text \<open>\<open>make_room\<close> on both branches; on failure the unread bytes are kept.\<close>

lemma buf_make_room_ok:
  assumes inv: "buf_inv b" and room: "buf_room b n"
  obtains b' where "buf_make_room n b = (Inr (), b')" "buf_inv b'" "contents b' = contents b"
    "n \<le> buf_space b'" "buf_owned b' = buf_owned b"
    "\<not> buf_owned b \<longrightarrow> length (buf_data b') = length (buf_data b)"
proof -
  have lim: "length (contents b) + n \<le> BUFFER_MAX_SIZE"
    and own: "buf_owned b \<or> length (contents b) + n \<le> length (buf_data b)"
    using room by (auto simp: buf_room_def)
  show thesis
  proof (cases "n \<le> buf_space (buf_rewind b)")
    case True
    show thesis
      by (rule that [of "buf_rewind b"])
        (use True inv in \<open>simp_all add: buf_make_room_fast [OF inv lim]\<close>)
  next
    case False
    obtain b2 where b2: "buf_compact (buf_rewind b) = (Inr (), b2)" "buf_inv b2"
      "contents b2 = contents (buf_rewind b)"
      "buf_rpos b2 = 0" "buf_size b2 = length (contents (buf_rewind b))"
      "length (buf_data b2) = length (buf_data (buf_rewind b))"
      "buf_owned b2 = buf_owned (buf_rewind b)"
      by (rule buf_compact_ok [OF buf_rewind(4) [OF inv]])
    obtain b3 where b3: "buf_ensure_capacity (buf_size b2 + n) b2 = (Inr (), b3)" "buf_inv b3"
      "contents b3 = contents b2" "buf_size b3 = buf_size b2" "buf_owned b3 = buf_owned b2"
      "buf_size b2 + n \<le> length (buf_data b3)"
      "\<not> buf_owned b2 \<longrightarrow> buf_data b3 = buf_data b2"
      by (rule buf_ensure_capacity_ok [of b2 "buf_size b2 + n"])
        (use b2 lim own in simp_all)
    show thesis
    proof (rule that [of b3])
      show "buf_make_room n b = (Inr (), b3)"
        using b3(1) by (simp add: buf_make_room_slow [OF inv lim False b2(1)])
      show "n \<le> buf_space b3"
        using b3(4,6) by (simp add: buf_space_def)
    qed (use b2 b3 in simp_all)
  qed
qed

lemma buf_make_room_full:
  assumes inv: "buf_inv b" and full: "\<not> buf_room b n"
  obtains b' where "buf_make_room n b = (err EInternal, b')" "buf_inv b'"
    "contents b' = contents b" "buf_owned b' = buf_owned b"
    "length (buf_data b') = length (buf_data b)"
proof (cases "length (contents b) + n \<le> BUFFER_MAX_SIZE")
  case False
  show thesis
    by (rule that [of "buf_rewind b"]) (use inv in \<open>simp_all add: buf_make_room_limit [OF inv False]\<close>)
next
  case True
  with full have own: "\<not> buf_owned b" "length (buf_data b) < length (contents b) + n"
    by (auto simp: buf_room_def)
  then have sp: "\<not> n \<le> buf_space (buf_rewind b)"
    using buf_space_contents [OF buf_rewind(4) [OF inv]] by simp
  obtain b2 where b2: "buf_compact (buf_rewind b) = (Inr (), b2)" "buf_inv b2"
      "contents b2 = contents (buf_rewind b)"
      "buf_rpos b2 = 0" "buf_size b2 = length (contents (buf_rewind b))"
      "length (buf_data b2) = length (buf_data (buf_rewind b))"
      "buf_owned b2 = buf_owned (buf_rewind b)"
      by (rule buf_compact_ok [OF buf_rewind(4) [OF inv]])
  show thesis
    by (rule that [of b2])
      (use b2 own in \<open>simp_all add: buf_make_room_slow [OF inv True sp b2(1)] buf_ensure_capacity_def\<close>)
qed

section \<open>The operations on the abstraction\<close>

lemma buf_write_ok:
  assumes inv: "buf_inv b" and room: "buf_room b (length d)"
  obtains b' where "buf_write d b = (Inr (length d), b')" "buf_inv b'"
    "contents b' = contents b @ d" "buf_owned b' = buf_owned b"
    "\<not> buf_owned b \<longrightarrow> length (buf_data b') = length (buf_data b)"
proof (cases "d = []")
  case True
  with that inv show thesis by (simp add: buf_write_def retS_def)
next
  case False
  obtain b1 where b1: "buf_make_room (length d) b = (Inr (), b1)" "buf_inv b1"
    "contents b1 = contents b" "length d \<le> buf_space b1" "buf_owned b1 = buf_owned b"
    "\<not> buf_owned b \<longrightarrow> length (buf_data b1) = length (buf_data b)"
    by (rule buf_make_room_ok [OF inv room])
  define b2 where "b2 = b1\<lparr>buf_data := take (buf_size b1) (buf_data b1) @ d @
    drop (buf_size b1 + length d) (buf_data b1), buf_size := buf_size b1 + length d\<rparr>"
  have fit: "buf_size b1 + length d \<le> length (buf_data b1)"
    using b1(2,4) by (auto simp: buf_space_def buf_inv_def)
  have "buf_write d b = (Inr (length d), b2)"
    using fit b1(1) False by (simp add: buf_write_def b2_def)
  moreover have "buf_inv b2" "contents b2 = contents b1 @ d"
    using fit b1(2) by (auto simp: b2_def buf_inv_def contents_def drop_take)
  moreover have "length (buf_data b2) = length (buf_data b1)" "buf_owned b2 = buf_owned b1"
    using fit by (simp_all add: b2_def)
  ultimately show thesis
    by (intro that [of b2]) (use b1 in simp_all)
qed

lemma buf_write_nil: "buf_write [] b = (Inr 0, b)"
  by (simp add: buf_write_def)

lemma buf_write_full:
  assumes "buf_inv b" "\<not> buf_room b (length d)" and d: "d \<noteq> []"
  obtains b' where "buf_write d b = (err EInternal, b')" "buf_inv b'"
    "contents b' = contents b" "buf_owned b' = buf_owned b"
    "length (buf_data b') = length (buf_data b)"
proof -
  obtain b' where b': "buf_make_room (length d) b = (err EInternal, b')" "buf_inv b'"
    "contents b' = contents b" "buf_owned b' = buf_owned b"
    "length (buf_data b') = length (buf_data b)"
    by (rule buf_make_room_full [OF assms(1,2)])
  show thesis
    by (rule that [of b']) (use d b' in \<open>simp_all add: buf_write_def\<close>)
qed

lemma buf_read_ok:
  assumes "buf_inv b" "n \<le> length (contents b)"
  shows "buf_read n b = (Inr (take n (contents b)), b\<lparr>buf_rpos := buf_rpos b + n\<rparr>)"
    "buf_inv (b\<lparr>buf_rpos := buf_rpos b + n\<rparr>)"
    "contents (b\<lparr>buf_rpos := buf_rpos b + n\<rparr>) = drop n (contents b)"
proof -
  have n: "buf_rpos b + n \<le> buf_size b" "buf_size b \<le> length (buf_data b)"
    using assms by (auto simp: length_contents buf_inv_def)
  then show "buf_read n b = (Inr (take n (contents b)), b\<lparr>buf_rpos := buf_rpos b + n\<rparr>)"
    by (simp add: buf_read_def contents_def min_def)
  show "buf_inv (b\<lparr>buf_rpos := buf_rpos b + n\<rparr>)"
    "contents (b\<lparr>buf_rpos := buf_rpos b + n\<rparr>) = drop n (contents b)"
    using n by (simp_all add: buf_inv_def contents_def drop_take add.commute)
qed

lemma buf_read_short:
  "buf_inv b \<Longrightarrow> length (contents b) < n \<Longrightarrow> buf_read n b = (err EIo, b)"
  by (auto simp: buf_read_def length_contents)

lemma buf_drain_contents:
  assumes "buf_inv b"
  shows "buf_inv (buf_drain n b)" "contents (buf_drain n b) = drop n (contents b)"
proof -
  have "buf_rpos b + min n (buf_available b) \<le> buf_size b"
    using assms by (auto simp: buf_inv_def buf_available_def)
  then show "buf_inv (buf_drain n b)"
    using assms by (simp add: buf_drain_def buf_inv_def)
  have "drop n (contents b) = drop (min n (buf_available b)) (contents b)"
    using buf_available_contents [OF assms] by (simp add: min_def)
  then show "contents (buf_drain n b) = drop n (contents b)"
    by (simp add: buf_drain_def contents_def drop_take add.commute diff_diff_eq)
qed

lemma buf_reset_ok [simp]:
  "buf_inv (buf_reset b)" "contents (buf_reset b) = []" "buf_owned (buf_reset b) = buf_owned b"
  by (simp_all add: buf_reset_def buf_inv_def contents_def Let_def)

lemma buf_take_ok:
  "buf_inv b \<Longrightarrow> fst (buf_take b) = contents b"
  "buf_inv (snd (buf_take b))" "contents (snd (buf_take b)) = []"
  "buf_owned (snd (buf_take b)) = buf_owned b" "buf_rpos (snd (buf_take b)) = 0"
  by (auto simp: buf_take_def buf_inv_def contents_def Let_def drop_take min_def)

lemma buf_release_excess_ok:
  assumes "buf_inv b"
  obtains b' where "buf_release_excess keep b = (Inr (), b')" "buf_inv b'"
    "contents b' = contents b" "buf_owned b' = buf_owned b"
proof (cases "\<not> buf_owned b \<or> length (buf_data b) \<le> keep \<or> buf_available b > keep div 2")
  case True
  with that assms show thesis by (simp add: buf_release_excess_def)
next
  case False
  obtain b2 where b2: "buf_compact b = (Inr (), b2)" "buf_inv b2" "contents b2 = contents b"
    "buf_rpos b2 = 0" "buf_size b2 = length (contents b)"
    "length (buf_data b2) = length (buf_data b)" "buf_owned b2 = buf_owned b"
    by (rule buf_compact_ok [OF assms])
  show thesis
    by (rule that [of "b2\<lparr>buf_data := take (max (buf_size b2) BUFFER_INITIAL_SIZE) (buf_data b2)\<rparr>"])
      (use False b2(1,2,3,4,7) in \<open>auto simp: buf_release_excess_def buf_inv_def contents_def
        min_def max_def\<close>)
qed

lemma buf_room_mono: "buf_room b n \<Longrightarrow> m \<le> n \<Longrightarrow> buf_room b m"
  by (auto simp: buf_room_def)

lemma buf_room_owned:
  "buf_owned b \<Longrightarrow> length (contents b) + n \<le> BUFFER_MAX_SIZE \<Longrightarrow> buf_room b n"
  by (simp add: buf_room_def)

lemma buf_room_write:
  assumes "contents b' = contents b @ d" "buf_owned b' = buf_owned b" "buf_room b (length d)"
    "\<not> buf_owned b \<longrightarrow> length (buf_data b') = length (buf_data b)"
  shows "buf_room b' n \<longleftrightarrow> buf_room b (length d + n)"
  using assms by (cases "buf_owned b") (auto simp: buf_room_def)

lemma buf_room_same:
  assumes "contents b' = contents b" "buf_owned b' = buf_owned b"
    "\<not> buf_owned b \<longrightarrow> length (buf_data b') = length (buf_data b)"
  shows "buf_room b' n = buf_room b n"
  using assms by (cases "buf_owned b") (simp_all add: buf_room_def)

interpretation bq: byte_queue buf_inv contents buf_room buf_write buf_reserve buf_read buf_available
  buf_peek buf_drain
proof
  fix b :: buffer and d :: bytes
  assume b: "buf_inv b" "buf_room b (length d)"
  obtain b' where b': "buf_write d b = (Inr (length d), b')" "buf_inv b'"
    "contents b' = contents b @ d" "buf_owned b' = buf_owned b"
    "\<not> buf_owned b \<longrightarrow> length (buf_data b') = length (buf_data b)"
    by (rule buf_write_ok [OF b])
  then show "\<exists>b'. buf_write d b = (Inr (length d), b') \<and> buf_inv b' \<and>
      contents b' = contents b @ d \<and> (\<forall>n. buf_room b' n = buf_room b (length d + n))"
    using buf_room_write [OF b'(3,4) b(2) b'(5)] by blast
next
  fix b :: buffer and d :: bytes
  assume b: "buf_inv b" "\<not> buf_room b (length d)" "d \<noteq> []"
  obtain b' where b': "buf_write d b = (err EInternal, b')" "buf_inv b'"
    "contents b' = contents b" "buf_owned b' = buf_owned b"
    "length (buf_data b') = length (buf_data b)"
    by (rule buf_write_full [OF b])
  then show "\<exists>b'. buf_write d b = (err EInternal, b') \<and> buf_inv b' \<and> contents b' = contents b"
    by blast
next
  fix b :: buffer and n :: nat
  assume b: "buf_inv b" "buf_room b n"
  obtain b' where b': "buf_make_room n b = (Inr (), b')" "buf_inv b'" "contents b' = contents b"
    "buf_owned b' = buf_owned b"
    "\<not> buf_owned b \<longrightarrow> length (buf_data b') = length (buf_data b)"
    by (rule buf_make_room_ok [OF b])
  then show "\<exists>b'. buf_reserve n b = (Inr (), b') \<and> buf_inv b' \<and> contents b' = contents b \<and>
      (\<forall>m. buf_room b' m = buf_room b m)"
    using buf_room_same [OF b'(3,4,5)] by (auto simp: buf_reserve_def)
next
  fix b :: buffer and n :: nat
  assume b: "buf_inv b" "\<not> buf_room b n"
  obtain b' where "buf_make_room n b = (err EInternal, b')" "buf_inv b'"
    "contents b' = contents b" "buf_owned b' = buf_owned b"
    "length (buf_data b') = length (buf_data b)"
    by (rule buf_make_room_full [OF b])
  then show "\<exists>b'. buf_reserve n b = (err EInternal, b') \<and> buf_inv b' \<and> contents b' = contents b"
    by (auto simp: buf_reserve_def)
next
  fix b :: buffer and n :: nat
  assume "buf_inv b" "n \<le> length (contents b)"
  from buf_read_ok [OF this] show "\<exists>b'. buf_read n b = (Inr (take n (contents b)), b') \<and>
      buf_inv b' \<and> contents b' = drop n (contents b)"
    by blast
qed (use buf_write_nil buf_room_mono buf_read_short buf_available_contents buf_peek_contents
      buf_drain_contents in auto)

section \<open>Refinement of a bounded queue\<close>

text \<open>The operations of the buffer as commands, run on the buffer and on a plain byte list.\<close>

datatype buf_cmd = BWrite bytes | BReserve nat | BRead nat | BDrain nat | BTake | BReset | BRelease nat

fun buf_exec :: "buf_cmd \<Rightarrow> buffer \<Rightarrow> bytes result \<times> buffer" where
  "buf_exec (BWrite d) b = bindS (buf_write d) (\<lambda>_. retS []) b"
| "buf_exec (BReserve n) b = bindS (buf_reserve n) (\<lambda>_. retS []) b"
| "buf_exec (BRead n) b = buf_read n b"
| "buf_exec (BDrain n) b = (Inr [], buf_drain n b)"
| "buf_exec BTake b = (Inr (fst (buf_take b)), snd (buf_take b))"
| "buf_exec BReset b = (Inr [], buf_reset b)"
| "buf_exec (BRelease n) b = bindS (buf_release_excess n) (\<lambda>_. retS []) b"

fun queue_exec :: "buf_cmd \<Rightarrow> bytes \<Rightarrow> bytes result \<times> bytes" where
  "queue_exec (BWrite d) q =
     (if d = [] \<or> length q + length d \<le> BUFFER_MAX_SIZE then (Inr [], q @ d) else (err EInternal, q))"
| "queue_exec (BReserve n) q =
     (if length q + n \<le> BUFFER_MAX_SIZE then (Inr [], q) else (err EInternal, q))"
| "queue_exec (BRead n) q = (if n \<le> length q then (Inr (take n q), drop n q) else (err EIo, q))"
| "queue_exec (BDrain n) q = (Inr [], drop n q)"
| "queue_exec BTake q = (Inr q, [])"
| "queue_exec BReset q = (Inr [], [])"
| "queue_exec (BRelease n) q = (Inr [], q)"

fun run_cmds :: "('c \<Rightarrow> 's \<Rightarrow> 'r \<times> 's) \<Rightarrow> 'c list \<Rightarrow> 's \<Rightarrow> 'r list \<times> 's" where
  "run_cmds f [] s = ([], s)"
| "run_cmds f (c # cs) s = (case f c s of (r, s') \<Rightarrow> case run_cmds f cs s' of (rs, s'') \<Rightarrow> (r # rs, s''))"

lemma buf_room_owned_iff: "buf_owned b \<Longrightarrow> buf_room b n \<longleftrightarrow> length (contents b) + n \<le> BUFFER_MAX_SIZE"
  by (simp add: buf_room_def)

lemma buf_write_exec:
  assumes "buf_inv b" "buf_owned b"
  shows "\<exists>b'. buf_exec (BWrite d) b = (fst (queue_exec (BWrite d) (contents b)), b') \<and>
    contents b' = snd (queue_exec (BWrite d) (contents b)) \<and> buf_inv b' \<and> buf_owned b'"
proof (cases "d = []")
  case True
  with assms show ?thesis by (simp add: buf_write_nil)
next
  case False
  show ?thesis
  proof (cases "buf_room b (length d)")
    case True
    obtain b' where "buf_write d b = (Inr (length d), b')" "buf_inv b'"
      "contents b' = contents b @ d" "buf_owned b' = buf_owned b"
      by (rule buf_write_ok [OF assms(1) True])
    with True assms show ?thesis by (simp add: buf_room_owned_iff)
  next
    case full: False
    obtain b' where "buf_write d b = (err EInternal, b')" "buf_inv b'"
      "contents b' = contents b" "buf_owned b' = buf_owned b"
      by (rule buf_write_full [OF assms(1) full False])
    with False full assms show ?thesis by (simp add: buf_room_owned_iff)
  qed
qed

lemma buf_reserve_exec:
  assumes "buf_inv b" "buf_owned b"
  shows "\<exists>b'. buf_exec (BReserve n) b = (fst (queue_exec (BReserve n) (contents b)), b') \<and>
    contents b' = snd (queue_exec (BReserve n) (contents b)) \<and> buf_inv b' \<and> buf_owned b'"
proof (cases "buf_room b n")
  case True
  obtain b' where "buf_make_room n b = (Inr (), b')" "buf_inv b'"
    "contents b' = contents b" "buf_owned b' = buf_owned b"
    by (rule buf_make_room_ok [OF assms(1) True])
  with True assms show ?thesis by (simp add: buf_room_owned_iff buf_reserve_def)
next
  case False
  obtain b' where "buf_make_room n b = (err EInternal, b')" "buf_inv b'"
    "contents b' = contents b" "buf_owned b' = buf_owned b"
    by (rule buf_make_room_full [OF assms(1) False])
  with False assms show ?thesis by (simp add: buf_room_owned_iff buf_reserve_def)
qed

lemma buf_release_exec:
  assumes "buf_inv b" "buf_owned b"
  shows "\<exists>b'. buf_exec (BRelease n) b = (fst (queue_exec (BRelease n) (contents b)), b') \<and>
    contents b' = snd (queue_exec (BRelease n) (contents b)) \<and> buf_inv b' \<and> buf_owned b'"
proof -
  obtain b' where "buf_release_excess n b = (Inr (), b')" "buf_inv b'"
    "contents b' = contents b" "buf_owned b' = buf_owned b"
    by (rule buf_release_excess_ok [OF assms(1)])
  with assms show ?thesis by simp
qed

lemma buf_exec_refines:
  assumes "buf_inv b" "buf_owned b"
  shows "\<exists>b'. buf_exec c b = (fst (queue_exec c (contents b)), b') \<and>
    contents b' = snd (queue_exec c (contents b)) \<and> buf_inv b' \<and> buf_owned b'"
proof (cases c)
  case (BRead n)
  then show ?thesis
    using assms buf_read_ok [OF assms(1), of n] buf_read_short [OF assms(1), of n]
    by (cases "n \<le> length (contents b)") auto
next
  case (BDrain n)
  then show ?thesis using assms buf_drain_contents [OF assms(1), of n] by (simp add: buf_drain_def)
qed (use assms buf_write_exec buf_reserve_exec buf_release_exec in \<open>auto simp: buf_take_ok\<close>)

lemma buf_run_refines:
  assumes "buf_inv b" "buf_owned b"
  shows "fst (run_cmds buf_exec cs b) = fst (run_cmds queue_exec cs (contents b)) \<and>
    contents (snd (run_cmds buf_exec cs b)) = snd (run_cmds queue_exec cs (contents b)) \<and>
    buf_inv (snd (run_cmds buf_exec cs b))"
  using assms
proof (induction cs arbitrary: b)
  case (Cons c cs)
  obtain b' where b': "buf_exec c b = (fst (queue_exec c (contents b)), b')"
    "contents b' = snd (queue_exec c (contents b))" "buf_inv b'" "buf_owned b'"
    using buf_exec_refines [OF Cons.prems] by blast
  from Cons.IH [OF b'(3,4)] b' show ?case
    by (simp add: case_prod_unfold)
qed simp

section \<open>Properties\<close>



text \<open>Growing the buffer never allocates beyond the 64 MiB cap, and always reaches the capacity
  that was asked for.\<close>
theorem ensure_capacity_bounds:
  assumes "buf_owned b" and "needed \<le> BUFFER_MAX_SIZE" and "length (buf_data b) \<le> BUFFER_MAX_SIZE"
  shows "\<exists>b'. buf_ensure_capacity needed b = (Inr (), b') \<and> needed \<le> buf_capacity b' \<and>
    buf_capacity b' \<le> BUFFER_MAX_SIZE \<and> buf_size b' = buf_size b \<and> buf_rpos b' = buf_rpos b \<and>
    take (length (buf_data b)) (buf_data b') = buf_data b"
proof (cases "needed \<le> length (buf_data b)")
  case True
  with assms show ?thesis by (simp add: buf_ensure_capacity_def buf_capacity_def)
next
  case False
  let ?n = "grow_cap (max (length (buf_data b)) BUFFER_INITIAL_SIZE) needed"
  have "needed \<le> ?n"
    using assms(2) by (intro grow_cap_enough) (auto simp: BUFFER_INITIAL_SIZE_def)
  moreover have "?n \<le> BUFFER_MAX_SIZE"
    using assms(3) by (intro grow_cap_bound) (simp add: BUFFER_INITIAL_SIZE_def BUFFER_MAX_SIZE_def)
  ultimately show ?thesis
    using False assms by (simp add: buf_ensure_capacity_def buf_capacity_def resize_def)
qed

theorem ensure_capacity_bounds_witness:
  "\<exists>b'. buf_ensure_capacity 5000 (buf_from_slice [1, 2, 3]) = (Inr (), b') \<and> 5000 \<le> buf_capacity b'"
  using ensure_capacity_bounds [of "buf_from_slice [1, 2, 3]" 5000]
  by (auto simp: buf_from_slice_def BUFFER_MAX_SIZE_def)

text \<open>Setting the size below the read position, which the public setter allows, leaves a buffer
  whose next \<open>peek\<close> panics: unlike \<open>set_read_pos\<close>, \<open>set_size\<close> does not keep the cursors in order.\<close>
theorem set_size_breaks_peek:
  "buf_peek (buf_set_size 1 (buf_set_read_pos 2 (buf_from_slice [1, 2, 3]))) = panic"
  by (simp add: buf_peek_def buf_set_size_def buf_set_read_pos_def buf_from_slice_def subslice_def)

end
