(* ===== verification/Chunk_State.thy ===== *)
theory Chunk_State
  imports Rtmp_Buffer
begin

text \<open>
  The per-connection registry of chunk streams (\<open>src/src/chunk/state.rs\<close>): a table of streams,
  an index from chunk-stream id to table slot, and two running totals that the registry keeps
  instead of recomputing (\<open>reassembly_bytes_in_use\<close>, \<open>reassembling_count\<close>) to enforce the caps on
  memory and on concurrently active streams.

  The invariant \<open>reg_inv\<close> says that the index and the table agree, that the totals are what a
  recomputation over the table would give, and that the caps hold. Every operation keeps it.
\<close>

section \<open>Constants and data\<close>

definition DEFAULT_CHUNK_SIZE :: u32 where
  "DEFAULT_CHUNK_SIZE = 128"

definition MAX_CHUNK_STREAMS :: nat where
  "MAX_CHUNK_STREAMS = 4096"

definition MAX_REASSEMBLY_BYTES_PER_CONN :: nat where
  "MAX_REASSEMBLY_BYTES_PER_CONN = 32 * 1024 * 1024"

definition DEFAULT_MAX_MSG_LENGTH :: u32 where
  "DEFAULT_MAX_MSG_LENGTH = 4 * 1024 * 1024"

definition RTMP_WIRE_MAX_MSG_LENGTH :: u32 where
  "RTMP_WIRE_MAX_MSG_LENGTH = 0x00FFFFFF"

definition DEFAULT_MAX_ACTIVE_CSIDS :: nat where
  "DEFAULT_MAX_ACTIVE_CSIDS = 256"

text \<open>Declared in \<open>message/control.rs\<close>, used here for the range of accepted chunk sizes.\<close>

definition MAX_PEER_CHUNK_SIZE :: u32 where
  "MAX_PEER_CHUNK_SIZE = 0x00FFFFFF"

record chunk_stream =
  cs_csid :: u32
  cs_chunk_size :: u32
  cs_has_message_header :: bool
  cs_type0_timestamp :: u32
  cs_type0_msg_length :: u32
  cs_type0_msg_type_id :: u8
  cs_type0_msg_stream_id :: u32
  cs_type0_ext_ts :: bool
  cs_last_delta :: u32
  cs_reassembly_bytes_read :: u32
  cs_reassembly_buf :: buffer
  cs_chunk_read_scratch :: bytes
  cs_last_payload :: bytes
  cs_reassembling :: bool
  cs_in_use :: bool

definition chunk_stream_default :: chunk_stream where
  "chunk_stream_default = \<lparr>
     cs_csid = 0,
     cs_chunk_size = DEFAULT_CHUNK_SIZE,
     cs_has_message_header = False,
     cs_type0_timestamp = 0,
     cs_type0_msg_length = 0,
     cs_type0_msg_type_id = 0,
     cs_type0_msg_stream_id = 0,
     cs_type0_ext_ts = False,
     cs_last_delta = 0,
     cs_reassembly_bytes_read = 0,
     cs_reassembly_buf = buf_with_capacity 0,
     cs_chunk_read_scratch = [],
     cs_last_payload = [],
     cs_reassembling = False,
     cs_in_use = False\<rparr>"

definition chunk_stream_reset :: "u32 \<Rightarrow> chunk_stream \<Rightarrow> chunk_stream" where
  "chunk_stream_reset default_chunk_size st = st\<lparr>
     cs_has_message_header := False,
     cs_type0_timestamp := 0,
     cs_type0_msg_length := 0,
     cs_type0_msg_type_id := 0,
     cs_type0_msg_stream_id := 0,
     cs_type0_ext_ts := False,
     cs_last_delta := 0,
     cs_reassembly_bytes_read := 0,
     cs_reassembly_buf := snd (buf_take (cs_reassembly_buf st)),
     cs_chunk_read_scratch := [],
     cs_last_payload := [],
     cs_reassembling := False,
     cs_chunk_size := default_chunk_size\<rparr>"

record chunk_registry =
  reg_streams :: "chunk_stream list"
  reg_csid_index :: "u32 \<rightharpoonup> nat"
  reg_reassembly_bytes_in_use :: nat
  reg_reassembling_count :: nat
  reg_default_chunk_size :: u32
  reg_max_msg_length :: u32
  reg_max_active_csids :: nat
  reg_max_reassembly_bytes :: nat
  reg_initialized :: bool

section \<open>Operations\<close>

definition reg_new :: chunk_registry where
  "reg_new = \<lparr>
     reg_streams = [],
     reg_csid_index = Map.empty,
     reg_reassembly_bytes_in_use = 0,
     reg_reassembling_count = 0,
     reg_default_chunk_size = DEFAULT_CHUNK_SIZE,
     reg_max_msg_length = DEFAULT_MAX_MSG_LENGTH,
     reg_max_active_csids = DEFAULT_MAX_ACTIVE_CSIDS,
     reg_max_reassembly_bytes = MAX_REASSEMBLY_BYTES_PER_CONN,
     reg_initialized = True\<rparr>"

definition reg_init :: "chunk_registry \<Rightarrow> chunk_registry" where
  "reg_init r = r\<lparr>reg_initialized := True, reg_default_chunk_size := DEFAULT_CHUNK_SIZE\<rparr>"

text \<open>\<open>self.streams[idx]\<close> and an update through \<open>&mut self.streams[idx]\<close>.\<close>

definition reg_stream :: "nat \<Rightarrow> (chunk_registry, chunk_stream) op" where
  "reg_stream i = (\<lambda>r. (idx (reg_streams r) i, r))"

definition reg_put :: "nat \<Rightarrow> chunk_stream \<Rightarrow> chunk_registry \<Rightarrow> chunk_registry" where
  "reg_put i st r = r\<lparr>reg_streams := (reg_streams r)[i := st]\<rparr>"

definition reg_upd :: "nat \<Rightarrow> (chunk_stream \<Rightarrow> chunk_stream) \<Rightarrow> (chunk_registry, unit) op" where
  "reg_upd i f = bindS (reg_stream i) (\<lambda>st. modS (reg_put i (f st)))"

text \<open>The second half of \<open>get_or_create_index\<close>: open a slot for an id that is not registered.\<close>

definition fresh_stream :: "u32 \<Rightarrow> u32 \<Rightarrow> chunk_stream" where
  "fresh_stream default_chunk_size csid = chunk_stream_default\<lparr>cs_csid := csid, cs_in_use := True,
     cs_chunk_size := default_chunk_size\<rparr>"

definition reg_create_index :: "u32 \<Rightarrow> (chunk_registry, nat) op" where
  "reg_create_index csid = (\<lambda>r.
     if reg_reassembling_count r \<ge> reg_max_active_csids r then (err EChunk, r)
     else if length (reg_streams r) \<ge> MAX_CHUNK_STREAMS then (err EChunk, r)
     else
       let stream = fresh_stream (reg_default_chunk_size r) csid;
           i = length (reg_streams r)
       in (Inr i, r\<lparr>reg_streams := reg_streams r @ [stream],
             reg_csid_index := (reg_csid_index r)(csid \<mapsto> i)\<rparr>))"

definition reg_get_or_create_index :: "u32 \<Rightarrow> (chunk_registry, nat) op" where
  "reg_get_or_create_index csid = (\<lambda>r.
     case reg_csid_index r csid of
       Some i \<Rightarrow>
         bindS (reg_stream i) (\<lambda>stream.
           if cs_in_use stream \<and> cs_csid stream = csid then
             (if \<not> cs_reassembling stream \<and> reg_reassembling_count r \<ge> reg_max_active_csids r
              then failS (Err EChunk) else retS i)
           else reg_create_index csid) r
     | None \<Rightarrow> reg_create_index csid r)"

text \<open>\<open>get\<close>; \<open>get_mut\<close> selects the same slot.\<close>

definition reg_get :: "u32 \<Rightarrow> chunk_registry \<Rightarrow> chunk_stream option result" where
  "reg_get csid r =
     (case reg_csid_index r csid of
        None \<Rightarrow> Inr None
      | Some i \<Rightarrow> bindR (idx (reg_streams r) i) (\<lambda>stream.
          Inr (if cs_in_use stream \<and> cs_csid stream = csid then Some stream else None)))"

definition reg_get_mut :: "u32 \<Rightarrow> chunk_registry \<Rightarrow> nat option result" where
  "reg_get_mut csid r =
     (case reg_csid_index r csid of
        None \<Rightarrow> Inr None
      | Some i \<Rightarrow> bindR (idx (reg_streams r) i) (\<lambda>stream.
          Inr (if cs_in_use stream \<and> cs_csid stream = csid then Some i else None)))"

definition reg_can_get_or_create :: "u32 \<Rightarrow> chunk_registry \<Rightarrow> bool result" where
  "reg_can_get_or_create csid r =
     (let fresh = Inr (if reg_reassembling_count r \<ge> reg_max_active_csids r then False
                       else length (reg_streams r) < MAX_CHUNK_STREAMS)
      in case reg_csid_index r csid of
           Some i \<Rightarrow> bindR (idx (reg_streams r) i) (\<lambda>stream.
             if cs_in_use stream \<and> cs_csid stream = csid
             then Inr (cs_reassembling stream \<or> reg_reassembling_count r < reg_max_active_csids r)
             else fresh)
         | None \<Rightarrow> fresh)"

definition reg_release_reassembly_bytes :: "nat \<Rightarrow> chunk_registry \<Rightarrow> chunk_registry" where
  "reg_release_reassembly_bytes released r =
     r\<lparr>reg_reassembly_bytes_in_use := reg_reassembly_bytes_in_use r - released\<rparr>"

definition reg_release_stream_reassembly :: "nat \<Rightarrow> (chunk_registry, nat) op" where
  "reg_release_stream_reassembly i =
     bindS (reg_stream i) (\<lambda>stream.
       let released = buf_available (cs_reassembly_buf stream) in
       thenS (modS (reg_release_reassembly_bytes released)) (retS released))"

definition reg_release_stream_reassembly_by_csid :: "u32 \<Rightarrow> (chunk_registry, nat) op" where
  "reg_release_stream_reassembly_by_csid csid = (\<lambda>r.
     case reg_csid_index r csid of
       None \<Rightarrow> (Inr 0, r)
     | Some i \<Rightarrow> reg_release_stream_reassembly i r)"

definition reg_note_reassembly_growth :: "nat \<Rightarrow> chunk_registry \<Rightarrow> chunk_registry" where
  "reg_note_reassembly_growth nbytes r =
     r\<lparr>reg_reassembly_bytes_in_use := sat_add (reg_reassembly_bytes_in_use r) nbytes\<rparr>"

definition reg_set_stream_reassembling :: "nat \<Rightarrow> bool \<Rightarrow> (chunk_registry, unit) op" where
  "reg_set_stream_reassembling i reassembling =
     bindS (reg_stream i) (\<lambda>stream.
       if cs_reassembling stream = reassembling then retS ()
       else thenS (reg_upd i (\<lambda>st. st\<lparr>cs_reassembling := reassembling\<rparr>))
         (modS (\<lambda>r. r\<lparr>reg_reassembling_count :=
            (if reassembling then reg_reassembling_count r + 1
             else reg_reassembling_count r - 1)\<rparr>)))"

definition reg_set_all_chunk_size :: "u32 \<Rightarrow> chunk_registry \<Rightarrow> chunk_registry" where
  "reg_set_all_chunk_size chunk_size r =
     (if chunk_size < DEFAULT_CHUNK_SIZE \<or> chunk_size > MAX_PEER_CHUNK_SIZE then r
      else r\<lparr>reg_default_chunk_size := chunk_size,
             reg_streams := map (\<lambda>st. if cs_in_use st then st\<lparr>cs_chunk_size := chunk_size\<rparr> else st)
               (reg_streams r)\<rparr>)"

definition reg_can_grow_reassembly :: "chunk_stream \<Rightarrow> u32 \<Rightarrow> chunk_registry \<Rightarrow> unit result" where
  "reg_can_grow_reassembly cs additional r =
     (if reg_reassembly_bytes_in_use r + unat additional > reg_max_reassembly_bytes r
      then err EChunk else Inr ())"

definition reg_reset_stream :: "u32 \<Rightarrow> (chunk_registry, unit) op" where
  "reg_reset_stream csid = (\<lambda>r.
     case reg_csid_index r csid of
       None \<Rightarrow> (Inr (), r)
     | Some i \<Rightarrow>
         bindS (reg_stream i) (\<lambda>stream.
           if cs_in_use stream \<and> cs_csid stream = csid then
             thenS (reg_release_stream_reassembly i)
               (thenS (reg_set_stream_reassembling i False)
                 (reg_upd i (chunk_stream_reset (reg_default_chunk_size r))))
           else retS ()) r)"

definition reg_abort_stream :: "u32 \<Rightarrow> (chunk_registry, unit) op" where
  "reg_abort_stream csid = (\<lambda>r.
     case reg_csid_index r csid of
       None \<Rightarrow> (Inr (), r)
     | Some i \<Rightarrow>
         bindS (reg_stream i) (\<lambda>stream.
           if cs_in_use stream \<and> cs_csid stream = csid then
             thenS (reg_release_stream_reassembly i)
               (thenS (reg_set_stream_reassembling i False)
                 (reg_upd i (\<lambda>st. st\<lparr>
                    cs_reassembly_buf := snd (buf_take (cs_reassembly_buf st)),
                    cs_reassembly_bytes_read := 0,
                    cs_chunk_read_scratch := []\<rparr>)))
           else retS ()) r)"

definition reg_destroy :: "chunk_registry \<Rightarrow> chunk_registry" where
  "reg_destroy r = r\<lparr>
     reg_streams := [],
     reg_csid_index := Map.empty,
     reg_reassembly_bytes_in_use := 0,
     reg_reassembling_count := 0,
     reg_initialized := False\<rparr>"

section \<open>Invariant\<close>

definition stream_inv :: "chunk_stream \<Rightarrow> bool" where
  "stream_inv st \<longleftrightarrow>
     cs_in_use st \<and>
     buf_inv (cs_reassembly_buf st) \<and> buf_owned (cs_reassembly_buf st) \<and>
     length (contents (cs_reassembly_buf st)) = unat (cs_reassembly_bytes_read st) \<and>
     (cs_reassembling st \<longleftrightarrow> cs_reassembly_bytes_read st \<noteq> 0) \<and>
     (cs_reassembling st \<longrightarrow> cs_has_message_header st \<and>
        cs_reassembly_bytes_read st < cs_type0_msg_length st) \<and>
     cs_type0_msg_length st \<le> RTMP_WIRE_MAX_MSG_LENGTH \<and>
     DEFAULT_CHUNK_SIZE \<le> cs_chunk_size st \<and> cs_chunk_size st \<le> MAX_PEER_CHUNK_SIZE \<and>
     cs_chunk_read_scratch st = []"

text \<open>Recomputation of the two running totals.\<close>

definition partial_bytes :: "chunk_stream \<Rightarrow> nat" where
  "partial_bytes st = length (contents (cs_reassembly_buf st))"

definition total_partial :: "chunk_stream list \<Rightarrow> nat" where
  "total_partial sts = sum_list (map partial_bytes sts)"

definition total_reassembling :: "chunk_stream list \<Rightarrow> nat" where
  "total_reassembling sts = sum_list (map (\<lambda>st. of_bool (cs_reassembling st)) sts)"

definition index_ok :: "chunk_stream list \<Rightarrow> (u32 \<rightharpoonup> nat) \<Rightarrow> bool" where
  "index_ok sts ix \<longleftrightarrow>
     (\<forall>c i. ix c = Some i \<longleftrightarrow> i < length sts \<and> cs_csid (sts ! i) = c)"

definition reg_inv :: "chunk_registry \<Rightarrow> bool" where
  "reg_inv r \<longleftrightarrow>
     index_ok (reg_streams r) (reg_csid_index r) \<and>
     list_all stream_inv (reg_streams r) \<and>
     length (reg_streams r) \<le> MAX_CHUNK_STREAMS \<and>
     reg_reassembling_count r = total_reassembling (reg_streams r) \<and>
     reg_reassembling_count r \<le> reg_max_active_csids r \<and>
     reg_reassembly_bytes_in_use r = total_partial (reg_streams r) \<and>
     reg_reassembly_bytes_in_use r \<le> reg_max_reassembly_bytes r \<and>
     reg_max_reassembly_bytes r \<le> USIZE_MAX \<and>
     DEFAULT_CHUNK_SIZE \<le> reg_default_chunk_size r \<and>
     reg_default_chunk_size r \<le> MAX_PEER_CHUNK_SIZE"

text \<open>The stream registered for an id.\<close>

definition stream_of :: "chunk_registry \<Rightarrow> u32 \<Rightarrow> chunk_stream option" where
  "stream_of r csid = map_option (\<lambda>i. reg_streams r ! i) (reg_csid_index r csid)"

section \<open>Table and totals\<close>

lemma total_partial_update:
  assumes "i < length sts"
  shows "total_partial (sts[i := st]) = total_partial sts - partial_bytes (sts ! i) + partial_bytes st"
    and "partial_bytes (sts ! i) \<le> total_partial sts"
proof -
  show le: "partial_bytes (sts ! i) \<le> total_partial sts"
    unfolding total_partial_def using assms
    by (metis elem_le_sum_list length_map nth_map)
  then show "total_partial (sts[i := st]) =
      total_partial sts - partial_bytes (sts ! i) + partial_bytes st"
    using assms unfolding total_partial_def by (simp add: map_update sum_list_update)
qed

lemma total_reassembling_update:
  assumes "i < length sts"
  shows "total_reassembling (sts[i := st]) =
      total_reassembling sts - of_bool (cs_reassembling (sts ! i)) + of_bool (cs_reassembling st)"
    and "of_bool (cs_reassembling (sts ! i)) \<le> total_reassembling sts"
proof -
  show le: "of_bool (cs_reassembling (sts ! i)) \<le> total_reassembling sts"
    unfolding total_reassembling_def using assms
    by (metis (mono_tags, lifting) elem_le_sum_list length_map nth_map)
  then show "total_reassembling (sts[i := st]) =
      total_reassembling sts - of_bool (cs_reassembling (sts ! i)) + of_bool (cs_reassembling st)"
    using assms unfolding total_reassembling_def by (simp add: map_update sum_list_update)
qed

lemma total_append [simp]:
  "total_partial (sts @ [st]) = total_partial sts + partial_bytes st"
  "total_reassembling (sts @ [st]) = total_reassembling sts + of_bool (cs_reassembling st)"
  by (simp_all add: total_partial_def total_reassembling_def)

lemma index_ok_update:
  "index_ok sts ix \<Longrightarrow> i < length sts \<Longrightarrow> cs_csid st = cs_csid (sts ! i) \<Longrightarrow>
   index_ok (sts[i := st]) ix"
  unfolding index_ok_def by (auto simp: nth_list_update)

lemma index_ok_append:
  "index_ok sts ix \<Longrightarrow> ix (cs_csid st) = None \<Longrightarrow>
   index_ok (sts @ [st]) (ix(cs_csid st \<mapsto> length sts))"
  unfolding index_ok_def by (auto simp: nth_append less_Suc_eq) (metis option.distinct(1))

lemma partial_bytes_stream_inv:
  "stream_inv st \<Longrightarrow> partial_bytes st = unat (cs_reassembly_bytes_read st)"
  by (simp add: stream_inv_def partial_bytes_def)

lemma buf_available_stream_inv:
  "stream_inv st \<Longrightarrow> buf_available (cs_reassembly_buf st) = partial_bytes st"
  by (simp add: stream_inv_def partial_bytes_def buf_available_contents)

text \<open>
  All operations that touch one stream are instances of this: replace a slot by a stream that
  satisfies the invariant and move both totals by the difference.
\<close>

definition reg_replace :: "nat \<Rightarrow> chunk_stream \<Rightarrow> chunk_registry \<Rightarrow> chunk_registry" where
  "reg_replace i st r = r\<lparr>
     reg_streams := (reg_streams r)[i := st],
     reg_reassembling_count := reg_reassembling_count r
       - of_bool (cs_reassembling (reg_streams r ! i)) + of_bool (cs_reassembling st),
     reg_reassembly_bytes_in_use := reg_reassembly_bytes_in_use r
       - partial_bytes (reg_streams r ! i) + partial_bytes st\<rparr>"

lemma reg_inv_replace:
  assumes "reg_inv r" "i < length (reg_streams r)" "stream_inv st"
    "cs_csid st = cs_csid (reg_streams r ! i)"
    "reg_reassembly_bytes_in_use r - partial_bytes (reg_streams r ! i) + partial_bytes st
      \<le> reg_max_reassembly_bytes r"
    "cs_reassembling st \<Longrightarrow> \<not> cs_reassembling (reg_streams r ! i) \<Longrightarrow>
      reg_reassembling_count r < reg_max_active_csids r"
  shows "reg_inv (reg_replace i st r)"
proof -
  have "reg_reassembling_count (reg_replace i st r) \<le> reg_max_active_csids r"
    using assms(1,6) total_reassembling_update(2) [OF assms(2)]
    by (cases "cs_reassembling st"; cases "cs_reassembling (reg_streams r ! i)")
      (auto simp: reg_replace_def reg_inv_def)
  moreover have "list_all stream_inv ((reg_streams r)[i := st])"
    using assms(1,3) by (auto simp: reg_inv_def list_all_iff dest!: set_update_subset_insert [THEN subsetD])
  ultimately show ?thesis
    using assms by (auto simp: reg_inv_def reg_replace_def index_ok_update total_partial_update
        total_reassembling_update)
qed

lemma reg_inv_stream:
  "reg_inv r \<Longrightarrow> i < length (reg_streams r) \<Longrightarrow> stream_inv (reg_streams r ! i)"
  by (simp add: reg_inv_def list_all_length)

lemma reg_inv_index:
  "reg_inv r \<Longrightarrow> reg_csid_index r c = Some i \<longleftrightarrow> i < length (reg_streams r) \<and> cs_csid (reg_streams r ! i) = c"
  by (auto simp: reg_inv_def index_ok_def)

lemma reg_inv_indexD:
  assumes "reg_inv r" "reg_csid_index r c = Some i"
  shows "i < length (reg_streams r)" "cs_csid (reg_streams r ! i) = c"
    "stream_inv (reg_streams r ! i)" "cs_in_use (reg_streams r ! i)"
proof -
  show i: "i < length (reg_streams r)" "cs_csid (reg_streams r ! i) = c"
    using assms reg_inv_index by auto
  then show "stream_inv (reg_streams r ! i)" using assms(1) reg_inv_stream by blast
  then show "cs_in_use (reg_streams r ! i)" by (simp add: stream_inv_def)
qed

lemma reg_stream_ok [simp]:
  "i < length (reg_streams r) \<Longrightarrow> reg_stream i r = (Inr (reg_streams r ! i), r)"
  by (simp add: reg_stream_def)

lemma reg_upd_ok [simp]:
  "i < length (reg_streams r) \<Longrightarrow> reg_upd i f r = (Inr (), reg_put i (f (reg_streams r ! i)) r)"
  by (simp add: reg_upd_def)

lemma reg_get_stream_of: "reg_inv r \<Longrightarrow> reg_get csid r = Inr (stream_of r csid)"
  using reg_inv_indexD [of r csid]
  by (cases "reg_csid_index r csid") (simp_all add: reg_get_def stream_of_def)

lemma stream_of_inv: "reg_inv r \<Longrightarrow> stream_of r csid = Some st \<Longrightarrow> stream_inv st \<and> cs_csid st = csid"
  using reg_inv_indexD [of r csid] by (auto simp: stream_of_def)

section \<open>The operations keep the invariant\<close>

lemmas const_simps =
  DEFAULT_CHUNK_SIZE_def RTMP_WIRE_MAX_MSG_LENGTH_def MAX_PEER_CHUNK_SIZE_def

lemma stream_inv_fresh:
  "DEFAULT_CHUNK_SIZE \<le> n \<Longrightarrow> n \<le> MAX_PEER_CHUNK_SIZE \<Longrightarrow> stream_inv (fresh_stream n csid)"
  by (simp add: fresh_stream_def chunk_stream_default_def stream_inv_def const_simps)

lemma fresh_stream_simps [simp]:
  "cs_csid (fresh_stream n c) = c" "cs_chunk_size (fresh_stream n c) = n"
  "cs_reassembling (fresh_stream n c) = False" "cs_reassembly_bytes_read (fresh_stream n c) = 0"
  "cs_has_message_header (fresh_stream n c) = False" "partial_bytes (fresh_stream n c) = 0"
  "cs_type0_msg_stream_id (fresh_stream n c) = 0" "cs_type0_timestamp (fresh_stream n c) = 0"
  "contents (cs_reassembly_buf (fresh_stream n c)) = []" "cs_type0_msg_length (fresh_stream n c) = 0"
  by (simp_all add: fresh_stream_def chunk_stream_default_def partial_bytes_def)

lemma reg_inv_new [simp]: "reg_inv reg_new"
  by (simp add: reg_inv_def reg_new_def index_ok_def total_partial_def total_reassembling_def
      USIZE_MAX_def MAX_REASSEMBLY_BYTES_PER_CONN_def const_simps)

lemma reg_inv_init: "reg_inv r \<Longrightarrow> reg_inv (reg_init r)"
  by (simp add: reg_inv_def reg_init_def const_simps)

lemma reg_inv_destroy: "reg_inv r \<Longrightarrow> reg_inv (reg_destroy r)"
  by (simp add: reg_inv_def reg_destroy_def index_ok_def total_partial_def total_reassembling_def)

lemma reg_inv_set_all_chunk_size:
  assumes "reg_inv r"
  shows "reg_inv (reg_set_all_chunk_size n r)"
proof (cases "n < DEFAULT_CHUNK_SIZE \<or> n > MAX_PEER_CHUNK_SIZE")
  case True
  with assms show ?thesis by (simp add: reg_set_all_chunk_size_def)
next
  case False
  define f where "f st = (if cs_in_use st then st\<lparr>cs_chunk_size := n\<rparr> else st)"
    for st :: chunk_stream
  have f: "partial_bytes (f st) = partial_bytes st" "cs_reassembling (f st) = cs_reassembling st"
    "cs_csid (f st) = cs_csid st" "stream_inv st \<Longrightarrow> stream_inv (f st)" for st
    using False by (auto simp: f_def partial_bytes_def stream_inv_def not_less)
  have "index_ok (map f (reg_streams r)) (reg_csid_index r)"
    using assms f by (auto simp: reg_inv_def index_ok_def)
  then show ?thesis
    using False assms f
    by (simp add: reg_set_all_chunk_size_def f_def [symmetric] reg_inv_def list_all_iff not_less
        total_partial_def total_reassembling_def comp_def)
qed

text \<open>Dropping a partial message, shared by \<open>reset_stream\<close> and \<open>abort_stream\<close>.\<close>

lemma reg_drop_partial:
  assumes r: "reg_inv r" and i: "i < length (reg_streams r)"
    and f: "cs_reassembling (f ((reg_streams r ! i)\<lparr>cs_reassembling := False\<rparr>)) = False"
      "contents (cs_reassembly_buf (f ((reg_streams r ! i)\<lparr>cs_reassembling := False\<rparr>))) = []"
  shows "thenS (reg_release_stream_reassembly i)
      (thenS (reg_set_stream_reassembling i False) (reg_upd i f)) r =
    (Inr (), reg_replace i (f ((reg_streams r ! i)\<lparr>cs_reassembling := False\<rparr>)) r)"
proof -
  have st: "stream_inv (reg_streams r ! i)" using r i by (rule reg_inv_stream)
  let ?st = "reg_streams r ! i"
  note unf = reg_release_stream_reassembly_def reg_set_stream_reassembling_def op_simps Let_def
    reg_release_reassembly_bytes_def reg_put_def reg_replace_def buf_available_stream_inv [OF st]
    partial_bytes_def
  show ?thesis
  proof (cases "cs_reassembling ?st")
    case True
    with i f show ?thesis by (simp add: unf)
  next
    case False
    then have eq: "?st\<lparr>cs_reassembling := False\<rparr> = ?st" by simp
    show ?thesis unfolding eq using False i f [unfolded eq] by (simp add: unf)
  qed
qed

definition aborted_stream :: "chunk_stream \<Rightarrow> chunk_stream" where
  "aborted_stream st = st\<lparr>cs_reassembling := False,
     cs_reassembly_buf := snd (buf_take (cs_reassembly_buf st)),
     cs_reassembly_bytes_read := 0, cs_chunk_read_scratch := []\<rparr>"

lemma reg_reset_stream_eq:
  assumes "reg_inv r"
  shows "reg_reset_stream csid r = (Inr (),
    case reg_csid_index r csid of None \<Rightarrow> r
    | Some i \<Rightarrow> reg_replace i (chunk_stream_reset (reg_default_chunk_size r) (reg_streams r ! i)) r)"
proof (cases "reg_csid_index r csid")
  case None
  then show ?thesis by (simp add: reg_reset_stream_def)
next
  case (Some i)
  note i = reg_inv_indexD [OF assms Some]
  have "chunk_stream_reset n (st\<lparr>cs_reassembling := False\<rparr>) = chunk_stream_reset n st" for n st
    by (simp add: chunk_stream_reset_def)
  with Some i reg_drop_partial [OF assms i(1), of "chunk_stream_reset (reg_default_chunk_size r)"]
  show ?thesis
    by (simp add: reg_reset_stream_def chunk_stream_reset_def buf_take_ok)
qed

lemma reg_abort_stream_eq:
  assumes "reg_inv r"
  shows "reg_abort_stream csid r = (Inr (),
    case reg_csid_index r csid of None \<Rightarrow> r
    | Some i \<Rightarrow> reg_replace i (aborted_stream (reg_streams r ! i)) r)"
proof (cases "reg_csid_index r csid")
  case None
  then show ?thesis by (simp add: reg_abort_stream_def)
next
  case (Some i)
  note i = reg_inv_indexD [OF assms Some]
  define f where "f = (\<lambda>st :: chunk_stream. st\<lparr>cs_reassembly_buf := snd (buf_take (cs_reassembly_buf st)),
    cs_reassembly_bytes_read := 0, cs_chunk_read_scratch := []\<rparr>)"
  have "f (st\<lparr>cs_reassembling := False\<rparr>) = aborted_stream st" for st
    by (simp add: f_def aborted_stream_def)
  with Some i reg_drop_partial [OF assms i(1), of f]
  show ?thesis
    by (simp add: reg_abort_stream_def f_def [symmetric] aborted_stream_def buf_take_ok)
qed

lemma reg_inv_drop:
  assumes r: "reg_inv r" and i: "i < length (reg_streams r)"
    and st: "stream_inv st" "cs_csid st = cs_csid (reg_streams r ! i)"
      "partial_bytes st = 0" "\<not> cs_reassembling st"
  shows "reg_inv (reg_replace i st r)"
  by (rule reg_inv_replace) (use assms in \<open>auto simp: reg_inv_def\<close>)

lemma stream_inv_reset:
  "stream_inv st \<Longrightarrow> DEFAULT_CHUNK_SIZE \<le> n \<Longrightarrow> n \<le> MAX_PEER_CHUNK_SIZE \<Longrightarrow>
   stream_inv (chunk_stream_reset n st)"
  by (simp add: stream_inv_def chunk_stream_reset_def buf_take_ok const_simps)

lemma stream_inv_aborted: "stream_inv st \<Longrightarrow> stream_inv (aborted_stream st)"
  by (simp add: stream_inv_def aborted_stream_def buf_take_ok const_simps)

lemma reg_inv_reset_stream:
  assumes "reg_inv r"
  shows "reg_inv (snd (reg_reset_stream csid r))"
proof (cases "reg_csid_index r csid")
  case None
  then show ?thesis using assms by (simp add: reg_reset_stream_eq)
next
  case (Some i)
  note i = reg_inv_indexD [OF assms Some]
  have "stream_inv (chunk_stream_reset (reg_default_chunk_size r) (reg_streams r ! i))"
    using assms by (intro stream_inv_reset i) (simp_all add: reg_inv_def)
  then show ?thesis
    using assms Some i
    by (simp add: reg_reset_stream_eq reg_inv_drop chunk_stream_reset_def partial_bytes_def buf_take_ok)
qed

lemma reg_inv_abort_stream:
  assumes "reg_inv r"
  shows "reg_inv (snd (reg_abort_stream csid r))"
proof (cases "reg_csid_index r csid")
  case None
  then show ?thesis using assms by (simp add: reg_abort_stream_eq)
next
  case (Some i)
  note i = reg_inv_indexD [OF assms Some]
  from stream_inv_aborted [OF i(3)] show ?thesis
    using assms Some i
    by (simp add: reg_abort_stream_eq reg_inv_drop aborted_stream_def partial_bytes_def buf_take_ok)
qed

text \<open>The two lookups with creation, on the abstraction \<open>stream_of\<close>.\<close>

definition can_open :: "chunk_registry \<Rightarrow> u32 \<Rightarrow> bool" where
  "can_open r csid \<longleftrightarrow>
     (case stream_of r csid of
        Some st \<Rightarrow> cs_reassembling st \<or> reg_reassembling_count r < reg_max_active_csids r
      | None \<Rightarrow> reg_reassembling_count r < reg_max_active_csids r \<and>
          length (reg_streams r) < MAX_CHUNK_STREAMS)"

definition opened :: "chunk_registry \<Rightarrow> u32 \<Rightarrow> chunk_stream" where
  "opened r csid = (case stream_of r csid of
     Some st \<Rightarrow> st | None \<Rightarrow> fresh_stream (reg_default_chunk_size r) csid)"

text \<open>The table has as many entries as there are registered ids.\<close>

lemma length_reg_streams:
  assumes "reg_inv r"
  shows "length (reg_streams r) = card (dom (stream_of r))"
proof -
  have ix: "reg_csid_index r c = Some i \<longleftrightarrow> i < length (reg_streams r) \<and> cs_csid (reg_streams r ! i) = c" for c i
    using assms by (simp add: reg_inv_def index_ok_def)
  have "inj_on (\<lambda>i. cs_csid (reg_streams r ! i)) {..<length (reg_streams r)}"
    unfolding inj_on_def using ix by (metis lessThan_iff option.inject)
  moreover have "(\<lambda>i. cs_csid (reg_streams r ! i)) ` {..<length (reg_streams r)} = dom (stream_of r)"
    using ix by (auto simp: stream_of_def)
  ultimately show ?thesis by (metis card_image card_lessThan)
qed

lemma reg_can_get_or_create_eq:
  assumes "reg_inv r"
  shows "reg_can_get_or_create csid r = Inr (can_open r csid)"
  using reg_inv_indexD [OF assms, of csid]
  by (cases "reg_csid_index r csid")
    (auto simp: reg_can_get_or_create_def can_open_def stream_of_def Let_def)

lemma reg_get_or_create_index_fail:
  assumes "reg_inv r" "\<not> can_open r csid"
  shows "reg_get_or_create_index csid r = (err EChunk, r)"
  using assms(2) reg_inv_indexD [OF assms(1), of csid]
  by (cases "reg_csid_index r csid")
    (auto simp: reg_get_or_create_index_def reg_create_index_def can_open_def stream_of_def Let_def
      not_less)

lemma reg_create_index_ok:
  assumes r: "reg_inv r" and fresh: "reg_csid_index r csid = None" and ok: "can_open r csid"
  shows "\<exists>i r'. reg_create_index csid r = (Inr i, r') \<and> reg_inv r' \<and>
    reg_csid_index r' csid = Some i \<and>
    reg_streams r' ! i = fresh_stream (reg_default_chunk_size r) csid \<and>
    stream_of r' = (stream_of r)(csid \<mapsto> fresh_stream (reg_default_chunk_size r) csid) \<and>
    reg_reassembling_count r' = reg_reassembling_count r \<and>
    reg_reassembly_bytes_in_use r' = reg_reassembly_bytes_in_use r \<and>
    reg_max_active_csids r' = reg_max_active_csids r \<and>
    reg_max_msg_length r' = reg_max_msg_length r \<and>
    reg_default_chunk_size r' = reg_default_chunk_size r \<and>
    reg_max_reassembly_bytes r' = reg_max_reassembly_bytes r"
proof -
  let ?st = "fresh_stream (reg_default_chunk_size r) csid"
  define r' where "r' = r\<lparr>reg_streams := reg_streams r @ [?st],
    reg_csid_index := (reg_csid_index r)(csid \<mapsto> length (reg_streams r))\<rparr>"
  have lim: "reg_reassembling_count r < reg_max_active_csids r"
    "length (reg_streams r) < MAX_CHUNK_STREAMS"
    using ok fresh by (simp_all add: can_open_def stream_of_def)
  have "stream_inv ?st" using r by (intro stream_inv_fresh) (simp_all add: reg_inv_def)
  moreover have "index_ok (reg_streams r @ [?st]) ((reg_csid_index r)(csid \<mapsto> length (reg_streams r)))"
    using index_ok_append [of "reg_streams r" "reg_csid_index r" ?st] r fresh
    by (simp add: reg_inv_def)
  ultimately have "reg_inv r'"
    using r lim by (simp add: reg_inv_def r'_def)
  moreover have "stream_of r' = (stream_of r)(csid \<mapsto> ?st)"
  proof
    fix c show "stream_of r' c = ((stream_of r)(csid \<mapsto> ?st)) c"
      using reg_inv_indexD(1) [OF r, of c]
      by (cases "reg_csid_index r c") (auto simp: stream_of_def r'_def nth_append)
  qed
  ultimately show ?thesis
    using lim by (simp add: reg_create_index_def Let_def r'_def)
qed

lemma reg_get_or_create_index_ok:
  assumes r: "reg_inv r" and ok: "can_open r csid"
  obtains i r' where "reg_get_or_create_index csid r = (Inr i, r')" "reg_inv r'"
    "reg_csid_index r' csid = Some i" "reg_streams r' ! i = opened r csid"
    "stream_of r' = (stream_of r)(csid \<mapsto> opened r csid)"
    "reg_reassembling_count r' = reg_reassembling_count r"
    "reg_reassembly_bytes_in_use r' = reg_reassembly_bytes_in_use r"
    "reg_max_active_csids r' = reg_max_active_csids r"
    "reg_max_msg_length r' = reg_max_msg_length r"
    "reg_default_chunk_size r' = reg_default_chunk_size r"
    "reg_max_reassembly_bytes r' = reg_max_reassembly_bytes r"
proof (cases "reg_csid_index r csid")
  case None
  then have "opened r csid = fresh_stream (reg_default_chunk_size r) csid"
    by (simp add: opened_def stream_of_def)
  with reg_create_index_ok [OF r None ok] None that show thesis
    by (auto simp: reg_get_or_create_index_def)
next
  case (Some i)
  note i = reg_inv_indexD [OF r Some]
  have st: "stream_of r csid = Some (reg_streams r ! i)" "opened r csid = reg_streams r ! i"
    using Some by (simp_all add: stream_of_def opened_def)
  have "reg_get_or_create_index csid r = (Inr i, r)"
    using Some i ok st by (auto simp: reg_get_or_create_index_def can_open_def)
  with r Some st show thesis by (intro that [of i r]) (simp_all add: fun_upd_idem)
qed

lemma stream_of_replace:
  assumes "reg_inv r" "reg_csid_index r csid = Some i"
  shows "stream_of (reg_replace i st r) = (stream_of r)(csid \<mapsto> st)"
proof
  fix c
  have "reg_csid_index r c = Some i \<longleftrightarrow> c = csid"
    using assms reg_inv_index [OF assms(1)] by auto
  then show "stream_of (reg_replace i st r) c = ((stream_of r)(csid \<mapsto> st)) c"
    using reg_inv_indexD [OF assms] assms(2)
    by (cases "reg_csid_index r c") (auto simp: stream_of_def reg_replace_def)
qed

lemma reg_replace_simps [simp]:
  "reg_max_active_csids (reg_replace i st r) = reg_max_active_csids r"
  "reg_max_msg_length (reg_replace i st r) = reg_max_msg_length r"
  "reg_default_chunk_size (reg_replace i st r) = reg_default_chunk_size r"
  "reg_max_reassembly_bytes (reg_replace i st r) = reg_max_reassembly_bytes r"
  "reg_csid_index (reg_replace i st r) = reg_csid_index r"
  "length (reg_streams (reg_replace i st r)) = length (reg_streams r)"
  by (simp_all add: reg_replace_def)

lemma reg_new_simps [simp]:
  "stream_of reg_new csid = None" "opened reg_new csid = fresh_stream 128 csid" "can_open reg_new csid"
  "reg_reassembly_bytes_in_use reg_new = 0" "reg_max_msg_length reg_new = 4194304"
  "reg_max_reassembly_bytes reg_new = 33554432" "reg_default_chunk_size reg_new = 128"
  "reg_reassembling_count reg_new = 0"
  by (simp_all add: stream_of_def opened_def can_open_def reg_new_def DEFAULT_CHUNK_SIZE_def
      DEFAULT_MAX_ACTIVE_CSIDS_def MAX_CHUNK_STREAMS_def DEFAULT_MAX_MSG_LENGTH_def
      MAX_REASSEMBLY_BYTES_PER_CONN_def)

section \<open>Properties\<close>

text \<open>The read-only check \<open>can_get_or_create\<close> predicts \<open>get_or_create_index\<close> exactly: on a
  well-formed registry it answers yes if and only if the mutating call succeeds, and neither
  panics.\<close>
theorem can_get_or_create_exact:
  assumes "reg_inv r"
  shows "reg_can_get_or_create csid r = Inr (\<exists>i. fst (reg_get_or_create_index csid r) = Inr i) \<and>
    fst (reg_get_or_create_index csid r) \<noteq> panic"
proof (cases "can_open r csid")
  case True
  obtain i r' where "reg_get_or_create_index csid r = (Inr i, r')"
    by (rule reg_get_or_create_index_ok [OF assms True])
  with True show ?thesis by (simp add: reg_can_get_or_create_eq [OF assms])
next
  case False
  with reg_get_or_create_index_fail [OF assms False] show ?thesis
    by (simp add: reg_can_get_or_create_eq [OF assms])
qed

theorem can_get_or_create_exact_witness:
  "reg_can_get_or_create 3 reg_new = Inr (\<exists>i. fst (reg_get_or_create_index 3 reg_new) = Inr i)"
  using can_get_or_create_exact [OF reg_inv_new, of 3] by simp

text \<open>C30: An Abort message discards the partial message of its chunk stream and nothing else: the
  stream's header context, the other streams and the limits are kept, the invariant is kept, and the
  bytes of the partial message are given back to the reassembly budget.\<close>
theorem abort_stream_discards_partial_only:
  assumes "reg_inv r" and "stream_of r csid = Some st"
  shows "\<exists>r' st'. reg_abort_stream csid r = (Inr (), r') \<and> reg_inv r' \<and>
    stream_of r' = (stream_of r)(csid \<mapsto> st') \<and> \<not> cs_reassembling st' \<and>
    contents (cs_reassembly_buf st') = [] \<and>
    reg_reassembly_bytes_in_use r' = reg_reassembly_bytes_in_use r - unat (cs_reassembly_bytes_read st) \<and>
    cs_has_message_header st' = cs_has_message_header st \<and>
    cs_type0_timestamp st' = cs_type0_timestamp st \<and> cs_type0_msg_length st' = cs_type0_msg_length st \<and>
    cs_type0_msg_type_id st' = cs_type0_msg_type_id st \<and>
    cs_type0_msg_stream_id st' = cs_type0_msg_stream_id st \<and>
    cs_type0_ext_ts st' = cs_type0_ext_ts st \<and> cs_last_delta st' = cs_last_delta st"
proof -
  from assms(2) obtain i where i: "reg_csid_index r csid = Some i" "reg_streams r ! i = st"
    by (auto simp: stream_of_def)
  let ?r' = "reg_replace i (aborted_stream st) r"
  have eq: "reg_abort_stream csid r = (Inr (), ?r')"
    using i by (simp add: reg_abort_stream_eq [OF assms(1)])
  have "reg_inv ?r'" using reg_inv_abort_stream [OF assms(1), of csid] by (simp add: eq)
  moreover have "stream_of ?r' = (stream_of r)(csid \<mapsto> aborted_stream st)"
    by (rule stream_of_replace [OF assms(1) i(1)])
  moreover have "partial_bytes st = unat (cs_reassembly_bytes_read st)"
    using stream_of_inv [OF assms] by (simp add: partial_bytes_stream_inv)
  ultimately show ?thesis
    using eq i(2) by (auto simp: aborted_stream_def buf_take_ok reg_replace_def partial_bytes_def)
qed

definition ex_registry :: chunk_registry where
  "ex_registry = snd (reg_get_or_create_index 4 reg_new)"

lemma ex_registry_inv: "reg_inv ex_registry" "\<exists>st. stream_of ex_registry 4 = Some st"
proof -
  have "can_open reg_new 4" by simp
  then obtain i r' where "reg_get_or_create_index 4 reg_new = (Inr i, r')" "reg_inv r'"
    "stream_of r' = (stream_of reg_new)(4 \<mapsto> opened reg_new 4)"
    by (rule reg_get_or_create_index_ok [OF reg_inv_new])
  then show "reg_inv ex_registry" "\<exists>st. stream_of ex_registry 4 = Some st"
    by (simp_all add: ex_registry_def)
qed

theorem abort_stream_discards_partial_only_witness:
  "\<exists>r'. reg_abort_stream 4 ex_registry = (Inr (), r') \<and> reg_inv r'"
proof -
  obtain st where "stream_of ex_registry 4 = Some st" using ex_registry_inv(2) by blast
  from abort_stream_discards_partial_only [OF ex_registry_inv(1) this] show ?thesis by blast
qed

end
