(* ===== verification/Frame_Source.thy ===== *)
theory Frame_Source
  imports Rtmp_Prelude
begin

text \<open>
  The contract a read loop needs from the function it calls for one frame: a call never panics
  and keeps the invariant, an error leaves the state as it was, and a successful call either
  leaves the state as it was (more data is needed) or takes at least one byte off the pending
  input. A loop that calls it until nothing changes therefore ends, after at most as many calls
  as there are pending bytes, and the bytes it leaves are a suffix of those it started with.
\<close>

locale frame_source =
  fixes inv :: "'s \<Rightarrow> bool"
    and pending :: "'s \<Rightarrow> bytes"
    and step :: "('s, 'a) op"
  assumes step_no_panic: "inv s \<Longrightarrow> fst (step s) \<noteq> panic"
    and step_inv: "inv s \<Longrightarrow> inv (snd (step s))"
    and step_error: "inv s \<Longrightarrow> step s = (Inl e, s') \<Longrightarrow> s' = s"
    and step_progress: "inv s \<Longrightarrow> step s = (Inr x, s') \<Longrightarrow>
      s' = s \<or> (\<exists>u. u \<noteq> [] \<and> pending s = u @ pending s')"
begin

text \<open>The loop, with the number of calls it may make.\<close>

primrec drive :: "nat \<Rightarrow> 's \<Rightarrow> 's" where
  "drive 0 s = s"
| "drive (Suc n) s =
     (case step s of
        (Inl e, s') \<Rightarrow> s'
      | (Inr x, s') \<Rightarrow> if length (pending s') < length (pending s) then drive n s' else s')"

definition stable :: "'s \<Rightarrow> bool" where
  "stable s \<longleftrightarrow> snd (step s) = s"

lemma step_shrinks:
  "inv s \<Longrightarrow> step s = (Inr x, s') \<Longrightarrow> s' = s \<or> length (pending s') < length (pending s)"
  using step_progress [of s x s'] by (fastforce simp: length_greater_0_conv)

lemma drive_inv: "inv s \<Longrightarrow> inv (drive n s)"
proof (induction n arbitrary: s)
  case (Suc n)
  obtain r s' where st: "step s = (r, s')" by fastforce
  with step_inv [OF Suc.prems] have "inv s'" by simp
  with st Suc.IH show ?case by (cases r) simp_all
qed simp

lemma drive_suffix: "inv s \<Longrightarrow> \<exists>u. pending s = u @ pending (drive n s)"
proof (induction n arbitrary: s)
  case (Suc n)
  obtain r s' where st: "step s = (r, s')" by fastforce
  show ?case
  proof (cases r)
    case (Inl e)
    with st step_error [OF Suc.prems, of e s'] show ?thesis by simp
  next
    case (Inr x)
    have inv': "inv s'" using step_inv [OF Suc.prems] st by simp
    show ?thesis
    proof (cases "s' = s")
      case True
      then show ?thesis using st Inr by simp
    next
      case False
      with step_progress [OF Suc.prems, of x s'] st Inr obtain u where
        u: "u \<noteq> []" "pending s = u @ pending s'" by auto
      from Suc.IH [OF inv'] obtain v where "pending s' = v @ pending (drive n s')" by blast
      with u st Inr show ?thesis by simp
    qed
  qed
qed simp

text \<open>As many calls as there are pending bytes, and one more, reach a state that is stable.\<close>

lemma drive_stable: "inv s \<Longrightarrow> length (pending s) < n \<Longrightarrow> stable (drive n s)"
proof (induction n arbitrary: s)
  case (Suc n)
  obtain r s' where st: "step s = (r, s')" by fastforce
  show ?case
  proof (cases r)
    case (Inl e)
    with st step_error [OF Suc.prems(1), of e s'] show ?thesis by (simp add: stable_def)
  next
    case (Inr x)
    have inv': "inv s'" using step_inv [OF Suc.prems(1)] st by simp
    from step_shrinks [OF Suc.prems(1), of x s'] st Inr
    consider "s' = s" | "length (pending s') < length (pending s)" by blast
    then show ?thesis
    proof cases
      case 1
      with st Inr show ?thesis by (simp add: stable_def)
    next
      case 2
      with Suc.prems(2) have "length (pending s') < n" by simp
      with Suc.IH [OF inv'] 2 st Inr show ?thesis by simp
    qed
  qed
qed simp

end

end
