(* ===== verification/Chunk_Reader.thy ===== *)
theory Chunk_Reader
  imports Chunk_State Frame_Source
begin

text \<open>
  The chunk reader (\<open>src/src/chunk/reader.rs\<close>). \<open>chunk_read\<close> works in three phases, and the
  model has a group of definitions for each: phase 1 looks at the unread bytes and the registry
  and decides (\<open>chunk_read_plan\<close>: an error, \<open>None\<close> for \<open>Ok(0)\<close>, or what to consume), phase 2
  consumes the header, phase 3 updates the stream, appends the payload and delivers the message
  if it is complete.

  The result lemmas say what one call does on every path: an error or a request for more data
  leaves the buffer and the registry as they were, and otherwise exactly one chunk is consumed.
\<close>

section \<open>Data\<close>

record chunk_message =
  cm_csid :: u32
  cm_fmt :: u8
  cm_timestamp :: u32
  cm_msg_length :: u32
  cm_msg_type_id :: u8
  cm_msg_stream_id :: u32
  cm_is_complete :: bool

definition chunk_message_default :: chunk_message where
  "chunk_message_default = \<lparr>cm_csid = 0, cm_fmt = 0, cm_timestamp = 0, cm_msg_length = 0,
     cm_msg_type_id = 0, cm_msg_stream_id = 0, cm_is_complete = False\<rparr>"

text \<open>
  What \<open>chunk_read\<close> is given by mutable reference. The out-parameters \<open>payload\<close> and
  \<open>payload_len\<close> together denote a byte string, \<open>rs_payload\<close>.
\<close>

record read_state =
  rs_buf :: buffer
  rs_reg :: chunk_registry
  rs_msg :: chunk_message
  rs_payload :: bytes

text \<open>What phase 1 settles before any byte is consumed.\<close>

record chunk_plan =
  cp_fmt :: u8
  cp_csid :: u32
  cp_header_size :: nat
  cp_ext_ts :: bool
  cp_total_header :: nat
  cp_to_read :: nat

record chunk_header =
  ch_timestamp :: u32
  ch_msg_length :: u32
  ch_msg_type_id :: u8
  ch_msg_stream_id :: u32

section \<open>Phase 1: decide by peeking\<close>

text \<open>Phase 1 has two early exits, \<open>Err\<close> and \<open>Ok(0)\<close> (here \<open>Inr None\<close>).\<close>

definition bindP :: "'a option result \<Rightarrow> ('a \<Rightarrow> 'b option result) \<Rightarrow> 'b option result" where
  "bindP r f = (case r of Inl e \<Rightarrow> Inl e | Inr None \<Rightarrow> Inr None | Inr (Some x) \<Rightarrow> f x)"

definition peek_u24 :: "bytes \<Rightarrow> nat \<Rightarrow> u32 result" where
  "peek_u24 p off =
     bindR (idx p off) (\<lambda>b0. bindR (idx p (off + 1)) (\<lambda>b1. bindR (idx p (off + 2)) (\<lambda>b2.
       Inr (u24_be b0 b1 b2))))"

definition chunk_basic_header :: "nat \<Rightarrow> bytes \<Rightarrow> (u8 \<times> u32 \<times> nat) option result" where
  "chunk_basic_header available peek =
     bindR (idx peek 0) (\<lambda>first.
       let fmt = drop_bit 6 first; csid_low = (ucast (first AND 0x3F) :: u32) in
       if csid_low = 0 then
         (if available < 2 then Inr None
          else bindR (idx peek 1) (\<lambda>b1. Inr (Some (fmt, ucast b1 + 64, 2))))
       else if csid_low = 1 then
         (if available < 3 then Inr None
          else bindR (idx peek 1) (\<lambda>b1. bindR (idx peek 2) (\<lambda>b2.
            Inr (Some (fmt, (ucast b1 OR push_bit 8 (ucast b2)) + 64, 3)))))
       else Inr (Some (fmt, csid_low, 1)))"

definition msg_field_size :: "u8 \<Rightarrow> nat result" where
  "msg_field_size fmt =
     (if fmt = 0 then Inr 11 else if fmt = 1 then Inr 7 else if fmt = 2 then Inr 3
      else if fmt = 3 then Inr 0 else err EChunk)"

text \<open>A condition on the stream of the chunk's id, evaluated only when \<open>c\<close> holds.\<close>

definition stream_test ::
  "bool \<Rightarrow> chunk_stream option result \<Rightarrow> (chunk_stream option \<Rightarrow> bool) \<Rightarrow> bool result" where
  "stream_test c g t = (if c then bindR g (\<lambda>s. Inr (t s)) else Inr False)"

text \<open>\<open>reg.get(csid).map(f).ok_or(ErrorCode::Chunk)?\<close>\<close>

definition stream_field ::
  "chunk_stream option result \<Rightarrow> (chunk_stream \<Rightarrow> 'a) \<Rightarrow> 'a result" where
  "stream_field g f = bindR g (\<lambda>s. case s of Some st \<Rightarrow> Inr (f st) | None \<Rightarrow> err EChunk)"

text \<open>
  From the first byte to the message length: the format, the id, the header sizes, whether an
  extended timestamp follows, and the length the chunk's message has.
\<close>

definition chunk_plan_header ::
  "nat \<Rightarrow> bytes \<Rightarrow> chunk_registry \<Rightarrow> (chunk_plan \<times> u32) option result" where
  "chunk_plan_header available peek reg =
     (if available < 1 then Inr None
      else bindP (chunk_basic_header available peek) (\<lambda>(fmt, csid, header_size).
        bindR (msg_field_size fmt) (\<lambda>field_size.
        let base_needed = header_size + field_size; g = reg_get csid reg in
        if available < base_needed then Inr None
        else bindR (stream_test (fmt \<ge> 2) g (\<lambda>s. s = None)) (\<lambda>unknown.
        if unknown then err EChunk
        else bindR (stream_test (fmt = 2) g
            (\<lambda>s. case s of Some st \<Rightarrow> cs_reassembly_bytes_read st \<noteq> 0 | None \<Rightarrow> False)) (\<lambda>mid.
        if mid then err EChunk
        else bindR (if fmt \<le> 2 then bindR (peek_u24 peek header_size) (\<lambda>ts_raw. Inr (ts_raw \<ge> 0xFFFFFF))
                    else Inr False) (\<lambda>ext_ts_from_header.
        bindR (if fmt = 3 then stream_field g cs_type0_ext_ts else Inr False) (\<lambda>ext_ts_from_stream.
        let ext_ts = (ext_ts_from_header \<or> ext_ts_from_stream);
            total = base_needed + (if ext_ts then 4 else 0) in
        if available < total then Inr None
        else bindR (if fmt = 0 \<or> fmt = 1 then peek_u24 peek (header_size + 3)
                    else stream_field g cs_type0_msg_length) (\<lambda>eff_len.
        Inr (Some (\<lparr>cp_fmt = fmt, cp_csid = csid, cp_header_size = header_size, cp_ext_ts = ext_ts,
                    cp_total_header = total, cp_to_read = 0\<rparr>, eff_len))))))))))"

text \<open>The guard on the reassembly total, evaluated in phase 1 and again in phase 3.\<close>

definition chunk_reassembly_guard :: "u8 \<Rightarrow> u32 \<Rightarrow> nat \<Rightarrow> chunk_registry \<Rightarrow> unit result" where
  "chunk_reassembly_guard fmt csid to_read reg =
     (if to_read > 0 then
        bindR (if fmt \<le> 1
               then bindR (reg_get csid reg) (\<lambda>s.
                 Inr (case s of Some st \<Rightarrow> buf_available (cs_reassembly_buf st) | None \<Rightarrow> 0))
               else Inr 0) (\<lambda>replaced.
          if reg_reassembly_bytes_in_use reg - replaced + to_read > reg_max_reassembly_bytes reg
          then err EChunk else Inr ())
      else Inr ())"

text \<open>The limits of the registry, and whether the payload of this chunk has arrived.\<close>

definition chunk_plan_body ::
  "nat \<Rightarrow> chunk_registry \<Rightarrow> chunk_plan \<times> u32 \<Rightarrow> chunk_plan option result" where
  "chunk_plan_body available reg = (\<lambda>(p, eff_len).
     let fmt = cp_fmt p; csid = cp_csid p; g = reg_get csid reg in
     if eff_len > reg_max_msg_length reg then err EChunk
     else bindR g (\<lambda>s.
       let (chunk_sz, read_so_far) =
             (case s of
                Some st \<Rightarrow> (unat (cs_chunk_size st),
                  if fmt \<le> 1 then 0 else unat (cs_reassembly_bytes_read st))
              | None \<Rightarrow> (unat (reg_default_chunk_size reg), 0));
           to_read = min (unat eff_len - read_so_far) chunk_sz in
       bindR (chunk_reassembly_guard fmt csid to_read reg) (\<lambda>_.
       bindR (stream_test (fmt = 2 \<or> fmt = 3) g
           (\<lambda>s. case s of Some st \<Rightarrow> \<not> cs_has_message_header st | None \<Rightarrow> False)) (\<lambda>no_header.
       if no_header then err EChunk
       else bindR (reg_can_get_or_create csid reg) (\<lambda>can.
       if \<not> can then err EChunk
       else if available < cp_total_header p + to_read then Inr None
       else Inr (Some (p\<lparr>cp_to_read := to_read\<rparr>)))))))"

definition chunk_read_plan ::
  "nat \<Rightarrow> bytes \<Rightarrow> chunk_registry \<Rightarrow> chunk_plan option result" where
  "chunk_read_plan available peek reg =
     bindP (chunk_plan_header available peek reg) (chunk_plan_body available reg)"

section \<open>Phase 2: consume the header\<close>

definition peek_u32_le :: "bytes \<Rightarrow> nat \<Rightarrow> u32 result" where
  "peek_u32_le p off =
     bindR (idx p off) (\<lambda>b0. bindR (idx p (off + 1)) (\<lambda>b1. bindR (idx p (off + 2)) (\<lambda>b2.
       bindR (idx p (off + 3)) (\<lambda>b3. Inr (u32_le b0 b1 b2 b3)))))"

definition chunk_msg_header :: "u8 \<Rightarrow> (buffer, chunk_header) op" where
  "chunk_msg_header fmt =
     (if fmt = 0 then
        bindS (map_errS EIo (buf_read 11)) (\<lambda>mh. liftS (
          bindR (peek_u24 mh 0) (\<lambda>timestamp. bindR (peek_u24 mh 3) (\<lambda>len.
          bindR (idx mh 6) (\<lambda>type_id. bindR (peek_u32_le mh 7) (\<lambda>stream_id.
            Inr \<lparr>ch_timestamp = timestamp, ch_msg_length = len, ch_msg_type_id = type_id,
              ch_msg_stream_id = stream_id\<rparr>))))))
      else if fmt = 1 then
        bindS (map_errS EIo (buf_read 7)) (\<lambda>mh. liftS (
          bindR (peek_u24 mh 0) (\<lambda>timestamp. bindR (peek_u24 mh 3) (\<lambda>len.
          bindR (idx mh 6) (\<lambda>type_id.
            Inr \<lparr>ch_timestamp = timestamp, ch_msg_length = len, ch_msg_type_id = type_id,
              ch_msg_stream_id = 0\<rparr>)))))
      else if fmt = 2 then
        bindS (map_errS EIo (buf_read 3)) (\<lambda>mh. liftS (
          bindR (peek_u24 mh 0) (\<lambda>timestamp.
            Inr \<lparr>ch_timestamp = timestamp, ch_msg_length = 0, ch_msg_type_id = 0,
              ch_msg_stream_id = 0\<rparr>)))
      else if fmt = 3 then
        retS \<lparr>ch_timestamp = 0, ch_msg_length = 0, ch_msg_type_id = 0, ch_msg_stream_id = 0\<rparr>
      else failS (Err EChunk))"

text \<open>The header with \<open>final_timestamp\<close> in place of the 24-bit field.\<close>

definition chunk_consume_header :: "chunk_plan \<Rightarrow> (buffer, chunk_header) op" where
  "chunk_consume_header p =
     thenS (modS (buf_drain (cp_header_size p)))
       (bindS (chunk_msg_header (cp_fmt p)) (\<lambda>h.
          if cp_ext_ts p then
            bindS (map_errS EIo (buf_read 4)) (\<lambda>ts_buf.
            bindS (liftS (ntoh32 ts_buf)) (\<lambda>ts. retS (h\<lparr>ch_timestamp := ts\<rparr>)))
          else retS h))"

section \<open>Phase 3: update the stream and reassemble\<close>

definition zoom_buf :: "(buffer, 'a) op \<Rightarrow> (read_state, 'a) op" where
  "zoom_buf = zoomS rs_buf (\<lambda>b s. s\<lparr>rs_buf := b\<rparr>)"

definition zoom_reg :: "(chunk_registry, 'a) op \<Rightarrow> (read_state, 'a) op" where
  "zoom_reg = zoomS rs_reg (\<lambda>r s. s\<lparr>rs_reg := r\<rparr>)"

text \<open>The \<open>match fmt\<close> that updates the header context of a stream.\<close>

definition chunk_stream_header :: "u8 \<Rightarrow> bool \<Rightarrow> chunk_header \<Rightarrow> chunk_stream \<Rightarrow> chunk_stream" where
  "chunk_stream_header fmt ext_ts h st =
     (if fmt = 0 then st\<lparr>
        cs_has_message_header := True,
        cs_type0_timestamp := ch_timestamp h,
        cs_type0_msg_length := ch_msg_length h,
        cs_type0_msg_type_id := ch_msg_type_id h,
        cs_type0_msg_stream_id := ch_msg_stream_id h,
        cs_type0_ext_ts := ext_ts,
        cs_last_delta := ch_timestamp h\<rparr>
      else if fmt = 1 then st\<lparr>
        cs_has_message_header := True,
        cs_type0_timestamp := cs_type0_timestamp st + ch_timestamp h,
        cs_type0_msg_length := ch_msg_length h,
        cs_type0_msg_type_id := ch_msg_type_id h,
        cs_type0_ext_ts := ext_ts,
        cs_last_delta := ch_timestamp h\<rparr>
      else if fmt = 2 then st\<lparr>
        cs_type0_timestamp := cs_type0_timestamp st + ch_timestamp h,
        cs_type0_ext_ts := ext_ts,
        cs_last_delta := ch_timestamp h\<rparr>
      else if fmt = 3 \<and> cs_reassembly_bytes_read st = 0 then st\<lparr>
        cs_type0_timestamp := cs_type0_timestamp st + cs_last_delta st\<rparr>
      else st)"

definition chunk_restart :: "u8 \<Rightarrow> nat \<Rightarrow> (chunk_registry, unit) op" where
  "chunk_restart fmt i =
     (if fmt = 0 \<or> fmt = 1 then
        thenS (reg_release_stream_reassembly i)
          (reg_upd i (\<lambda>st. st\<lparr>cs_reassembly_bytes_read := 0,
             cs_reassembly_buf := buf_reset (cs_reassembly_buf st)\<rparr>))
      else retS ())"

text \<open>
  Updates the header context; returns the stream as updated and the number of payload bytes
  this chunk carries.
\<close>

definition chunk_update_header ::
  "chunk_plan \<Rightarrow> chunk_header \<Rightarrow> nat \<Rightarrow> (chunk_registry, chunk_stream \<times> nat) op" where
  "chunk_update_header p h i =
     bindS (reg_stream i) (\<lambda>st.
       if (cp_fmt p = 2 \<or> cp_fmt p = 3) \<and> cs_reassembly_bytes_read st = 0 \<and>
          \<not> cs_has_message_header st
       then failS (Err EChunk)
       else
         let st' = chunk_stream_header (cp_fmt p) (cp_ext_ts p) h st;
             remaining = unat (cs_type0_msg_length st') - unat (cs_reassembly_bytes_read st');
             to_read = min remaining (unat (cs_chunk_size st'))
         in thenS (modS (reg_put i st')) (retS (st', to_read)))"

definition chunk_append_payload :: "nat \<Rightarrow> nat \<Rightarrow> (read_state, unit) op" where
  "chunk_append_payload i to_read =
     thenS (zoom_reg (reg_upd i (\<lambda>st.
       if length (cs_chunk_read_scratch st) \<noteq> to_read
       then st\<lparr>cs_chunk_read_scratch := resize (cs_chunk_read_scratch st) to_read\<rparr> else st)))
     (bindS (zoom_buf (map_errS EIo (buf_read to_read))) (\<lambda>chunk_data.
      thenS (zoom_reg (reg_upd i (\<lambda>st. st\<lparr>cs_chunk_read_scratch := chunk_data\<rparr>)))
      (zoom_reg (bindS (reg_stream i) (\<lambda>st.
         case buf_write chunk_data (cs_reassembly_buf st) of (res, b) \<Rightarrow>
           thenS (reg_upd i (\<lambda>st. st\<lparr>cs_reassembly_buf := b\<rparr>))
           (thenS (liftS (map_errR EChunk res))
             (reg_upd i (\<lambda>st. st\<lparr>cs_reassembly_bytes_read :=
                cs_reassembly_bytes_read st + of_nat to_read\<rparr>))))))))"

definition chunk_check_complete :: "nat \<Rightarrow> u32 \<Rightarrow> (chunk_registry, bool) op" where
  "chunk_check_complete i effective_length =
     thenS (reg_upd i (\<lambda>st. st\<lparr>cs_chunk_read_scratch := []\<rparr>))
       (bindS (reg_stream i) (\<lambda>st. retS (cs_reassembly_bytes_read st \<ge> effective_length)))"

definition chunk_deliver :: "chunk_plan \<Rightarrow> chunk_stream \<Rightarrow> nat \<Rightarrow> (read_state, int) op" where
  "chunk_deliver p hdr i =
     thenS (modS (\<lambda>s. s\<lparr>rs_msg := \<lparr>cm_csid = cp_csid p, cm_fmt = cp_fmt p,
       cm_timestamp = cs_type0_timestamp hdr, cm_msg_length = cs_type0_msg_length hdr,
       cm_msg_type_id = cs_type0_msg_type_id hdr, cm_msg_stream_id = cs_type0_msg_stream_id hdr,
       cm_is_complete = True\<rparr>\<rparr>))
     (bindS (zoom_reg (reg_stream i)) (\<lambda>st.
        let released_len = buf_available (cs_reassembly_buf st);
            (taken, b) = buf_take (cs_reassembly_buf st) in
        thenS (zoom_reg (reg_upd i (\<lambda>st. st\<lparr>cs_last_payload := taken, cs_reassembly_buf := b,
          cs_reassembly_bytes_read := 0\<rparr>)))
        (thenS (modS (\<lambda>s. s\<lparr>rs_payload := taken\<rparr>))
        (thenS (zoom_reg (modS (reg_release_reassembly_bytes released_len))) (retS 1)))))"

definition chunk_reassemble :: "chunk_plan \<Rightarrow> chunk_header \<Rightarrow> (read_state, int) op" where
  "chunk_reassemble p h =
     thenS (\<lambda>s. (chunk_reassembly_guard (cp_fmt p) (cp_csid p) (cp_to_read p) (rs_reg s), s))
     (bindS (zoom_reg (reg_get_or_create_index (cp_csid p))) (\<lambda>i.
      thenS (zoom_reg (chunk_restart (cp_fmt p) i))
      (bindS (zoom_reg (chunk_update_header p h i)) (\<lambda>(hdr, to_read).
      thenS (chunk_append_payload i to_read)
      (thenS (zoom_reg (modS (reg_note_reassembly_growth to_read)))
      (bindS (zoom_reg (chunk_check_complete i (cs_type0_msg_length hdr))) (\<lambda>message_complete.
      thenS (zoom_reg (reg_set_stream_reassembling i (\<not> message_complete)))
      (if message_complete then chunk_deliver p hdr i
       else thenS (modS (\<lambda>s. s\<lparr>rs_msg := (rs_msg s)\<lparr>cm_is_complete := False\<rparr>\<rparr>)) (retS 0)))))))))"

definition chunk_read :: "(read_state, int) op" where
  "chunk_read = (\<lambda>s.
     case buf_peek (rs_buf s) of
       Inl e \<Rightarrow> if buf_available (rs_buf s) < 1 then (Inr 0, s) else (Inl e, s)
     | Inr peek \<Rightarrow>
         (case chunk_read_plan (buf_available (rs_buf s)) peek (rs_reg s) of
            Inl e \<Rightarrow> (Inl e, s)
          | Inr None \<Rightarrow> (Inr 0, s)
          | Inr (Some p) \<Rightarrow>
              bindS (zoom_buf (chunk_consume_header p)) (chunk_reassemble p) s))"

definition chunk_read_owned :: "(read_state, int \<times> bytes) op" where
  "chunk_read_owned = 
     bindS chunk_read (\<lambda>rc s.
       if rc = 1 \<and> cm_is_complete (rs_msg s) then
         bindS (liftS (reg_get_mut (cm_csid (rs_msg s)) (rs_reg s))) (\<lambda>slot.
           case slot of
             None \<Rightarrow> retS (rc, [])
           | Some i \<Rightarrow>
               bindS (zoom_reg (reg_stream i)) (\<lambda>st.
                 thenS (zoom_reg (reg_upd i (\<lambda>st. st\<lparr>cs_last_payload := []\<rparr>)))
                   (retS (rc, cs_last_payload st)))) s
       else (Inr (rc, []), s))"

section \<open>Phase 1, on a well-formed registry\<close>

definition u24_at :: "bytes \<Rightarrow> nat \<Rightarrow> u32" where
  "u24_at c off = u24_be (c ! off) (c ! (off + 1)) (c ! (off + 2))"

definition field_size :: "u8 \<Rightarrow> nat" where
  "field_size fmt = (if fmt = 0 then 11 else if fmt = 1 then 7 else if fmt = 2 then 3 else 0)"

lemma peek_u24_ok [simp]: "off + 2 < length c \<Longrightarrow> peek_u24 c off = Inr (u24_at c off)"
  by (simp add: peek_u24_def u24_at_def)

lemma bindP_simps [simp]:
  "bindP (Inr (Some x)) f = f x" "bindP (Inr None) f = Inr None" "bindP (Inl e) f = Inl e"
  by (simp_all add: bindP_def)

lemma bindP_eq_Some: "bindP r f = Inr (Some y) \<longleftrightarrow> (\<exists>x. r = Inr (Some x) \<and> f x = Inr (Some y))"
  by (auto simp: bindP_def split: sum.splits option.splits)

lemma bindP_no_panic: "(\<And>x. f x \<noteq> panic) \<Longrightarrow> r \<noteq> panic \<Longrightarrow> bindP r f \<noteq> panic"
  by (auto simp: bindP_def split: sum.splits option.splits)

lemma stream_test_simps [simp]:
  "stream_test False g t = Inr False" "stream_test c (Inr s) t = Inr (c \<and> t s)"
  by (simp_all add: stream_test_def)

lemma stream_field_simps [simp]:
  "stream_field (Inr (Some st)) f = Inr (f st)" "stream_field (Inr None) f = err EChunk"
  by (simp_all add: stream_field_def)

lemma u8_le_one [simp]: "\<not> (2 :: u8) \<le> 1" "\<not> (3 :: u8) \<le> 1"
  by (simp_all add: word_le_nat_alt)

lemma fmt_cases:
  fixes fmt :: u8
  assumes "fmt \<le> 3"
  obtains "fmt = 0" | "fmt = 1" | "fmt = 2" | "fmt = 3"
proof -
  have "unat fmt \<le> 3" using assms by (simp add: word_le_nat_alt)
  then have "unat fmt = 0 \<or> unat fmt = 1 \<or> unat fmt = 2 \<or> unat fmt = 3" by arith
  then have "fmt = 0 \<or> fmt = 1 \<or> fmt = 2 \<or> fmt = 3"
    by (auto simp: word_unat_eq_iff)
  then show thesis using that by blast
qed

lemma drop_bit_6_le: "drop_bit 6 (b :: u8) \<le> 3"
proof -
  have "unat (drop_bit 6 b) = unat b div 64" by (simp add: drop_bit_eq_div unat_div)
  also have "unat b < 2 ^ LENGTH(8)" by (rule unsigned_less)
  then have "unat b div 64 \<le> 3" by simp
  finally show ?thesis by (simp add: word_le_nat_alt)
qed

lemma chunk_basic_header_total:
  assumes "peek \<noteq> []"
  shows "chunk_basic_header (length peek) peek = Inr None \<or>
    (\<exists>fmt csid hs. chunk_basic_header (length peek) peek = Inr (Some (fmt, csid, hs)) \<and>
       fmt \<le> 3 \<and> 1 \<le> hs \<and> hs \<le> 3 \<and> hs \<le> length peek)"
  using assms drop_bit_6_le [of "peek ! 0"]
  by (auto simp: chunk_basic_header_def Let_def Suc_le_eq)

lemma chunk_plan_header_eq:
  assumes reg: "reg_inv reg" and peek: "peek \<noteq> []" and fmt: "fmt \<le> 3"
    and hdr: "chunk_basic_header (length peek) peek = Inr (Some (fmt, csid, hs))"
  shows "chunk_plan_header (length peek) peek reg =
    (let base = hs + field_size fmt; st = stream_of reg csid;
         ext = (if fmt \<le> 2 then u24_at peek hs \<ge> 0xFFFFFF else cs_type0_ext_ts (the st));
         total = base + (if ext then 4 else 0)
     in if length peek < base then Inr None
        else if fmt \<ge> 2 \<and> st = None then err EChunk
        else if fmt = 2 \<and> cs_reassembly_bytes_read (the st) \<noteq> 0 then err EChunk
        else if length peek < total then Inr None
        else Inr (Some (\<lparr>cp_fmt = fmt, cp_csid = csid, cp_header_size = hs, cp_ext_ts = ext,
               cp_total_header = total, cp_to_read = 0\<rparr>,
             if fmt \<le> 1 then u24_at peek (hs + 3) else cs_type0_msg_length (the st))))"
proof -
  have ne: "\<not> length peek < 1" using peek by (simp add: Suc_le_eq)
  note unf = chunk_plan_header_def hdr reg_get_stream_of [OF reg] Let_def msg_field_size_def
    field_size_def
  show ?thesis
    using fmt
  proof (cases rule: fmt_cases)
    case 1
    with ne show ?thesis by (simp add: unf)
  next
    case 2
    with ne show ?thesis by (simp add: unf)
  next
    case 3
    with ne show ?thesis by (cases "stream_of reg csid") (simp_all add: unf)
  next
    case 4
    with ne show ?thesis by (cases "stream_of reg csid") (simp_all add: unf)
  qed
qed

lemma chunk_reassembly_guard_eq:
  assumes "reg_inv reg"
  shows "chunk_reassembly_guard fmt csid n reg =
    (if n > 0 \<and> reg_reassembly_bytes_in_use reg
          - (if fmt \<le> 1 then partial_bytes (opened reg csid) else 0) + n
        > reg_max_reassembly_bytes reg
     then err EChunk else Inr ())"
proof (cases "stream_of reg csid")
  case None
  then show ?thesis
    by (simp add: chunk_reassembly_guard_def reg_get_stream_of [OF assms] opened_def)
next
  case (Some st)
  with stream_of_inv [OF assms Some] show ?thesis
    by (simp add: chunk_reassembly_guard_def reg_get_stream_of [OF assms] opened_def
        buf_available_stream_inv)
qed

lemma chunk_plan_body_eq:
  assumes reg: "reg_inv reg"
  shows "chunk_plan_body available reg (p, len) =
    (let st = opened reg (cp_csid p);
         read_so_far = (if cp_fmt p \<le> 1 then 0 else unat (cs_reassembly_bytes_read st));
         to_read = min (unat len - read_so_far) (unat (cs_chunk_size st))
     in if len > reg_max_msg_length reg then err EChunk
        else if to_read > 0 \<and> reg_reassembly_bytes_in_use reg
            - (if cp_fmt p \<le> 1 then partial_bytes st else 0) + to_read > reg_max_reassembly_bytes reg
          then err EChunk
        else if (cp_fmt p = 2 \<or> cp_fmt p = 3) \<and> stream_of reg (cp_csid p) \<noteq> None \<and>
            \<not> cs_has_message_header st then err EChunk
        else if \<not> can_open reg (cp_csid p) then err EChunk
        else if available < cp_total_header p + to_read then Inr None
        else Inr (Some (p\<lparr>cp_to_read := to_read\<rparr>)))"
  by (cases "stream_of reg (cp_csid p)")
    (simp_all add: chunk_plan_body_def reg_get_stream_of [OF reg] Let_def opened_def
      chunk_reassembly_guard_eq [OF reg] reg_can_get_or_create_eq [OF reg])

text \<open>What a plan that goes ahead is about.\<close>

definition plan_ok :: "bytes \<Rightarrow> chunk_registry \<Rightarrow> chunk_plan \<Rightarrow> bool" where
  "plan_ok c reg p \<longleftrightarrow>
     (let st = opened reg (cp_csid p);
          len = (if cp_fmt p \<le> 1 then u24_at c (cp_header_size p + 3) else cs_type0_msg_length st);
          read_so_far = (if cp_fmt p \<le> 1 then 0 else unat (cs_reassembly_bytes_read st)) in
      cp_fmt p \<le> 3 \<and> 1 \<le> cp_header_size p \<and>
      cp_total_header p = cp_header_size p + field_size (cp_fmt p) + (if cp_ext_ts p then 4 else 0) \<and>
      cp_ext_ts p = (if cp_fmt p \<le> 2 then u24_at c (cp_header_size p) \<ge> 0xFFFFFF
                     else cs_type0_ext_ts st) \<and>
      (cp_fmt p \<ge> 2 \<longrightarrow> cs_has_message_header st) \<and>
      (cp_fmt p = 2 \<longrightarrow> cs_reassembly_bytes_read st = 0) \<and>
      len \<le> reg_max_msg_length reg \<and>
      cp_to_read p = min (unat len - read_so_far) (unat (cs_chunk_size st)) \<and>
      (cp_to_read p > 0 \<longrightarrow>
        reg_reassembly_bytes_in_use reg - (if cp_fmt p \<le> 1 then partial_bytes st else 0) + cp_to_read p
          \<le> reg_max_reassembly_bytes reg) \<and>
      can_open reg (cp_csid p) \<and>
      cp_total_header p + cp_to_read p \<le> length c)"

lemma guarded_eq_Inr:
  "(if c then Inl e else X) = Inr y \<longleftrightarrow> \<not> c \<and> X = Inr y"
  "(if c then Inr None else Z) = Inr (Some y) \<longleftrightarrow> \<not> c \<and> Z = Inr (Some y)"
  by simp_all

lemma chunk_plan_headerD:
  assumes reg: "reg_inv reg" and peek: "peek \<noteq> []" and fmt: "fmt \<le> 3"
    and hdr: "chunk_basic_header (length peek) peek = Inr (Some (fmt, csid, hs))"
    and q: "chunk_plan_header (length peek) peek reg = Inr (Some (q, len))"
  shows "cp_fmt q = fmt" "cp_csid q = csid" "cp_header_size q = hs"
    "cp_ext_ts q = (if fmt \<le> 2 then u24_at peek hs \<ge> 0xFFFFFF
       else cs_type0_ext_ts (opened reg csid))"
    "cp_total_header q = hs + field_size fmt + (if cp_ext_ts q then 4 else 0)"
    "len = (if fmt \<le> 1 then u24_at peek (hs + 3) else cs_type0_msg_length (opened reg csid))"
    "fmt \<ge> 2 \<Longrightarrow> stream_of reg csid \<noteq> None"
    "fmt = 2 \<Longrightarrow> cs_reassembly_bytes_read (opened reg csid) = 0"
proof -
  define ext where "ext = (if fmt \<le> 2 then u24_at peek hs \<ge> 0xFFFFFF
    else cs_type0_ext_ts (the (stream_of reg csid)))"
  note q' = q [unfolded chunk_plan_header_eq [OF reg peek fmt hdr] Let_def ext_def [symmetric]
      guarded_eq_Inr]
  show known: "fmt \<ge> 2 \<Longrightarrow> stream_of reg csid \<noteq> None"
    using q' by simp
  have st: "opened reg csid = the (stream_of reg csid)" if "fmt \<ge> 2"
    using known [OF that] by (auto simp: opened_def)
  have fmt2: "\<not> fmt \<le> 2 \<Longrightarrow> fmt \<ge> 2" "\<not> fmt \<le> 1 \<Longrightarrow> fmt \<ge> 2"
    using fmt by (cases rule: fmt_cases; simp)+
  have q'': "q = \<lparr>cp_fmt = fmt, cp_csid = csid, cp_header_size = hs, cp_ext_ts = ext,
      cp_total_header = hs + field_size fmt + (if ext then 4 else 0), cp_to_read = 0\<rparr>"
    "len = (if fmt \<le> 1 then u24_at peek (hs + 3) else cs_type0_msg_length (the (stream_of reg csid)))"
    using q' by simp_all
  from q'' show "cp_fmt q = fmt" "cp_csid q = csid" "cp_header_size q = hs"
    "cp_total_header q = hs + field_size fmt + (if cp_ext_ts q then 4 else 0)"
    by simp_all
  show "cp_ext_ts q = (if fmt \<le> 2 then u24_at peek hs \<ge> 0xFFFFFF
       else cs_type0_ext_ts (opened reg csid))"
    using q''(1) st fmt2 by (simp add: ext_def)
  show "len = (if fmt \<le> 1 then u24_at peek (hs + 3) else cs_type0_msg_length (opened reg csid))"
    using q''(2) st fmt2 by simp
  show "fmt = 2 \<Longrightarrow> cs_reassembly_bytes_read (opened reg csid) = 0"
    using q' st by simp
qed

lemma chunk_read_plan_ok:
  assumes reg: "reg_inv reg" and plan: "chunk_read_plan (length c) c reg = Inr (Some p)"
  shows "plan_ok c reg p"
proof -
  from plan obtain q len where
    q: "chunk_plan_header (length c) c reg = Inr (Some (q, len))"
    and b: "chunk_plan_body (length c) reg (q, len) = Inr (Some p)"
    by (auto simp: chunk_read_plan_def bindP_eq_Some)
  have ne: "c \<noteq> []"
  proof
    assume "c = []"
    with q show False by (simp add: chunk_plan_header_def)
  qed
  have "chunk_basic_header (length c) c \<noteq> Inr None"
  proof
    assume "chunk_basic_header (length c) c = Inr None"
    with q ne show False by (simp add: chunk_plan_header_def)
  qed
  with chunk_basic_header_total [OF ne] obtain fmt csid hs where
    h: "chunk_basic_header (length c) c = Inr (Some (fmt, csid, hs))" "fmt \<le> 3" "1 \<le> hs"
    by blast
  note q' = chunk_plan_headerD [OF reg ne h(2,1) q]
  define n where "n = min (unat len - (if fmt \<le> 1 then 0
    else unat (cs_reassembly_bytes_read (opened reg csid)))) (unat (cs_chunk_size (opened reg csid)))"
  note b' = b [unfolded chunk_plan_body_eq [OF reg] Let_def q'(1,2) n_def [symmetric]
      guarded_eq_Inr]
  have p: "p = q\<lparr>cp_to_read := n\<rparr>" and lim: "len \<le> reg_max_msg_length reg" "can_open reg csid"
    "cp_total_header q + n \<le> length c"
    using b' by (simp_all add: not_less)
  have mem: "0 < n \<longrightarrow> reg_reassembly_bytes_in_use reg
      - (if fmt \<le> 1 then partial_bytes (opened reg csid) else 0) + n \<le> reg_max_reassembly_bytes reg"
    using b' by (auto simp: not_less)
  have "fmt = 2 \<or> fmt = 3" if "fmt \<ge> 2"
    using h(2) that by (cases rule: fmt_cases) simp_all
  then have prior: "fmt \<ge> 2 \<longrightarrow> cs_has_message_header (opened reg csid)"
    using b' q'(7) by blast
  show ?thesis
    unfolding plan_ok_def Let_def p
    by (cases "fmt \<le> 1"; intro conjI; use h(2,3) q' lim mem prior in \<open>simp add: n_def\<close>)
qed

lemma plan_okD:
  assumes "plan_ok c reg p"
  shows "cp_fmt p \<le> 3" "1 \<le> cp_header_size p"
    "cp_total_header p = cp_header_size p + field_size (cp_fmt p) + (if cp_ext_ts p then 4 else 0)"
    "cp_total_header p + cp_to_read p \<le> length c" "can_open reg (cp_csid p)"
    "cp_to_read p > 0 \<longrightarrow> reg_reassembly_bytes_in_use reg
        - (if cp_fmt p \<le> 1 then partial_bytes (opened reg (cp_csid p)) else 0) + cp_to_read p
      \<le> reg_max_reassembly_bytes reg"
    "(if cp_fmt p \<le> 1 then u24_at c (cp_header_size p + 3)
      else cs_type0_msg_length (opened reg (cp_csid p))) \<le> reg_max_msg_length reg"
  using assms unfolding plan_ok_def Let_def by blast+

lemma chunk_read_plan_no_panic:
  assumes reg: "reg_inv reg"
  shows "chunk_read_plan (length c) c reg \<noteq> panic"
proof (cases "c = []")
  case True
  then show ?thesis by (simp add: chunk_read_plan_def chunk_plan_header_def)
next
  case False
  have body: "chunk_plan_body n reg ql \<noteq> panic" for n ql
    by (cases ql) (simp add: chunk_plan_body_eq [OF reg] Let_def)
  from chunk_basic_header_total [OF False] show ?thesis
  proof (elim disjE exE conjE)
    assume "chunk_basic_header (length c) c = Inr None"
    then show ?thesis by (simp add: chunk_read_plan_def chunk_plan_header_def)
  next
    fix fmt csid hs
    assume h: "chunk_basic_header (length c) c = Inr (Some (fmt, csid, hs))" "fmt \<le> 3"
    have "chunk_plan_header (length c) c reg \<noteq> panic"
      unfolding chunk_plan_header_eq [OF reg False h(2,1)] by (simp add: Let_def)
    with body show ?thesis
      unfolding chunk_read_plan_def by (rule bindP_no_panic)
  qed
qed

section \<open>Phase 2 on the contents of the buffer\<close>

definition u32_be_at :: "bytes \<Rightarrow> nat \<Rightarrow> u32" where
  "u32_be_at c off = u32_be (c ! off) (c ! (off + 1)) (c ! (off + 2)) (c ! (off + 3))"

definition u32_le_at :: "bytes \<Rightarrow> nat \<Rightarrow> u32" where
  "u32_le_at c off = u32_le (c ! off) (c ! (off + 1)) (c ! (off + 2)) (c ! (off + 3))"

text \<open>The header fields of the chunk at the front of \<open>c\<close>.\<close>

definition msg_header_at :: "u8 \<Rightarrow> bytes \<Rightarrow> chunk_header" where
  "msg_header_at fmt c = \<lparr>
     ch_timestamp = (if fmt \<le> 2 then u24_at c 0 else 0),
     ch_msg_length = (if fmt \<le> 1 then u24_at c 3 else 0),
     ch_msg_type_id = (if fmt \<le> 1 then c ! 6 else 0),
     ch_msg_stream_id = (if fmt = 0 then u32_le_at c 7 else 0)\<rparr>"

definition header_at :: "chunk_plan \<Rightarrow> bytes \<Rightarrow> chunk_header" where
  "header_at p c =
     (let h = msg_header_at (cp_fmt p) (drop (cp_header_size p) c) in
      if cp_ext_ts p
      then h\<lparr>ch_timestamp := u32_be_at c (cp_header_size p + field_size (cp_fmt p))\<rparr> else h)"

lemma peek_u32_le_ok [simp]: "off + 3 < length c \<Longrightarrow> peek_u32_le c off = Inr (u32_le_at c off)"
  by (simp add: peek_u32_le_def u32_le_at_def)

lemma u24_at_take [simp]: "off + 2 < n \<Longrightarrow> u24_at (take n c) off = u24_at c off"
  by (simp add: u24_at_def)

lemma u32_le_at_take [simp]: "off + 3 < n \<Longrightarrow> u32_le_at (take n c) off = u32_le_at c off"
  by (simp add: u32_le_at_def)

lemma chunk_msg_header_ok:
  assumes b: "buf_inv b" and fmt: "fmt \<le> 3" and len: "field_size fmt \<le> length (contents b)"
  obtains b' where "chunk_msg_header fmt b = (Inr (msg_header_at fmt (contents b)), b')"
    "buf_inv b'" "contents b' = drop (field_size fmt) (contents b)"
proof -
  note rd = bq.read_ok [OF b len]
  have len': "length (take (field_size fmt) (contents b)) = field_size fmt"
    using len by simp
  have "\<exists>b'. chunk_msg_header fmt b = (Inr (msg_header_at fmt (contents b)), b') \<and> buf_inv b' \<and>
    contents b' = drop (field_size fmt) (contents b)"
    using fmt
  proof (cases rule: fmt_cases)
    case 1
    with rd len' b show ?thesis
      by (auto simp: chunk_msg_header_def msg_header_at_def field_size_def)
  next
    case 2
    with rd len' b show ?thesis
      by (auto simp: chunk_msg_header_def msg_header_at_def field_size_def)
  next
    case 3
    with rd len' b show ?thesis
      by (auto simp: chunk_msg_header_def msg_header_at_def field_size_def)
  next
    case 4
    with b show ?thesis
      by (auto simp: chunk_msg_header_def msg_header_at_def field_size_def)
  qed
  with that show thesis by blast
qed

lemma ntoh32_take: "4 \<le> length c \<Longrightarrow> ntoh32 (take 4 c) = Inr (u32_be_at c 0)"
  by (simp add: ntoh32_def u32_be_at_def numeral_2_eq_2)

lemma chunk_consume_header_ok:
  assumes b: "buf_inv b" and fmt: "cp_fmt p \<le> 3"
    and total: "cp_total_header p =
      cp_header_size p + field_size (cp_fmt p) + (if cp_ext_ts p then 4 else 0)"
    and len: "cp_total_header p \<le> length (contents b)"
  obtains b' where "chunk_consume_header p b = (Inr (header_at p (contents b)), b')"
    "buf_inv b'" "contents b' = drop (cp_total_header p) (contents b)"
proof -
  let ?hs = "cp_header_size p" and ?fs = "field_size (cp_fmt p)"
  have b1: "buf_inv (buf_drain ?hs b)" "contents (buf_drain ?hs b) = drop ?hs (contents b)"
    using b by (rule buf_drain_contents)+
  obtain b2 where b2: "chunk_msg_header (cp_fmt p) (buf_drain ?hs b) =
      (Inr (msg_header_at (cp_fmt p) (contents (buf_drain ?hs b))), b2)"
    "buf_inv b2" "contents b2 = drop ?fs (contents (buf_drain ?hs b))"
  proof (rule chunk_msg_header_ok [OF b1(1) fmt])
    show "?fs \<le> length (contents (buf_drain ?hs b))" using total len b1(2) by simp
  qed
  have c2: "contents b2 = drop (?hs + ?fs) (contents b)"
    using b1 b2 by (simp add: add.commute)
  show thesis
  proof (cases "cp_ext_ts p")
    case False
    show thesis
      by (rule that [of b2]) (use False b1 b2 c2 total in
          \<open>simp_all add: chunk_consume_header_def header_at_def Let_def op_simps\<close>)
  next
    case True
    then have l4: "4 \<le> length (contents b2)" using total len c2 by simp
    obtain b3 where b3: "buf_read 4 b2 = (Inr (take 4 (contents b2)), b3)" "buf_inv b3"
      "contents b3 = drop 4 (contents b2)"
      using bq.read_ok [OF b2(2) l4] by blast
    have ts: "ntoh32 (take 4 (contents b2)) = Inr (u32_be_at (contents b) (?hs + ?fs))"
      using l4 by (simp add: ntoh32_take) (simp add: c2 u32_be_at_def add.assoc)
    show thesis
      by (rule that [of b3]) (use True b1 b2 b3 c2 ts total in
          \<open>simp_all add: chunk_consume_header_def header_at_def Let_def op_simps add.commute\<close>)
  qed
qed

section \<open>Phase 3 on the stream of the chunk\<close>

text \<open>A registry seen through one slot: the slot's stream and the two running totals.\<close>

definition reg_at :: "chunk_registry \<Rightarrow> nat \<Rightarrow> chunk_stream \<Rightarrow> nat \<Rightarrow> nat \<Rightarrow> chunk_registry" where
  "reg_at r i st bytes_used active = r\<lparr>reg_streams := (reg_streams r)[i := st],
     reg_reassembly_bytes_in_use := bytes_used, reg_reassembling_count := active\<rparr>"

lemma reg_at_self:
  "r = reg_at r i (reg_streams r ! i) (reg_reassembly_bytes_in_use r) (reg_reassembling_count r)"
  by (simp add: reg_at_def)

lemma reassembling_same:
  "cs_reassembling st \<Longrightarrow> st\<lparr>cs_reassembling := True\<rparr> = st"
  "\<not> cs_reassembling st \<Longrightarrow> st\<lparr>cs_reassembling := False\<rparr> = st"
  by simp_all

lemma reg_at_ops [simp]:
  assumes "i < length (reg_streams r)"
  shows "reg_stream i (reg_at r i st b c) = (Inr st, reg_at r i st b c)"
    "reg_upd i f (reg_at r i st b c) = (Inr (), reg_at r i (f st) b c)"
    "reg_put i st' (reg_at r i st b c) = reg_at r i st' b c"
    "reg_release_reassembly_bytes n (reg_at r i st b c) = reg_at r i st (b - n) c"
    "reg_note_reassembly_growth n (reg_at r i st b c) = reg_at r i st (sat_add b n) c"
    "reg_set_stream_reassembling i v (reg_at r i st b c) =
      (Inr (), reg_at r i (st\<lparr>cs_reassembling := v\<rparr>) b
         (if cs_reassembling st = v then c else if v then c + 1 else c - 1))"
  using assms
  by (auto simp: reg_at_def reg_stream_def reg_upd_def reg_put_def op_simps
      reg_release_reassembly_bytes_def reg_note_reassembly_growth_def
      reg_set_stream_reassembling_def reassembling_same)

lemma zoom_reg_apply [op_simps]:
  "zoom_reg m s = (case m (rs_reg s) of (x, r) \<Rightarrow> (x, s\<lparr>rs_reg := r\<rparr>))"
  by (simp add: zoom_reg_def zoomS_def)

lemma zoom_buf_apply [op_simps]:
  "zoom_buf m s = (case m (rs_buf s) of (x, b) \<Rightarrow> (x, s\<lparr>rs_buf := b\<rparr>))"
  by (simp add: zoom_buf_def zoomS_def)

text \<open>The stream as the chunk's header leaves it, before its payload is appended.\<close>

definition chunk_started :: "u8 \<Rightarrow> chunk_stream \<Rightarrow> chunk_stream" where
  "chunk_started fmt st =
     (if fmt = 0 \<or> fmt = 1 then st\<lparr>cs_reassembly_bytes_read := 0,
        cs_reassembly_buf := buf_reset (cs_reassembly_buf st)\<rparr> else st)"

definition headed :: "chunk_plan \<Rightarrow> chunk_header \<Rightarrow> chunk_stream \<Rightarrow> chunk_stream" where
  "headed p h st = chunk_stream_header (cp_fmt p) (cp_ext_ts p) h (chunk_started (cp_fmt p) st)"

text \<open>The partial message after the payload, whether it is complete, and the stream at the end.\<close>

definition grown :: "chunk_stream \<Rightarrow> bytes \<Rightarrow> chunk_stream" where
  "grown st d = st\<lparr>cs_reassembly_buf := snd (buf_write d (cs_reassembly_buf st)),
     cs_reassembly_bytes_read := cs_reassembly_bytes_read st + of_nat (length d)\<rparr>"

definition completes :: "chunk_stream \<Rightarrow> bool" where
  "completes st \<longleftrightarrow> cs_reassembly_bytes_read st \<ge> cs_type0_msg_length st"

definition settled :: "chunk_stream \<Rightarrow> chunk_stream" where
  "settled st =
     (if completes st then st\<lparr>cs_chunk_read_scratch := [], cs_reassembling := False,
        cs_last_payload := fst (buf_take (cs_reassembly_buf st)),
        cs_reassembly_buf := snd (buf_take (cs_reassembly_buf st)), cs_reassembly_bytes_read := 0\<rparr>
      else st\<lparr>cs_chunk_read_scratch := [], cs_reassembling := True\<rparr>)"

definition delivered :: "chunk_plan \<Rightarrow> chunk_stream \<Rightarrow> read_state \<Rightarrow> read_state" where
  "delivered p st s =
     (if completes st then s\<lparr>rs_msg := \<lparr>cm_csid = cp_csid p, cm_fmt = cp_fmt p,
          cm_timestamp = cs_type0_timestamp st, cm_msg_length = cs_type0_msg_length st,
          cm_msg_type_id = cs_type0_msg_type_id st, cm_msg_stream_id = cs_type0_msg_stream_id st,
          cm_is_complete = True\<rparr>, rs_payload := fst (buf_take (cs_reassembly_buf st))\<rparr>
      else s\<lparr>rs_msg := (rs_msg s)\<lparr>cm_is_complete := False\<rparr>\<rparr>)"

lemma chunk_stream_header_frame [simp]:
  "cs_csid (chunk_stream_header fmt ext h st) = cs_csid st"
  "cs_chunk_size (chunk_stream_header fmt ext h st) = cs_chunk_size st"
  "cs_reassembly_bytes_read (chunk_stream_header fmt ext h st) = cs_reassembly_bytes_read st"
  "cs_reassembly_buf (chunk_stream_header fmt ext h st) = cs_reassembly_buf st"
  "cs_chunk_read_scratch (chunk_stream_header fmt ext h st) = cs_chunk_read_scratch st"
  "cs_last_payload (chunk_stream_header fmt ext h st) = cs_last_payload st"
  "cs_reassembling (chunk_stream_header fmt ext h st) = cs_reassembling st"
  "cs_in_use (chunk_stream_header fmt ext h st) = cs_in_use st"
  by (simp_all add: chunk_stream_header_def)

lemma chunk_append_payload_ok:
  assumes i: "i < length (reg_streams r)" and b: "buf_inv (rs_buf s)"
    and n: "n \<le> length (contents (rs_buf s))" and rb: "buf_inv (cs_reassembly_buf st)"
    and room: "buf_room (cs_reassembly_buf st) n" and s: "rs_reg s = reg_at r i st u c"
  obtains b' where "buf_inv b'" "contents b' = drop n (contents (rs_buf s))"
    "chunk_append_payload i n s = (Inr (), s\<lparr>rs_buf := b',
       rs_reg := reg_at r i (grown (st\<lparr>cs_chunk_read_scratch := take n (contents (rs_buf s))\<rparr>)
         (take n (contents (rs_buf s)))) u c\<rparr>)"
proof -
  let ?d = "take n (contents (rs_buf s))"
  obtain b' where b': "buf_read n (rs_buf s) = (Inr ?d, b')" "buf_inv b'"
    "contents b' = drop n (contents (rs_buf s))"
    using bq.read_ok [OF b n] by blast
  have len: "length ?d = n" using n by simp
  obtain b2 where b2: "buf_write ?d (cs_reassembly_buf st) = (Inr n, b2)"
    using bq.write_ok [OF rb, of ?d] room len by auto
  have "chunk_append_payload i n s = (Inr (), s\<lparr>rs_buf := b',
      rs_reg := reg_at r i (grown (st\<lparr>cs_chunk_read_scratch := ?d\<rparr>) ?d) u c\<rparr>)"
    using i b'(1) b2 len by (simp add: chunk_append_payload_def op_simps s grown_def)
  with b' that show thesis by blast
qed

lemma headed_frame [simp]:
  "cs_csid (headed p h st) = cs_csid st" "cs_chunk_size (headed p h st) = cs_chunk_size st"
  "cs_last_payload (headed p h st) = cs_last_payload st"
  "cs_chunk_read_scratch (headed p h st) = cs_chunk_read_scratch st"
  "cs_reassembling (headed p h st) = cs_reassembling st"
  "cs_in_use (headed p h st) = cs_in_use st"
  by (simp_all add: headed_def chunk_started_def)

lemma headed_read:
  "cs_reassembly_bytes_read (headed p h st) =
    (if cp_fmt p \<le> 1 then 0 else cs_reassembly_bytes_read st)" if "cp_fmt p \<le> 3"
  using that by (cases rule: fmt_cases) (simp_all add: headed_def chunk_started_def)

lemma headed_contents:
  "contents (cs_reassembly_buf (headed p h st)) =
    (if cp_fmt p \<le> 1 then [] else contents (cs_reassembly_buf st))" if "cp_fmt p \<le> 3"
  using that by (cases rule: fmt_cases) (simp_all add: headed_def chunk_started_def)

lemma headed_length:
  "cs_type0_msg_length (headed p h st) =
    (if cp_fmt p \<le> 1 then ch_msg_length h else cs_type0_msg_length st)" if "cp_fmt p \<le> 3"
  using that
  by (cases rule: fmt_cases) (simp_all add: headed_def chunk_started_def chunk_stream_header_def)

lemma headed_has_header:
  "cs_has_message_header (headed p h st) = (cp_fmt p \<le> 1 \<or> cs_has_message_header st)"
  if "cp_fmt p \<le> 3"
  using that
  by (cases rule: fmt_cases) (simp_all add: headed_def chunk_started_def chunk_stream_header_def)

lemma headed_buf:
  assumes "buf_inv (cs_reassembly_buf st)" "buf_owned (cs_reassembly_buf st)"
  shows "buf_inv (cs_reassembly_buf (headed p h st))" "buf_owned (cs_reassembly_buf (headed p h st))"
  using assms by (simp_all add: headed_def chunk_started_def)

text \<open>
  A stream to which the payload of one chunk can be added: what phase 1 has established when
  phase 3 begins.
\<close>

definition ready_stream :: "chunk_plan \<Rightarrow> chunk_header \<Rightarrow> chunk_stream \<Rightarrow> bool" where
  "ready_stream p h st \<longleftrightarrow> stream_inv st \<and> cp_fmt p \<le> 3 \<and>
     (cp_fmt p \<ge> 2 \<longrightarrow> cs_has_message_header st) \<and>
     cs_type0_msg_length (headed p h st) \<le> RTMP_WIRE_MAX_MSG_LENGTH \<and>
     cp_to_read p = min (unat (cs_type0_msg_length (headed p h st))
       - unat (cs_reassembly_bytes_read (headed p h st))) (unat (cs_chunk_size st))"

lemma ready_bound:
  assumes "ready_stream p h st"
  shows "length (contents (cs_reassembly_buf (headed p h st))) =
      unat (cs_reassembly_bytes_read (headed p h st))"
    "unat (cs_reassembly_bytes_read (headed p h st)) + cp_to_read p
      \<le> unat (cs_type0_msg_length (headed p h st))"
    "unat (cs_type0_msg_length (headed p h st)) \<le> 0xFFFFFF"
    "buf_inv (cs_reassembly_buf (headed p h st))" "buf_owned (cs_reassembly_buf (headed p h st))"
proof -
  have fmt: "cp_fmt p \<le> 3" and st: "stream_inv st" using assms by (simp_all add: ready_stream_def)
  show "length (contents (cs_reassembly_buf (headed p h st))) =
      unat (cs_reassembly_bytes_read (headed p h st))"
    using st by (simp add: headed_contents headed_read fmt stream_inv_def)
  have "unat (cs_reassembly_bytes_read (headed p h st)) \<le> unat (cs_type0_msg_length (headed p h st))"
    using st by (auto simp: headed_read headed_length fmt stream_inv_def word_less_nat_alt)
  then show "unat (cs_reassembly_bytes_read (headed p h st)) + cp_to_read p
      \<le> unat (cs_type0_msg_length (headed p h st))"
    using assms by (simp add: ready_stream_def)
  show "unat (cs_type0_msg_length (headed p h st)) \<le> 0xFFFFFF"
    using assms by (simp add: ready_stream_def const_simps word_le_nat_alt)
  show "buf_inv (cs_reassembly_buf (headed p h st))" "buf_owned (cs_reassembly_buf (headed p h st))"
    using st by (simp_all add: headed_buf stream_inv_def)
qed

lemma grown_ok:
  assumes rd: "ready_stream p h st" and d: "length d = cp_to_read p"
  shows "buf_room (cs_reassembly_buf (headed p h st)) (length d)"
    "buf_inv (cs_reassembly_buf (grown (headed p h st) d))"
    "buf_owned (cs_reassembly_buf (grown (headed p h st) d))"
    "contents (cs_reassembly_buf (grown (headed p h st) d)) =
      contents (cs_reassembly_buf (headed p h st)) @ d"
    "unat (cs_reassembly_bytes_read (grown (headed p h st) d)) =
      unat (cs_reassembly_bytes_read (headed p h st)) + length d"
proof -
  note b = ready_bound [OF rd]
  show room: "buf_room (cs_reassembly_buf (headed p h st)) (length d)"
    using b d by (intro buf_room_owned) (simp_all add: BUFFER_MAX_SIZE_def)
  from buf_write_ok [OF b(4) room] obtain b' where
    "buf_write d (cs_reassembly_buf (headed p h st)) = (Inr (length d), b')" "buf_inv b'"
    "contents b' = contents (cs_reassembly_buf (headed p h st)) @ d"
    "buf_owned b' = buf_owned (cs_reassembly_buf (headed p h st))" by blast
  with b(5) show "buf_inv (cs_reassembly_buf (grown (headed p h st) d))"
    "buf_owned (cs_reassembly_buf (grown (headed p h st) d))"
    "contents (cs_reassembly_buf (grown (headed p h st) d)) =
      contents (cs_reassembly_buf (headed p h st)) @ d"
    by (simp_all add: grown_def)
  have "unat (cs_reassembly_bytes_read (headed p h st)) + length d < 2 ^ LENGTH(32)"
    using b d by simp
  then show "unat (cs_reassembly_bytes_read (grown (headed p h st) d)) =
      unat (cs_reassembly_bytes_read (headed p h st)) + length d"
    by (simp add: grown_def unat_word_ariths unat_of_nat take_bit_nat_eq_self)
qed

lemma grown_frame [simp]:
  "cs_csid (grown st d) = cs_csid st" "cs_chunk_size (grown st d) = cs_chunk_size st"
  "cs_has_message_header (grown st d) = cs_has_message_header st"
  "cs_type0_timestamp (grown st d) = cs_type0_timestamp st"
  "cs_type0_msg_length (grown st d) = cs_type0_msg_length st"
  "cs_type0_msg_type_id (grown st d) = cs_type0_msg_type_id st"
  "cs_type0_msg_stream_id (grown st d) = cs_type0_msg_stream_id st"
  "cs_type0_ext_ts (grown st d) = cs_type0_ext_ts st"
  "cs_last_delta (grown st d) = cs_last_delta st" "cs_in_use (grown st d) = cs_in_use st"
  "cs_last_payload (grown st d) = cs_last_payload st"
  "cs_reassembling (grown st d) = cs_reassembling st"
  by (simp_all add: grown_def)

lemma settled_frame [simp]:
  "cs_csid (settled st) = cs_csid st" "cs_chunk_size (settled st) = cs_chunk_size st"
  "cs_has_message_header (settled st) = cs_has_message_header st"
  "cs_type0_timestamp (settled st) = cs_type0_timestamp st"
  "cs_type0_msg_length (settled st) = cs_type0_msg_length st"
  "cs_type0_msg_type_id (settled st) = cs_type0_msg_type_id st"
  "cs_type0_msg_stream_id (settled st) = cs_type0_msg_stream_id st"
  "cs_type0_ext_ts (settled st) = cs_type0_ext_ts st"
  "cs_last_delta (settled st) = cs_last_delta st" "cs_in_use (settled st) = cs_in_use st"
  "cs_reassembling (settled st) = (\<not> completes st)" "cs_chunk_read_scratch (settled st) = []"
  "cs_reassembly_bytes_read (settled st) = (if completes st then 0 else cs_reassembly_bytes_read st)"
  by (simp_all add: settled_def)

lemma completes_grown:
  assumes "ready_stream p h st" "length d = cp_to_read p"
  shows "completes (grown (headed p h st) d) \<longleftrightarrow>
    unat (cs_reassembly_bytes_read (headed p h st)) + length d =
    unat (cs_type0_msg_length (headed p h st))"
  using grown_ok(5) [OF assms] ready_bound(2) [OF assms(1)] assms(2)
  by (auto simp: completes_def word_le_nat_alt)

lemma settled_buf:
  assumes "buf_inv (cs_reassembly_buf st)"
  shows "contents (cs_reassembly_buf (settled st)) =
      (if completes st then [] else contents (cs_reassembly_buf st))"
    "buf_inv (cs_reassembly_buf (settled st))"
    "buf_owned (cs_reassembly_buf (settled st)) = buf_owned (cs_reassembly_buf st)"
    "cs_last_payload (settled st) =
      (if completes st then contents (cs_reassembly_buf st) else cs_last_payload st)"
  using assms by (simp_all add: settled_def buf_take_ok)

lemma ready_to_read_pos:
  assumes "ready_stream p h st"
    "unat (cs_reassembly_bytes_read (headed p h st)) < unat (cs_type0_msg_length (headed p h st))"
  shows "0 < cp_to_read p"
proof -
  have "DEFAULT_CHUNK_SIZE \<le> cs_chunk_size st" using assms(1) by (simp add: ready_stream_def stream_inv_def)
  then have "0 < unat (cs_chunk_size st)" by (simp add: const_simps word_le_nat_alt)
  with assms show ?thesis by (simp add: ready_stream_def)
qed

lemma stream_inv_settled:
  assumes rd: "ready_stream p h st" and d: "length d = cp_to_read p"
  shows "stream_inv (settled (grown (headed p h st) d))"
proof -
  note b = ready_bound [OF rd] and g = grown_ok [OF rd d]
  let ?g = "grown (headed p h st) d"
  have st: "stream_inv st" and fmt: "cp_fmt p \<le> 3" using rd by (simp_all add: ready_stream_def)
  have hdr: "cs_has_message_header (headed p h st)"
    using rd by (auto simp: ready_stream_def headed_has_header elim: fmt_cases)
  have pos: "cs_reassembly_bytes_read ?g \<noteq> 0" "cs_reassembly_bytes_read ?g < cs_type0_msg_length ?g"
    if "\<not> completes ?g"
  proof -
    have lt: "unat (cs_reassembly_bytes_read ?g) < unat (cs_type0_msg_length ?g)"
      using that by (simp add: completes_def word_le_nat_alt)
    then show "cs_reassembly_bytes_read ?g < cs_type0_msg_length ?g" by (simp add: word_less_nat_alt)
    have "0 < cp_to_read p" using lt g(5) by (intro ready_to_read_pos [OF rd]) simp
    then have "unat (cs_reassembly_bytes_read ?g) \<noteq> 0" using g(5) d by simp
    then show "cs_reassembly_bytes_read ?g \<noteq> 0" by (metis unat_0)
  qed
  show ?thesis
    using st g b pos hdr settled_buf [OF g(2)] rd
    by (auto simp: stream_inv_def ready_stream_def)
qed

text \<open>The steps of \<open>chunk_reassemble\<close>, each on a registry seen through the chunk's slot.\<close>

lemma chunk_restart_at:
  assumes "i < length (reg_streams r)" "stream_inv st" "fmt \<le> 3"
  shows "chunk_restart fmt i (reg_at r i st u c) = (Inr (),
    reg_at r i (chunk_started fmt st) (if fmt \<le> 1 then u - partial_bytes st else u) c)"
  using assms(3)
  by (cases rule: fmt_cases)
    (simp_all add: assms chunk_restart_def chunk_started_def reg_release_stream_reassembly_def
      op_simps Let_def buf_available_stream_inv)

lemma chunk_update_header_at:
  assumes i: "i < length (reg_streams r)" and rd: "ready_stream p h st"
  shows "chunk_update_header p h i (reg_at r i (chunk_started (cp_fmt p) st) u c) =
    (Inr (headed p h st, cp_to_read p), reg_at r i (headed p h st) u c)"
proof -
  have fmt: "cp_fmt p \<le> 3" using rd by (simp add: ready_stream_def)
  have "\<not> ((cp_fmt p = 2 \<or> cp_fmt p = 3) \<and>
      \<not> cs_has_message_header (chunk_started (cp_fmt p) st))"
    using fmt rd by (cases rule: fmt_cases) (simp_all add: ready_stream_def chunk_started_def)
  then show ?thesis
    using i rd by (auto simp: chunk_update_header_def op_simps Let_def headed_def [symmetric]
        ready_stream_def)
qed

lemma chunk_check_complete_at:
  assumes "i < length (reg_streams r)"
  shows "chunk_check_complete i len (reg_at r i st u c) =
    (Inr (cs_reassembly_bytes_read st \<ge> len), reg_at r i (st\<lparr>cs_chunk_read_scratch := []\<rparr>) u c)"
  using assms by (simp add: chunk_check_complete_def op_simps)

lemma chunk_deliver_at:
  assumes "i < length (reg_streams r)" "rs_reg s = reg_at r i st u c"
  shows "chunk_deliver p hdr i s = (Inr 1, s\<lparr>
    rs_msg := \<lparr>cm_csid = cp_csid p, cm_fmt = cp_fmt p,
      cm_timestamp = cs_type0_timestamp hdr, cm_msg_length = cs_type0_msg_length hdr,
      cm_msg_type_id = cs_type0_msg_type_id hdr, cm_msg_stream_id = cs_type0_msg_stream_id hdr,
      cm_is_complete = True\<rparr>,
    rs_payload := fst (buf_take (cs_reassembly_buf st)),
    rs_reg := reg_at r i (st\<lparr>cs_last_payload := fst (buf_take (cs_reassembly_buf st)),
      cs_reassembly_buf := snd (buf_take (cs_reassembly_buf st)), cs_reassembly_bytes_read := 0\<rparr>)
      (u - buf_available (cs_reassembly_buf st)) c\<rparr>)"
  using assms by (simp add: chunk_deliver_def op_simps Let_def case_prod_unfold)

lemma chunk_reassemble_at:
  assumes goc: "reg_get_or_create_index (cp_csid p) (rs_reg s) = (Inr i, r)"
    and guard: "chunk_reassembly_guard (cp_fmt p) (cp_csid p) (cp_to_read p) (rs_reg s) = Inr ()"
    and i: "i < length (reg_streams r)" "reg_streams r ! i = st" and rd: "ready_stream p h st"
    and b: "buf_inv (rs_buf s)" "cp_to_read p \<le> length (contents (rs_buf s))"
  defines "d \<equiv> take (cp_to_read p) (contents (rs_buf s))"
  defines "g \<equiv> grown ((headed p h st)\<lparr>cs_chunk_read_scratch := d\<rparr>) d"
  defines "u \<equiv> sat_add (if cp_fmt p \<le> 1 then reg_reassembly_bytes_in_use r - partial_bytes st
                        else reg_reassembly_bytes_in_use r) (cp_to_read p)"
  obtains b' where "buf_inv b'" "contents b' = drop (cp_to_read p) (contents (rs_buf s))"
    "chunk_reassemble p h s = (Inr (if completes g then 1 else 0),
       delivered p g (s\<lparr>rs_buf := b', rs_reg := reg_at r i (settled g)
         (if completes g then u - buf_available (cs_reassembly_buf g) else u)
         (if cs_reassembling st = (\<not> completes g) then reg_reassembling_count r
          else if \<not> completes g then reg_reassembling_count r + 1
          else reg_reassembling_count r - 1)\<rparr>))"
proof -
  have fmt: "cp_fmt p \<le> 3" and st: "stream_inv st" using rd by (simp_all add: ready_stream_def)
  have len: "length d = cp_to_read p" using b(2) by (simp add: d_def)
  let ?u = "if cp_fmt p \<le> 1 then reg_reassembly_bytes_in_use r - partial_bytes st
            else reg_reassembly_bytes_in_use r"
  define s1 where "s1 = s\<lparr>rs_reg := reg_at r i (headed p h st) ?u (reg_reassembling_count r)\<rparr>"
  have r: "r = reg_at r i st (reg_reassembly_bytes_in_use r) (reg_reassembling_count r)"
    using reg_at_self [of r i] i(2) by simp
  have room: "buf_room (cs_reassembly_buf (headed p h st)) (cp_to_read p)"
    using grown_ok(1) [OF rd len] len by simp
  have "buf_inv (rs_buf s1)" "cp_to_read p \<le> length (contents (rs_buf s1))"
    "rs_reg s1 = reg_at r i (headed p h st) ?u (reg_reassembling_count r)"
    using b by (simp_all add: s1_def)
  from chunk_append_payload_ok [OF i(1) this(1,2) ready_bound(4) [OF rd] room this(3)]
  obtain b' where b': "buf_inv b'" "contents b' = drop (cp_to_read p) (contents (rs_buf s1))"
    "chunk_append_payload i (cp_to_read p) s1 = (Inr (), s1\<lparr>rs_buf := b',
       rs_reg := reg_at r i g ?u (reg_reassembling_count r)\<rparr>)"
    unfolding g_def d_def s1_def by auto
  have a: "thenS (zoom_reg (chunk_restart (cp_fmt p) i)) (bindS (zoom_reg (chunk_update_header p h i)) f)
      (s\<lparr>rs_reg := r\<rparr>) = f (headed p h st, cp_to_read p) s1" for f :: "_ \<Rightarrow> (read_state, int) op"
    by (subst r) (simp add: op_simps chunk_restart_at [OF i(1) st fmt]
        chunk_update_header_at [OF i(1) rd] s1_def)
  have c: "completes g \<longleftrightarrow> cs_type0_msg_length (headed p h st) \<le> cs_reassembly_bytes_read g"
    by (simp add: completes_def g_def)
  have gf: "cs_type0_timestamp g = cs_type0_timestamp (headed p h st)"
    "cs_type0_msg_length g = cs_type0_msg_length (headed p h st)"
    "cs_type0_msg_type_id g = cs_type0_msg_type_id (headed p h st)"
    "cs_type0_msg_stream_id g = cs_type0_msg_stream_id (headed p h st)"
    "cs_reassembling g = cs_reassembling st"
    by (simp_all add: g_def)
  have z: "zoom_reg (reg_get_or_create_index (cp_csid p)) s = (Inr i, s\<lparr>rs_reg := r\<rparr>)"
    by (simp add: zoom_reg_apply goc)
  define s2 where "s2 = s1\<lparr>rs_buf := b', rs_reg := reg_at r i g ?u (reg_reassembling_count r)\<rparr>"
  have "chunk_reassemble p h s =
    thenS (zoom_reg (modS (reg_note_reassembly_growth (cp_to_read p))))
      (bindS (zoom_reg (chunk_check_complete i (cs_type0_msg_length (headed p h st))))
        (\<lambda>message_complete. thenS (zoom_reg (reg_set_stream_reassembling i (\<not> message_complete)))
          (if message_complete then chunk_deliver p (headed p h st) i
           else thenS (modS (\<lambda>s. s\<lparr>rs_msg := (rs_msg s)\<lparr>cm_is_complete := False\<rparr>\<rparr>)) (retS 0)))) s2"
    by (simp add: chunk_reassemble_def guard z a b'(3) s2_def)
  also have "\<dots> = (Inr (if completes g then 1 else 0),
     delivered p g (s\<lparr>rs_buf := b', rs_reg := reg_at r i (settled g)
         (if completes g then u - buf_available (cs_reassembly_buf g) else u)
         (if cs_reassembling st = (\<not> completes g) then reg_reassembling_count r
          else if \<not> completes g then reg_reassembling_count r + 1
          else reg_reassembling_count r - 1)\<rparr>))"
    using i(1) u_def gf
    by (simp add: op_simps chunk_check_complete_at c [symmetric] s2_def s1_def chunk_deliver_at
        delivered_def settled_def)
  finally show thesis using b' by (intro that [of b']) (simp_all add: s1_def)
qed

section \<open>What one call does\<close>

lemma scratch_irrelevant:
  "settled (grown (st\<lparr>cs_chunk_read_scratch := x\<rparr>) d) = settled (grown st d)"
  "completes (grown (st\<lparr>cs_chunk_read_scratch := x\<rparr>) d) = completes (grown st d)"
  "delivered p (grown (st\<lparr>cs_chunk_read_scratch := x\<rparr>) d) s = delivered p (grown st d) s"
  "cs_reassembly_buf (grown (st\<lparr>cs_chunk_read_scratch := x\<rparr>) d) = cs_reassembly_buf (grown st d)"
  by (simp_all add: settled_def grown_def completes_def delivered_def)

lemma headed_plan_length:
  assumes plan: "plan_ok c reg p"
  shows "cs_type0_msg_length (headed p (header_at p c) st) =
    (if cp_fmt p \<le> 1 then u24_at c (cp_header_size p + 3) else cs_type0_msg_length st)"
proof -
  have "ch_msg_length (header_at p c) = u24_at c (cp_header_size p + 3)" if "cp_fmt p \<le> 1"
  proof -
    have "7 \<le> field_size (cp_fmt p)"
      using plan_okD(1) [OF plan] that by (cases rule: fmt_cases) (simp_all add: field_size_def)
    moreover have "cp_header_size p + field_size (cp_fmt p) \<le> length c"
      using plan_okD(3,4) [OF plan] by simp
    ultimately show ?thesis
      using that by (simp add: header_at_def msg_header_at_def Let_def u24_at_def add.commute
          add.left_commute)
  qed
  then show ?thesis by (simp add: headed_length plan_okD(1) [OF plan])
qed

lemma plan_ok_ready:
  assumes reg: "reg_inv reg" and plan: "plan_ok c reg p"
  shows "ready_stream p (header_at p c) (opened reg (cp_csid p))"
proof -
  let ?st = "opened reg (cp_csid p)"
  have fmt: "cp_fmt p \<le> 3" using plan by (simp add: plan_ok_def Let_def)
  have st: "stream_inv ?st"
  proof (cases "stream_of reg (cp_csid p)")
    case None
    then show ?thesis using reg by (simp add: opened_def stream_inv_fresh reg_inv_def)
  next
    case (Some st)
    then show ?thesis using stream_of_inv [OF reg Some] by (simp add: opened_def)
  qed
  note len = headed_plan_length [OF plan, of ?st]
  have "cs_type0_msg_length (headed p (header_at p c) ?st) \<le> RTMP_WIRE_MAX_MSG_LENGTH"
    using st unfolding len u24_at_def
    by (simp add: stream_inv_def RTMP_WIRE_MAX_MSG_LENGTH_def u24_be_bound)
  then show ?thesis
    unfolding ready_stream_def using st fmt plan len
    by (simp add: plan_ok_def Let_def headed_read)
qed

lemma opened_csid: "reg_inv reg \<Longrightarrow> cs_csid (opened reg csid) = csid"
  using stream_of_inv [of reg csid] by (cases "stream_of reg csid") (simp_all add: opened_def)

text \<open>The registry after a chunk is the old one with the chunk's stream replaced.\<close>

lemma reg_at_settled:
  assumes r: "reg_inv r" and i: "i < length (reg_streams r)" "reg_streams r ! i = st"
    and rd: "ready_stream p h st" and d: "length d = cp_to_read p"
    and mem: "cp_to_read p > 0 \<longrightarrow> reg_reassembly_bytes_in_use r
        - (if cp_fmt p \<le> 1 then partial_bytes st else 0) + cp_to_read p \<le> reg_max_reassembly_bytes r"
  defines "g \<equiv> grown (headed p h st) d"
  defines "u \<equiv> sat_add (if cp_fmt p \<le> 1 then reg_reassembly_bytes_in_use r - partial_bytes st
                        else reg_reassembly_bytes_in_use r) (cp_to_read p)"
  shows "reg_at r i (settled g) (if completes g then u - buf_available (cs_reassembly_buf g) else u)
      (if cs_reassembling st = (\<not> completes g) then reg_reassembling_count r
       else if \<not> completes g then reg_reassembling_count r + 1 else reg_reassembling_count r - 1)
    = reg_replace i (settled g) r"
    and "reg_reassembly_bytes_in_use r - partial_bytes st + partial_bytes (settled g)
      \<le> reg_max_reassembly_bytes r"
proof -
  have fmt: "cp_fmt p \<le> 3" using rd by (simp add: ready_stream_def)
  note gr = grown_ok [OF rd d, folded g_def]
  have le: "partial_bytes st \<le> reg_reassembly_bytes_in_use r"
    and max: "reg_reassembly_bytes_in_use r \<le> reg_max_reassembly_bytes r"
      "reg_max_reassembly_bytes r \<le> USIZE_MAX"
    using r i total_partial_update(2) [OF i(1)] by (auto simp: reg_inv_def)
  have avail: "buf_available (cs_reassembly_buf g) =
      (if cp_fmt p \<le> 1 then 0 else partial_bytes st) + cp_to_read p"
    using gr(2,4) d by (simp add: buf_available_contents headed_contents fmt partial_bytes_def)
  have pb: "partial_bytes (settled g) = (if completes g then 0 else buf_available (cs_reassembly_buf g))"
    using settled_buf(1) [OF gr(2)] gr(2) by (simp add: partial_bytes_def buf_available_contents)
  have u: "u = reg_reassembly_bytes_in_use r - (if cp_fmt p \<le> 1 then partial_bytes st else 0)
      + cp_to_read p"
    using mem max by (cases "cp_to_read p > 0") (auto simp: u_def sat_add_def)
  have cnt: "of_bool (cs_reassembling st) \<le> reg_reassembling_count r"
    using r total_reassembling_update(2) [OF i(1)] i(2) by (simp add: reg_inv_def)
  show "reg_at r i (settled g) (if completes g then u - buf_available (cs_reassembly_buf g) else u)
      (if cs_reassembling st = (\<not> completes g) then reg_reassembling_count r
       else if \<not> completes g then reg_reassembling_count r + 1 else reg_reassembling_count r - 1)
    = reg_replace i (settled g) r"
    using i(2) le cnt
    by (cases "completes g"; cases "cs_reassembling st"; cases "cp_fmt p \<le> 1")
      (simp_all add: reg_at_def reg_replace_def pb avail u)
  show "reg_reassembly_bytes_in_use r - partial_bytes st + partial_bytes (settled g)
      \<le> reg_max_reassembly_bytes r"
    using le max mem unfolding pb avail
    by (cases "completes g"; cases "cp_to_read p > 0"; cases "cp_fmt p \<le> 1") simp_all
qed

lemma reg_max_preserved_at [simp]:
  "reg_max_msg_length (reg_at r i st u c) = reg_max_msg_length r"
  by (simp add: reg_at_def)

lemma chunk_read_ready:
  assumes b: "buf_inv (rs_buf s)" and reg: "reg_inv (rs_reg s)"
    and plan: "chunk_read_plan (length (contents (rs_buf s))) (contents (rs_buf s)) (rs_reg s)
      = Inr (Some p)"
  defines "c \<equiv> contents (rs_buf s)"
  defines "g \<equiv> grown (headed p (header_at p c) (opened (rs_reg s) (cp_csid p)))
    (take (cp_to_read p) (drop (cp_total_header p) c))"
  obtains s1 where "chunk_read s = (Inr (if completes g then 1 else 0), delivered p g s1)"
    "buf_inv (rs_buf s1)" "contents (rs_buf s1) = drop (cp_total_header p + cp_to_read p) c"
    "reg_inv (rs_reg s1)" "stream_of (rs_reg s1) = (stream_of (rs_reg s))(cp_csid p \<mapsto> settled g)"
    "rs_msg s1 = rs_msg s" "rs_payload s1 = rs_payload s"
    "reg_max_active_csids (rs_reg s1) = reg_max_active_csids (rs_reg s)"
    "reg_max_msg_length (rs_reg s1) = reg_max_msg_length (rs_reg s)"
    "reg_default_chunk_size (rs_reg s1) = reg_default_chunk_size (rs_reg s)"
    "reg_max_reassembly_bytes (rs_reg s1) = reg_max_reassembly_bytes (rs_reg s)"
    "reg_reassembly_bytes_in_use (rs_reg s1) = reg_reassembly_bytes_in_use (rs_reg s)
      - partial_bytes (opened (rs_reg s) (cp_csid p)) + partial_bytes (settled g)"
    "reg_reassembling_count (rs_reg s1) = reg_reassembling_count (rs_reg s)
      - of_bool (cs_reassembling (opened (rs_reg s) (cp_csid p))) + of_bool (\<not> completes g)"
proof -
  let ?reg = "rs_reg s" and ?h = "header_at p c" and ?n = "cp_to_read p"
  let ?st = "opened ?reg (cp_csid p)"
  have ok: "plan_ok c ?reg p" unfolding c_def by (rule chunk_read_plan_ok [OF reg plan])
  note okD = plan_okD [OF ok]
  have hd: "cp_fmt p \<le> 3"
    "cp_total_header p = cp_header_size p + field_size (cp_fmt p) + (if cp_ext_ts p then 4 else 0)"
    "cp_total_header p \<le> length (contents (rs_buf s))"
    using okD(1,3,4) by (simp_all add: c_def)
  have rd: "ready_stream p ?h ?st" by (rule plan_ok_ready [OF reg ok])
  obtain b1 where b1: "chunk_consume_header p (rs_buf s) = (Inr ?h, b1)" "buf_inv b1"
    "contents b1 = drop (cp_total_header p) c"
    unfolding c_def by (rule chunk_consume_header_ok [OF b hd])
  define s0 where "s0 = s\<lparr>rs_buf := b1\<rparr>"
  have n: "?n \<le> length (contents (rs_buf s0))" using okD b1(3) by (simp add: s0_def)
  let ?d = "take ?n (drop (cp_total_header p) c)"
  have len: "length ?d = ?n" using n b1(3) by (simp add: s0_def)
  obtain i r where r: "reg_get_or_create_index (cp_csid p) ?reg = (Inr i, r)" "reg_inv r"
    "reg_csid_index r (cp_csid p) = Some i" "reg_streams r ! i = ?st"
    "stream_of r = (stream_of ?reg)(cp_csid p \<mapsto> ?st)"
    "reg_reassembling_count r = reg_reassembling_count ?reg"
    "reg_reassembly_bytes_in_use r = reg_reassembly_bytes_in_use ?reg"
    "reg_max_active_csids r = reg_max_active_csids ?reg"
    "reg_max_msg_length r = reg_max_msg_length ?reg"
    "reg_default_chunk_size r = reg_default_chunk_size ?reg"
    "reg_max_reassembly_bytes r = reg_max_reassembly_bytes ?reg"
    by (rule reg_get_or_create_index_ok [OF reg, of "cp_csid p"]) (use okD in auto)
  have i: "i < length (reg_streams r)" by (rule reg_inv_indexD [OF r(2,3)])
  have mem: "?n > 0 \<longrightarrow> reg_reassembly_bytes_in_use r
      - (if cp_fmt p \<le> 1 then partial_bytes ?st else 0) + ?n \<le> reg_max_reassembly_bytes r"
    using okD r(7,11) by simp
  have guard: "chunk_reassembly_guard (cp_fmt p) (cp_csid p) ?n (rs_reg s0) = Inr ()"
    using mem r(7,11) by (auto simp: s0_def chunk_reassembly_guard_eq [OF reg])
  have goc: "reg_get_or_create_index (cp_csid p) (rs_reg s0) = (Inr i, r)"
    using r(1) by (simp add: s0_def)
  have bi: "buf_inv (rs_buf s0)" using b1(2) by (simp add: s0_def)
  note at = reg_at_settled [OF r(2) i r(4) rd len mem, folded g_def]
  have cs0: "contents (rs_buf s0) = drop (cp_total_header p) c" using b1(3) by (simp add: s0_def)
  obtain b2 where b2: "buf_inv b2" "contents b2 = drop ?n (contents (rs_buf s0))"
    "chunk_reassemble p ?h s0 = (Inr (if completes g then 1 else 0),
       delivered p g (s0\<lparr>rs_buf := b2, rs_reg := reg_replace i (settled g) r\<rparr>))"
    using chunk_reassemble_at [OF goc guard i r(4) rd bi n]
    unfolding scratch_irrelevant cs0 g_def [symmetric] at by metis
  have cap: "cs_reassembling ?st \<or> reg_reassembling_count r < reg_max_active_csids r"
    using okD r(6,8) by (auto simp: can_open_def opened_def split: option.splits)
  have "reg_inv (reg_replace i (settled g) r)"
    using stream_inv_settled [OF rd len] at(2) cap r(4)
    by (intro reg_inv_replace [OF r(2) i]) (auto simp: g_def)
  moreover have "chunk_read s = chunk_reassemble p ?h s0"
    using b1(1) plan by (simp add: chunk_read_def buf_peek_contents [OF b] buf_available_contents [OF b]
        zoom_buf_apply s0_def)
  moreover have "contents b2 = drop (cp_total_header p + ?n) c"
    using b2(2) cs0 by (simp add: add.commute)
  ultimately show thesis
    using b2(1,3) stream_of_replace [OF r(2,3), of "settled g"] r(4,5,6,7,8,9,10,11)
    by (intro that [of "s0\<lparr>rs_buf := b2, rs_reg := reg_replace i (settled g) r\<rparr>"])
      (simp_all add: s0_def reg_replace_def)
qed

lemma chunk_read_no_plan:
  assumes b: "buf_inv (rs_buf s)"
    and plan: "chunk_read_plan (length (contents (rs_buf s))) (contents (rs_buf s)) (rs_reg s) = res"
  shows "res = Inr None \<Longrightarrow> chunk_read s = (Inr 0, s)" "res = Inl e \<Longrightarrow> chunk_read s = (Inl e, s)"
  using plan
  by (simp_all add: chunk_read_def buf_peek_contents [OF b] buf_available_contents [OF b])

definition read_inv :: "read_state \<Rightarrow> bool" where
  "read_inv s \<longleftrightarrow> buf_inv (rs_buf s) \<and> reg_inv (rs_reg s)"

text \<open>The three outcomes of a call.\<close>

lemma chunk_read_cases:
  assumes "read_inv s"
  obtains (error) e where "chunk_read s = (err e, s)"
  | (wait) "chunk_read s = (Inr 0, s)"
  | (chunk) p s1 g where
      "chunk_read_plan (length (contents (rs_buf s))) (contents (rs_buf s)) (rs_reg s) = Inr (Some p)"
      "g = grown (headed p (header_at p (contents (rs_buf s))) (opened (rs_reg s) (cp_csid p)))
        (take (cp_to_read p) (drop (cp_total_header p) (contents (rs_buf s))))"
      "chunk_read s = (Inr (if completes g then 1 else 0), delivered p g s1)"
      "read_inv s1" "contents (rs_buf s1) = drop (cp_total_header p + cp_to_read p) (contents (rs_buf s))"
      "stream_of (rs_reg s1) = (stream_of (rs_reg s))(cp_csid p \<mapsto> settled g)"
      "rs_payload s1 = rs_payload s" "reg_max_msg_length (rs_reg s1) = reg_max_msg_length (rs_reg s)"
proof -
  have b: "buf_inv (rs_buf s)" and reg: "reg_inv (rs_reg s)" using assms by (simp_all add: read_inv_def)
  let ?c = "contents (rs_buf s)"
  show thesis
  proof (cases "chunk_read_plan (length ?c) ?c (rs_reg s)")
    case (Inl e)
    with chunk_read_plan_no_panic [OF reg, of ?c] obtain e' where "e = Err e'"
      by (cases e) auto
    with chunk_read_no_plan(2) [OF b refl, of e] Inl error show thesis by simp
  next
    case (Inr plan_opt)
    show thesis
    proof (cases plan_opt)
      case None
      with chunk_read_no_plan(1) [OF b refl] Inr wait show thesis by simp
    next
      case (Some p)
      with Inr have plan: "chunk_read_plan (length ?c) ?c (rs_reg s) = Inr (Some p)" by simp
      define g where "g = grown (headed p (header_at p ?c) (opened (rs_reg s) (cp_csid p)))
        (take (cp_to_read p) (drop (cp_total_header p) ?c))"
      obtain s1 where s1: "chunk_read s = (Inr (if completes g then 1 else 0), delivered p g s1)"
        "buf_inv (rs_buf s1)" "contents (rs_buf s1) = drop (cp_total_header p + cp_to_read p) ?c"
        "reg_inv (rs_reg s1)" "stream_of (rs_reg s1) = (stream_of (rs_reg s))(cp_csid p \<mapsto> settled g)"
        "rs_payload s1 = rs_payload s" "reg_max_msg_length (rs_reg s1) = reg_max_msg_length (rs_reg s)"
        unfolding g_def by (rule chunk_read_ready [OF b reg plan])
      show thesis
        by (rule chunk [OF plan g_def s1(1) _ s1(3,5,6,7)]) (simp add: read_inv_def s1)
    qed
  qed
qed

lemma delivered_frame [simp]:
  "rs_buf (delivered p g s) = rs_buf s" "rs_reg (delivered p g s) = rs_reg s"
  "read_inv (delivered p g s) = read_inv s"
  by (simp_all add: delivered_def read_inv_def)

lemma plan_consumes:
  assumes "reg_inv reg" "chunk_read_plan (length c) c reg = Inr (Some p)"
  shows "0 < cp_total_header p" "cp_total_header p + cp_to_read p \<le> length c"
  using plan_okD [OF chunk_read_plan_ok [OF assms]] by simp_all

lemma chunk_read_progress_cases:
  assumes inv: "read_inv s" and rd: "chunk_read s = (Inr rc, s')"
  shows "(s' = s \<and> rc = 0) \<or> (\<exists>u. u \<noteq> [] \<and> contents (rs_buf s) = u @ contents (rs_buf s'))"
  using inv
proof (cases rule: chunk_read_cases)
  case (error e)
  with rd show ?thesis by simp
next
  case wait
  with rd show ?thesis by simp
next
  case (chunk p s1 g)
  have reg: "reg_inv (rs_reg s)" using inv by (simp add: read_inv_def)
  let ?n = "cp_total_header p + cp_to_read p"
  have "take ?n (contents (rs_buf s)) \<noteq> []" using plan_consumes [OF reg chunk(1)] by auto
  moreover have "contents (rs_buf s) = take ?n (contents (rs_buf s)) @ contents (rs_buf s')"
    using rd chunk(3,5) by auto
  ultimately show ?thesis by blast
qed

interpretation cr: frame_source read_inv "\<lambda>s. contents (rs_buf s)" chunk_read
proof
  fix s :: read_state assume inv: "read_inv s"
  show "fst (chunk_read s) \<noteq> panic"
    using inv by (cases rule: chunk_read_cases) simp_all
  show "read_inv (snd (chunk_read s))"
    using inv by (cases rule: chunk_read_cases) (simp_all add: inv)
  fix e s'
  show "chunk_read s = (Inl e, s') \<Longrightarrow> s' = s"
    using inv by (cases rule: chunk_read_cases) simp_all
next
  fix s :: read_state and x s' assume "read_inv s" "chunk_read s = (Inr x, s')"
  from chunk_read_progress_cases [OF this]
  show "s' = s \<or> (\<exists>u. u \<noteq> [] \<and> contents (rs_buf s) = u @ contents (rs_buf s'))" by blast
qed

lemma reg_put_payload:
  assumes "reg_inv r" "i < length (reg_streams r)"
  shows "reg_inv (reg_put i ((reg_streams r ! i)\<lparr>cs_last_payload := x\<rparr>) r)"
proof -
  let ?st = "(reg_streams r ! i)\<lparr>cs_last_payload := x\<rparr>"
  have st: "stream_inv ?st" "partial_bytes ?st = partial_bytes (reg_streams r ! i)"
    using reg_inv_stream [OF assms] by (simp_all add: stream_inv_def partial_bytes_def)
  have "of_bool (cs_reassembling (reg_streams r ! i)) \<le> reg_reassembling_count r"
    "partial_bytes (reg_streams r ! i) \<le> reg_reassembly_bytes_in_use r"
    using assms(1) total_reassembling_update(2) [OF assms(2)] total_partial_update(2) [OF assms(2)]
    by (simp_all add: reg_inv_def)
  then have "reg_put i ?st r = reg_replace i ?st r"
    by (simp add: reg_put_def reg_replace_def st(2))
  moreover have "reg_inv (reg_replace i ?st r)"
    using assms(1) total_partial_update(2) [OF assms(2)]
    by (intro reg_inv_replace assms st(1)) (simp_all add: st(2) reg_inv_def)
  ultimately show ?thesis by simp
qed

lemma chunk_read_complete:
  assumes "read_inv s" "chunk_read s = (Inr rc, s')" "rc = 1"
  shows "cm_is_complete (rs_msg s')" "length (rs_payload s') = unat (cm_msg_length (rs_msg s'))"
    "cm_msg_length (rs_msg s') \<le> reg_max_msg_length (rs_reg s)"
    "\<exists>st. stream_of (rs_reg s') (cm_csid (rs_msg s')) = Some st \<and> cs_last_payload st = rs_payload s'"
proof -
  have reg: "reg_inv (rs_reg s)" using assms(1) by (simp add: read_inv_def)
  from assms(1) have "cm_is_complete (rs_msg s') \<and>
    length (rs_payload s') = unat (cm_msg_length (rs_msg s')) \<and>
    cm_msg_length (rs_msg s') \<le> reg_max_msg_length (rs_reg s) \<and>
    (\<exists>st. stream_of (rs_reg s') (cm_csid (rs_msg s')) = Some st \<and> cs_last_payload st = rs_payload s')"
  proof (cases rule: chunk_read_cases)
    case (chunk p s1 g)
    let ?c = "contents (rs_buf s)" and ?st = "opened (rs_reg s) (cp_csid p)"
    have ok: "plan_ok ?c (rs_reg s) p" by (rule chunk_read_plan_ok [OF reg chunk(1)])
    have rd: "ready_stream p (header_at p ?c) ?st" by (rule plan_ok_ready [OF reg ok])
    have d: "length (take (cp_to_read p) (drop (cp_total_header p) ?c)) = cp_to_read p"
      using plan_okD(4) [OF ok] by simp
    have fin: "completes g" "s' = delivered p g s1" using assms(2,3) chunk(3) by (auto split: if_splits)
    note gr = grown_ok [OF rd d, folded chunk(2)]
    have "length (contents (cs_reassembly_buf g)) = unat (cs_type0_msg_length g)"
      using gr(4) ready_bound(1) [OF rd] completes_grown [OF rd d] fin(1) d by (simp add: chunk(2))
    moreover have "fst (buf_take (cs_reassembly_buf g)) = contents (cs_reassembly_buf g)"
      by (rule buf_take_ok(1) [OF gr(2)])
    moreover have "cs_type0_msg_length g \<le> reg_max_msg_length (rs_reg s)"
      using plan_okD(7) [OF ok] by (simp only: chunk(2) grown_frame headed_plan_length [OF ok])
    moreover have "cs_last_payload (settled g) = contents (cs_reassembly_buf g)"
      using settled_buf(4) [OF gr(2)] fin(1) by simp
    ultimately show ?thesis
      using fin chunk(6) by (simp add: delivered_def)
  qed (use assms in auto)
  then show "cm_is_complete (rs_msg s')" "length (rs_payload s') = unat (cm_msg_length (rs_msg s'))"
    "cm_msg_length (rs_msg s') \<le> reg_max_msg_length (rs_reg s)"
    "\<exists>st. stream_of (rs_reg s') (cm_csid (rs_msg s')) = Some st \<and> cs_last_payload st = rs_payload s'"
    by auto
qed

text \<open>\<open>chunk_read_owned\<close> is \<open>chunk_read\<close> with the payload moved out of the stream.\<close>

lemma chunk_read_owned_cases:
  assumes inv: "read_inv s"
  obtains (fail) e where "chunk_read s = (err e, s)" "chunk_read_owned s = (err e, s)"
  | (ok) rc s1 s2 where "chunk_read s = (Inr rc, s1)"
      "chunk_read_owned s = (Inr (rc, if rc = 1 then rs_payload s1 else []), s2)"
      "read_inv s2" "rs_buf s2 = rs_buf s1" "rs_msg s2 = rs_msg s1" "rc \<noteq> 1 \<Longrightarrow> s2 = s1"
proof -
  obtain r s1 where rd: "chunk_read s = (r, s1)" by fastforce
  have inv': "read_inv s1" using cr.step_inv [OF inv] rd by simp
  show thesis
  proof (cases r)
    case (Inl e)
    with rd cr.step_error [OF inv, of e s1] cr.step_no_panic [OF inv] obtain e' where
      "e = Err e'" "s1 = s" by (cases e) auto
    with rd Inl fail show thesis by (simp add: chunk_read_owned_def)
  next
    case (Inr rc)
    show thesis
    proof (cases "rc = 1")
      case False
      with Inr rd inv' show thesis by (intro ok [of rc s1 s1]) (simp_all add: chunk_read_owned_def)
    next
      case True
      note c = chunk_read_complete [OF inv rd [unfolded Inr] True]
      from c(4) obtain i where i: "reg_csid_index (rs_reg s1) (cm_csid (rs_msg s1)) = Some i"
        "cs_last_payload (reg_streams (rs_reg s1) ! i) = rs_payload s1"
        by (auto simp: stream_of_def)
      have reg: "reg_inv (rs_reg s1)" using inv' by (simp add: read_inv_def)
      note ix = reg_inv_indexD [OF reg i(1)]
      let ?s2 = "s1\<lparr>rs_reg :=
        reg_put i ((reg_streams (rs_reg s1) ! i)\<lparr>cs_last_payload := []\<rparr>) (rs_reg s1)\<rparr>"
      have "reg_get_mut (cm_csid (rs_msg s1)) (rs_reg s1) = Inr (Some i)"
        using i(1) ix by (simp add: reg_get_mut_def)
      then have "chunk_read_owned s = (Inr (rc, rs_payload s1), ?s2)"
        using rd Inr True c(1) ix(1) i(2) by (simp add: chunk_read_owned_def zoom_reg_apply op_simps)
      then show thesis
        using rd Inr True inv' reg_put_payload [OF reg ix(1)]
        by (intro ok [of rc s1 ?s2]) (simp_all add: read_inv_def)
    qed
  qed
qed

interpretation cro: frame_source read_inv "\<lambda>s. contents (rs_buf s)" chunk_read_owned
proof
  fix s :: read_state assume inv: "read_inv s"
  show "fst (chunk_read_owned s) \<noteq> panic"
    using inv by (cases rule: chunk_read_owned_cases) simp_all
  show "read_inv (snd (chunk_read_owned s))"
    using inv by (cases rule: chunk_read_owned_cases) (simp_all add: inv)
  fix e s'
  show "chunk_read_owned s = (Inl e, s') \<Longrightarrow> s' = s"
    using inv by (cases rule: chunk_read_owned_cases) simp_all
next
  fix s :: read_state and x s' assume inv: "read_inv s" and x: "chunk_read_owned s = (Inr x, s')"
  from inv show "s' = s \<or> (\<exists>u. u \<noteq> [] \<and> contents (rs_buf s) = u @ contents (rs_buf s'))"
  proof (cases rule: chunk_read_owned_cases)
    case (fail e)
    with x show ?thesis by simp
  next
    case (ok rc s1 s2)
    with x have s': "s' = s2" by simp
    from chunk_read_progress_cases [OF inv ok(1)] show ?thesis
    proof (elim disjE conjE)
      assume "s1 = s" "rc = 0"
      with ok(6) s' show ?thesis by simp
    next
      assume "\<exists>u. u \<noteq> [] \<and> contents (rs_buf s) = u @ contents (rs_buf s1)"
      then show ?thesis by (simp add: s' ok(4))
    qed
  qed
qed

section \<open>Everything a peer can make the receiving side do\<close>

text \<open>
  A receiving side starts with an empty buffer and registry and the configured limits. From then on
  bytes arrive, chunks are read, and the peer's control messages set the chunk size, abort or reset a
  stream; the buffer may also be shrunk.
\<close>

definition rx_start :: "u32 \<Rightarrow> nat \<Rightarrow> nat \<Rightarrow> read_state" where
  "rx_start max_len max_active max_bytes = \<lparr>rs_buf = buf_new,
     rs_reg = reg_new\<lparr>reg_max_msg_length := max_len, reg_max_active_csids := max_active,
       reg_max_reassembly_bytes := max_bytes\<rparr>,
     rs_msg = chunk_message_default, rs_payload = []\<rparr>"

inductive rx_step :: "read_state \<Rightarrow> read_state \<Rightarrow> bool" where
  arrive: "rx_step s (s\<lparr>rs_buf := snd (buf_write d (rs_buf s))\<rparr>)"
| read: "rx_step s (snd (chunk_read_owned s))"
| fresh_msg: "rx_step s (s\<lparr>rs_msg := chunk_message_default\<rparr>)"
| chunk_size: "rx_step s (s\<lparr>rs_reg := reg_set_all_chunk_size n (rs_reg s)\<rparr>)"
| abort: "rx_step s (s\<lparr>rs_reg := snd (reg_abort_stream csid (rs_reg s))\<rparr>)"
| reset: "rx_step s (s\<lparr>rs_reg := snd (reg_reset_stream csid (rs_reg s))\<rparr>)"
| shrink: "rx_step s (s\<lparr>rs_buf := snd (buf_release_excess n (rs_buf s))\<rparr>)"

inductive rx_reachable :: "u32 \<Rightarrow> nat \<Rightarrow> nat \<Rightarrow> read_state \<Rightarrow> bool" for max_len max_active max_bytes where
  start: "rx_reachable max_len max_active max_bytes (rx_start max_len max_active max_bytes)"
| step: "rx_reachable max_len max_active max_bytes s \<Longrightarrow> rx_step s s' \<Longrightarrow>
    rx_reachable max_len max_active max_bytes s'"

text \<open>The limits are never changed by a step.\<close>

definition limits :: "chunk_registry \<Rightarrow> u32 \<times> nat \<times> nat" where
  "limits r = (reg_max_msg_length r, reg_max_active_csids r, reg_max_reassembly_bytes r)"

lemma limits_replace [simp]: "limits (reg_replace i st r) = limits r"
  by (simp add: limits_def)

lemma limits_abort: "reg_inv r \<Longrightarrow> limits (snd (reg_abort_stream csid r)) = limits r"
  by (simp add: reg_abort_stream_eq split: option.splits)

lemma limits_reset: "reg_inv r \<Longrightarrow> limits (snd (reg_reset_stream csid r)) = limits r"
  by (simp add: reg_reset_stream_eq split: option.splits)

lemma limits_set_all [simp]: "limits (reg_set_all_chunk_size n r) = limits r"
  by (simp add: limits_def reg_set_all_chunk_size_def)

lemma limits_put [simp]: "limits (reg_put i st r) = limits r"
  by (simp add: limits_def reg_put_def)

lemma limits_read:
  assumes "read_inv s"
  shows "limits (rs_reg (snd (chunk_read s))) = limits (rs_reg s)"
proof -
  have b: "buf_inv (rs_buf s)" and reg: "reg_inv (rs_reg s)" using assms by (simp_all add: read_inv_def)
  let ?c = "contents (rs_buf s)"
  consider (none) "chunk_read_plan (length ?c) ?c (rs_reg s) = Inr None"
    | (fail) e where "chunk_read_plan (length ?c) ?c (rs_reg s) = Inl e"
    | (plan) p where "chunk_read_plan (length ?c) ?c (rs_reg s) = Inr (Some p)"
    by (metis old.sum.exhaust option.exhaust)
  then show ?thesis
  proof cases
    case none
    then show ?thesis using chunk_read_no_plan(1) [OF b] by simp
  next
    case (fail e)
    then show ?thesis using chunk_read_no_plan(2) [OF b] by simp
  next
    case (plan p)
    let ?g = "grown (headed p (header_at p ?c) (opened (rs_reg s) (cp_csid p)))
      (take (cp_to_read p) (drop (cp_total_header p) ?c))"
    obtain s1 where s1: "chunk_read s = (Inr (if completes ?g then 1 else 0), delivered p ?g s1)"
      "reg_max_active_csids (rs_reg s1) = reg_max_active_csids (rs_reg s)"
      "reg_max_msg_length (rs_reg s1) = reg_max_msg_length (rs_reg s)"
      "reg_max_reassembly_bytes (rs_reg s1) = reg_max_reassembly_bytes (rs_reg s)"
      by (rule chunk_read_ready [OF b reg plan])
    then show ?thesis by (simp add: limits_def)
  qed
qed

lemma limits_read_owned:
  assumes "read_inv s"
  shows "limits (rs_reg (snd (chunk_read_owned s))) = limits (rs_reg s)"
proof -
  have upd: "limits (rs_reg (snd (zoom_reg (reg_upd i f) t))) = limits (rs_reg t)" for i f t
    by (simp add: zoom_reg_apply reg_upd_def reg_stream_def bindS_def idx_def)
  have "limits (rs_reg (snd (chunk_read_owned s))) = limits (rs_reg (snd (chunk_read s)))"
    using upd
    by (simp add: chunk_read_owned_def bindS_apply thenS_apply reg_get_mut_def zoom_reg_apply
        reg_upd_def reg_stream_def idx_def bindR_def
        split: prod.splits sum.splits option.splits)
  then show ?thesis using limits_read [OF assms] by simp
qed

definition rx_inv :: "u32 \<Rightarrow> nat \<Rightarrow> nat \<Rightarrow> read_state \<Rightarrow> bool" where
  "rx_inv max_len max_active max_bytes s \<longleftrightarrow>
     read_inv s \<and> buf_owned (rs_buf s) \<and> limits (rs_reg s) = (max_len, max_active, max_bytes)"

lemma rx_inv_start:
  "max_bytes \<le> USIZE_MAX \<Longrightarrow> rx_inv max_len max_active max_bytes (rx_start max_len max_active max_bytes)"
  using reg_inv_new
  by (auto simp: rx_inv_def rx_start_def read_inv_def limits_def reg_inv_def reg_new_def)

lemma buf_write_inv:
  assumes "buf_inv b"
  shows "buf_inv (snd (buf_write d b))"
  using bq.appends_write [of d] assms by (simp add: bq.appends_def)

lemma buf_release_inv:
  assumes "buf_inv b"
  shows "buf_inv (snd (buf_release_excess n b))"
proof -
  obtain b' where "buf_release_excess n b = (Inr (), b')" "buf_inv b'"
    by (rule buf_release_excess_ok [OF assms])
  then show ?thesis by simp
qed

lemma rx_step_inv:
  assumes "rx_step s s'" "read_inv s"
  shows "read_inv s' \<and> limits (rs_reg s') = limits (rs_reg s)"
  using assms
proof (induction rule: rx_step.induct)
  case (read s)
  then show ?case using cro.step_inv limits_read_owned by blast
qed (simp_all add: read_inv_def buf_write_inv buf_release_inv reg_inv_set_all_chunk_size
      reg_inv_abort_stream reg_inv_reset_stream limits_abort limits_reset)

lemma rx_reachable_inv:
  assumes "rx_reachable max_len max_active max_bytes s" "max_bytes \<le> USIZE_MAX"
  shows "read_inv s \<and> limits (rs_reg s) = (max_len, max_active, max_bytes)"
  using assms
proof (induction rule: rx_reachable.induct)
  case start
  then show ?case using rx_inv_start by (simp add: rx_inv_def)
next
  case (step s s')
  then show ?case using rx_step_inv by simp
qed

text \<open>
  The loop around \<open>chunk_read_owned\<close> in the session and the client, without the handling of the
  messages: it stops at an error and when a call has not consumed anything.
\<close>

primrec receive_all :: "nat \<Rightarrow> read_state \<Rightarrow> read_state" where
  "receive_all 0 s = s"
| "receive_all (Suc n) s =
     (case chunk_read_owned s of
        (Inl e, s') \<Rightarrow> s'
      | (Inr x, s') \<Rightarrow>
          if buf_available (rs_buf s') < buf_available (rs_buf s) then receive_all n s' else s')"

lemma receive_all_drive: "read_inv s \<Longrightarrow> receive_all n s = cro.drive n s"
proof (induction n arbitrary: s)
  case (Suc n)
  obtain r s' where rd: "chunk_read_owned s = (r, s')" by fastforce
  with cro.step_inv [OF Suc.prems] have "read_inv s'" by simp
  with Suc rd show ?case
    by (cases r) (simp_all add: read_inv_def buf_available_contents)
qed simp

section \<open>Properties\<close>

definition ex_read_state :: "bytes \<Rightarrow> read_state" where
  "ex_read_state wire = \<lparr>rs_buf = buf_from_slice wire, rs_reg = reg_new,
     rs_msg = chunk_message_default, rs_payload = []\<rparr>"

lemma ex_read_state_inv [simp]: "read_inv (ex_read_state wire)"
  by (simp add: ex_read_state_def read_inv_def)

lemma ex_read_state_buf [simp]: "rs_buf (ex_read_state wire) = buf_from_slice wire"
  by (simp add: ex_read_state_def)

text \<open>C4: Whatever bytes are in the receive buffer, reading a chunk does not panic and keeps the
  invariant of the buffer and the registry: the index and the table agree, the cached totals are
  right, and the memory and stream caps hold.\<close>
theorem chunk_read_total:
  assumes "read_inv s"
  shows "fst (chunk_read s) \<noteq> panic \<and> read_inv (snd (chunk_read s))"
  using cr.step_no_panic [OF assms] cr.step_inv [OF assms] by blast

theorem chunk_read_total_witness:
  "fst (chunk_read (ex_read_state [0xC3, 0xFF, 1])) \<noteq> panic"
  using chunk_read_total [of "ex_read_state [0xC3, 0xFF, 1]"] by simp

text \<open>C3: A chunk that is rejected is rejected before anything is consumed: when \<open>chunk_read\<close> returns
  an error, the receive buffer, the registry and the message are exactly as they were, so the input
  cannot get out of step.\<close>
theorem chunk_read_error_atomic:
  assumes "read_inv s" and "chunk_read s = (Inl e, s')"
  shows "s' = s"
  using assms by (rule cr.step_error)

theorem chunk_read_error_atomic_witness:
  "\<exists>e. chunk_read (ex_read_state [0xC3]) = (Inl e, ex_read_state [0xC3])"
proof -
  have "reg_get 3 reg_new = Inr None" by (simp add: reg_get_def reg_new_def)
  then have "fst (chunk_read (ex_read_state [0xC3])) = err EChunk"
    by (simp add: chunk_read_def buf_peek_def buf_available_def ex_read_state_def buf_from_slice_def
        chunk_read_plan_def chunk_plan_header_def chunk_basic_header_def msg_field_size_def Let_def)
  then have "chunk_read (ex_read_state [0xC3]) = (err EChunk, snd (chunk_read (ex_read_state [0xC3])))"
    by (metis prod.collapse)
  with chunk_read_error_atomic [of "ex_read_state [0xC3]" "Err EChunk"] show ?thesis by fastforce
qed



text \<open>C2: No sequence of received bytes, chunk reads and peer control messages makes a connection
  exceed its limits: in every reachable state the bytes held for partial messages, summed over all
  chunk streams, are within the configured cap, so is the number of streams with a message in flight,
  and there are at most 4096 streams, each with its own id.\<close>
theorem receiver_limits:
  assumes "rx_reachable max_len max_active max_bytes s" and "max_bytes \<le> USIZE_MAX"
  shows "sum_list (map (\<lambda>st. length (contents (cs_reassembly_buf st))) (reg_streams (rs_reg s))) \<le> max_bytes \<and>
    length (filter cs_reassembling (reg_streams (rs_reg s))) \<le> max_active \<and>
    length (reg_streams (rs_reg s)) \<le> 4096 \<and>
    distinct (map cs_csid (reg_streams (rs_reg s)))"
proof -
  let ?r = "rs_reg s"
  have inv: "reg_inv ?r" and lim: "reg_max_active_csids ?r = max_active" "reg_max_reassembly_bytes ?r = max_bytes"
    using rx_reachable_inv [OF assms] by (simp_all add: read_inv_def limits_def)
  have count: "total_reassembling sts = length (filter cs_reassembling sts)" for sts
    by (induction sts) (simp_all add: total_reassembling_def)
  have dist: "distinct (map cs_csid (reg_streams ?r))"
    using reg_inv_index [OF inv] by (auto simp: distinct_conv_nth) (metis option.inject)
  show ?thesis
    using inv lim dist
    by (simp add: reg_inv_def count total_partial_def partial_bytes_def [abs_def] MAX_CHUNK_STREAMS_def)
qed

theorem receiver_limits_witness:
  "length (reg_streams (rs_reg (snd (chunk_read_owned (rx_start 100 2 1000))))) \<le> 4096"
  using receiver_limits [OF rx_reachable.step [OF rx_reachable.start rx_step.read], of 1000 100 2]
  by (simp add: USIZE_MAX_def)



end
