(* ===== verification/Chunk_Writer.thy ===== *)
theory Chunk_Writer
  imports Chunk_Reader
begin

text \<open>
  The chunk writer (\<open>src/src/chunk/writer.rs\<close>): the basic header, the first header of a message,
  the body split into chunks, and \<open>chunk_write\<close>, which writes a whole message with a full header.
  The lemmas give the exact bytes each writer appends (\<open>first_header_bytes\<close>, \<open>chunk_body_bytes\<close>),
  show that the two length functions used for the reservation are the lengths of those bytes, and
  hence that \<open>chunk_write\<close> appends the whole message or nothing.
\<close>

section \<open>Operations\<close>

definition EXTENDED_TIMESTAMP_MARKER :: u32 where
  "EXTENDED_TIMESTAMP_MARKER = 0xFFFFFF"

definition RTMP_MAX_CSID :: u32 where
  "RTMP_MAX_CSID = 65599"

definition RTMP_MIN_CSID :: u32 where
  "RTMP_MIN_CSID = 2"

definition basic_header :: "u32 \<Rightarrow> u8 \<Rightarrow> bytes \<times> nat" where
  "basic_header csid fmt =
     (if csid < 64 then ([push_bit 6 fmt OR ucast csid, 0, 0], 1)
      else if csid < 320 then ([push_bit 6 fmt, ucast (csid - 64), 0], 2)
      else ([push_bit 6 fmt OR 1, ucast ((csid - 64) AND 0xFF),
             ucast (drop_bit 8 (csid - 64) AND 0xFF)], 3))"

definition first_header_len :: "u32 \<Rightarrow> u8 \<Rightarrow> u32 \<Rightarrow> nat" where
  "first_header_len csid fmt ts_field =
     (let basic_len = snd (basic_header csid fmt);
          msg_hdr = (if fmt = 0 then 11 else if fmt = 1 then 7 else if fmt = 2 then 3 else 0);
          ext = (if fmt < 3 \<and> ts_field \<ge> EXTENDED_TIMESTAMP_MARKER then 4 else 0)
      in basic_len + msg_hdr + ext)"

text \<open>\<open>hdr[n..n + k].copy_from_slice(src); n += k\<close> on a fixed-size header array.\<close>

definition hdr_put :: "bytes \<Rightarrow> bytes \<times> nat \<Rightarrow> (bytes \<times> nat) result" where
  "hdr_put src = (\<lambda>(hdr, n). bindR (copy_at hdr n src) (\<lambda>hdr'. Inr (hdr', n + length src)))"

text \<open>The 24-bit field, written by the local \<open>hton24\<close> into a \<open>[u8; 3]\<close>.\<close>

definition writer_hton24 :: "u32 \<Rightarrow> bytes" where
  "writer_hton24 val =
     [ucast (drop_bit 16 val AND 0xFF), ucast (drop_bit 8 val AND 0xFF), ucast (val AND 0xFF)]"

definition first_header_array ::
  "u32 \<Rightarrow> u8 \<Rightarrow> u32 \<Rightarrow> u32 \<Rightarrow> u8 \<Rightarrow> u32 \<Rightarrow> (bytes \<times> nat) result" where
  "first_header_array csid fmt ts_field msg_length msg_type_id msg_stream_id =
     (let ext_ts = (ts_field \<ge> EXTENDED_TIMESTAMP_MARKER);
          (basic, basic_len) = basic_header csid fmt in
      bindR (subslice basic 0 basic_len) (\<lambda>basic_bytes.
      bindR (hdr_put basic_bytes (replicate (3 + 11 + 4) 0, 0)) (\<lambda>h.
      bindR (hdr_put (writer_hton24 (if ext_ts then EXTENDED_TIMESTAMP_MARKER else ts_field)) h) (\<lambda>h.
      bindR (if fmt \<le> 1 then bindR (hdr_put (writer_hton24 msg_length) h) (hdr_put [msg_type_id])
             else Inr h) (\<lambda>h.
      bindR (if fmt = 0 then hdr_put (le32 msg_stream_id) h else Inr h) (\<lambda>h.
      if ext_ts then hdr_put (be32 ts_field) h else Inr h))))))"

definition write_first_header ::
  "u32 \<Rightarrow> u8 \<Rightarrow> u32 \<Rightarrow> u32 \<Rightarrow> u8 \<Rightarrow> u32 \<Rightarrow> (buffer, unit) op" where
  "write_first_header csid fmt ts_field msg_length msg_type_id msg_stream_id =
     (if fmt > 2 then failS (Err EInternal)
      else if csid > RTMP_MAX_CSID then failS (Err EChunk)
      else if csid < RTMP_MIN_CSID then failS (Err EChunk)
      else bindS (liftS (bindR
          (first_header_array csid fmt ts_field msg_length msg_type_id msg_stream_id)
          (\<lambda>(hdr, n). subslice hdr 0 n))) (\<lambda>hdr.
        voidS (map_errS EInternal (buf_write hdr))))"

definition chunk_body_len :: "u32 \<Rightarrow> nat \<Rightarrow> nat \<Rightarrow> bool \<Rightarrow> nat" where
  "chunk_body_len csid payload_len chunk_size ext_ts =
     (let chunk_size = (if chunk_size = 0 then 128 else chunk_size);
          cont_len = snd (basic_header csid 3);
          continuation_chunks = (payload_len - 1) div chunk_size
      in payload_len + continuation_chunks * (cont_len + (if ext_ts then 4 else 0)))"

text \<open>
  \<open>slice::chunks\<close>. It panics for a chunk size of 0, which its only caller here replaces by 128
  first.
\<close>

function chunks_of :: "nat \<Rightarrow> 'a list \<Rightarrow> 'a list list" where
  "chunks_of n xs = (if n = 0 \<or> xs = [] then [] else take n xs # chunks_of n (drop n xs))"
  by pat_completeness auto
termination
  by (relation "measure (\<lambda>(n, xs). length xs)") auto

declare chunks_of.simps [simp del]

text \<open>The \<open>while let\<close> loop over the chunks, a continuation header between any two.\<close>

fun write_chunks :: "bytes \<Rightarrow> bytes list \<Rightarrow> (buffer, unit) op" where
  "write_chunks chdr [] = retS ()"
| "write_chunks chdr (chunk # chunks) =
     thenS (map_errS EInternal (buf_write chunk))
       (if chunks \<noteq> [] then thenS (map_errS EInternal (buf_write chdr)) (write_chunks chdr chunks)
        else write_chunks chdr chunks)"

definition continuation_header_array :: "u32 \<Rightarrow> u32 option \<Rightarrow> (bytes \<times> nat) result" where
  "continuation_header_array csid ext_ts =
     (let (cont, cont_len) = basic_header csid 3 in
      bindR (subslice cont 0 cont_len) (\<lambda>cont_bytes.
      bindR (hdr_put cont_bytes (replicate (3 + 4) 0, 0)) (\<lambda>h.
      case ext_ts of Some ts \<Rightarrow> hdr_put (be32 ts) h | None \<Rightarrow> Inr h)))"

definition write_chunk_body :: "u32 \<Rightarrow> bytes \<Rightarrow> nat \<Rightarrow> u32 option \<Rightarrow> (buffer, unit) op" where
  "write_chunk_body csid payload chunk_size ext_ts =
     (if csid > RTMP_MAX_CSID then failS (Err EChunk)
      else if csid < RTMP_MIN_CSID then failS (Err EChunk)
      else
        let chunk_size = (if chunk_size = 0 then 128 else chunk_size) in
        thenS (map_errS EInternal
            (buf_reserve (chunk_body_len csid (length payload) chunk_size (ext_ts \<noteq> None))))
        (bindS (liftS (bindR (continuation_header_array csid ext_ts) (\<lambda>(hdr, n). subslice hdr 0 n)))
          (\<lambda>chdr. write_chunks chdr (chunks_of chunk_size payload))))"

definition chunk_write_extended_timestamp :: "u32 \<Rightarrow> (buffer, unit) op" where
  "chunk_write_extended_timestamp timestamp =
     thenS (map_errS EInternal (buf_write [push_bit 6 3 OR 2]))
       (voidS (map_errS EInternal (buf_write (be32 timestamp))))"

text \<open>\<open>chunk_write\<close> with a chunk size that is not 0.\<close>

definition chunk_write_sized :: "chunk_message \<Rightarrow> bytes \<Rightarrow> nat \<Rightarrow> nat \<Rightarrow> (buffer, unit) op" where
  "chunk_write_sized msg payload payload_len chunk_size =
     (if cm_csid msg > RTMP_MAX_CSID then failS (Err EChunk)
      else if cm_csid msg < RTMP_MIN_CSID then failS (Err EChunk)
      else if cm_fmt msg \<noteq> 0 then failS (Err EInternal)
      else if cm_msg_length msg > RTMP_WIRE_MAX_MSG_LENGTH then failS (Err EInternal)
      else if payload_len \<noteq> unat (cm_msg_length msg) then failS (Err EInternal)
      else if payload_len > length payload then failS (Err EInternal)
      else
        let ext_ts = (cm_timestamp msg \<ge> EXTENDED_TIMESTAMP_MARKER) in
        thenS (map_errS EInternal (buf_reserve
            (first_header_len (cm_csid msg) 0 (cm_timestamp msg)
              + chunk_body_len (cm_csid msg) payload_len chunk_size ext_ts)))
        (thenS (write_first_header (cm_csid msg) 0 (cm_timestamp msg) (cm_msg_length msg)
            (cm_msg_type_id msg) (cm_msg_stream_id msg))
          (bindS (liftS (subslice payload 0 payload_len)) (\<lambda>body.
            write_chunk_body (cm_csid msg) body chunk_size
              (if ext_ts then Some (cm_timestamp msg) else None)))))"

definition chunk_write :: "chunk_message \<Rightarrow> bytes \<Rightarrow> nat \<Rightarrow> nat \<Rightarrow> (buffer, unit) op" where
  "chunk_write msg payload payload_len chunk_size =
     (if chunk_size = 0 then chunk_write_sized msg payload payload_len 128
      else chunk_write_sized msg payload payload_len chunk_size)"

section \<open>The bytes on the wire\<close>

definition valid_csid :: "u32 \<Rightarrow> bool" where
  "valid_csid csid \<longleftrightarrow> RTMP_MIN_CSID \<le> csid \<and> csid \<le> RTMP_MAX_CSID"

definition basic_bytes :: "u32 \<Rightarrow> u8 \<Rightarrow> bytes" where
  "basic_bytes csid fmt = take (snd (basic_header csid fmt)) (fst (basic_header csid fmt))"

definition ext_bytes :: "u32 \<Rightarrow> bytes" where
  "ext_bytes ts = (if ts \<ge> EXTENDED_TIMESTAMP_MARKER then be32 ts else [])"

definition first_header_bytes :: "u32 \<Rightarrow> u8 \<Rightarrow> u32 \<Rightarrow> u32 \<Rightarrow> u8 \<Rightarrow> u32 \<Rightarrow> bytes" where
  "first_header_bytes csid fmt ts len ty sid =
     basic_bytes csid fmt @ be24 (min ts EXTENDED_TIMESTAMP_MARKER) @
     (if fmt \<le> 1 then be24 len @ [ty] else []) @ (if fmt = 0 then le32 sid else []) @ ext_bytes ts"

definition cont_bytes :: "u32 \<Rightarrow> u32 option \<Rightarrow> bytes" where
  "cont_bytes csid ext = basic_bytes csid 3 @ (case ext of Some ts \<Rightarrow> be32 ts | None \<Rightarrow> [])"

fun body_bytes :: "bytes \<Rightarrow> bytes list \<Rightarrow> bytes" where
  "body_bytes chdr [] = []"
| "body_bytes chdr [c] = c"
| "body_bytes chdr (c # d # cs) = c @ chdr @ body_bytes chdr (d # cs)"

definition chunk_body_bytes :: "u32 \<Rightarrow> bytes \<Rightarrow> nat \<Rightarrow> u32 option \<Rightarrow> bytes" where
  "chunk_body_bytes csid payload n ext = body_bytes (cont_bytes csid ext) (chunks_of n payload)"

section \<open>What the writers append\<close>

lemma basic_header_shape:
  "length (fst (basic_header csid fmt)) = 3" "1 \<le> snd (basic_header csid fmt)"
  "snd (basic_header csid fmt) \<le> 3"
  by (simp_all add: basic_header_def)

lemma length_basic_bytes [simp]: "length (basic_bytes csid fmt) = snd (basic_header csid fmt)"
  using basic_header_shape [of csid fmt] by (simp add: basic_bytes_def)

lemma basic_len_fmt: "snd (basic_header csid fmt) = snd (basic_header csid fmt')"
  by (simp add: basic_header_def)

lemma writer_hton24_be24: "writer_hton24 v = be24 v"
  by (simp add: writer_hton24_def be24_def)

text \<open>A header array of which the first \<open>n\<close> bytes have been written.\<close>

definition holds :: "(bytes \<times> nat) result \<Rightarrow> nat \<Rightarrow> bytes \<Rightarrow> bool" where
  "holds h cap bs \<longleftrightarrow> (\<exists>hdr. h = Inr (hdr, length bs) \<and> length hdr = cap \<and> take (length bs) hdr = bs)"

lemma holds_start: "holds (Inr (replicate cap 0, 0)) cap []"
  by (simp add: holds_def)

lemma holds_put:
  assumes "holds h cap bs" "length bs + length src \<le> cap"
  shows "holds (bindR h (hdr_put src)) cap (bs @ src)"
  using assms by (auto simp: holds_def hdr_put_def)

lemma holds_subslice:
  "holds h cap bs \<Longrightarrow> length bs \<le> cap \<Longrightarrow> bindR h (\<lambda>(hdr, n). subslice hdr 0 n) = Inr bs"
  by (auto simp: holds_def)

lemma holds_step:
  assumes "holds h cap bs" "length bs + length src \<le> cap"
    and "\<And>h'. holds h' cap (bs @ src) \<Longrightarrow> Q (bindR h' f)"
  shows "Q (bindR h (\<lambda>x. bindR (hdr_put src x) f))"
  using assms(3) [OF holds_put [OF assms(1,2)]] by (simp add: bindR_assoc)

lemma holds_step_last:
  assumes "holds h cap bs" "length bs + length src \<le> cap"
  shows "holds (bindR h (hdr_put src)) cap (bs @ src)"
  using assms by (rule holds_put)

lemma fmt2_cases:
  fixes fmt :: u8
  assumes "fmt \<le> 2"
  obtains "fmt = 0" | "fmt = 1" | "fmt = 2"
proof -
  have "fmt \<le> 3" using assms by (rule order_trans) simp
  then show thesis using assms that by (cases rule: fmt_cases) simp_all
qed

lemma first_header_array_holds:
  assumes fmt: "fmt \<le> 2"
  shows "holds (first_header_array csid fmt ts len ty sid) 18 (first_header_bytes csid fmt ts len ty sid)"
proof -
  let ?ext = "ts \<ge> EXTENDED_TIMESTAMP_MARKER"
  have b: "snd (basic_header csid fmt) \<le> 3" by (rule basic_header_shape)
  have sub: "subslice (fst (basic_header csid fmt)) 0 (snd (basic_header csid fmt)) = Inr (basic_bytes csid fmt)"
    using basic_header_shape [of csid fmt] by (simp add: basic_bytes_def)
  have ts: "(if ?ext then EXTENDED_TIMESTAMP_MARKER else ts) = min ts EXTENDED_TIMESTAMP_MARKER"
    by (auto simp: min_def not_le)
  have arr: "first_header_array csid fmt ts len ty sid =
    bindR (Inr (replicate 18 0, 0)) (\<lambda>h. bindR (hdr_put (basic_bytes csid fmt) h) (\<lambda>h.
      bindR (hdr_put (be24 (min ts EXTENDED_TIMESTAMP_MARKER)) h) (\<lambda>h.
      bindR (if fmt \<le> 1 then bindR (hdr_put (be24 len) h) (hdr_put [ty]) else Inr h) (\<lambda>h.
      bindR (if fmt = 0 then hdr_put (le32 sid) h else Inr h) (\<lambda>h.
      if ?ext then hdr_put (be32 ts) h else Inr h)))))"
    unfolding first_header_array_def writer_hton24_be24 ts
    by (simp add: case_prod_unfold Let_def sub)
  show ?thesis
    unfolding arr first_header_bytes_def ext_bytes_def
  proof (rule holds_step [OF holds_start])
    fix h assume "holds h 18 ([] @ basic_bytes csid fmt)"
    then show "holds (bindR h (\<lambda>h. bindR (hdr_put (be24 (min ts EXTENDED_TIMESTAMP_MARKER)) h) (\<lambda>h.
      bindR (if fmt \<le> 1 then bindR (hdr_put (be24 len) h) (hdr_put [ty]) else Inr h) (\<lambda>h.
      bindR (if fmt = 0 then hdr_put (le32 sid) h else Inr h) (\<lambda>h.
      if ?ext then hdr_put (be32 ts) h else Inr h))))) 18
      (basic_bytes csid fmt @ be24 (min ts EXTENDED_TIMESTAMP_MARKER) @
        (if fmt \<le> 1 then be24 len @ [ty] else []) @ (if fmt = 0 then le32 sid else []) @
        (if ?ext then be32 ts else []))"
    proof (rule holds_step)
      fix h assume h: "holds h 18 (([] @ basic_bytes csid fmt) @ be24 (min ts EXTENDED_TIMESTAMP_MARKER))"
      let ?bs = "basic_bytes csid fmt @ be24 (min ts EXTENDED_TIMESTAMP_MARKER)"
      have h: "holds h 18 ?bs" using h by simp
      from holds_put [OF h, of "be24 len"] b
      have h1: "holds (bindR h (hdr_put (be24 len))) 18 (?bs @ be24 len)" by simp
      from holds_put [OF h1, of "[ty]"] b
      have h2: "holds (bindR (bindR h (hdr_put (be24 len))) (hdr_put [ty])) 18 ((?bs @ be24 len) @ [ty])"
        by simp
      from holds_put [OF h2, of "le32 sid"] b
      have h3: "holds (bindR (bindR (bindR h (hdr_put (be24 len))) (hdr_put [ty])) (hdr_put (le32 sid)))
        18 (((?bs @ be24 len) @ [ty]) @ le32 sid)" by simp
      note ext = holds_put [OF h, of "be32 ts"] holds_put [OF h2, of "be32 ts"]
        holds_put [OF h3, of "be32 ts"]
      show "holds (bindR h (\<lambda>h.
        bindR (if fmt \<le> 1 then bindR (hdr_put (be24 len) h) (hdr_put [ty]) else Inr h) (\<lambda>h.
        bindR (if fmt = 0 then hdr_put (le32 sid) h else Inr h) (\<lambda>h.
        if ?ext then hdr_put (be32 ts) h else Inr h)))) 18
        (basic_bytes csid fmt @ be24 (min ts EXTENDED_TIMESTAMP_MARKER) @
          (if fmt \<le> 1 then be24 len @ [ty] else []) @ (if fmt = 0 then le32 sid else []) @
          (if ?ext then be32 ts else []))"
        using fmt
      proof (cases rule: fmt2_cases)
        case 1
        with h3 ext(3) b show ?thesis by (cases ?ext) (simp_all add: bindR_assoc)
      next
        case 2
        with h2 ext(2) b show ?thesis by (cases ?ext) (simp_all add: bindR_assoc)
      next
        case 3
        with h ext(1) b show ?thesis by (cases ?ext) (simp_all add: bindR_assoc)
      qed
    qed (use b in simp)
  qed (use b in simp)
qed

lemma length_first_header_bytes:
  assumes "fmt \<le> 2"
  shows "length (first_header_bytes csid fmt ts len ty sid) = first_header_len csid fmt ts"
  using assms
  by (cases rule: fmt2_cases)
    (simp_all add: first_header_bytes_def first_header_len_def Let_def ext_bytes_def)

lemma first_header_bytes_bound:
  assumes "fmt \<le> 2"
  shows "length (first_header_bytes csid fmt ts len ty sid) \<le> 18"
  using assms basic_header_shape(3) [of csid fmt]
  by (cases rule: fmt2_cases) (simp_all add: length_first_header_bytes first_header_len_def Let_def)

lemma csid_guards [simp]:
  assumes "valid_csid csid"
  shows "\<not> csid > RTMP_MAX_CSID" "\<not> csid < RTMP_MIN_CSID"
  using assms by (auto simp: valid_csid_def)

lemma emits_lift_bind: "r = Inr v \<Longrightarrow> bq.emits (f v) x bs \<Longrightarrow> bq.emits (bindS (liftS r) f) x bs"
  using bq.emits_bind [OF bq.emits_lift, of f v x bs] by simp

lemma emits_write_first_header:
  assumes "fmt \<le> 2" "valid_csid csid"
  shows "bq.emits (write_first_header csid fmt ts len ty sid) ()
    (first_header_bytes csid fmt ts len ty sid)"
proof -
  have arr: "bindR (first_header_array csid fmt ts len ty sid) (\<lambda>(hdr, n). subslice hdr 0 n) =
      Inr (first_header_bytes csid fmt ts len ty sid)"
    by (rule holds_subslice [OF first_header_array_holds first_header_bytes_bound]) (rule assms)+
  have "bq.emits (bindS (liftS (bindR (first_header_array csid fmt ts len ty sid)
      (\<lambda>(hdr, n). subslice hdr 0 n))) (\<lambda>hdr. voidS (map_errS EInternal (buf_write hdr)))) ()
      (first_header_bytes csid fmt ts len ty sid)"
    by (rule emits_lift_bind [OF arr bq.emits_put])
  moreover have "\<not> fmt > 2" using assms(1) by simp
  ultimately show ?thesis
    using assms(2) by (simp add: write_first_header_def)
qed

lemma continuation_header_ok:
  "bindR (continuation_header_array csid ext) (\<lambda>(hdr, n). subslice hdr 0 n) = Inr (cont_bytes csid ext)"
proof -
  have b: "snd (basic_header csid 3) \<le> 3" by (rule basic_header_shape)
  have sub: "subslice (fst (basic_header csid 3)) 0 (snd (basic_header csid 3)) = Inr (basic_bytes csid 3)"
    using basic_header_shape [of csid 3] by (simp add: basic_bytes_def)
  have h: "holds (bindR (Inr (replicate 7 0, 0)) (hdr_put (basic_bytes csid 3))) 7 ([] @ basic_bytes csid 3)"
    by (rule holds_put [OF holds_start]) (use b in simp)
  have "holds (continuation_header_array csid ext) 7 (cont_bytes csid ext)"
  proof (cases ext)
    case None
    with h show ?thesis
      by (simp add: continuation_header_array_def cont_bytes_def case_prod_unfold sub)
  next
    case (Some ts)
    with holds_put [OF h, of "be32 ts"] b show ?thesis
      by (simp add: continuation_header_array_def cont_bytes_def case_prod_unfold sub)
  qed
  then show ?thesis
    by (rule holds_subslice) (use b in \<open>auto simp: cont_bytes_def split: option.splits\<close>)
qed

lemma emits_write_chunks: "bq.emits (write_chunks chdr cs) () (body_bytes chdr cs)"
proof (induction chdr cs rule: body_bytes.induct)
  case (1 chdr)
  show ?case unfolding write_chunks.simps body_bytes.simps by (rule bq.emits_ret)
next
  case (2 chdr c)
  show ?case using bq.emits_put_then [OF bq.emits_ret, of EInternal c "()"] by simp
next
  case (3 chdr c d cs)
  from bq.emits_put_then [OF bq.emits_put_then [OF 3], of EInternal c EInternal chdr]
  show ?case by (simp del: write_chunks.simps(2) add: write_chunks.simps(2) [of chdr c])
qed

lemma chunks_of_nonempty [simp]: "0 < n \<Longrightarrow> chunks_of n xs = [] \<longleftrightarrow> xs = []"
  by (subst chunks_of.simps) simp

lemma length_body_bytes:
  assumes "0 < n"
  shows "length (body_bytes chdr (chunks_of n xs)) = length xs + (length xs - 1) div n * length chdr"
  using assms
proof (induction n xs rule: chunks_of.induct)
  case (1 n xs)
  show ?case
  proof (cases "n = 0 \<or> xs = []")
    case True
    then show ?thesis using "1.prems" by (subst chunks_of.simps) auto
  next
    case False
    then have eq: "chunks_of n xs = take n xs # chunks_of n (drop n xs)"
      by (subst chunks_of.simps) simp
    show ?thesis
    proof (cases "drop n xs = []")
      case True
      with False have "length xs - 1 < n" by (cases xs) auto
      then have "(length xs - 1) div n = 0" by simp
      with eq True False show ?thesis by (simp add: chunks_of.simps [of n "[]"])
    next
      case rest: False
      then obtain d ds where ds: "chunks_of n (drop n xs) = d # ds"
        using False by (metis chunks_of_nonempty neq0_conv neq_Nil_conv)
      have "(length xs - 1) div n = Suc ((length xs - n - 1) div n)"
        using rest False le_div_geq [of n "length xs - 1"] by (simp add: diff_commute)
      then show ?thesis
        using 1 False rest eq ds by (simp add: algebra_simps)
    qed
  qed
qed

text \<open>The length functions agree with the bytes.\<close>

definition eff_chunk_size :: "nat \<Rightarrow> nat" where
  "eff_chunk_size n = (if n = 0 then 128 else n)"

lemma eff_chunk_size_pos [simp]: "0 < eff_chunk_size n"
  by (simp add: eff_chunk_size_def)

lemma length_chunk_body_bytes:
  "length (chunk_body_bytes csid payload (eff_chunk_size n) ext) =
   chunk_body_len csid (length payload) n (ext \<noteq> None)"
  by (cases ext)
    (simp_all add: chunk_body_bytes_def length_body_bytes chunk_body_len_def cont_bytes_def
      eff_chunk_size_def Let_def)

lemma chunk_body_len_eff: "chunk_body_len csid len (eff_chunk_size n) ext = chunk_body_len csid len n ext"
  by (simp add: chunk_body_len_def eff_chunk_size_def Let_def)

lemma emits_write_chunk_body:
  assumes "valid_csid csid"
  shows "bq.emits (write_chunk_body csid payload n ext) ()
    (chunk_body_bytes csid payload (eff_chunk_size n) ext)"
proof -
  have "bq.emits (bindS (liftS (bindR (continuation_header_array csid ext) (\<lambda>(hdr, n). subslice hdr 0 n)))
      (\<lambda>chdr. write_chunks chdr (chunks_of (eff_chunk_size n) payload))) ()
      (chunk_body_bytes csid payload (eff_chunk_size n) ext)"
    unfolding chunk_body_bytes_def
    by (rule emits_lift_bind [OF continuation_header_ok emits_write_chunks])
  from bq.emits_reserve [OF _ this, of "chunk_body_len csid (length payload) (eff_chunk_size n) (ext \<noteq> None)" EInternal]
  show ?thesis
    using assms
    by (simp add: write_chunk_body_def eff_chunk_size_def [symmetric] Let_def length_chunk_body_bytes
        chunk_body_len_eff)
qed

section \<open>A whole message\<close>

definition message_ext :: "u32 \<Rightarrow> u32 option" where
  "message_ext ts = (if ts \<ge> EXTENDED_TIMESTAMP_MARKER then Some ts else None)"

definition message_bytes :: "chunk_message \<Rightarrow> bytes \<Rightarrow> nat \<Rightarrow> bytes" where
  "message_bytes msg body n =
     first_header_bytes (cm_csid msg) 0 (cm_timestamp msg) (cm_msg_length msg) (cm_msg_type_id msg)
       (cm_msg_stream_id msg) @
     chunk_body_bytes (cm_csid msg) body n (message_ext (cm_timestamp msg))"

text \<open>The arguments \<open>chunk_write\<close> accepts.\<close>

definition writable :: "chunk_message \<Rightarrow> bytes \<Rightarrow> nat \<Rightarrow> bool" where
  "writable msg payload payload_len \<longleftrightarrow>
     valid_csid (cm_csid msg) \<and> cm_fmt msg = 0 \<and> cm_msg_length msg \<le> RTMP_WIRE_MAX_MSG_LENGTH \<and>
     payload_len = unat (cm_msg_length msg) \<and> payload_len \<le> length payload"

lemma chunk_write_unfold:
  assumes "writable msg payload len"
  shows "chunk_write msg payload len n =
    thenS (map_errS EInternal (buf_reserve (length (message_bytes msg (take len payload) (eff_chunk_size n)))))
      (thenS (write_first_header (cm_csid msg) 0 (cm_timestamp msg) (cm_msg_length msg)
          (cm_msg_type_id msg) (cm_msg_stream_id msg))
        (bindS (liftS (Inr (take len payload))) (\<lambda>body.
          write_chunk_body (cm_csid msg) body (eff_chunk_size n) (message_ext (cm_timestamp msg)))))"
proof -
  have len: "length (message_bytes msg (take len payload) (eff_chunk_size n)) =
      first_header_len (cm_csid msg) 0 (cm_timestamp msg)
      + chunk_body_len (cm_csid msg) len (eff_chunk_size n) (cm_timestamp msg \<ge> EXTENDED_TIMESTAMP_MARKER)"
    using assms
    by (auto simp: message_bytes_def length_first_header_bytes length_chunk_body_bytes writable_def
        message_ext_def chunk_body_len_eff min_def)
  have sized: "chunk_write msg payload len n = chunk_write_sized msg payload len (eff_chunk_size n)"
    by (simp add: chunk_write_def eff_chunk_size_def)
  have sub: "subslice payload 0 len = Inr (take len payload)"
    using assms by (simp add: writable_def)
  show ?thesis
    using assms unfolding sized len chunk_write_sized_def
    by (auto simp: writable_def Let_def message_ext_def sub not_less)
qed

lemma emits_chunk_write:
  assumes w: "writable msg payload len"
  shows "bq.emits (chunk_write msg payload len n) () (message_bytes msg (take len payload) (eff_chunk_size n))"
proof -
  have csid: "valid_csid (cm_csid msg)" using w by (simp add: writable_def)
  have eff: "eff_chunk_size (eff_chunk_size n) = eff_chunk_size n" by (simp add: eff_chunk_size_def)
  have body: "bq.emits (bindS (liftS (Inr (take len payload))) (\<lambda>body.
      write_chunk_body (cm_csid msg) body (eff_chunk_size n) (message_ext (cm_timestamp msg)))) ()
      (chunk_body_bytes (cm_csid msg) (take len payload) (eff_chunk_size n) (message_ext (cm_timestamp msg)))"
    using emits_write_chunk_body [OF csid, of _ "eff_chunk_size n"]
    by (intro emits_lift_bind [OF refl]) (simp add: eff)
  show ?thesis
    unfolding chunk_write_unfold [OF w]
    by (rule bq.emits_reserve [OF le_refl]) (unfold message_bytes_def,
      rule bq.emits_then [OF emits_write_first_header [OF _ csid] body], simp)
qed

lemma chunk_write_no_room:
  assumes "writable msg payload len" "buf_inv b"
    "\<not> buf_room b (length (message_bytes msg (take len payload) (eff_chunk_size n)))"
  shows "\<exists>b'. chunk_write msg payload len n b = (err EInternal, b') \<and> buf_inv b' \<and> contents b' = contents b"
  unfolding chunk_write_unfold [OF assms(1)] by (rule bq.reserve_fails [OF assms(2,3)])

lemma chunk_write_rejects:
  assumes "\<not> writable msg payload len"
  shows "chunk_write msg payload len n b = (err EChunk, b) \<or> chunk_write msg payload len n b = (err EInternal, b)"
  using assms
  by (auto simp: chunk_write_def chunk_write_sized_def writable_def valid_csid_def not_less Let_def)

lemma chunk_write_result:
  assumes "buf_inv b"
  shows "\<exists>b'. buf_inv b' \<and>
    (chunk_write msg payload len n b = (Inr (), b') \<and>
       contents b' = contents b @ message_bytes msg (take len payload) (eff_chunk_size n) \<or>
     (\<exists>e. chunk_write msg payload len n b = (err e, b') \<and> contents b' = contents b))"
proof (cases "writable msg payload len")
  case False
  from chunk_write_rejects [OF False, of n b] assms show ?thesis by blast
next
  case True
  show ?thesis
  proof (cases "buf_room b (length (message_bytes msg (take len payload) (eff_chunk_size n)))")
    case room: True
    obtain b' where "chunk_write msg payload len n b = (Inr (), b')" "buf_inv b'"
      "contents b' = contents b @ message_bytes msg (take len payload) (eff_chunk_size n)"
      by (rule bq.emitsE [OF emits_chunk_write [OF True] assms room])
    then show ?thesis by blast
  next
    case False
    from chunk_write_no_room [OF True assms False] show ?thesis by blast
  qed
qed

lemma appends_chunk_write: "bq.appends (chunk_write msg payload len n)"
proof (unfold bq.appends_def, intro allI impI)
  fix b assume "buf_inv b"
  from chunk_write_result [OF this, of msg payload len n]
  show "fst (chunk_write msg payload len n b) \<noteq> panic \<and> buf_inv (snd (chunk_write msg payload len n b)) \<and>
    (\<exists>w. contents (snd (chunk_write msg payload len n b)) = contents b @ w)" by auto
qed

section \<open>Properties\<close>

text \<open>C27: Writing a message is all or nothing: \<open>chunk_write\<close> either succeeds and appends exactly the
  header, the payload and the continuation headers, or returns an error and leaves the unread bytes
  of the buffer as they were; it never panics and never writes part of a message.\<close>
theorem chunk_write_all_or_nothing:
  assumes "buf_inv b"
  shows "\<exists>b'. buf_inv b' \<and>
    (chunk_write msg payload len n b = (Inr (), b') \<and>
       contents b' = contents b @ message_bytes msg (take len payload) (eff_chunk_size n) \<or>
     (\<exists>e. chunk_write msg payload len n b = (err e, b') \<and> contents b' = contents b))"
  by (rule chunk_write_result [OF assms])

definition ex_message :: "u32 \<Rightarrow> nat \<Rightarrow> chunk_message" where
  "ex_message ts len = \<lparr>cm_csid = 4, cm_fmt = 0, cm_timestamp = ts, cm_msg_length = of_nat len,
     cm_msg_type_id = 9, cm_msg_stream_id = 1, cm_is_complete = False\<rparr>"

theorem chunk_write_all_or_nothing_witness:
  "\<exists>b'. buf_inv b' \<and>
    (chunk_write (ex_message 5 2) [1, 2] 2 0 buf_new = (Inr (), b') \<or>
     (\<exists>e. chunk_write (ex_message 5 2) [1, 2] 2 0 buf_new = (err e, b')))"
  using chunk_write_all_or_nothing [of buf_new "ex_message 5 2" "[1, 2]" 2 0] by auto

text \<open>C28: The two size functions that callers reserve space with are exact: a first header and a
  chunked body take as many bytes as \<open>first_header_len\<close> and \<open>chunk_body_len\<close> announce.\<close>
theorem announced_lengths_exact:
  assumes "buf_inv b" and "valid_csid csid" and "fmt \<le> 2"
    and "buf_room b (first_header_len csid fmt ts + chunk_body_len csid (length payload) n (ext \<noteq> None))"
  shows "\<exists>b' hdr body. thenS (write_first_header csid fmt ts len ty sid) (write_chunk_body csid payload n ext) b
      = (Inr (), b') \<and> contents b' = contents b @ hdr @ body \<and>
    length hdr = first_header_len csid fmt ts \<and>
    length body = chunk_body_len csid (length payload) n (ext \<noteq> None)"
proof -
  let ?h = "first_header_bytes csid fmt ts len ty sid"
  let ?b = "chunk_body_bytes csid payload (eff_chunk_size n) ext"
  have lens: "length ?h = first_header_len csid fmt ts"
    "length ?b = chunk_body_len csid (length payload) n (ext \<noteq> None)"
    by (simp_all add: length_first_header_bytes [OF assms(3)] length_chunk_body_bytes)
  have "bq.emits (thenS (write_first_header csid fmt ts len ty sid) (write_chunk_body csid payload n ext)) ()
      (?h @ ?b)"
    by (rule bq.emits_then [OF emits_write_first_header [OF assms(3,2)] emits_write_chunk_body [OF assms(2)]])
  moreover have "buf_room b (length (?h @ ?b))" using assms(4) lens by simp
  ultimately obtain b' where
    "thenS (write_first_header csid fmt ts len ty sid) (write_chunk_body csid payload n ext) b = (Inr (), b')"
    "contents b' = contents b @ ?h @ ?b"
    using assms(1) by (auto elim: bq.emitsE)
  with lens show ?thesis by blast
qed

theorem announced_lengths_exact_witness:
  "\<exists>b' hdr body. thenS (write_first_header 4 1 20 3 9 1) (write_chunk_body 4 (replicate 3 7) 2 None) buf_new
      = (Inr (), b') \<and> contents b' = hdr @ body \<and> length hdr = 8 \<and> length body = 4"
  using announced_lengths_exact [of buf_new 4 1 20 "replicate 3 7" 2 None 3 9 1]
  by (simp add: buf_room_def valid_csid_def RTMP_MIN_CSID_def RTMP_MAX_CSID_def BUFFER_MAX_SIZE_def
      first_header_len_def chunk_body_len_def basic_header_def EXTENDED_TIMESTAMP_MARKER_def)

end
