(* ===== verification/Chunk_Roundtrip.thy ===== *)
theory Chunk_Roundtrip
  imports Chunk_Writer
begin

text \<open>
  The chunk writer and the chunk reader together: the reader, applied to the bytes the writer
  appends, reassembles the message that was written, whatever precedes and follows it in the
  stream. The first header is treated for every format the writers emit (0, 1 and 2), so the same
  lemmas serve the whole-message writer and the compressed headers of the media path.
\<close>

section \<open>Headers\<close>

lemma bit_63: "bit (63 :: int) n \<longleftrightarrow> n < 6"
proof -
  have "(63 :: int) = mask 6" by (simp add: mask_eq_exp_minus_1)
  then show ?thesis by (simp only: bit_mask_iff) simp
qed

lemma basic_first_small:
  fixes fmt :: u8 and csid :: u32
  assumes "fmt \<le> 3" "csid < 64"
  shows "drop_bit 6 (push_bit 6 fmt OR ucast csid :: u8) = fmt"
    "ucast ((push_bit 6 fmt OR ucast csid :: u8) AND 0x3F) = csid"
proof -
  have "unat csid < 2 ^ 6" "unat fmt < 2 ^ 2"
    using assms by (simp_all add: word_less_nat_alt word_le_nat_alt)
  note c = no_high_bit [OF this(1)] and f = no_high_bit [OF this(2)]
  show "drop_bit 6 (push_bit 6 fmt OR ucast csid :: u8) = fmt"
    by (rule bit_word_eqI) (auto simp: bit_simps dest: bit_imp_le_length f c)
  show "ucast ((push_bit 6 fmt OR ucast csid :: u8) AND 0x3F) = csid"
  proof (rule bit_word_eqI)
    fix n assume "n < LENGTH(32)"
    show "bit (ucast ((push_bit 6 fmt OR ucast csid :: u8) AND 0x3F) :: u32) n = bit csid n"
      using c [of n] by (cases "bit csid n") (auto simp: bit_simps bit_63)
  qed
qed

lemma chunk_basic_header_small:
  assumes "fmt \<le> 3" "csid < 64" "2 \<le> csid"
  shows "chunk_basic_header available ((push_bit 6 fmt OR ucast csid) # rest) = Inr (Some (fmt, csid, 1))"
proof -
  have "csid \<noteq> 0" "csid \<noteq> 1" using assms(3) by (auto simp: word_le_nat_alt)
  moreover obtain x :: u8 where x: "x = push_bit 6 fmt OR ucast csid" by blast
  moreover have "drop_bit 6 x = fmt" "ucast (x AND 0x3F) = csid"
    unfolding x by (rule basic_first_small [OF assms(1,2)])+
  ultimately show ?thesis
    unfolding x [symmetric] by (simp add: chunk_basic_header_def Let_def)
qed

lemma basic_first_low:
  fixes fmt :: u8
  assumes "fmt \<le> 3"
  shows "drop_bit 6 (push_bit 6 fmt) = fmt" "push_bit 6 fmt AND 0x3F = 0"
    "drop_bit 6 (push_bit 6 fmt OR 1) = fmt" "(push_bit 6 fmt OR 1) AND 0x3F = 1"
  using assms by (cases rule: fmt_cases; simp add: push_bit_eq_mult drop_bit_eq_div)+

lemma csid_offset:
  fixes csid :: u32
  assumes "64 \<le> csid"
  shows "unat (csid - 64) = unat csid - 64"
  using assms by (simp add: unat_sub)

lemma chunk_basic_header_medium:
  assumes "fmt \<le> 3" "64 \<le> csid" "csid < 320" "2 \<le> available"
  shows "chunk_basic_header available (push_bit 6 fmt # ucast (csid - 64) # rest) = Inr (Some (fmt, csid, 2))"
proof -
  have "unat (csid - 64) < 256"
    using assms(2,3) by (simp add: csid_offset word_less_nat_alt word_le_nat_alt)
  then have lt: "unat (csid - 64) < 2 ^ 8" by simp
  have "ucast (ucast (csid - 64) :: u8) = csid - 64"
    by (rule bit_word_eqI) (auto simp: bit_simps dest: no_high_bit [OF lt])
  then show ?thesis
    using assms by (simp add: chunk_basic_header_def basic_first_low)
qed

lemma chunk_basic_header_large:
  assumes "fmt \<le> 3" "320 \<le> csid" "csid \<le> RTMP_MAX_CSID" "3 \<le> available"
  shows "chunk_basic_header available ((push_bit 6 fmt OR 1) # ucast ((csid - 64) AND 0xFF) #
    ucast (drop_bit 8 (csid - 64) AND 0xFF) # rest) = Inr (Some (fmt, csid, 3))"
proof -
  have "64 \<le> csid" using assms(2) by (rule order_trans [rotated]) simp
  then have lt: "unat (csid - 64) < 2 ^ 16"
    using assms(3) by (simp add: csid_offset word_less_nat_alt word_le_nat_alt RTMP_MAX_CSID_def)
  have "ucast (ucast (csid - 64) :: u8) OR push_bit 8 (ucast (ucast (drop_bit 8 (csid - 64)) :: u8))
      = csid - 64" (is "?l = _")
    by (rule bit_word_eqI) (auto simp: bit_simps not_le dest: no_high_bit [OF lt])
  then show ?thesis
    using assms by (simp add: chunk_basic_header_def basic_first_low)
qed

lemma chunk_basic_header_bytes:
  assumes "fmt \<le> 3" "valid_csid csid"
  shows "chunk_basic_header (length (basic_bytes csid fmt @ rest)) (basic_bytes csid fmt @ rest) =
    Inr (Some (fmt, csid, snd (basic_header csid fmt)))"
proof -
  have v: "2 \<le> csid" "csid \<le> RTMP_MAX_CSID"
    using assms(2) by (simp_all add: valid_csid_def RTMP_MIN_CSID_def)
  consider "csid < 64" | "64 \<le> csid" "csid < 320" | "320 \<le> csid" by force
  then show ?thesis
  proof cases
    case 1
    then show ?thesis
      using chunk_basic_header_small [OF assms(1) 1 v(1)] by (simp add: basic_bytes_def basic_header_def)
  next
    case 2
    then have "\<not> csid < 64" by simp
    with 2 show ?thesis
      using chunk_basic_header_medium [OF assms(1) 2] by (simp add: basic_bytes_def basic_header_def)
  next
    case 3
    then have "\<not> csid < 320" "64 \<le> csid" by (auto elim: order_trans [rotated])
    moreover then have "\<not> csid < 64" by simp
    ultimately show ?thesis
      using chunk_basic_header_large [OF assms(1) 3 v(2)]
      by (simp add: basic_bytes_def basic_header_def)
  qed
qed

section \<open>Fields\<close>

lemma u24_at_be24: "off = length pre \<Longrightarrow> v \<le> 0xFFFFFF \<Longrightarrow> u24_at (pre @ be24 v @ post) off = v"
  using u24_be_be24 [of v] by (simp add: u24_at_def be24_def nth_append)

lemma u32_be_at_be32: "off = length pre \<Longrightarrow> u32_be_at (pre @ be32 v @ post) off = v"
  using u32_be_be32 [of v] by (simp add: u32_be_at_def be32_def nth_append)

lemma u32_le_at_le32: "off = length pre \<Longrightarrow> u32_le_at (pre @ le32 v @ post) off = v"
  using u32_le_le32 [of v] by (simp add: u32_le_at_def le32_def nth_append)

lemma at_drop:
  assumes "hs \<le> length c"
  shows "u24_at (drop hs c) off = u24_at c (hs + off)" "u32_le_at (drop hs c) off = u32_le_at c (hs + off)"
  using assms by (simp_all add: u24_at_def u32_le_at_def add.assoc)

lemma min_marker: "min ts EXTENDED_TIMESTAMP_MARKER \<le> 0xFFFFFF"
  "min ts EXTENDED_TIMESTAMP_MARKER \<ge> 0xFFFFFF \<longleftrightarrow> ts \<ge> EXTENDED_TIMESTAMP_MARKER"
  by (auto simp: EXTENDED_TIMESTAMP_MARKER_def min_def)

definition first_plan :: "u32 \<Rightarrow> u8 \<Rightarrow> u32 \<Rightarrow> nat \<Rightarrow> chunk_plan" where
  "first_plan csid fmt ts n = \<lparr>cp_fmt = fmt, cp_csid = csid,
     cp_header_size = snd (basic_header csid fmt), cp_ext_ts = (ts \<ge> EXTENDED_TIMESTAMP_MARKER),
     cp_total_header = first_header_len csid fmt ts, cp_to_read = n\<rparr>"

definition first_fields :: "u8 \<Rightarrow> u32 \<Rightarrow> u32 \<Rightarrow> u8 \<Rightarrow> u32 \<Rightarrow> chunk_header" where
  "first_fields fmt ts len ty sid = \<lparr>ch_timestamp = ts,
     ch_msg_length = (if fmt \<le> 1 then len else 0), ch_msg_type_id = (if fmt \<le> 1 then ty else 0),
     ch_msg_stream_id = (if fmt = 0 then sid else 0)\<rparr>"

text \<open>The fields of a first header where the writer put them.\<close>

lemma first_header_fields:
  fixes rest :: bytes and csid ts sid len :: u32 and fmt ty :: u8
  assumes fmt: "fmt \<le> 2" and len: "len \<le> 0xFFFFFF"
  defines "c \<equiv> first_header_bytes csid fmt ts len ty sid @ rest"
    and "hs \<equiv> snd (basic_header csid fmt)"
  shows "u24_at c hs = min ts EXTENDED_TIMESTAMP_MARKER"
    "fmt \<le> 1 \<Longrightarrow> u24_at c (hs + 3) = len"
    "fmt \<le> 1 \<Longrightarrow> c ! (hs + 6) = ty"
    "fmt = 0 \<Longrightarrow> u32_le_at c (hs + 7) = sid"
    "ts \<ge> EXTENDED_TIMESTAMP_MARKER \<Longrightarrow> u32_be_at c (hs + field_size fmt) = ts"
proof -
  let ?B = "basic_bytes csid fmt" and ?T = "be24 (min ts EXTENDED_TIMESTAMP_MARKER)"
  let ?M = "if fmt \<le> 1 then be24 len @ [ty] else []" and ?S = "if fmt = 0 then le32 sid else []"
  have c: "c = ?B @ ?T @ ?M @ ?S @ ext_bytes ts @ rest"
    by (simp add: c_def first_header_bytes_def)
  show "u24_at c hs = min ts EXTENDED_TIMESTAMP_MARKER"
    unfolding c by (rule u24_at_be24) (simp_all add: hs_def min_marker)
  show "u24_at c (hs + 3) = len" if "fmt \<le> 1"
    using u24_at_be24 [of "hs + 3" "?B @ ?T" len "[ty] @ ?S @ ext_bytes ts @ rest"] that len
    by (simp add: c hs_def)
  show "c ! (hs + 6) = ty" if "fmt \<le> 1"
    using that nth_append_length [of "?B @ ?T @ be24 len" ty "?S @ ext_bytes ts @ rest"]
    by (simp add: c hs_def)
  show "u32_le_at c (hs + 7) = sid" if "fmt = 0"
    using u32_le_at_le32 [of "hs + 7" "?B @ ?T @ be24 len @ [ty]" sid "ext_bytes ts @ rest"] that
    by (simp add: c hs_def)
  show "u32_be_at c (hs + field_size fmt) = ts" if "ts \<ge> EXTENDED_TIMESTAMP_MARKER"
  proof -
    have "hs + field_size fmt = length (?B @ ?T @ ?M @ ?S)"
      using fmt by (cases rule: fmt2_cases) (simp_all add: hs_def field_size_def)
    from u32_be_at_be32 [OF this, of ts rest] that show ?thesis by (simp add: c ext_bytes_def)
  qed
qed

lemma first_header_at:
  assumes fmt: "fmt \<le> 2" and len: "len \<le> 0xFFFFFF"
  shows "header_at (first_plan csid fmt ts n) (first_header_bytes csid fmt ts len ty sid @ rest) =
    first_fields fmt ts len ty sid"
proof -
  let ?hs = "snd (basic_header csid fmt)"
  define c where "c = first_header_bytes csid fmt ts len ty sid @ rest"
  note f = first_header_fields [OF fmt len, where csid = csid and ts = ts and ty = ty and sid = sid
      and rest = rest, folded c_def]
  have le: "?hs \<le> length c" by (simp add: c_def first_header_bytes_def)
  have "msg_header_at fmt (drop ?hs c) = (first_fields fmt ts len ty sid)
      \<lparr>ch_timestamp := min ts EXTENDED_TIMESTAMP_MARKER\<rparr>"
    using fmt le f(1-4)
    by (cases rule: fmt2_cases)
      (simp_all add: msg_header_at_def first_fields_def at_drop)
  moreover have "min ts EXTENDED_TIMESTAMP_MARKER = ts" if "\<not> ts \<ge> EXTENDED_TIMESTAMP_MARKER"
    using that by (auto simp: min_def)
  ultimately show ?thesis
    unfolding c_def [symmetric]
    using f(5) by (auto simp: header_at_def first_plan_def Let_def first_fields_def)
qed

text \<open>Phase 1 in front of a first header.\<close>

lemma chunk_read_plan_first:
  assumes reg: "reg_inv reg" and csid: "valid_csid csid" and fmt: "fmt \<le> 2" and len: "len \<le> 0xFFFFFF"
    and prior: "fmt = 2 \<Longrightarrow> stream_of reg csid \<noteq> None \<and> cs_has_message_header (opened reg csid) \<and>
      cs_reassembly_bytes_read (opened reg csid) = 0"
    and L: "L = (if fmt \<le> 1 then len else cs_type0_msg_length (opened reg csid))"
      "L \<le> reg_max_msg_length reg"
    and d: "length d = min (unat L) (unat (cs_chunk_size (opened reg csid)))"
    and mem: "reg_reassembly_bytes_in_use reg - (if fmt \<le> 1 then partial_bytes (opened reg csid) else 0)
      + length d \<le> reg_max_reassembly_bytes reg"
    and cap: "can_open reg csid"
  shows "chunk_read_plan (length (first_header_bytes csid fmt ts len ty sid @ d @ rest))
      (first_header_bytes csid fmt ts len ty sid @ d @ rest) reg
    = Inr (Some (first_plan csid fmt ts (length d)))"
proof -
  define c where "c = first_header_bytes csid fmt ts len ty sid @ d @ rest"
  let ?hs = "snd (basic_header csid fmt)" and ?ext = "ts \<ge> EXTENDED_TIMESTAMP_MARKER"
  have fmt3: "fmt \<le> 3" using fmt by (rule order_trans) simp
  note f = first_header_fields [OF fmt len, where csid = csid and ts = ts and ty = ty and sid = sid
      and rest = "d @ rest", folded c_def]
  have ext: "u24_at c ?hs \<ge> 0xFFFFFF \<longleftrightarrow> ?ext" unfolding f(1) by (rule min_marker)
  have lens: "length c = first_header_len csid fmt ts + length d + length rest"
    "first_header_len csid fmt ts = ?hs + field_size fmt + (if ?ext then 4 else 0)"
  proof -
    show "length c = first_header_len csid fmt ts + length d + length rest"
      by (simp add: c_def length_first_header_bytes [OF fmt])
    show "first_header_len csid fmt ts = ?hs + field_size fmt + (if ?ext then 4 else 0)"
      using fmt by (cases rule: fmt2_cases) (simp_all add: first_header_len_def field_size_def Let_def)
  qed
  have hdr: "chunk_basic_header (length c) c = Inr (Some (fmt, csid, ?hs))"
    using chunk_basic_header_bytes [OF fmt3 csid]
    by (simp add: c_def first_header_bytes_def del: length_append)
  have ne: "c \<noteq> []" using lens basic_header_shape(2) [of csid fmt] by auto
  have "chunk_plan_header (length c) c reg = Inr (Some ((first_plan csid fmt ts 0), L))"
    unfolding chunk_plan_header_eq [OF reg ne fmt3 hdr] using fmt f(2) ext lens prior L(1)
    by (cases rule: fmt2_cases)
      (auto simp: Let_def first_plan_def opened_def split: option.splits)
  moreover have "chunk_plan_body (length c) reg (first_plan csid fmt ts 0, L) =
      Inr (Some (first_plan csid fmt ts (length d)))"
    unfolding chunk_plan_body_eq [OF reg] using fmt L(2) d mem cap prior lens
    by (cases rule: fmt2_cases) (auto simp: Let_def first_plan_def not_less)
  ultimately show ?thesis
    by (simp add: chunk_read_plan_def c_def [symmetric])
qed

section \<open>Continuation chunks\<close>

definition cont_plan :: "u32 \<Rightarrow> u32 option \<Rightarrow> nat \<Rightarrow> chunk_plan" where
  "cont_plan csid ext n = \<lparr>cp_fmt = 3, cp_csid = csid, cp_header_size = snd (basic_header csid 3),
     cp_ext_ts = (ext \<noteq> None), cp_total_header = length (cont_bytes csid ext), cp_to_read = n\<rparr>"

lemma plan_simps [simp]:
  "cp_csid (cont_plan csid ext n) = csid" "cp_fmt (cont_plan csid ext n) = 3"
  "cp_csid (first_plan csid fmt ts n) = csid" "cp_fmt (first_plan csid fmt ts n) = fmt"
  by (simp_all add: cont_plan_def first_plan_def)

lemma chunk_read_plan_cont:
  assumes reg: "reg_inv reg" and csid: "valid_csid csid" and st: "stream_of reg csid = Some st"
    and hdr: "cs_has_message_header st" and ext: "cs_type0_ext_ts st = (ext \<noteq> None)"
    and L: "cs_type0_msg_length st \<le> reg_max_msg_length reg"
    and d: "length d = min (unat (cs_type0_msg_length st) - unat (cs_reassembly_bytes_read st))
      (unat (cs_chunk_size st))"
    and mem: "reg_reassembly_bytes_in_use reg + length d \<le> reg_max_reassembly_bytes reg"
    and cap: "can_open reg csid"
  shows "chunk_read_plan (length (cont_bytes csid ext @ d @ rest)) (cont_bytes csid ext @ d @ rest) reg
    = Inr (Some (cont_plan csid ext (length d)))"
proof -
  define c where "c = cont_bytes csid ext @ d @ rest"
  let ?hs = "snd (basic_header csid 3)"
  have lens: "length c = length (cont_bytes csid ext) + length d + length rest"
    "length (cont_bytes csid ext) = ?hs + (if ext \<noteq> None then 4 else 0)"
    by (cases ext; simp add: c_def cont_bytes_def)+
  have hd: "chunk_basic_header (length c) c = Inr (Some (3, csid, ?hs))"
    using chunk_basic_header_bytes [OF order_refl csid]
    by (simp add: c_def cont_bytes_def del: length_append)
  have ne: "c \<noteq> []" using lens basic_header_shape(2) [of csid 3] by auto
  have "chunk_plan_header (length c) c reg =
      Inr (Some ((cont_plan csid ext 0), cs_type0_msg_length st))"
    unfolding chunk_plan_header_eq [OF reg ne order_refl hd] using lens st ext
    by (simp add: Let_def cont_plan_def field_size_def)
  moreover have "chunk_plan_body (length c) reg (cont_plan csid ext 0, cs_type0_msg_length st) =
      Inr (Some (cont_plan csid ext (length d)))"
    unfolding chunk_plan_body_eq [OF reg] using L d mem cap hdr lens st
    by (auto simp: Let_def cont_plan_def not_less opened_def)
  ultimately show ?thesis
    by (simp add: chunk_read_plan_def c_def [symmetric])
qed

text \<open>The header context of a stream: what later compressed headers refer to.\<close>

definition hdr_ctx :: "chunk_stream \<Rightarrow> bool \<times> u32 \<times> u32 \<times> u8 \<times> u32 \<times> bool \<times> u32 \<times> u32" where
  "hdr_ctx st = (cs_has_message_header st, cs_type0_timestamp st, cs_type0_msg_length st,
     cs_type0_msg_type_id st, cs_type0_msg_stream_id st, cs_type0_ext_ts st, cs_last_delta st,
     cs_chunk_size st)"

lemma hdr_ctx_settled_grown [simp]: "hdr_ctx (settled (grown st d)) = hdr_ctx st"
  by (simp add: hdr_ctx_def)

definition ctx_message :: "u32 \<Rightarrow> u8 \<Rightarrow> chunk_stream \<Rightarrow> chunk_message" where
  "ctx_message csid fmt st = \<lparr>cm_csid = csid, cm_fmt = fmt, cm_timestamp = cs_type0_timestamp st,
     cm_msg_length = cs_type0_msg_length st, cm_msg_type_id = cs_type0_msg_type_id st,
     cm_msg_stream_id = cs_type0_msg_stream_id st, cm_is_complete = True\<rparr>"

lemma headed_cont:
  "cs_reassembly_bytes_read st \<noteq> 0 \<Longrightarrow> headed (cont_plan csid ext n) h st = st"
  by (simp add: headed_def chunk_started_def chunk_stream_header_def cont_plan_def)

text \<open>
  What a reader has when a message has been delivered: the payload and header of the message, the
  rest of the input, and a registry in which only this stream changed, with header context \<open>ctx\<close>
  and no partial message.
\<close>

definition received ::
  "read_state \<Rightarrow> u32 \<Rightarrow> chunk_message \<Rightarrow> bytes \<Rightarrow> bytes \<Rightarrow> chunk_stream \<Rightarrow> read_state \<Rightarrow> bool" where
  "received s csid msg body rest ctx s' \<longleftrightarrow>
     read_inv s' \<and> contents (rs_buf s') = rest \<and> rs_payload s' = body \<and> rs_msg s' = msg \<and>
     (\<exists>st'. stream_of (rs_reg s') = (stream_of (rs_reg s))(csid \<mapsto> st') \<and>
        hdr_ctx st' = hdr_ctx ctx \<and> \<not> cs_reassembling st') \<and>
     reg_max_active_csids (rs_reg s') = reg_max_active_csids (rs_reg s) \<and>
     reg_max_msg_length (rs_reg s') = reg_max_msg_length (rs_reg s) \<and>
     reg_max_reassembly_bytes (rs_reg s') = reg_max_reassembly_bytes (rs_reg s) \<and>
     reg_default_chunk_size (rs_reg s') = reg_default_chunk_size (rs_reg s) \<and>
     reg_reassembly_bytes_in_use (rs_reg s') = reg_reassembly_bytes_in_use (rs_reg s)
       - partial_bytes (opened (rs_reg s) csid) \<and>
     reg_reassembling_count (rs_reg s') = reg_reassembling_count (rs_reg s)
       - of_bool (cs_reassembling (opened (rs_reg s) csid))"

text \<open>The caller's loop: read chunks until a message is complete.\<close>

fun read_until_complete :: "nat \<Rightarrow> (read_state, int) op" where
  "read_until_complete 0 = retS 0"
| "read_until_complete (Suc n) =
     bindS chunk_read (\<lambda>rc. if rc = 1 then retS 1 else read_until_complete n)"

section \<open>One chunk\<close>

text \<open>The situation in which a chunk with payload \<open>d\<close> is at the front of the buffer.\<close>

definition at_chunk :: "read_state \<Rightarrow> chunk_plan \<Rightarrow> chunk_stream \<Rightarrow> bytes \<Rightarrow> bytes \<Rightarrow> bool" where
  "at_chunk s p hs d rest \<longleftrightarrow> read_inv s \<and>
     (\<exists>pre. contents (rs_buf s) = pre @ d @ rest \<and> length pre = cp_total_header p) \<and>
     length d = cp_to_read p \<and>
     chunk_read_plan (length (contents (rs_buf s))) (contents (rs_buf s)) (rs_reg s) = Inr (Some p) \<and>
     hs = headed p (header_at p (contents (rs_buf s))) (opened (rs_reg s) (cp_csid p))"

lemma at_chunk_read:
  assumes "at_chunk s p hs d rest"
  defines "g \<equiv> grown hs d"
  obtains s1 where "chunk_read s = (Inr (if completes g then 1 else 0), delivered p g s1)"
    "read_inv s1" "contents (rs_buf s1) = rest"
    "stream_of (rs_reg s1) = (stream_of (rs_reg s))(cp_csid p \<mapsto> settled g)"
    "reg_max_active_csids (rs_reg s1) = reg_max_active_csids (rs_reg s)"
    "reg_max_msg_length (rs_reg s1) = reg_max_msg_length (rs_reg s)"
    "reg_default_chunk_size (rs_reg s1) = reg_default_chunk_size (rs_reg s)"
    "reg_max_reassembly_bytes (rs_reg s1) = reg_max_reassembly_bytes (rs_reg s)"
    "reg_reassembly_bytes_in_use (rs_reg s1) = reg_reassembly_bytes_in_use (rs_reg s)
      - partial_bytes (opened (rs_reg s) (cp_csid p)) + partial_bytes (settled g)"
    "reg_reassembling_count (rs_reg s1) = reg_reassembling_count (rs_reg s)
      - of_bool (cs_reassembling (opened (rs_reg s) (cp_csid p))) + of_bool (\<not> completes g)"
proof -
  let ?c = "contents (rs_buf s)"
  have b: "buf_inv (rs_buf s)" and reg: "reg_inv (rs_reg s)"
    and plan: "chunk_read_plan (length ?c) ?c (rs_reg s) = Inr (Some p)"
    using assms(1) by (simp_all add: at_chunk_def read_inv_def)
  have d: "take (cp_to_read p) (drop (cp_total_header p) ?c) = d"
    "drop (cp_total_header p + cp_to_read p) ?c = rest"
    using assms(1) by (auto simp: at_chunk_def)
  have hs: "headed p (header_at p ?c) (opened (rs_reg s) (cp_csid p)) = hs"
    using assms(1) by (simp add: at_chunk_def)
  show thesis
    by (rule chunk_read_ready [OF b reg plan], unfold d hs, fold g_def)
      (rule that, simp_all add: read_inv_def)
qed

lemma at_chunk_facts:
  assumes "at_chunk s p hs d rest"
  shows "buf_inv (cs_reassembly_buf (grown hs d))"
    "contents (cs_reassembly_buf (grown hs d)) = contents (cs_reassembly_buf hs) @ d"
    "completes (grown hs d) \<longleftrightarrow>
      length (contents (cs_reassembly_buf hs) @ d) = unat (cs_type0_msg_length hs)"
proof -
  let ?c = "contents (rs_buf s)" and ?st = "opened (rs_reg s) (cp_csid p)"
  have reg: "reg_inv (rs_reg s)" and len: "length d = cp_to_read p"
    and hs: "hs = headed p (header_at p ?c) ?st"
    and plan: "chunk_read_plan (length ?c) ?c (rs_reg s) = Inr (Some p)"
    using assms by (simp_all add: at_chunk_def read_inv_def)
  have rd: "ready_stream p (header_at p ?c) ?st"
    by (rule plan_ok_ready [OF reg chunk_read_plan_ok [OF reg plan]])
  note g = grown_ok [OF rd len, folded hs]
  show "buf_inv (cs_reassembly_buf (grown hs d))" by (rule g(2))
  show "contents (cs_reassembly_buf (grown hs d)) = contents (cs_reassembly_buf hs) @ d" by (rule g(4))
  show "completes (grown hs d) \<longleftrightarrow>
      length (contents (cs_reassembly_buf hs) @ d) = unat (cs_type0_msg_length hs)"
    using completes_grown [OF rd len] ready_bound(1) [OF rd] by (simp add: hs)
qed

lemma read_last_chunk:
  assumes at: "at_chunk s p hs d rest"
    and fin: "length (contents (cs_reassembly_buf hs) @ d) = unat (cs_type0_msg_length hs)"
  obtains s' where "chunk_read s = (Inr 1, s')"
    "received s (cp_csid p) (ctx_message (cp_csid p) (cp_fmt p) hs)
      (contents (cs_reassembly_buf hs) @ d) rest hs s'"
proof -
  note f = at_chunk_facts [OF at]
  let ?g = "grown hs d"
  have c: "completes ?g" using f(3) fin by simp
  have pb: "partial_bytes (settled ?g) = 0"
    using settled_buf(1) [OF f(1)] c by (simp add: partial_bytes_def)
  obtain s1 where s1: "chunk_read s = (Inr (if completes ?g then 1 else 0), delivered p ?g s1)"
    "read_inv s1" "contents (rs_buf s1) = rest"
    "stream_of (rs_reg s1) = (stream_of (rs_reg s))(cp_csid p \<mapsto> settled ?g)"
    "reg_max_active_csids (rs_reg s1) = reg_max_active_csids (rs_reg s)"
    "reg_max_msg_length (rs_reg s1) = reg_max_msg_length (rs_reg s)"
    "reg_default_chunk_size (rs_reg s1) = reg_default_chunk_size (rs_reg s)"
    "reg_max_reassembly_bytes (rs_reg s1) = reg_max_reassembly_bytes (rs_reg s)"
    "reg_reassembly_bytes_in_use (rs_reg s1) = reg_reassembly_bytes_in_use (rs_reg s)
      - partial_bytes (opened (rs_reg s) (cp_csid p)) + partial_bytes (settled ?g)"
    "reg_reassembling_count (rs_reg s1) = reg_reassembling_count (rs_reg s)
      - of_bool (cs_reassembling (opened (rs_reg s) (cp_csid p))) + of_bool (\<not> completes ?g)"
    by (rule at_chunk_read [OF at])
  have "hdr_ctx (settled ?g) = hdr_ctx hs \<and> \<not> cs_reassembling (settled ?g)"
    using c by simp
  then have "received s (cp_csid p) (ctx_message (cp_csid p) (cp_fmt p) hs)
      (contents (cs_reassembly_buf hs) @ d) rest hs (delivered p ?g s1)"
    unfolding received_def
    using s1(2-10) c pb f(2) buf_take_ok(1) [OF f(1)]
    by (auto simp: delivered_def ctx_message_def read_inv_def)
  with s1(1) c that show thesis by simp
qed

lemma read_more_chunk:
  assumes at: "at_chunk s p hs d rest"
    and more: "length (contents (cs_reassembly_buf hs) @ d) \<noteq> unat (cs_type0_msg_length hs)"
  obtains s' st' where "chunk_read s = (Inr 0, s')" "read_inv s'" "contents (rs_buf s') = rest"
    "stream_of (rs_reg s') = (stream_of (rs_reg s))(cp_csid p \<mapsto> st')" "hdr_ctx st' = hdr_ctx hs"
    "cs_reassembling st'" "contents (cs_reassembly_buf st') = contents (cs_reassembly_buf hs) @ d"
    "reg_max_active_csids (rs_reg s') = reg_max_active_csids (rs_reg s)"
    "reg_max_msg_length (rs_reg s') = reg_max_msg_length (rs_reg s)"
    "reg_default_chunk_size (rs_reg s') = reg_default_chunk_size (rs_reg s)"
    "reg_max_reassembly_bytes (rs_reg s') = reg_max_reassembly_bytes (rs_reg s)"
    "reg_reassembly_bytes_in_use (rs_reg s') = reg_reassembly_bytes_in_use (rs_reg s)
      - partial_bytes (opened (rs_reg s) (cp_csid p)) + length (contents (cs_reassembly_buf hs) @ d)"
    "reg_reassembling_count (rs_reg s') = reg_reassembling_count (rs_reg s)
      - of_bool (cs_reassembling (opened (rs_reg s) (cp_csid p))) + 1"
proof -
  note f = at_chunk_facts [OF at]
  let ?g = "grown hs d"
  have c: "\<not> completes ?g" using f(3) more by simp
  have buf: "contents (cs_reassembly_buf (settled ?g)) = contents (cs_reassembly_buf hs) @ d"
    using settled_buf(1) [OF f(1)] c f(2) by simp
  show thesis
    by (rule at_chunk_read [OF at])
      (rule that [of "delivered p ?g _" "settled ?g"],
        simp_all add: c buf partial_bytes_def del: length_append)
qed

section \<open>A whole message\<close>

lemma received_trans:
  assumes st: "stream_of (rs_reg s1) = (stream_of (rs_reg s))(csid \<mapsto> st)"
    and lim: "reg_max_active_csids (rs_reg s1) = reg_max_active_csids (rs_reg s)"
      "reg_max_msg_length (rs_reg s1) = reg_max_msg_length (rs_reg s)"
      "reg_default_chunk_size (rs_reg s1) = reg_default_chunk_size (rs_reg s)"
      "reg_max_reassembly_bytes (rs_reg s1) = reg_max_reassembly_bytes (rs_reg s)"
    and tot: "reg_reassembly_bytes_in_use (rs_reg s1) = reg_reassembly_bytes_in_use (rs_reg s)
        - partial_bytes (opened (rs_reg s) csid) + partial_bytes st"
      "reg_reassembling_count (rs_reg s1) = reg_reassembling_count (rs_reg s)
        - of_bool (cs_reassembling (opened (rs_reg s) csid)) + of_bool (cs_reassembling st)"
    and rcv: "received s1 csid msg body rest ctx s'"
  shows "received s csid msg body rest ctx s'"
proof -
  have "opened (rs_reg s1) csid = st" using st by (simp add: opened_def)
  with rcv lim tot st show ?thesis
    by (auto simp: received_def)
qed

lemma body_bytes_Cons:
  "ds \<noteq> [] \<Longrightarrow> body_bytes chdr (d # ds) = d @ chdr @ body_bytes chdr ds"
  by (cases ds) simp_all

lemma stream_inv_read:
  "stream_inv st \<Longrightarrow> unat (cs_reassembly_bytes_read st) = length (contents (cs_reassembly_buf st))"
  "stream_inv st \<Longrightarrow> cs_reassembling st \<Longrightarrow> cs_reassembly_bytes_read st \<noteq> 0"
  "stream_inv st \<Longrightarrow> cs_reassembling st \<Longrightarrow> cs_has_message_header st"
  "stream_inv st \<Longrightarrow> 0 < unat (cs_chunk_size st)"
  by (auto simp: stream_inv_def const_simps word_le_nat_alt)

text \<open>The remaining chunks of a message that is being reassembled.\<close>

lemma read_rest_of_message:
  assumes "read_inv s" "valid_csid csid" "stream_of (rs_reg s) csid = Some st" "cs_reassembling st"
    and "unat (cs_type0_msg_length st) = length (contents (cs_reassembly_buf st)) + length body"
    and "body \<noteq> []" "cs_type0_ext_ts st = (ext \<noteq> None)" "unat (cs_chunk_size st) = n"
    and "contents (rs_buf s) = cont_bytes csid ext @ chunk_body_bytes csid body n ext @ rest"
    and "cs_type0_msg_length st \<le> reg_max_msg_length (rs_reg s)"
    and "reg_reassembly_bytes_in_use (rs_reg s) + length body \<le> reg_max_reassembly_bytes (rs_reg s)"
  shows "\<exists>s'. read_until_complete (length (chunks_of n body)) s = (Inr 1, s') \<and>
    received s csid (ctx_message csid 3 st) (contents (cs_reassembly_buf st) @ body) rest st s'"
  using assms
proof (induction n body arbitrary: s st rule: chunks_of.induct)
  case (1 n body)
  note p = "1.prems"
  let ?d = "take n body" and ?r = "drop n body"
  have reg: "reg_inv (rs_reg s)" using p(1) by (simp add: read_inv_def)
  have inv: "stream_inv st" using stream_of_inv [OF reg p(3)] by simp
  note rd = stream_inv_read [OF inv]
  have n: "0 < n" using rd(4) p(8) by simp
  have eq: "chunks_of n body = ?d # chunks_of n ?r"
    using n p(6) by (subst chunks_of.simps) simp
  have op: "opened (rs_reg s) csid = st" "can_open (rs_reg s) csid"
    using p(3,4) by (simp_all add: opened_def can_open_def)
  define tl where "tl = (if ?r = [] then rest
    else cont_bytes csid ext @ chunk_body_bytes csid ?r n ext @ rest)"
  have c: "contents (rs_buf s) = cont_bytes csid ext @ ?d @ tl"
    using p(9) n by (simp add: chunk_body_bytes_def eq body_bytes_Cons tl_def chunks_of.simps [of n "[]"])
  have len: "length ?d = min (unat (cs_type0_msg_length st) - unat (cs_reassembly_bytes_read st))
      (unat (cs_chunk_size st))"
    using p(5,8) rd(1) by simp
  have "length ?d \<le> length body" by simp
  then have mem: "reg_reassembly_bytes_in_use (rs_reg s) + length ?d \<le> reg_max_reassembly_bytes (rs_reg s)"
    using p(11) by linarith
  let ?p = "cont_plan csid ext (length ?d)"
  have hdd: "headed ?p h st = st" for h
    by (rule headed_cont [OF rd(2) [OF p(4)]])
  have at: "at_chunk s ?p st ?d tl"
    unfolding at_chunk_def c
    using chunk_read_plan_cont [OF reg p(2,3) rd(3) [OF p(4)] p(7,10) len mem op(2), of tl] p(1) op(1) hdd
    by (simp add: cont_plan_def)
  show ?case
  proof (cases "?r = []")
    case True
    then have "?d = body" "tl = rest" by (simp_all add: tl_def)
    then have "length (contents (cs_reassembly_buf st) @ ?d) = unat (cs_type0_msg_length st)"
      using p(5) by simp
    from read_last_chunk [OF at this] obtain s' where "chunk_read s = (Inr 1, s')"
      "received s csid (ctx_message csid 3 st) (contents (cs_reassembly_buf st) @ ?d) tl st s'"
      unfolding plan_simps by blast
    then show ?thesis
      unfolding \<open>?d = body\<close> \<open>tl = rest\<close> eq True by (simp add: chunks_of.simps [of n "[]"])
  next
    case False
    then have less: "length (contents (cs_reassembly_buf st) @ ?d) \<noteq> unat (cs_type0_msg_length st)"
      using p(5) by simp
    obtain s1 st1 where s1: "chunk_read s = (Inr 0, s1)" "read_inv s1" "contents (rs_buf s1) = tl"
      "stream_of (rs_reg s1) = (stream_of (rs_reg s))(cp_csid ?p \<mapsto> st1)" "hdr_ctx st1 = hdr_ctx st"
      "cs_reassembling st1" "contents (cs_reassembly_buf st1) = contents (cs_reassembly_buf st) @ ?d"
      "reg_max_active_csids (rs_reg s1) = reg_max_active_csids (rs_reg s)"
      "reg_max_msg_length (rs_reg s1) = reg_max_msg_length (rs_reg s)"
      "reg_default_chunk_size (rs_reg s1) = reg_default_chunk_size (rs_reg s)"
      "reg_max_reassembly_bytes (rs_reg s1) = reg_max_reassembly_bytes (rs_reg s)"
      "reg_reassembly_bytes_in_use (rs_reg s1) = reg_reassembly_bytes_in_use (rs_reg s)
        - partial_bytes (opened (rs_reg s) (cp_csid ?p)) + length (contents (cs_reassembly_buf st) @ ?d)"
      "reg_reassembling_count (rs_reg s1) = reg_reassembling_count (rs_reg s)
        - of_bool (cs_reassembling (opened (rs_reg s) (cp_csid ?p))) + 1"
      by (rule read_more_chunk [OF at less])
    have ctx: "cs_type0_msg_length st1 = cs_type0_msg_length st" "cs_type0_ext_ts st1 = cs_type0_ext_ts st"
      "cs_chunk_size st1 = cs_chunk_size st" "ctx_message csid 3 st1 = ctx_message csid 3 st"
      using s1(5) by (simp_all add: hdr_ctx_def ctx_message_def)
    have le: "partial_bytes st \<le> reg_reassembly_bytes_in_use (rs_reg s)"
      using total_partial_update(2) reg_inv_indexD(1) [OF reg] reg p(3)
      by (auto simp: stream_of_def reg_inv_def)
    have "\<exists>s'. read_until_complete (length (chunks_of n ?r)) s1 = (Inr 1, s') \<and>
      received s1 csid (ctx_message csid 3 st1) (contents (cs_reassembly_buf st1) @ ?r) rest st1 s'"
    proof (rule "1.IH")
      show "\<not> (n = 0 \<or> body = [])" using n p(6) by simp
      show "stream_of (rs_reg s1) csid = Some st1" using s1(4) by simp
      show "unat (cs_type0_msg_length st1) = length (contents (cs_reassembly_buf st1)) + length ?r"
        using p(5) ctx s1(7) by simp
      show "contents (rs_buf s1) = cont_bytes csid ext @ chunk_body_bytes csid ?r n ext @ rest"
        using s1(3) False by (simp add: tl_def)
      have "reg_reassembly_bytes_in_use (rs_reg s1) = reg_reassembly_bytes_in_use (rs_reg s) + length ?d"
        using s1(12) le unfolding plan_simps op(1) by (simp add: partial_bytes_def)
      then show "reg_reassembly_bytes_in_use (rs_reg s1) + length ?r \<le> reg_max_reassembly_bytes (rs_reg s1)"
        using p(11) s1(11) by simp
    qed (use p s1 ctx False in simp_all)
    then obtain s' where s': "read_until_complete (length (chunks_of n ?r)) s1 = (Inr 1, s')"
      "received s1 csid (ctx_message csid 3 st1) (contents (cs_reassembly_buf st1) @ ?r) rest st1 s'"
      by blast
    have "received s csid (ctx_message csid 3 st1) (contents (cs_reassembly_buf st1) @ ?r) rest st1 s'"
      by (rule received_trans [OF _ s1(8-11) _ _ s'(2), of st1])
        (use s1 in \<open>simp_all add: partial_bytes_def\<close>)
    then have "received s csid (ctx_message csid 3 st) (contents (cs_reassembly_buf st) @ body) rest st s'"
      using s1(5,7) ctx(4) by (simp add: received_def)
    with s1(1) s'(1) show ?thesis by (simp add: eq)
  qed
qed

text \<open>The header context after a first header.\<close>

definition after_first :: "u8 \<Rightarrow> u32 \<Rightarrow> u32 \<Rightarrow> u8 \<Rightarrow> u32 \<Rightarrow> chunk_stream \<Rightarrow> chunk_stream" where
  "after_first fmt ts len ty sid st =
     chunk_stream_header fmt (ts \<ge> EXTENDED_TIMESTAMP_MARKER) (first_fields fmt ts len ty sid)
       (chunk_started fmt st)"

lemma headed_first: "headed (first_plan csid fmt ts n) (first_fields fmt ts len ty sid) st =
    after_first fmt ts len ty sid st"
  by (simp add: headed_def after_first_def first_plan_def)

lemma after_first_simps:
  assumes "fmt \<le> 2"
  shows "cs_type0_msg_length (after_first fmt ts len ty sid st) =
      (if fmt \<le> 1 then len else cs_type0_msg_length st)"
    "cs_type0_ext_ts (after_first fmt ts len ty sid st) = (ts \<ge> EXTENDED_TIMESTAMP_MARKER)"
    "cs_chunk_size (after_first fmt ts len ty sid st) = cs_chunk_size st"
    "contents (cs_reassembly_buf (after_first fmt ts len ty sid st)) =
      (if fmt \<le> 1 then [] else contents (cs_reassembly_buf st))"
  using assms
  by (cases rule: fmt2_cases;
      simp add: after_first_def chunk_stream_header_def first_fields_def chunk_started_def)+

lemma read_first_message:
  fixes csid ts len sid :: u32 and fmt ty :: u8
  assumes inv: "read_inv s" and csid: "valid_csid csid" and fmt: "fmt \<le> 2" and len: "len \<le> 0xFFFFFF"
  defines "st \<equiv> opened (rs_reg s) csid"
  defines "ctx \<equiv> after_first fmt ts len ty sid st"
  assumes prior: "fmt = 2 \<Longrightarrow> stream_of (rs_reg s) csid \<noteq> None \<and> cs_has_message_header st \<and>
      \<not> cs_reassembling st"
    and L: "unat (cs_type0_msg_length ctx) = length body"
      "cs_type0_msg_length ctx \<le> reg_max_msg_length (rs_reg s)"
    and n: "unat (cs_chunk_size st) = n"
    and c: "contents (rs_buf s) = first_header_bytes csid fmt ts len ty sid @
      chunk_body_bytes csid body n (message_ext ts) @ rest"
    and mem: "reg_reassembly_bytes_in_use (rs_reg s) - (if fmt \<le> 1 then partial_bytes st else 0)
      + length body \<le> reg_max_reassembly_bytes (rs_reg s)"
    and cap: "can_open (rs_reg s) csid"
  shows "\<exists>s'. read_until_complete (max 1 (length (chunks_of n body))) s = (Inr 1, s') \<and>
    received s csid (ctx_message csid (if length body \<le> n then fmt else 3) ctx) body rest ctx s'"
proof -
  let ?d = "take n body" and ?r = "drop n body"
  have reg: "reg_inv (rs_reg s)" using inv by (simp add: read_inv_def)
  have st: "stream_inv st"
    using stream_of_inv [OF reg] stream_inv_fresh reg
    by (cases "stream_of (rs_reg s) csid") (auto simp: st_def opened_def reg_inv_def)
  note rd = stream_inv_read [OF st] and ctx = after_first_simps [OF fmt, of ts len ty sid st, folded ctx_def]
  have n0: "0 < n" using rd(4) n by simp
  have idle: "cs_reassembly_bytes_read st = 0 \<and> contents (cs_reassembly_buf st) = []" if "fmt = 2"
    using prior [OF that] st by (auto simp: stream_inv_def)
  have acc: "contents (cs_reassembly_buf ctx) = []"
    using fmt idle ctx(4) by (cases rule: fmt2_cases) simp_all
  define tl where "tl = (if ?r = [] then rest
    else cont_bytes csid (message_ext ts) @ chunk_body_bytes csid ?r n (message_ext ts) @ rest)"
  have body: "chunk_body_bytes csid body n (message_ext ts) @ rest = ?d @ tl"
  proof (cases "body = []")
    case True
    then show ?thesis by (simp add: chunk_body_bytes_def tl_def chunks_of.simps [of n "[]"])
  next
    case False
    then have "chunks_of n body = ?d # chunks_of n ?r" using n0 by (subst chunks_of.simps) simp
    with n0 show ?thesis
      by (simp add: chunk_body_bytes_def body_bytes_Cons tl_def chunks_of.simps [of n "[]"])
  qed
  let ?p = "first_plan csid fmt ts (length ?d)"
  have "length ?d \<le> length body" by simp
  then have mem': "reg_reassembly_bytes_in_use (rs_reg s) - (if fmt \<le> 1 then partial_bytes st else 0)
      + length ?d \<le> reg_max_reassembly_bytes (rs_reg s)"
    using mem by linarith
  have lend: "length ?d = min (unat (cs_type0_msg_length ctx)) (unat (cs_chunk_size st))"
    using L(1) n by simp
  have plan: "chunk_read_plan (length (contents (rs_buf s))) (contents (rs_buf s)) (rs_reg s) = Inr (Some ?p)"
    unfolding c body
    by (rule chunk_read_plan_first [OF reg csid fmt len, folded st_def, OF _ ctx(1) L(2) lend mem' cap])
      (use prior idle in simp)
  have at: "at_chunk s ?p ctx ?d tl"
    unfolding at_chunk_def
    using inv plan c body first_header_at [OF fmt len, of csid ts "length ?d" ty sid "?d @ tl"]
    by (simp add: length_first_header_bytes [OF fmt] headed_first ctx_def st_def) (simp add: first_plan_def)
  show ?thesis
  proof (cases "?r = []")
    case True
    then have d: "?d = body" "tl = rest" "length body \<le> n" by (simp_all add: tl_def)
    have "length (contents (cs_reassembly_buf ctx) @ ?d) = unat (cs_type0_msg_length ctx)"
      using L(1) acc d by simp
    from read_last_chunk [OF at this] obtain s' where "chunk_read s = (Inr 1, s')"
      "received s csid (ctx_message csid fmt ctx) body rest ctx s'"
      unfolding plan_simps acc d by auto
    moreover have "max 1 (length (chunks_of n body)) = Suc 0"
      using n0 True by (cases "body = []") (simp_all add: chunks_of.simps [of n body] chunks_of.simps [of n "[]"])
    ultimately show ?thesis using d(3) by auto
  next
    case False
    then have more: "length (contents (cs_reassembly_buf ctx) @ ?d) \<noteq> unat (cs_type0_msg_length ctx)"
      using L(1) acc by simp
    obtain s1 st1 where s1: "chunk_read s = (Inr 0, s1)" "read_inv s1" "contents (rs_buf s1) = tl"
      "stream_of (rs_reg s1) = (stream_of (rs_reg s))(cp_csid ?p \<mapsto> st1)" "hdr_ctx st1 = hdr_ctx ctx"
      "cs_reassembling st1" "contents (cs_reassembly_buf st1) = contents (cs_reassembly_buf ctx) @ ?d"
      "reg_max_active_csids (rs_reg s1) = reg_max_active_csids (rs_reg s)"
      "reg_max_msg_length (rs_reg s1) = reg_max_msg_length (rs_reg s)"
      "reg_default_chunk_size (rs_reg s1) = reg_default_chunk_size (rs_reg s)"
      "reg_max_reassembly_bytes (rs_reg s1) = reg_max_reassembly_bytes (rs_reg s)"
      "reg_reassembly_bytes_in_use (rs_reg s1) = reg_reassembly_bytes_in_use (rs_reg s)
        - partial_bytes (opened (rs_reg s) (cp_csid ?p)) + length (contents (cs_reassembly_buf ctx) @ ?d)"
      "reg_reassembling_count (rs_reg s1) = reg_reassembling_count (rs_reg s)
        - of_bool (cs_reassembling (opened (rs_reg s) (cp_csid ?p))) + 1"
      by (rule read_more_chunk [OF at more])
    have ctx1: "cs_type0_msg_length st1 = cs_type0_msg_length ctx" "cs_type0_ext_ts st1 = cs_type0_ext_ts ctx"
      "cs_chunk_size st1 = cs_chunk_size ctx" "ctx_message csid 3 st1 = ctx_message csid 3 ctx"
      using s1(5) by (simp_all add: hdr_ctx_def ctx_message_def)
    have used: "reg_reassembly_bytes_in_use (rs_reg s1) + length ?r \<le> reg_max_reassembly_bytes (rs_reg s1)"
      using fmt s1(11,12) mem acc idle unfolding plan_simps st_def [symmetric]
      by (cases rule: fmt2_cases) (simp_all add: partial_bytes_def)
    have "\<exists>s'. read_until_complete (length (chunks_of n ?r)) s1 = (Inr 1, s') \<and>
      received s1 csid (ctx_message csid 3 st1) (contents (cs_reassembly_buf st1) @ ?r) rest st1 s'"
      by (rule read_rest_of_message [OF s1(2) csid _ s1(6) _ False, where ext = "message_ext ts"])
        (use s1 ctx1 ctx L acc n used False in \<open>simp_all add: tl_def message_ext_def\<close>)
    then obtain s' where s': "read_until_complete (length (chunks_of n ?r)) s1 = (Inr 1, s')"
      "received s1 csid (ctx_message csid 3 ctx) body rest st1 s'"
      using s1(7) acc ctx1(4) by auto
    have "received s csid (ctx_message csid 3 ctx) body rest st1 s'"
      by (rule received_trans [OF _ s1(8-11) _ _ s'(2), of st1])
        (use s1 in \<open>simp_all add: partial_bytes_def\<close>)
    then have "received s csid (ctx_message csid 3 ctx) body rest ctx s'"
      using s1(5) by (simp add: received_def)
    moreover have "max 1 (length (chunks_of n body)) = Suc (length (chunks_of n ?r))" "\<not> length body \<le> n"
      using False n0 by (auto simp: chunks_of.simps [of n body])
    ultimately show ?thesis using s1(1) s'(1) by auto
  qed
qed

lemma read_written_message:
  assumes inv: "read_inv s" and w: "writable msg payload len"
    and n: "unat (cs_chunk_size (opened (rs_reg s) (cm_csid msg))) = n"
    and c: "contents (rs_buf s) = message_bytes msg (take len payload) n @ rest"
    and lim: "cm_msg_length msg \<le> reg_max_msg_length (rs_reg s)" "can_open (rs_reg s) (cm_csid msg)"
      "reg_reassembly_bytes_in_use (rs_reg s) - partial_bytes (opened (rs_reg s) (cm_csid msg)) + len
        \<le> reg_max_reassembly_bytes (rs_reg s)"
  shows "\<exists>s'. read_until_complete (max 1 (length (chunks_of n (take len payload)))) s = (Inr 1, s') \<and>
    received s (cm_csid msg) (msg\<lparr>cm_fmt := (if len \<le> n then 0 else 3), cm_is_complete := True\<rparr>)
      (take len payload) rest
      (after_first 0 (cm_timestamp msg) (cm_msg_length msg) (cm_msg_type_id msg) (cm_msg_stream_id msg)
        (opened (rs_reg s) (cm_csid msg))) s'"
proof -
  let ?st = "opened (rs_reg s) (cm_csid msg)"
  let ?ctx = "after_first 0 (cm_timestamp msg) (cm_msg_length msg) (cm_msg_type_id msg)
    (cm_msg_stream_id msg) ?st"
  have w': "valid_csid (cm_csid msg)" "cm_msg_length msg \<le> 0xFFFFFF" "len = unat (cm_msg_length msg)"
    "length (take len payload) = len"
    using w by (simp_all add: writable_def RTMP_WIRE_MAX_MSG_LENGTH_def)
  have L: "cs_type0_msg_length ?ctx = cm_msg_length msg"
    by (simp add: after_first_simps)
  have "ctx_message (cm_csid msg) f ?ctx = msg\<lparr>cm_fmt := f, cm_is_complete := True\<rparr>" for f
    by (cases msg) (simp add: ctx_message_def after_first_def chunk_stream_header_def first_fields_def)
  then show ?thesis
    using read_first_message [OF inv w'(1) _ w'(2), of 0 "cm_timestamp msg" "cm_msg_type_id msg"
        "cm_msg_stream_id msg" "take len payload" n rest] w' L n c lim
    by (simp add: message_bytes_def)
qed

section \<open>Properties\<close>

text \<open>C1: A message written by \<open>chunk_write\<close> is read back by \<open>chunk_read\<close>: if the receiver's chunk size
  for the stream is the one the sender used and its limits admit the message, then reading as many
  chunks as the payload has pieces consumes exactly what was written and delivers the payload and the
  header fields that were written, for every payload length, chunk size and timestamp, with or
  without extended timestamps.\<close>
theorem chunk_write_read_roundtrip:
  assumes "writable msg payload len" and "buf_inv out" and "contents out = []"
    and "buf_room out (length (message_bytes msg (take len payload) (eff_chunk_size n)))"
    and "reg_inv reg" and "unat (cs_chunk_size (opened reg (cm_csid msg))) = eff_chunk_size n"
    and "can_open reg (cm_csid msg)" and "cm_msg_length msg \<le> reg_max_msg_length reg"
    and "reg_reassembly_bytes_in_use reg + len \<le> reg_max_reassembly_bytes reg"
  shows "\<exists>out' s'. chunk_write msg payload len n out = (Inr (), out') \<and>
    read_until_complete (max 1 (length (chunks_of (eff_chunk_size n) (take len payload))))
      \<lparr>rs_buf = out', rs_reg = reg, rs_msg = chunk_message_default, rs_payload = []\<rparr> = (Inr 1, s') \<and>
    rs_payload s' = take len payload \<and> contents (rs_buf s') = [] \<and> read_inv s' \<and>
    rs_msg s' = msg\<lparr>cm_fmt := (if len \<le> eff_chunk_size n then 0 else 3), cm_is_complete := True\<rparr>"
proof -
  obtain out' where out': "chunk_write msg payload len n out = (Inr (), out')" "buf_inv out'"
    "contents out' = contents out @ message_bytes msg (take len payload) (eff_chunk_size n)"
    by (rule bq.emitsE [OF emits_chunk_write [OF assms(1)] assms(2,4)])
  let ?s = "\<lparr>rs_buf = out', rs_reg = reg, rs_msg = chunk_message_default, rs_payload = []\<rparr>"
  have "reg_reassembly_bytes_in_use reg - partial_bytes (opened reg (cm_csid msg)) + len
      \<le> reg_max_reassembly_bytes reg"
    using assms(9) by simp
  with read_written_message [of ?s msg payload len "eff_chunk_size n" "[]"] assms out'
  obtain s' where
    "read_until_complete (max 1 (length (chunks_of (eff_chunk_size n) (take len payload)))) ?s = (Inr 1, s')"
    "received ?s (cm_csid msg)
      (msg\<lparr>cm_fmt := (if len \<le> eff_chunk_size n then 0 else 3), cm_is_complete := True\<rparr>) (take len payload) []
      (after_first 0 (cm_timestamp msg) (cm_msg_length msg) (cm_msg_type_id msg) (cm_msg_stream_id msg)
        (opened reg (cm_csid msg))) s'"
    by (auto simp: read_inv_def)
  with out'(1) show ?thesis by (auto simp: received_def)
qed

theorem chunk_write_read_roundtrip_witness:
  "\<exists>out' s'. chunk_write (ex_message 0x1000000 200) (replicate 200 7) 200 0 buf_new = (Inr (), out') \<and>
    read_until_complete (max 1 (length (chunks_of 128 (replicate 200 (7 :: u8)))))
      \<lparr>rs_buf = out', rs_reg = reg_new, rs_msg = chunk_message_default, rs_payload = []\<rparr> = (Inr 1, s') \<and>
    rs_payload s' = replicate 200 7 \<and> cm_timestamp (rs_msg s') = 0x1000000 \<and> cm_fmt (rs_msg s') = 3"
proof -
  have w: "writable (ex_message 0x1000000 200) (replicate 200 7) 200"
    by (simp add: writable_def ex_message_def valid_csid_def RTMP_MIN_CSID_def RTMP_MAX_CSID_def
        RTMP_WIRE_MAX_MSG_LENGTH_def)
  have "chunk_body_len 4 200 128 True = 205"
    by (simp add: chunk_body_len_def basic_header_def)
  then have "length (message_bytes (ex_message 0x1000000 200) (take 200 (replicate 200 7)) (eff_chunk_size 0)) = 221"
    using length_chunk_body_bytes [of 4 "replicate 200 7" 0 "Some 0x1000000"]
    by (simp add: message_bytes_def ex_message_def length_first_header_bytes first_header_len_def
        basic_header_def message_ext_def EXTENDED_TIMESTAMP_MARKER_def chunk_body_len_def eff_chunk_size_def)
  then have "buf_room buf_new (length (message_bytes (ex_message 0x1000000 200) (take 200 (replicate 200 7))
      (eff_chunk_size 0)))"
    by (simp add: buf_room_def BUFFER_MAX_SIZE_def)
  from chunk_write_read_roundtrip [OF w _ _ this, of reg_new]
  show ?thesis by (auto simp: ex_message_def eff_chunk_size_def)
qed

end
