(* ===== verification/Rtmp_Types.thy ===== *)
theory Rtmp_Types
  imports Rtmp_Prelude
begin

text \<open>
  The data types of \<open>src/src/types.rs\<close> that more than one component uses: frame types, codec
  numbers, FourCC tables, the E-RTMP capability records and the connect information. Fixed-size
  byte arrays are byte lists, \<open>i32\<close> values are 32-bit words read with \<open>sint\<close>, and \<open>f64\<close> values are
  their 64-bit IEEE pattern, which is all the wire formats need.
\<close>

type_synonym i32 = "32 word"
type_synonym f64 = u64

section \<open>Frames and codecs\<close>

datatype frame_type = FAudio | FVideo | FScript | FMetadata

datatype audio_codec =
    APcm | AAdpcm | AMp3 | APcmLe | ANelly16k | ANelly8k | ANelly | AG711A | AG711U
  | AAac | ASpeex | AOpus

fun audio_codec_id :: "audio_codec \<Rightarrow> u8" where
  "audio_codec_id APcm = 0"
| "audio_codec_id AAdpcm = 1"
| "audio_codec_id AMp3 = 2"
| "audio_codec_id APcmLe = 3"
| "audio_codec_id ANelly16k = 4"
| "audio_codec_id ANelly8k = 5"
| "audio_codec_id ANelly = 6"
| "audio_codec_id AG711A = 7"
| "audio_codec_id AG711U = 8"
| "audio_codec_id AAac = 10"
| "audio_codec_id ASpeex = 11"
| "audio_codec_id AOpus = 14"

definition audio_codec_default :: audio_codec where
  "audio_codec_default = APcm"

datatype video_codec =
    VJpeg | VSorenson | VScreen | VVp6 | VVp6a | VScreen2 | VH264 | VH265 | VAv1 | VVp9

fun video_codec_id :: "video_codec \<Rightarrow> u8" where
  "video_codec_id VJpeg = 1"
| "video_codec_id VSorenson = 2"
| "video_codec_id VScreen = 3"
| "video_codec_id VVp6 = 4"
| "video_codec_id VVp6a = 5"
| "video_codec_id VScreen2 = 6"
| "video_codec_id VH264 = 7"
| "video_codec_id VH265 = 12"
| "video_codec_id VAv1 = 13"
| "video_codec_id VVp9 = 14"

definition video_codec_default :: video_codec where
  "video_codec_default = VJpeg"

text \<open>\<open>FourCc\<close>: five bytes, the last one the terminating zero.\<close>

type_synonym four_cc = bytes

definition four_cc_default :: four_cc where
  "four_cc_default = replicate 5 0"

section \<open>E-RTMP constants\<close>

definition ERTMP_PACKET_TYPE_SEQUENCE_START :: u8 where "ERTMP_PACKET_TYPE_SEQUENCE_START = 0"
definition ERTMP_PACKET_TYPE_CODED_FRAMES :: u8 where "ERTMP_PACKET_TYPE_CODED_FRAMES = 1"
definition ERTMP_PACKET_TYPE_SEQUENCE_END :: u8 where "ERTMP_PACKET_TYPE_SEQUENCE_END = 2"
definition ERTMP_PACKET_TYPE_CODED_FRAMES_X :: u8 where "ERTMP_PACKET_TYPE_CODED_FRAMES_X = 3"
definition ERTMP_PACKET_TYPE_METADATA :: u8 where "ERTMP_PACKET_TYPE_METADATA = 4"
definition ERTMP_PACKET_TYPE_MPEG2TS_SEQUENCE_START :: u8 where
  "ERTMP_PACKET_TYPE_MPEG2TS_SEQUENCE_START = 5"
definition ERTMP_AUDIO_PACKET_TYPE_SEQUENCE_START :: u8 where "ERTMP_AUDIO_PACKET_TYPE_SEQUENCE_START = 0"
definition ERTMP_AUDIO_PACKET_TYPE_CODED_FRAMES :: u8 where "ERTMP_AUDIO_PACKET_TYPE_CODED_FRAMES = 1"
definition ERTMP_AUDIO_PACKET_TYPE_SEQUENCE_END :: u8 where "ERTMP_AUDIO_PACKET_TYPE_SEQUENCE_END = 2"
definition ERTMP_AUDIO_PACKET_TYPE_METADATA :: u8 where "ERTMP_AUDIO_PACKET_TYPE_METADATA = 3"
definition ERTMP_AUDIO_PACKET_TYPE_MULTICHANNEL :: u8 where "ERTMP_AUDIO_PACKET_TYPE_MULTICHANNEL = 4"
definition ERTMP_AUDIO_PACKET_TYPE_MULTITRACK :: u8 where "ERTMP_AUDIO_PACKET_TYPE_MULTITRACK = 5"
definition ERTMP_VIDEO_PACKET_TYPE_MULTITRACK :: u8 where "ERTMP_VIDEO_PACKET_TYPE_MULTITRACK = 6"

definition CAPS_EX_MASK_RECONNECT :: u32 where "CAPS_EX_MASK_RECONNECT = 0x01"
definition CAPS_EX_MASK_MULTITRACK :: u32 where "CAPS_EX_MASK_MULTITRACK = 0x02"
definition CAPS_EX_MASK_MODEX :: u32 where "CAPS_EX_MASK_MODEX = 0x04"
definition CAPS_EX_MASK_TIMESTAMP_NANO :: u32 where "CAPS_EX_MASK_TIMESTAMP_NANO = 0x08"
definition CAPS_EX_MASK_SERVER_DEFAULT :: u32 where
  "CAPS_EX_MASK_SERVER_DEFAULT =
     CAPS_EX_MASK_MULTITRACK OR CAPS_EX_MASK_MODEX OR CAPS_EX_MASK_TIMESTAMP_NANO"

definition FOUR_CC_INFO_CAN_DECODE :: u32 where "FOUR_CC_INFO_CAN_DECODE = 0x01"
definition FOUR_CC_INFO_CAN_ENCODE :: u32 where "FOUR_CC_INFO_CAN_ENCODE = 0x02"
definition FOUR_CC_INFO_CAN_FORWARD :: u32 where "FOUR_CC_INFO_CAN_FORWARD = 0x04"
definition FOUR_CC_INFO_ALL :: u32 where
  "FOUR_CC_INFO_ALL = FOUR_CC_INFO_CAN_DECODE OR FOUR_CC_INFO_CAN_ENCODE OR FOUR_CC_INFO_CAN_FORWARD"

section \<open>Tag headers\<close>

record video_header =
  vh_is_ex_header :: u8
  vh_packet_type :: u8
  vh_fourcc :: four_cc
  vh_frame_type :: u8
  vh_composition_time :: u32
  vh_header_size :: nat

definition video_header_default :: video_header where
  "video_header_default = \<lparr>vh_is_ex_header = 0, vh_packet_type = 0, vh_fourcc = four_cc_default,
     vh_frame_type = 0, vh_composition_time = 0, vh_header_size = 0\<rparr>"

record audio_header =
  ah_is_ex_header :: u8
  ah_packet_type :: u8
  ah_fourcc :: four_cc
  ah_audio_codec :: audio_codec
  ah_sample_rate :: u8
  ah_sample_size :: u8
  ah_channels :: u8
  ah_aac_packet_type :: u8
  ah_header_size :: nat

definition audio_header_default :: audio_header where
  "audio_header_default = \<lparr>ah_is_ex_header = 0, ah_packet_type = 0, ah_fourcc = four_cc_default,
     ah_audio_codec = audio_codec_default, ah_sample_rate = 0, ah_sample_size = 0, ah_channels = 0,
     ah_aac_packet_type = 0, ah_header_size = 0\<rparr>"

record hdr_info =
  hdr_color_primaries :: u16
  hdr_transfer_chars :: u16
  hdr_matrix_coeffs :: u16

definition hdr_info_default :: hdr_info where
  "hdr_info_default = \<lparr>hdr_color_primaries = 0, hdr_transfer_chars = 0, hdr_matrix_coeffs = 0\<rparr>"

section \<open>Frames and FLV tags\<close>

text \<open>A data pointer is the bytes it points to, or \<open>None\<close> for a null pointer.\<close>

record frame =
  fr_frame_type :: frame_type
  fr_timestamp :: u32
  fr_composition_time :: u32
  fr_size :: u32
  fr_data :: "bytes option"
  fr_audio_codec :: audio_codec
  fr_audio_sample_rate :: u32
  fr_audio_channels :: u8
  fr_audio_bit_depth :: u8
  fr_audio_fourcc :: four_cc
  fr_video_codec :: video_codec
  fr_video_fourcc :: four_cc
  fr_video_frame_type :: u8
  fr_is_metadata :: u8
  fr_track_id :: u8

definition frame_default :: frame where
  "frame_default = \<lparr>fr_frame_type = FAudio, fr_timestamp = 0, fr_composition_time = 0, fr_size = 0, fr_data = None,
     fr_audio_codec = audio_codec_default, fr_audio_sample_rate = 0, fr_audio_channels = 0,
     fr_audio_bit_depth = 0, fr_audio_fourcc = four_cc_default, fr_video_codec = video_codec_default,
     fr_video_fourcc = four_cc_default, fr_video_frame_type = 0, fr_is_metadata = 0, fr_track_id = -1\<rparr>"

record audio_tag =
  at_codec :: audio_codec
  at_sample_rate :: u8
  at_bit_depth :: u8
  at_channels :: u8
  at_aac_packet_type :: u8
  at_data :: "bytes option"
  at_size :: nat

definition audio_tag_default :: audio_tag where
  "audio_tag_default = \<lparr>at_codec = audio_codec_default, at_sample_rate = 0, at_bit_depth = 0, at_channels = 0,
     at_aac_packet_type = 0, at_data = None, at_size = 0\<rparr>"

record video_tag =
  vt_frame_type :: u8
  vt_codec :: video_codec
  vt_avc_packet_type :: u8
  vt_composition_time :: u32
  vt_data :: "bytes option"
  vt_size :: nat

definition video_tag_default :: video_tag where
  "video_tag_default = \<lparr>vt_frame_type = 0, vt_codec = video_codec_default, vt_avc_packet_type = 0,
     vt_composition_time = 0, vt_data = None, vt_size = 0\<rparr>"

record script_tag =
  sc_name :: bytes
  sc_data :: "bytes option"
  sc_size :: nat

definition script_tag_default :: script_tag where
  "script_tag_default = \<lparr>sc_name = replicate 64 0, sc_data = None, sc_size = 0\<rparr>"

section \<open>Capabilities and connect information\<close>

definition MAX_FOURCCS :: nat where
  "MAX_FOURCCS = 16"

record four_cc_list =
  fl_entries :: "four_cc list"
  fl_count :: nat

definition four_cc_list_default :: four_cc_list where
  "four_cc_list_default = \<lparr>fl_entries = replicate MAX_FOURCCS four_cc_default, fl_count = 0\<rparr>"

record video_four_cc_info_map =
  vm_entries :: "four_cc list"
  vm_masks :: "u32 list"
  vm_count :: nat

definition video_four_cc_info_map_default :: video_four_cc_info_map where
  "video_four_cc_info_map_default = \<lparr>vm_entries = replicate MAX_FOURCCS four_cc_default,
     vm_masks = replicate MAX_FOURCCS 0, vm_count = 0\<rparr>"

record caps_exit =
  ce_version :: u32
  ce_video_codec_32 :: i32
  ce_audio_codec_32 :: i32

definition caps_exit_default :: caps_exit where
  "caps_exit_default = \<lparr>ce_version = 0, ce_video_codec_32 = 0, ce_audio_codec_32 = 0\<rparr>"

record reconnect =
  rc_replay :: u32
  rc_limit :: u32

definition reconnect_default :: reconnect where
  "reconnect_default = \<lparr>rc_replay = 0, rc_limit = 0\<rparr>"

datatype multitrack_type = MtAudio | MtVideo | MtMetadata

record multitrack =
  mt_track_type :: multitrack_type
  mt_track_name :: bytes

definition multitrack_default :: multitrack where
  "multitrack_default = \<lparr>mt_track_type = MtAudio, mt_track_name = replicate 64 0\<rparr>"

datatype modex_type = TimestampOffsetNano | ModexNop

record modex =
  mx_modex_type :: modex_type
  mx_offset :: u64
  mx_next_packet_type :: u8

definition modex_default :: modex where
  "modex_default = \<lparr>mx_modex_type = ModexNop, mx_offset = 0, mx_next_packet_type = 0\<rparr>"

record negotiated_caps =
  nc_four_cc_list :: four_cc_list
  nc_caps_ex :: caps_exit
  nc_video_four_cc_info_map :: video_four_cc_info_map
  nc_reconnect :: reconnect
  nc_caps_ex_mask :: u32
  nc_has_four_cc_list :: bool
  nc_has_caps_ex :: bool
  nc_has_video_four_cc_info_map :: bool
  nc_has_reconnect :: bool
  nc_multitrack_enabled :: bool

definition negotiated_caps_default :: negotiated_caps where
  "negotiated_caps_default = \<lparr>nc_four_cc_list = four_cc_list_default, nc_caps_ex = caps_exit_default,
     nc_video_four_cc_info_map = video_four_cc_info_map_default, nc_reconnect = reconnect_default,
     nc_caps_ex_mask = 0, nc_has_four_cc_list = False, nc_has_caps_ex = False,
     nc_has_video_four_cc_info_map = False, nc_has_reconnect = False, nc_multitrack_enabled = False\<rparr>"

record connect_info =
  ci_name :: bytes
  ci_transaction_id :: f64
  ci_app :: bytes
  ci_tc_url :: bytes
  ci_page_url :: bytes
  ci_swf_url :: bytes
  ci_flash_ver :: bytes
  ci_audio_codecs :: i32
  ci_video_codecs :: i32
  ci_four_cc_list :: four_cc_list
  ci_caps_ex :: caps_exit
  ci_video_four_cc_info_map :: video_four_cc_info_map
  ci_reconnect :: reconnect
  ci_caps_ex_mask :: u32
  ci_has_four_cc_list :: bool
  ci_has_caps_ex :: bool
  ci_has_video_four_cc_info_map :: bool
  ci_has_reconnect :: bool

definition connect_info_default :: connect_info where
  "connect_info_default = \<lparr>ci_name = replicate 64 0, ci_transaction_id = 0, ci_app = replicate 256 0,
     ci_tc_url = replicate 512 0, ci_page_url = replicate 512 0, ci_swf_url = replicate 512 0,
     ci_flash_ver = replicate 64 0, ci_audio_codecs = 0, ci_video_codecs = 0,
     ci_four_cc_list = four_cc_list_default, ci_caps_ex = caps_exit_default,
     ci_video_four_cc_info_map = video_four_cc_info_map_default, ci_reconnect = reconnect_default,
     ci_caps_ex_mask = 0, ci_has_four_cc_list = False, ci_has_caps_ex = False,
     ci_has_video_four_cc_info_map = False, ci_has_reconnect = False\<rparr>"

end
