(* ===== verification/Media_Out.thy ===== *)
theory Media_Out
  imports Chunk_Roundtrip Rtmp_Types
begin

text \<open>
  Outbound media messages (\<open>src/src/chunk/media_out.rs\<close>): the choice of a compressed first header
  from the last header sent on the same chunk stream, and the writers of whole messages. The lemmas
  relate the sender's \<open>MediaHeaderTracker\<close> to the header context the receiving reader keeps per
  chunk stream; from that, a whole sequence of media messages is read back as it was sent.
\<close>

section \<open>Operations\<close>

definition RTMP_MSG_AMF0_DATA :: u8 where
  "RTMP_MSG_AMF0_DATA = 0x12"

fun media_chunk_stream :: "frame_type \<Rightarrow> u32 \<times> u8 \<times> nat" where
  "media_chunk_stream FAudio = (4, 0x08, 0)"
| "media_chunk_stream FScript = (5, RTMP_MSG_AMF0_DATA, 1)"
| "media_chunk_stream FMetadata = (5, RTMP_MSG_AMF0_DATA, 1)"
| "media_chunk_stream FVideo = (6, 0x09, 2)"

record media_out_header =
  mo_msg_stream_id :: u32
  mo_timestamp :: u32
  mo_msg_length :: u32
  mo_msg_type_id :: u8

record media_first_header =
  mf_csid :: u32
  mf_fmt :: u8
  mf_ts_field :: u32
  mf_slot :: nat
  mf_current :: media_out_header

definition media_first_encoded_len :: "media_first_header \<Rightarrow> nat" where
  "media_first_encoded_len h = first_header_len (mf_csid h) (mf_fmt h) (mf_ts_field h)"

definition media_first_write :: "media_first_header \<Rightarrow> (buffer, unit) op" where
  "media_first_write h =
     write_first_header (mf_csid h) (mf_fmt h) (mf_ts_field h) (mo_msg_length (mf_current h))
       (mo_msg_type_id (mf_current h)) (mo_msg_stream_id (mf_current h))"

record media_header_tracker =
  tracker_last :: "media_out_header option list"

definition tracker_default :: media_header_tracker where
  "tracker_default = \<lparr>tracker_last = replicate 3 None\<rparr>"

definition tracker_choose ::
  "media_header_tracker \<Rightarrow> bool \<Rightarrow> frame_type \<Rightarrow> u32 \<Rightarrow> u32 \<Rightarrow> nat \<Rightarrow> media_first_header result" where
  "tracker_choose t compact frame_type msg_stream_id timestamp payload_len =
     (if payload_len > unat RTMP_WIRE_MAX_MSG_LENGTH then err EInternal
      else
        let (csid, msg_type_id, slot) = media_chunk_stream frame_type;
            current = \<lparr>mo_msg_stream_id = msg_stream_id, mo_timestamp = timestamp,
              mo_msg_length = of_nat payload_len, mo_msg_type_id = msg_type_id\<rparr> in
        bindR (idx (tracker_last t) slot) (\<lambda>prior.
          let (fmt, ts_field) =
            (case prior of
               Some prev \<Rightarrow>
                 if compact \<and> mo_msg_stream_id prev = msg_stream_id \<and> mo_timestamp prev \<le> timestamp
                   \<and> timestamp < EXTENDED_TIMESTAMP_MARKER
                 then
                   (if mo_msg_length prev = mo_msg_length current \<and> mo_msg_length prev \<noteq> 0
                       \<and> mo_msg_type_id prev = msg_type_id
                    then 2 else 1, timestamp - mo_timestamp prev)
                 else (0, timestamp)
             | None \<Rightarrow> (0, timestamp)) in
          Inr \<lparr>mf_csid = csid, mf_fmt = fmt, mf_ts_field = ts_field, mf_slot = slot,
            mf_current = current\<rparr>))"

definition tracker_commit :: "media_first_header \<Rightarrow> media_header_tracker \<Rightarrow> media_header_tracker result" where
  "tracker_commit h t =
     bindR (set_idx (tracker_last t) (mf_slot h) (Some (mf_current h))) (\<lambda>last.
       Inr (t\<lparr>tracker_last := last\<rparr>))"

definition encode_media_body :: "frame_type \<Rightarrow> u32 \<Rightarrow> bytes \<Rightarrow> nat \<Rightarrow> (buffer, unit) op" where
  "encode_media_body frame_type timestamp payload chunk_size =
     (let (csid, _, _) = media_chunk_stream frame_type;
          ext_ts = (if timestamp \<ge> EXTENDED_TIMESTAMP_MARKER then Some timestamp else None)
      in write_chunk_body csid payload chunk_size ext_ts)"

record media_message_info =
  mi_frame_type :: frame_type
  mi_msg_stream_id :: u32
  mi_timestamp :: u32

text \<open>
  The two writers change the output buffer and the tracker, their \<open>&mut\<close> arguments, so their state
  is the pair of the two.
\<close>

type_synonym media_out = "buffer \<times> media_header_tracker"

definition on_out :: "(buffer, 'a) op \<Rightarrow> (media_out, 'a) op" where
  "on_out = zoomS fst (\<lambda>b (_, t). (b, t))"

definition choose_op :: "bool \<Rightarrow> media_message_info \<Rightarrow> nat \<Rightarrow> (media_out, media_first_header) op" where
  "choose_op compact msg payload_len = bindS (getS snd) (\<lambda>t.
     liftS (tracker_choose t compact (mi_frame_type msg) (mi_msg_stream_id msg) (mi_timestamp msg)
       payload_len))"

definition commit_op :: "media_first_header \<Rightarrow> (media_out, unit) op" where
  "commit_op header = bindS (getS snd) (\<lambda>t. bindS (liftS (tracker_commit header t)) (\<lambda>t'.
     modS (\<lambda>(b, _). (b, t'))))"

definition write_media_message ::
  "bool \<Rightarrow> media_message_info \<Rightarrow> bytes \<Rightarrow> nat \<Rightarrow> (media_out, unit) op" where
  "write_media_message compact msg payload chunk_size =
     bindS (choose_op compact msg (length payload)) (\<lambda>header.
       let (csid, _, _) = media_chunk_stream (mi_frame_type msg);
           ext = (mi_timestamp msg \<ge> EXTENDED_TIMESTAMP_MARKER) in
       thenS (on_out
         (thenS (buf_reserve (media_first_encoded_len header
             + chunk_body_len csid (length payload) chunk_size ext))
           (thenS (media_first_write header)
             (encode_media_body (mi_frame_type msg) (mi_timestamp msg) payload chunk_size))))
         (commit_op header))"

definition write_media_message_with_body ::
  "bool \<Rightarrow> media_message_info \<Rightarrow> nat \<Rightarrow> bytes \<Rightarrow> (media_out, unit) op" where
  "write_media_message_with_body compact msg payload_len body =
     bindS (choose_op compact msg payload_len) (\<lambda>header.
       thenS (on_out
         (thenS (buf_reserve (media_first_encoded_len header + length body))
           (thenS (media_first_write header) (voidS (buf_write body)))))
         (commit_op header))"

section \<open>The chosen header\<close>

abbreviation media_csid :: "frame_type \<Rightarrow> u32" where
  "media_csid ft \<equiv> fst (media_chunk_stream ft)"

abbreviation media_type_id :: "frame_type \<Rightarrow> u8" where
  "media_type_id ft \<equiv> fst (snd (media_chunk_stream ft))"

abbreviation media_slot :: "frame_type \<Rightarrow> nat" where
  "media_slot ft \<equiv> snd (snd (media_chunk_stream ft))"

lemma media_chunk_stream_facts:
  "valid_csid (media_csid ft)" "media_slot ft < 3" "media_csid ft \<in> {4, 5, 6}"
  "media_slot ft = media_slot ft' \<longleftrightarrow> media_csid ft = media_csid ft'"
proof -
  show "media_slot ft = media_slot ft' \<longleftrightarrow> media_csid ft = media_csid ft'"
    by (cases ft; cases ft') simp_all
qed (cases ft; simp add: valid_csid_def RTMP_MIN_CSID_def RTMP_MAX_CSID_def)+

definition tracker_ok :: "media_header_tracker \<Rightarrow> bool" where
  "tracker_ok t \<longleftrightarrow> length (tracker_last t) = 3"

definition media_header_of :: "media_message_info \<Rightarrow> nat \<Rightarrow> media_out_header" where
  "media_header_of msg len = \<lparr>mo_msg_stream_id = mi_msg_stream_id msg, mo_timestamp = mi_timestamp msg,
     mo_msg_length = of_nat len, mo_msg_type_id = media_type_id (mi_frame_type msg)\<rparr>"

text \<open>A header from which a peer that saw the last one can recover the whole message header.\<close>

definition decodable :: "media_header_tracker \<Rightarrow> media_message_info \<Rightarrow> nat \<Rightarrow> media_first_header \<Rightarrow> bool" where
  "decodable t msg len h \<longleftrightarrow>
     mf_csid h = media_csid (mi_frame_type msg) \<and> mf_slot h = media_slot (mi_frame_type msg) \<and>
     mf_current h = media_header_of msg len \<and>
     (mf_fmt h = 0 \<and> mf_ts_field h = mi_timestamp msg \<or>
      (\<exists>prev. tracker_last t ! mf_slot h = Some prev \<and> mo_msg_stream_id prev = mi_msg_stream_id msg \<and>
         mo_timestamp prev \<le> mi_timestamp msg \<and> mi_timestamp msg < EXTENDED_TIMESTAMP_MARKER \<and>
         mf_ts_field h = mi_timestamp msg - mo_timestamp prev \<and>
         (mf_fmt h = 1 \<or> mf_fmt h = 2 \<and> mo_msg_length prev = of_nat len \<and>
            mo_msg_type_id prev = media_type_id (mi_frame_type msg))))"

lemma tracker_choose_ok:
  assumes "tracker_ok t" "len \<le> unat RTMP_WIRE_MAX_MSG_LENGTH"
  obtains h where "tracker_choose t compact (mi_frame_type msg) (mi_msg_stream_id msg) (mi_timestamp msg) len = Inr h"
    "decodable t msg len h"
proof -
  let ?slot = "media_slot (mi_frame_type msg)"
  have i: "idx (tracker_last t) ?slot = Inr (tracker_last t ! ?slot)"
    using assms(1) media_chunk_stream_facts(2) by (simp add: tracker_ok_def)
  show thesis
  proof (cases "tracker_last t ! ?slot")
    case None
    with i assms(2) that show thesis
      by (simp add: tracker_choose_def case_prod_unfold Let_def decodable_def media_header_of_def)
  next
    case (Some prev)
    show thesis
      using i assms(2) that Some
      by (cases "compact \<and> mo_msg_stream_id prev = mi_msg_stream_id msg \<and>
          mo_timestamp prev \<le> mi_timestamp msg \<and> mi_timestamp msg < EXTENDED_TIMESTAMP_MARKER")
        (force simp: tracker_choose_def case_prod_unfold Let_def decodable_def media_header_of_def)+
  qed
qed

lemma tracker_choose_too_long:
  "\<not> len \<le> unat RTMP_WIRE_MAX_MSG_LENGTH \<Longrightarrow> tracker_choose t compact ft sid ts len = err EInternal"
  by (simp add: tracker_choose_def)

definition committed :: "media_first_header \<Rightarrow> media_header_tracker \<Rightarrow> media_header_tracker" where
  "committed h t = t\<lparr>tracker_last := (tracker_last t)[mf_slot h := Some (mf_current h)]\<rparr>"

lemma tracker_commit_ok:
  "tracker_ok t \<Longrightarrow> decodable t msg len h \<Longrightarrow> tracker_commit h t = Inr (committed h t)"
  using media_chunk_stream_facts(2) [of "mi_frame_type msg"]
  by (simp add: tracker_commit_def tracker_ok_def decodable_def committed_def)

lemma tracker_ok_committed [simp]: "tracker_ok (committed h t) = tracker_ok t"
  by (simp add: tracker_ok_def committed_def)

lemma decodable_fmt: "decodable t msg len h \<Longrightarrow> mf_fmt h \<le> 2"
  by (auto simp: decodable_def)

text \<open>A compressed header never needs the extended field, so the body agrees with the first header.\<close>

lemma delta_small:
  fixes a b m :: u32
  assumes "a \<le> b" "b < m"
  shows "b - a < m"
  using assms by (simp add: word_less_nat_alt word_le_nat_alt unat_sub)

lemma decodable_ext: "decodable t msg len h \<Longrightarrow> message_ext (mf_ts_field h) = message_ext (mi_timestamp msg)"
  using delta_small [of _ "mi_timestamp msg" EXTENDED_TIMESTAMP_MARKER]
  by (auto simp: decodable_def message_ext_def dest: leD)

section \<open>What the writers append\<close>

definition media_header_bytes :: "media_first_header \<Rightarrow> bytes" where
  "media_header_bytes h = first_header_bytes (mf_csid h) (mf_fmt h) (mf_ts_field h)
     (mo_msg_length (mf_current h)) (mo_msg_type_id (mf_current h)) (mo_msg_stream_id (mf_current h))"

definition media_body_bytes :: "media_message_info \<Rightarrow> bytes \<Rightarrow> nat \<Rightarrow> bytes" where
  "media_body_bytes msg payload n =
     chunk_body_bytes (media_csid (mi_frame_type msg)) payload (eff_chunk_size n)
       (message_ext (mi_timestamp msg))"

lemma length_media_header_bytes:
  "decodable t msg len h \<Longrightarrow> length (media_header_bytes h) = media_first_encoded_len h"
  by (simp add: media_header_bytes_def media_first_encoded_len_def length_first_header_bytes decodable_fmt)

lemma length_media_body_bytes:
  "length (media_body_bytes msg payload n) =
   chunk_body_len (media_csid (mi_frame_type msg)) (length payload) n
     (mi_timestamp msg \<ge> EXTENDED_TIMESTAMP_MARKER)"
  by (simp add: media_body_bytes_def length_chunk_body_bytes message_ext_def)

lemma emits_media_first_write:
  assumes "decodable t msg len h"
  shows "bq.emits (media_first_write h) () (media_header_bytes h)"
proof -
  have "valid_csid (mf_csid h)" using assms media_chunk_stream_facts(1) by (simp add: decodable_def)
  then show ?thesis
    unfolding media_first_write_def media_header_bytes_def
    by (rule emits_write_first_header [OF decodable_fmt [OF assms]])
qed

lemma emits_encode_media_body:
  "bq.emits (encode_media_body (mi_frame_type msg) (mi_timestamp msg) payload n) ()
     (media_body_bytes msg payload n)"
  using emits_write_chunk_body [OF media_chunk_stream_facts(1), of "mi_frame_type msg" payload n
      "message_ext (mi_timestamp msg)"]
  by (simp add: encode_media_body_def media_body_bytes_def message_ext_def case_prod_unfold Let_def)

text \<open>
  Both writers have one shape: choose a header, write it and a body in one reserved piece, commit.
\<close>

definition media_write_core ::
  "bool \<Rightarrow> media_message_info \<Rightarrow> nat \<Rightarrow> nat \<Rightarrow> (buffer, unit) op \<Rightarrow> (media_out, unit) op" where
  "media_write_core compact msg len body_len put_body =
     bindS (choose_op compact msg len) (\<lambda>header.
       thenS (on_out (thenS (buf_reserve (media_first_encoded_len header + body_len))
           (thenS (media_first_write header) put_body)))
         (commit_op header))"

lemma write_media_message_core:
  "write_media_message compact msg payload n =
   media_write_core compact msg (length payload) (length (media_body_bytes msg payload n))
     (encode_media_body (mi_frame_type msg) (mi_timestamp msg) payload n)"
  by (simp add: write_media_message_def media_write_core_def case_prod_unfold length_media_body_bytes
      Let_def)

lemma write_media_message_with_body_core:
  "write_media_message_with_body compact msg len body =
   media_write_core compact msg len (length body) (voidS (buf_write body))"
  by (simp add: write_media_message_with_body_def media_write_core_def)

lemma on_out_apply: "on_out m (b, t) = (fst (m b), (snd (m b), t))"
  by (simp add: on_out_def zoomS_def case_prod_unfold)

lemma choose_op_apply:
  "choose_op compact msg len (b, t) = (tracker_choose t compact (mi_frame_type msg) (mi_msg_stream_id msg)
     (mi_timestamp msg) len, (b, t))"
  by (simp add: choose_op_def op_simps)

lemma commit_op_apply:
  "tracker_commit h t = Inr t' \<Longrightarrow> commit_op h (b, t) = (Inr (), (b, t'))"
  by (simp add: commit_op_def op_simps)

lemma media_write_core_ok:
  assumes t: "tracker_ok t" and len: "len \<le> unat RTMP_WIRE_MAX_MSG_LENGTH" and b: "buf_inv b"
    and put: "bq.emits put_body () body"
    and h: "tracker_choose t compact (mi_frame_type msg) (mi_msg_stream_id msg) (mi_timestamp msg) len = Inr h"
      "decodable t msg len h"
    and room: "buf_room b (length (media_header_bytes h @ body))"
  obtains b' where "media_write_core compact msg len (length body) put_body (b, t) = (Inr (), (b', committed h t))"
    "buf_inv b'" "contents b' = contents b @ media_header_bytes h @ body"
    "\<And>k. buf_room b' k \<longleftrightarrow> buf_room b (length (media_header_bytes h @ body) + k)"
proof -
  have "bq.emits (thenS (buf_reserve (media_first_encoded_len h + length body))
      (thenS (media_first_write h) put_body)) () (media_header_bytes h @ body)"
    by (rule bq.emits_reserve_plain)
      (simp_all add: length_media_header_bytes [OF h(2)] bq.emits_then [OF emits_media_first_write [OF h(2)] put])
  from this b room obtain b' where b': "thenS (buf_reserve (media_first_encoded_len h + length body))
      (thenS (media_first_write h) put_body) b = (Inr (), b')" "buf_inv b'"
    "contents b' = contents b @ media_header_bytes h @ body"
    "\<And>k. buf_room b' k \<longleftrightarrow> buf_room b (length (media_header_bytes h @ body) + k)"
    by (rule bq.emitsE) blast
  have "media_write_core compact msg len (length body) put_body (b, t) = (Inr (), (b', committed h t))"
    using b'(1) commit_op_apply [OF tracker_commit_ok [OF t h(2)]]
    by (simp add: media_write_core_def choose_op_apply h(1) on_out_apply)
  with b' that show thesis by blast
qed

lemma media_write_core_full:
  assumes "buf_inv b" "decodable t msg len h"
    and "tracker_choose t compact (mi_frame_type msg) (mi_msg_stream_id msg) (mi_timestamp msg) len = Inr h"
    and "\<not> buf_room b (length (media_header_bytes h @ body))"
  shows "\<exists>b'. media_write_core compact msg len (length body) put_body (b, t) = (err EInternal, (b', t)) \<and>
    buf_inv b' \<and> contents b' = contents b"
proof -
  have "\<not> buf_room b (media_first_encoded_len h + length body)"
    using assms(4) by (simp add: length_media_header_bytes [OF assms(2)])
  from bq.reserve_plain_fails [OF assms(1) this, of "thenS (media_first_write h) put_body"]
  show ?thesis
    by (auto simp: media_write_core_def choose_op_apply assms(3) on_out_apply)
qed

lemma media_write_core_result:
  assumes "buf_inv b" and "tracker_ok t" and put: "bq.emits put_body () body"
  shows "\<exists>b' t' r. media_write_core compact msg len (length body) put_body (b, t) = (r, (b', t')) \<and> buf_inv b' \<and>
    (r = err EInternal \<and> contents b' = contents b \<and> t' = t \<or>
     (\<exists>h. r = Inr () \<and> decodable t msg len h \<and> t' = committed h t \<and>
        contents b' = contents b @ media_header_bytes h @ body))"
proof (cases "len \<le> unat RTMP_WIRE_MAX_MSG_LENGTH")
  case False
  then show ?thesis
    using assms tracker_choose_too_long [OF False]
    by (simp add: media_write_core_def choose_op_apply)
next
  case True
  obtain h where h: "tracker_choose t compact (mi_frame_type msg) (mi_msg_stream_id msg) (mi_timestamp msg) len = Inr h"
      "decodable t msg len h"
    by (rule tracker_choose_ok [OF assms(2) True])
  show ?thesis
  proof (cases "buf_room b (length (media_header_bytes h @ body))")
    case room: True
    show ?thesis
      by (rule media_write_core_ok [OF assms(2) True assms(1) put h room]) (use h(2) in blast)
  next
    case False
    from media_write_core_full [OF assms(1) h(2,1) False] show ?thesis by blast
  qed
qed

section \<open>Sender and receiver\<close>

text \<open>
  The header context the reader keeps for a chunk stream is the last header the tracker committed
  there, and no message is in flight on it.
\<close>

definition ctx_matches :: "media_out_header \<Rightarrow> chunk_stream \<Rightarrow> bool" where
  "ctx_matches prev st \<longleftrightarrow> cs_has_message_header st \<and> cs_type0_timestamp st = mo_timestamp prev \<and>
     cs_type0_msg_length st = mo_msg_length prev \<and> cs_type0_msg_type_id st = mo_msg_type_id prev \<and>
     cs_type0_msg_stream_id st = mo_msg_stream_id prev"

definition slot_link :: "nat \<Rightarrow> media_header_tracker \<Rightarrow> chunk_registry \<Rightarrow> frame_type \<Rightarrow> bool" where
  "slot_link n t reg ft \<longleftrightarrow>
     unat (cs_chunk_size (opened reg (media_csid ft))) = n \<and>
     \<not> cs_reassembling (opened reg (media_csid ft)) \<and>
     (\<forall>prev. tracker_last t ! media_slot ft = Some prev \<longrightarrow>
        (\<exists>st. stream_of reg (media_csid ft) = Some st \<and> ctx_matches prev st))"

definition media_link :: "nat \<Rightarrow> media_header_tracker \<Rightarrow> chunk_registry \<Rightarrow> bool" where
  "media_link n t reg \<longleftrightarrow> tracker_ok t \<and> reg_inv reg \<and> (\<forall>ft. slot_link n t reg ft) \<and>
     reg_reassembling_count reg < reg_max_active_csids reg \<and>
     card (dom (stream_of reg) \<union> {4, 5, 6}) \<le> MAX_CHUNK_STREAMS"

text \<open>The limits of a receiver that admit a payload of \<open>len\<close> bytes.\<close>

definition admits :: "chunk_registry \<Rightarrow> nat \<Rightarrow> bool" where
  "admits reg len \<longleftrightarrow> len \<le> unat (reg_max_msg_length reg) \<and> len \<le> unat RTMP_WIRE_MAX_MSG_LENGTH \<and>
     reg_reassembly_bytes_in_use reg + len \<le> reg_max_reassembly_bytes reg"

lemma finite_streams: "reg_inv reg \<Longrightarrow> finite (dom (stream_of reg))"
  by (rule finite_subset [of _ "UNIV"]) simp_all

lemma media_link_can_open:
  assumes "media_link n t reg"
  shows "can_open reg (media_csid ft)"
proof (cases "stream_of reg (media_csid ft)")
  case None
  have "dom (stream_of reg) \<subset> dom (stream_of reg) \<union> {4, 5, 6}"
    using None media_chunk_stream_facts(3) [of ft] by blast
  then have "card (dom (stream_of reg)) < card (dom (stream_of reg) \<union> {4, 5, 6})"
    using assms by (intro psubset_card_mono) (simp_all add: media_link_def finite_streams)
  with None assms show ?thesis
    by (simp add: can_open_def media_link_def length_reg_streams)
qed (use assms in \<open>simp add: can_open_def media_link_def\<close>)

lemma idle_no_partial:
  assumes "media_link n t reg"
  shows "partial_bytes (opened reg (media_csid ft)) = 0"
proof -
  have "stream_inv (opened reg (media_csid ft))"
    using stream_of_inv [of reg "media_csid ft"] stream_inv_fresh assms
    by (cases "stream_of reg (media_csid ft)") (auto simp: media_link_def opened_def reg_inv_def)
  then show ?thesis
    using assms by (auto simp: media_link_def slot_link_def stream_inv_def partial_bytes_def)
qed

text \<open>The header context after the chosen header is that of the message that was sent.\<close>

lemma decoded_ctx:
  assumes link: "slot_link n t reg (mi_frame_type msg)" and h: "decodable t msg len h"
    and len: "len \<le> unat RTMP_WIRE_MAX_MSG_LENGTH"
  defines "ctx \<equiv> after_first (mf_fmt h) (mf_ts_field h) (mo_msg_length (mf_current h))
    (mo_msg_type_id (mf_current h)) (mo_msg_stream_id (mf_current h)) (opened reg (mf_csid h))"
  shows "ctx_matches (media_header_of msg len) ctx"
    "mf_fmt h = 2 \<Longrightarrow> stream_of reg (mf_csid h) \<noteq> None \<and> cs_has_message_header (opened reg (mf_csid h))"
proof -
  let ?st = "opened reg (mf_csid h)"
  have cur: "mf_current h = media_header_of msg len" "mf_csid h = media_csid (mi_frame_type msg)"
    using h by (simp_all add: decodable_def)
  consider "mf_fmt h = 0" "mf_ts_field h = mi_timestamp msg"
    | prev st where "mf_fmt h = 1 \<or> mf_fmt h = 2 \<and> mo_msg_length prev = of_nat len \<and>
            mo_msg_type_id prev = media_type_id (mi_frame_type msg)"
        "stream_of reg (mf_csid h) = Some st" "ctx_matches prev st"
        "mo_msg_stream_id prev = mi_msg_stream_id msg" "mf_ts_field h = mi_timestamp msg - mo_timestamp prev"
    using h link by (auto simp: decodable_def slot_link_def)
  then have "ctx_matches (media_header_of msg len) ctx \<and>
    (mf_fmt h = 2 \<longrightarrow> stream_of reg (mf_csid h) \<noteq> None \<and> cs_has_message_header ?st)"
  proof cases
    case 1
    then show ?thesis
      by (simp add: ctx_matches_def ctx_def after_first_def chunk_stream_header_def first_fields_def cur
          media_header_of_def)
  next
    case (2 prev st)
    then have "?st = st" by (simp add: opened_def)
    with 2 show ?thesis
      by (auto simp: ctx_matches_def ctx_def after_first_def chunk_stream_header_def first_fields_def cur
          chunk_started_def media_header_of_def)
  qed
  then show "ctx_matches (media_header_of msg len) ctx"
    "mf_fmt h = 2 \<Longrightarrow> stream_of reg (mf_csid h) \<noteq> None \<and> cs_has_message_header ?st"
    by blast+
qed

lemma ctx_matches_hdr_ctx: "hdr_ctx st = hdr_ctx st' \<Longrightarrow> ctx_matches prev st = ctx_matches prev st'"
  by (simp add: hdr_ctx_def ctx_matches_def)

lemma read_until_complete_more:
  "read_until_complete n s = (Inr 1, s') \<Longrightarrow> n \<le> m \<Longrightarrow> read_until_complete m s = (Inr 1, s')"
proof (induction n arbitrary: s m)
  case 0
  then show ?case by simp
next
  case (Suc n)
  from Suc.prems(2) obtain k where m: "m = Suc k" "n \<le> k" by (cases m) auto
  obtain r s1 where c: "chunk_read s = (r, s1)" by fastforce
  show ?case
  proof (cases r)
    case (Inl e)
    with Suc.prems(1) c show ?thesis by simp
  next
    case (Inr rc)
    with Suc.prems(1) c Suc.IH [OF _ m(2)] show ?thesis
      unfolding m by (cases "rc = 1") simp_all
  qed
qed

lemma length_chunks_of: "0 < n \<Longrightarrow> length (chunks_of n xs) \<le> length xs"
proof (induction n xs rule: chunks_of.induct)
  case (1 n xs)
  show ?case
  proof (cases "xs = []")
    case False
    with 1 show ?thesis by (subst chunks_of.simps) (cases xs, auto)
  qed (simp add: chunks_of.simps [of n "[]"])
qed

text \<open>The message the reader delivers.\<close>

definition delivers :: "media_message_info \<Rightarrow> bytes \<Rightarrow> chunk_message \<times> bytes \<Rightarrow> bool" where
  "delivers msg payload = (\<lambda>(m, body). body = payload \<and> cm_csid m = media_csid (mi_frame_type msg) \<and>
     cm_timestamp m = mi_timestamp msg \<and> cm_msg_length m = of_nat (length payload) \<and>
     cm_msg_type_id m = media_type_id (mi_frame_type msg) \<and> cm_msg_stream_id m = mi_msg_stream_id msg \<and>
     cm_is_complete m)"

lemma unat_of_len: "len \<le> unat RTMP_WIRE_MAX_MSG_LENGTH \<Longrightarrow> unat (of_nat len :: u32) = len"
  "len \<le> unat RTMP_WIRE_MAX_MSG_LENGTH \<Longrightarrow> (of_nat len :: u32) \<le> 0xFFFFFF"
  by (simp_all add: unat_of_nat take_bit_nat_eq_self RTMP_WIRE_MAX_MSG_LENGTH_def word_le_nat_alt)

lemma received_link:
  assumes rcv: "received s (media_csid (mi_frame_type msg)) m body rest ctx s'"
    and link: "media_link n t (rs_reg s)" and h: "decodable t msg len h"
    and ctx: "ctx_matches (media_header_of msg len) ctx"
      "cs_chunk_size ctx = cs_chunk_size (opened (rs_reg s) (media_csid (mi_frame_type msg)))"
  shows "media_link n (committed h t) (rs_reg s')"
proof -
  let ?c = "media_csid (mi_frame_type msg)"
  obtain st' where st': "stream_of (rs_reg s') = (stream_of (rs_reg s))(?c \<mapsto> st')"
    "hdr_ctx st' = hdr_ctx ctx" "\<not> cs_reassembling st'"
    using rcv by (auto simp: received_def)
  have h': "mf_slot h = media_slot (mi_frame_type msg)" "mf_current h = media_header_of msg len"
    using h by (simp_all add: decodable_def)
  have t3: "length (tracker_last t) = 3" using link by (simp add: media_link_def tracker_ok_def)
  have dflt: "reg_default_chunk_size (rs_reg s') = reg_default_chunk_size (rs_reg s)"
    using rcv by (simp add: received_def)
  have "slot_link n (committed h t) (rs_reg s') ft" for ft
  proof (cases "media_csid ft = ?c")
    case True
    then have "media_slot ft = mf_slot h" using media_chunk_stream_facts(4) h' by simp
    moreover have "cs_chunk_size st' = cs_chunk_size ctx" using st'(2) by (simp add: hdr_ctx_def)
    moreover have "unat (cs_chunk_size (opened (rs_reg s) ?c)) = n"
      using link by (simp add: media_link_def slot_link_def)
    moreover have "ctx_matches (media_header_of msg len) st'"
      using ctx_matches_hdr_ctx [OF st'(2)] ctx(1) by simp
    ultimately show ?thesis
      using True st'(1,3) ctx(2) h' t3 media_chunk_stream_facts(2) [of "mi_frame_type msg"]
      by (simp add: slot_link_def committed_def opened_def)
  next
    case False
    then have "media_slot ft \<noteq> mf_slot h" using media_chunk_stream_facts(4) h' by simp
    moreover have "slot_link n t (rs_reg s) ft" using link by (simp add: media_link_def)
    moreover have "opened (rs_reg s') (media_csid ft) = opened (rs_reg s) (media_csid ft)"
      unfolding opened_def dflt st'(1) using False by simp
    ultimately show ?thesis
      using False st'(1) by (simp add: slot_link_def committed_def)
  qed
  moreover have "dom (stream_of (rs_reg s')) \<union> {4, 5, 6} = dom (stream_of (rs_reg s)) \<union> {4, 5, 6}"
    using st'(1) media_chunk_stream_facts(3) [of "mi_frame_type msg"] by auto
  ultimately show ?thesis
    using link rcv by (auto simp: media_link_def received_def read_inv_def simp del: Un_insert_right)
qed

lemma read_media_message:
  assumes link: "media_link n t (rs_reg s)" and inv: "read_inv s"
    and h: "decodable t msg (length payload) h" and adm: "admits (rs_reg s) (length payload)"
    and c: "contents (rs_buf s) = media_header_bytes h @ media_body_bytes msg payload n @ rest"
  shows "\<exists>s'. read_until_complete (Suc (length payload)) s = (Inr 1, s') \<and>
    delivers msg payload (rs_msg s', rs_payload s') \<and> contents (rs_buf s') = rest \<and> read_inv s' \<and>
    media_link n (committed h t) (rs_reg s') \<and> (\<forall>len. admits (rs_reg s') len = admits (rs_reg s) len)"
proof -
  let ?c = "media_csid (mi_frame_type msg)" and ?len = "length payload"
  let ?st = "opened (rs_reg s) ?c"
  define ctx where "ctx = after_first (mf_fmt h) (mf_ts_field h) (mo_msg_length (mf_current h))
    (mo_msg_type_id (mf_current h)) (mo_msg_stream_id (mf_current h)) ?st"
  have h': "mf_csid h = ?c" "mf_current h = media_header_of msg ?len"
    using h by (simp_all add: decodable_def)
  have sl: "slot_link n t (rs_reg s) (mi_frame_type msg)" using link by (simp add: media_link_def)
  have len: "?len \<le> unat RTMP_WIRE_MAX_MSG_LENGTH" using adm by (simp add: admits_def)
  note d = decoded_ctx [OF sl h len, unfolded h'(1), folded ctx_def]
  have ctx: "cs_type0_msg_length ctx = of_nat ?len" "cs_chunk_size ctx = cs_chunk_size ?st"
    using d(1) after_first_simps(3) [OF decodable_fmt [OF h]]
    by (simp_all add: ctx_matches_def media_header_of_def ctx_def)
  have n: "unat (cs_chunk_size ?st) = n" "\<not> cs_reassembling ?st" using sl by (simp_all add: slot_link_def)
  have "stream_inv ?st"
    using stream_of_inv [of "rs_reg s" ?c] stream_inv_fresh inv
    by (cases "stream_of (rs_reg s) ?c") (auto simp: read_inv_def opened_def reg_inv_def)
  from stream_inv_read(4) [OF this] n have n0: "0 < n" by simp
  have "\<exists>s'. read_until_complete (max 1 (length (chunks_of n payload))) s = (Inr 1, s') \<and>
    received s ?c (ctx_message ?c (if ?len \<le> n then mf_fmt h else 3) ctx) payload rest ctx s'"
    unfolding ctx_def
  proof (rule read_first_message [OF inv media_chunk_stream_facts(1) decodable_fmt [OF h]])
    show "mo_msg_length (mf_current h) \<le> 0xFFFFFF"
      using h'(2) unat_of_len(2) [OF len] by (simp add: media_header_of_def)
    show "contents (rs_buf s) = first_header_bytes ?c (mf_fmt h) (mf_ts_field h) (mo_msg_length (mf_current h))
        (mo_msg_type_id (mf_current h)) (mo_msg_stream_id (mf_current h)) @
        chunk_body_bytes ?c payload n (message_ext (mf_ts_field h)) @ rest"
      using c n0 by (simp add: media_header_bytes_def media_body_bytes_def h'(1) decodable_ext [OF h]
          eff_chunk_size_def)
    show "cs_type0_msg_length (after_first (mf_fmt h) (mf_ts_field h) (mo_msg_length (mf_current h))
        (mo_msg_type_id (mf_current h)) (mo_msg_stream_id (mf_current h)) ?st) \<le> reg_max_msg_length (rs_reg s)"
      using ctx(1) adm unat_of_len(1) [OF len] by (simp add: ctx_def admits_def word_le_nat_alt)
  qed (use d(2) n ctx(1) unat_of_len(1) [OF len] adm media_link_can_open [OF link, of "mi_frame_type msg"] idle_no_partial [OF link, of "mi_frame_type msg"]
      in \<open>simp_all add: ctx_def admits_def\<close>)
  then obtain s' where s': "read_until_complete (max 1 (length (chunks_of n payload))) s = (Inr 1, s')"
    "received s ?c (ctx_message ?c (if ?len \<le> n then mf_fmt h else 3) ctx) payload rest ctx s'" by blast
  have "read_until_complete (Suc ?len) s = (Inr 1, s')"
    by (rule read_until_complete_more [OF s'(1)]) (use length_chunks_of [OF n0, of payload] in simp)
  moreover have "delivers msg payload (rs_msg s', rs_payload s')"
    using s'(2) d(1) by (simp add: delivers_def received_def ctx_message_def ctx_matches_def media_header_of_def)
  moreover have "\<forall>len. admits (rs_reg s') len = admits (rs_reg s) len"
    using s'(2) idle_no_partial [OF link, of "mi_frame_type msg"] by (simp add: admits_def received_def)
  ultimately show ?thesis
    using s'(2) received_link [OF s'(2) link h d(1) ctx(2)] by (auto simp: received_def)
qed

section \<open>Sequences of messages\<close>

text \<open>A media message to send: whether compressed headers are on, where it goes, and its payload.\<close>

type_synonym media_send = "bool \<times> media_message_info \<times> bytes"

fun send_all :: "nat \<Rightarrow> media_send list \<Rightarrow> (media_out, unit) op" where
  "send_all n [] = retS ()"
| "send_all n ((compact, msg, payload) # ms) =
     thenS (write_media_message compact msg payload n) (send_all n ms)"

text \<open>The receiver: one delivered message per message sent, none needing more calls than it has bytes.\<close>

fun receive_each :: "media_send list \<Rightarrow> (read_state, (chunk_message \<times> bytes) list) op" where
  "receive_each [] = retS []"
| "receive_each ((_, _, payload) # ms) =
     thenS (read_until_complete (Suc (length payload)))
       (bindS (getS (\<lambda>s. (rs_msg s, rs_payload s))) (\<lambda>d.
         bindS (receive_each ms) (\<lambda>ds. retS (d # ds))))"

text \<open>An upper bound on the bytes of a sequence: the longest first header has 18 bytes.\<close>

fun media_bound :: "nat \<Rightarrow> media_send list \<Rightarrow> nat" where
  "media_bound n [] = 0"
| "media_bound n ((_, msg, payload) # ms) =
     18 + length (media_body_bytes msg payload n) + media_bound n ms"

lemma media_header_bytes_bound: "decodable t msg len h \<Longrightarrow> length (media_header_bytes h) \<le> 18"
  unfolding media_header_bytes_def by (rule first_header_bytes_bound) (rule decodable_fmt)

text \<open>A receiver in step with tracker \<open>t\<close> that finds \<open>bs\<close> next in its input delivers \<open>ms\<close>.\<close>

definition received_as :: "nat \<Rightarrow> media_header_tracker \<Rightarrow> bytes \<Rightarrow> media_send list \<Rightarrow> bool" where
  "received_as n t bs ms \<longleftrightarrow>
     (\<forall>s rest. contents (rs_buf s) = bs @ rest \<longrightarrow> read_inv s \<longrightarrow> media_link n t (rs_reg s) \<longrightarrow>
       (\<forall>(c, msg, payload) \<in> set ms. admits (rs_reg s) (length payload)) \<longrightarrow>
       (\<exists>ds s'. receive_each ms s = (Inr ds, s') \<and> contents (rs_buf s') = rest \<and>
          list_all2 (\<lambda>(c, msg, payload). delivers msg payload) ms ds))"

lemma received_asD:
  assumes "received_as n t bs ms" "contents (rs_buf s) = bs @ rest" "read_inv s" "media_link n t (rs_reg s)"
    "\<forall>(c, msg, payload) \<in> set ms. admits (rs_reg s) (length payload)"
  shows "\<exists>ds s'. receive_each ms s = (Inr ds, s') \<and> contents (rs_buf s') = rest \<and>
    list_all2 (\<lambda>(c, msg, payload). delivers msg payload) ms ds"
  using assms unfolding received_as_def by blast

lemma received_as_Cons:
  assumes h: "decodable t msg (length payload) h" and rest: "received_as n (committed h t) bs ms"
  shows "received_as n t (media_header_bytes h @ media_body_bytes msg payload n @ bs) ((c, msg, payload) # ms)"
  unfolding received_as_def
proof (intro allI impI)
  fix s rest
  let ?len = "length payload"
  assume c: "contents (rs_buf s) = (media_header_bytes h @ media_body_bytes msg payload n @ bs) @ rest"
    and inv: "read_inv s" and link: "media_link n t (rs_reg s)"
    and adms: "\<forall>(c, msg, payload) \<in> set ((c, msg, payload) # ms). admits (rs_reg s) (length payload)"
  from adms have "admits (rs_reg s) ?len" by simp
  from read_media_message [OF link inv h this, of "bs @ rest"] c
  obtain s' where s': "read_until_complete (Suc ?len) s = (Inr 1, s')" "delivers msg payload (rs_msg s', rs_payload s')"
    "contents (rs_buf s') = bs @ rest" "read_inv s'" "media_link n (committed h t) (rs_reg s')"
    "\<forall>len. admits (rs_reg s') len = admits (rs_reg s) len" by auto
  have "\<forall>(c, msg, payload) \<in> set ms. admits (rs_reg s') (length payload)"
    using adms s'(6) by auto
  from received_asD [OF assms(2) s'(3-5) this] s'
  show "\<exists>ds s'. receive_each ((c, msg, payload) # ms) s = (Inr ds, s') \<and> contents (rs_buf s') = rest \<and>
      list_all2 (\<lambda>(c, msg, payload). delivers msg payload) ((c, msg, payload) # ms) ds"
    by (auto simp: op_simps)
qed

lemma send_receive_all:
  assumes "buf_inv b" "buf_room b (media_bound n ms)" "tracker_ok t"
    and "\<forall>(c, msg, payload) \<in> set ms. length payload \<le> unat RTMP_WIRE_MAX_MSG_LENGTH"
  shows "\<exists>b' t' bs. send_all n ms (b, t) = (Inr (), (b', t')) \<and> buf_inv b' \<and> contents b' = contents b @ bs \<and>
    received_as n t bs ms"
  using assms
proof (induction ms arbitrary: b t)
  case Nil
  then show ?case by (auto simp: received_as_def)
next
  case (Cons m ms)
  obtain c msg payload where m: "m = (c, msg, payload)" by (cases m) auto
  note prems = Cons.prems [unfolded m]
  let ?body = "media_body_bytes msg payload n" and ?len = "length payload"
  have t: "tracker_ok t" and len: "?len \<le> unat RTMP_WIRE_MAX_MSG_LENGTH"
    and lens: "\<forall>(c, msg, payload) \<in> set ms. length payload \<le> unat RTMP_WIRE_MAX_MSG_LENGTH"
    using prems(3,4) by auto
  then have t1: "tracker_ok (committed h t)" for h by simp
  obtain h where h: "tracker_choose t c (mi_frame_type msg) (mi_msg_stream_id msg) (mi_timestamp msg) ?len = Inr h"
    "decodable t msg ?len h" by (rule tracker_choose_ok [OF t len])
  note hb = media_header_bytes_bound [OF h(2)]
  have room: "buf_room b (length (media_header_bytes h @ ?body))"
    using prems(2) hb by (auto intro: bq.room_mono)
  obtain b1 where b1: "media_write_core c msg ?len (length ?body)
      (encode_media_body (mi_frame_type msg) (mi_timestamp msg) payload n) (b, t) = (Inr (), (b1, committed h t))"
    "buf_inv b1" "contents b1 = contents b @ media_header_bytes h @ ?body"
    "\<And>k. buf_room b1 k \<longleftrightarrow> buf_room b (length (media_header_bytes h @ ?body) + k)"
    by (rule media_write_core_ok [OF t len prems(1) emits_encode_media_body h room]) blast
  have room1: "buf_room b1 (media_bound n ms)"
    using prems(2) hb unfolding b1(4) by (auto intro: bq.room_mono)
  from Cons.IH [OF b1(2) room1 t1 lens] obtain b' t' bs where
    ih: "send_all n ms (b1, committed h t) = (Inr (), (b', t'))" "buf_inv b'" "contents b' = contents b1 @ bs"
    and rcv: "received_as n (committed h t) bs ms"
    by blast
  have "send_all n (m # ms) (b, t) = (Inr (), (b', t'))"
    using ih(1) b1(1) by (simp add: m write_media_message_core)
  with ih(2,3) b1(3) received_as_Cons [OF h(2) rcv] show ?case unfolding m by fastforce
qed

section \<open>Properties\<close>

text \<open>C6: A whole sequence of audio, video and data messages survives the trip: with any mix of compressed
  and full headers, sent with the header tracker in step with the receiver's stream table, the
  receiver delivers every message with its payload, timestamp, type and stream ids, in order, and
  consumes exactly what was sent.\<close>
theorem media_sequence_roundtrip:
  assumes "buf_inv out" and "contents out = []" and "buf_room out (media_bound n ms)"
    and "media_link n tracker reg"
    and "\<forall>(c, msg, payload) \<in> set ms. admits reg (length payload)"
  shows "\<exists>out' tracker' ds s'. send_all n ms (out, tracker) = (Inr (), (out', tracker')) \<and>
    receive_each ms \<lparr>rs_buf = out', rs_reg = reg, rs_msg = chunk_message_default, rs_payload = []\<rparr> = (Inr ds, s') \<and>
    contents (rs_buf s') = [] \<and> list_all2 (\<lambda>(c, msg, payload). delivers msg payload) ms ds"
proof -
  have t: "tracker_ok tracker" and "reg_inv reg" using assms(4) by (simp_all add: media_link_def)
  have lens: "\<forall>(c, msg, payload) \<in> set ms. length payload \<le> unat RTMP_WIRE_MAX_MSG_LENGTH"
    using assms(5) by (auto simp: admits_def)
  from send_receive_all [OF assms(1,3) t lens] obtain out' t' bs where out': "send_all n ms (out, tracker) = (Inr (), (out', t'))" "buf_inv out'"
    "contents out' = contents out @ bs"
    and rcv: "received_as n tracker bs ms"
    by blast
  let ?s = "\<lparr>rs_buf = out', rs_reg = reg, rs_msg = chunk_message_default, rs_payload = []\<rparr>"
  have "contents (rs_buf ?s) = bs @ []" "read_inv ?s" "media_link n tracker (rs_reg ?s)"
    "\<forall>(c, msg, payload) \<in> set ms. admits (rs_reg ?s) (length payload)"
    using out'(2,3) assms(2,4,5) \<open>reg_inv reg\<close> by (simp_all add: read_inv_def)
  from received_asD [OF rcv this] out'(1) show ?thesis by blast
qed

definition ex_info :: "frame_type \<Rightarrow> u32 \<Rightarrow> media_message_info" where
  "ex_info ft ts = \<lparr>mi_frame_type = ft, mi_msg_stream_id = 1, mi_timestamp = ts\<rparr>"

lemma media_link_start: "media_link 128 tracker_default reg_new"
proof -
  have "slot_link 128 tracker_default reg_new ft" for ft
    using media_chunk_stream_facts(2) [of ft]
    by (auto simp: slot_link_def tracker_default_def fresh_stream_def chunk_stream_default_def)
  moreover have "dom (stream_of reg_new) = {}" by (simp add: dom_def)
  moreover have "0 < reg_max_active_csids reg_new"
    by (simp add: reg_new_def DEFAULT_MAX_ACTIVE_CSIDS_def)
  ultimately show ?thesis
    by (simp add: media_link_def tracker_ok_def tracker_default_def reg_inv_new MAX_CHUNK_STREAMS_def)
qed

lemma ex_admits: "len \<le> 4194304 \<Longrightarrow> admits reg_new len"
  by (simp add: admits_def RTMP_WIRE_MAX_MSG_LENGTH_def)

theorem media_sequence_roundtrip_witness:
  "\<exists>out' t' ds s'. send_all 128 [(True, ex_info FAudio 10, replicate 3 7), (True, ex_info FAudio 30, replicate 3 8)]
      (buf_new, tracker_default) = (Inr (), (out', t')) \<and>
    receive_each [(True, ex_info FAudio 10, replicate 3 7), (True, ex_info FAudio 30, replicate 3 8)]
      \<lparr>rs_buf = out', rs_reg = reg_new, rs_msg = chunk_message_default, rs_payload = []\<rparr> = (Inr ds, s') \<and>
    map snd ds = [replicate 3 7, replicate 3 8] \<and> map (cm_timestamp \<circ> fst) ds = [10, 30]"
proof -
  let ?ms = "[(True, ex_info FAudio 10, replicate 3 7), (True, ex_info FAudio 30, replicate 3 8)]"
  have "buf_room buf_new (media_bound 128 ?ms)"
    by (simp add: length_media_body_bytes chunk_body_len_def ex_info_def buf_room_def BUFFER_MAX_SIZE_def
        basic_header_def EXTENDED_TIMESTAMP_MARKER_def)
  from media_sequence_roundtrip [OF _ _ this media_link_start]
  show ?thesis
    by (fastforce simp: ex_admits delivers_def ex_info_def list_all2_Cons1)
qed

text \<open>C18: Queueing a media message is all or nothing, and the tracker moves only with it: on success the
  buffer has gained exactly a decodable first header and the chunked body, and the tracker has
  recorded that header; on failure the queued bytes and the tracker are as before.\<close>
theorem media_message_all_or_nothing:
  assumes "buf_inv b" and "tracker_ok t"
  shows "\<exists>b' t' r. write_media_message compact msg payload n (b, t) = (r, (b', t')) \<and> buf_inv b' \<and>
    (r = err EInternal \<and> contents b' = contents b \<and> t' = t \<or>
     (\<exists>h. r = Inr () \<and> decodable t msg (length payload) h \<and> t' = committed h t \<and>
        contents b' = contents b @ media_header_bytes h @ media_body_bytes msg payload n))"
  unfolding write_media_message_core
  by (rule media_write_core_result [OF assms emits_encode_media_body])

theorem media_message_all_or_nothing_witness:
  "\<exists>b' t' r. write_media_message True (ex_info FVideo 5) (replicate 2 1) 128 (buf_new, tracker_default) = (r, (b', t')) \<and>
    buf_inv b' \<and> (r = err EInternal \<longrightarrow> t' = tracker_default)"
  using media_message_all_or_nothing [of buf_new tracker_default True "ex_info FVideo 5" "replicate 2 1" 128]
  by (auto simp: tracker_ok_def tracker_default_def)

text \<open>C19: Encoding a body once and putting a per-receiver header in front of it gives every receiver what
  encoding the whole message for it alone would give: the same result, queued bytes and tracker.\<close>
theorem shared_body_equivalent:
  assumes "buf_inv b" and "tracker_ok t" and "buf_inv shared" and "contents shared = []"
    and "encode_media_body (mi_frame_type msg) (mi_timestamp msg) payload n shared = (Inr (), shared')"
    and "buf_room shared (length (media_body_bytes msg payload n))"
  shows "\<exists>b1 b2 r t'. write_media_message compact msg payload n (b, t) = (r, (b1, t')) \<and>
    write_media_message_with_body compact msg (length payload) (contents shared') (b, t) = (r, (b2, t')) \<and>
    contents b1 = contents b2"
proof -
  let ?body = "media_body_bytes msg payload n"
  obtain sh where "encode_media_body (mi_frame_type msg) (mi_timestamp msg) payload n shared = (Inr (), sh)"
    "contents sh = contents shared @ ?body"
    by (rule bq.emitsE [OF emits_encode_media_body assms(3,6)])
  then have body: "contents shared' = ?body" using assms(4,5) by simp
  have put: "bq.emits (voidS (buf_write ?body)) () ?body" by (rule bq.emits_void [OF bq.emits_write])
  show ?thesis
  proof (cases "length payload \<le> unat RTMP_WIRE_MAX_MSG_LENGTH")
    case False
    from tracker_choose_too_long [OF this] show ?thesis
      by (simp add: write_media_message_core write_media_message_with_body_core media_write_core_def
          choose_op_apply)
  next
    case len: True
    obtain h where h: "tracker_choose t compact (mi_frame_type msg) (mi_msg_stream_id msg) (mi_timestamp msg)
        (length payload) = Inr h" "decodable t msg (length payload) h"
      by (rule tracker_choose_ok [OF assms(2) len])
    note ok = media_write_core_ok [OF assms(2) len assms(1) _ h]
    show ?thesis
    proof (cases "buf_room b (length (media_header_bytes h @ ?body))")
      case room: True
      show ?thesis
        unfolding write_media_message_core write_media_message_with_body_core body
        by (rule ok [OF emits_encode_media_body [of msg payload n] room], rule ok [OF put room]) simp
    next
      case False
      from media_write_core_full [OF assms(1) h(2,1) False] show ?thesis
        unfolding write_media_message_core write_media_message_with_body_core body by metis
    qed
  qed
qed

theorem shared_body_equivalent_witness:
  "\<exists>shared' b1 b2 r t'. encode_media_body FVideo 5 (replicate 2 1) 128 buf_new = (Inr (), shared') \<and>
    write_media_message True (ex_info FVideo 5) (replicate 2 1) 128 (buf_new, tracker_default) = (r, (b1, t')) \<and>
    write_media_message_with_body True (ex_info FVideo 5) 2 (contents shared') (buf_new, tracker_default) = (r, (b2, t')) \<and>
    contents b1 = contents b2"
proof -
  have room: "buf_room buf_new (length (media_body_bytes (ex_info FVideo 5) (replicate 2 1) 128))"
    by (simp add: length_media_body_bytes chunk_body_len_def ex_info_def buf_room_def BUFFER_MAX_SIZE_def
        basic_header_def EXTENDED_TIMESTAMP_MARKER_def)
  have t: "tracker_ok tracker_default" by (simp add: tracker_ok_def tracker_default_def)
  obtain sh where sh: "encode_media_body FVideo 5 (replicate 2 1) 128 buf_new = (Inr (), sh)"
    using bq.emitsE [OF emits_encode_media_body [of "ex_info FVideo 5" "replicate 2 1" 128] _ room]
    by (auto simp: ex_info_def)
  from shared_body_equivalent [OF _ t, of buf_new buf_new "ex_info FVideo 5" "replicate 2 1" 128 sh True] sh room
  show ?thesis by (auto simp: ex_info_def)
qed

end
