(* ===== verification/Rtmp_Text.thy ===== *)
theory Rtmp_Text
  imports Rtmp_Prelude
begin

text \<open>
  Text in the byte formats. A Rust \<open>&str\<close> is the list of its UTF-8 bytes; \<open>utf8_valid\<close> is the test
  \<open>std::str::from_utf8\<close> makes (shortest forms only, no surrogates, nothing above U+10FFFF). String
  literals of the source are written with \<open>ascii\<close>.
\<close>

definition ascii :: "string \<Rightarrow> bytes" where
  "ascii s = map of_char s"

definition utf8_cont :: "u8 \<Rightarrow> bool" where
  "utf8_cont b \<longleftrightarrow> 0x80 \<le> b \<and> b \<le> 0xBF"

fun utf8_valid :: "bytes \<Rightarrow> bool" where
  "utf8_valid [] = True"
| "utf8_valid (b0 # r) =
     (if b0 < 0x80 then utf8_valid r
      else (case r of
          [] \<Rightarrow> False
        | b1 # r1 \<Rightarrow>
            if 0xC2 \<le> b0 \<and> b0 \<le> 0xDF then utf8_cont b1 \<and> utf8_valid r1
            else (case r1 of
                [] \<Rightarrow> False
              | b2 # r2 \<Rightarrow>
                  if 0xE0 \<le> b0 \<and> b0 \<le> 0xEF
                  then (if b0 = 0xE0 then 0xA0 \<le> b1 \<and> b1 \<le> 0xBF
                        else if b0 = 0xED then 0x80 \<le> b1 \<and> b1 \<le> 0x9F else utf8_cont b1)
                    \<and> utf8_cont b2 \<and> utf8_valid r2
                  else (case r2 of
                      [] \<Rightarrow> False
                    | b3 # r3 \<Rightarrow>
                        0xF0 \<le> b0 \<and> b0 \<le> 0xF4 \<and>
                        (if b0 = 0xF0 then 0x90 \<le> b1 \<and> b1 \<le> 0xBF
                         else if b0 = 0xF4 then 0x80 \<le> b1 \<and> b1 \<le> 0x8F else utf8_cont b1)
                        \<and> utf8_cont b2 \<and> utf8_cont b3 \<and> utf8_valid r3))))"

text \<open>\<open>std::str::from_utf8(bs).unwrap_or("")\<close>\<close>

definition utf8_or_empty :: "bytes \<Rightarrow> bytes" where
  "utf8_or_empty bs = (if utf8_valid bs then bs else [])"

text \<open>\<open>buf.iter().position(|&b| b == 0).unwrap_or(buf.len())\<close>: the length of a C string.\<close>

fun cstr_len :: "bytes \<Rightarrow> nat" where
  "cstr_len [] = 0"
| "cstr_len (b # bs) = (if b = 0 then 0 else Suc (cstr_len bs))"

lemma cstr_len_le: "cstr_len bs \<le> length bs"
  by (induction bs) auto

lemma cstr_len_append_zero [simp]: "0 \<notin> set s \<Longrightarrow> cstr_len (s @ 0 # rest) = length s"
  by (induction s) auto

lemma utf8_valid_ascii: "\<forall>b \<in> set bs. b < 0x80 \<Longrightarrow> utf8_valid bs"
  by (induction bs) auto

lemma ascii_simps [simp]:
  "ascii [] = []" "ascii (c # s) = of_char c # ascii s" "length (ascii s) = length s"
  by (simp_all add: ascii_def)

end
