(* ===== verification/Amf0.thy ===== *)
theory Amf0
  imports Rtmp_Buffer Rtmp_Bytes Rtmp_Text Rtmp_Types
begin

text \<open>
  The AMF0 codec (\<open>src/src/amf/amf0.rs\<close>): writers and readers of single values, and \<open>skip_value\<close>, which
  walks over a value of any shape. Numbers are the 64-bit pattern of the \<open>f64\<close>. A reader that fills
  a caller's array returns the number of bytes and the array as it leaves it; on an error the array
  is unchanged, because the buffer copies out only when it has all the bytes.

  The lemmas give the bytes of every writer and show that each reader inverts its writer, that
  \<open>skip_value\<close> consumes exactly one value as the writers encode it, nested objects included, and
  that on arbitrary input no reader panics or reads past the end.
\<close>

section \<open>Type markers\<close>

datatype amf0_type =
    A0Number | A0Boolean | A0String | A0Object | A0Movieclip | A0Null | A0Undefined | A0Reference
  | A0EcmaArray | A0ObjectEnd | A0StrictArray | A0Date | A0LongString | A0Unsupported
  | A0Recordset | A0XmlDoc | A0TypedObject | A0Avmplus

fun amf0_marker :: "amf0_type \<Rightarrow> u8" where
  "amf0_marker A0Number = 0x00"
| "amf0_marker A0Boolean = 0x01"
| "amf0_marker A0String = 0x02"
| "amf0_marker A0Object = 0x03"
| "amf0_marker A0Movieclip = 0x04"
| "amf0_marker A0Null = 0x05"
| "amf0_marker A0Undefined = 0x06"
| "amf0_marker A0Reference = 0x07"
| "amf0_marker A0EcmaArray = 0x08"
| "amf0_marker A0ObjectEnd = 0x09"
| "amf0_marker A0StrictArray = 0x0A"
| "amf0_marker A0Date = 0x0B"
| "amf0_marker A0LongString = 0x0C"
| "amf0_marker A0Unsupported = 0x0D"
| "amf0_marker A0Recordset = 0x0E"
| "amf0_marker A0XmlDoc = 0x0F"
| "amf0_marker A0TypedObject = 0x10"
| "amf0_marker A0Avmplus = 0x11"

fun amf0_type_as_str :: "amf0_type \<Rightarrow> string" where
  "amf0_type_as_str A0Number = ''number''"
| "amf0_type_as_str A0Boolean = ''boolean''"
| "amf0_type_as_str A0String = ''string''"
| "amf0_type_as_str A0Object = ''object''"
| "amf0_type_as_str A0Null = ''null''"
| "amf0_type_as_str A0Undefined = ''undefined''"
| "amf0_type_as_str A0EcmaArray = ''ecma_array''"
| "amf0_type_as_str A0LongString = ''long_string''"
| "amf0_type_as_str _ = ''unknown''"

section \<open>Helpers\<close>

definition amf0_read_u8 :: "(buffer, u8) op" where
  "amf0_read_u8 = bindS (map_errS EIo (buf_read 1)) (\<lambda>b. liftS (idx b 0))"

definition amf0_read_u16 :: "(buffer, u16) op" where
  "amf0_read_u16 = bindS (map_errS EIo (buf_read 2)) (\<lambda>b. liftS
     (bindR (idx b 0) (\<lambda>b0. bindR (idx b 1) (\<lambda>b1. Inr (u16_be b0 b1)))))"

definition amf0_read_u32 :: "(buffer, u32) op" where
  "amf0_read_u32 = bindS (map_errS EIo (buf_read 4)) (\<lambda>b. liftS
     (bindR (idx b 0) (\<lambda>b0. bindR (idx b 1) (\<lambda>b1. bindR (idx b 2) (\<lambda>b2. bindR (idx b 3) (\<lambda>b3.
        Inr (u32_be b0 b1 b2 b3)))))))"

definition amf0_read_double :: "(buffer, f64) op" where
  "amf0_read_double = bindS (map_errS EIo (buf_read 8)) (\<lambda>b. liftS (u64_of_be b))"

section \<open>Encoder\<close>

definition amf0_put :: "bytes \<Rightarrow> (buffer, unit) op" where
  "amf0_put d = voidS (map_errS EInternal (buf_write d))"

definition amf0_write_number :: "f64 \<Rightarrow> (buffer, unit) op" where
  "amf0_write_number value = thenS (amf0_put [amf0_marker A0Number]) (amf0_put (be64 value))"

definition amf0_write_boolean :: "bool \<Rightarrow> (buffer, unit) op" where
  "amf0_write_boolean value =
     thenS (amf0_put [amf0_marker A0Boolean]) (amf0_put [if value then 1 else 0])"

definition amf0_write_null :: "(buffer, unit) op" where
  "amf0_write_null = amf0_put [amf0_marker A0Null]"

definition amf0_write_undefined :: "(buffer, unit) op" where
  "amf0_write_undefined = amf0_put [amf0_marker A0Undefined]"

definition amf0_write_string :: "bytes \<Rightarrow> (buffer, unit) op" where
  "amf0_write_string s =
     (if length s > 0xFFFF then failS (Err EAmf)
      else thenS (amf0_put [amf0_marker A0String])
        (thenS (amf0_put (be16 (of_nat (length s)))) (amf0_put s)))"

definition amf0_write_long_string_bytes :: "bytes \<Rightarrow> (buffer, unit) op" where
  "amf0_write_long_string_bytes data =
     (if length data > 0xFFFFFFFF then failS (Err EAmf)
      else thenS (amf0_put [amf0_marker A0LongString])
        (thenS (amf0_put (be32 (of_nat (length data)))) (amf0_put data)))"

definition amf0_write_long_string :: "bytes \<Rightarrow> (buffer, unit) op" where
  "amf0_write_long_string s = amf0_write_long_string_bytes s"

definition amf0_write_object_begin :: "(buffer, unit) op" where
  "amf0_write_object_begin = amf0_put [amf0_marker A0Object]"

definition amf0_write_object_end :: "(buffer, unit) op" where
  "amf0_write_object_end = amf0_put [0x00, 0x00, 0x09]"

definition amf0_write_object_key :: "bytes \<Rightarrow> (buffer, unit) op" where
  "amf0_write_object_key key =
     (if length key > 0xFFFF then failS (Err EAmf)
      else thenS (amf0_put (be16 (of_nat (length key)))) (amf0_put key))"

definition amf0_write_ecma_array_begin :: "u32 \<Rightarrow> (buffer, unit) op" where
  "amf0_write_ecma_array_begin count =
     thenS (amf0_put [amf0_marker A0EcmaArray]) (amf0_put (be32 count))"

section \<open>Decoder\<close>

definition amf0_type_of :: "u8 \<Rightarrow> amf0_type option" where
  "amf0_type_of t =
     (if t = 0x00 then Some A0Number else if t = 0x01 then Some A0Boolean
      else if t = 0x02 then Some A0String else if t = 0x03 then Some A0Object
      else if t = 0x04 then Some A0Movieclip else if t = 0x05 then Some A0Null
      else if t = 0x06 then Some A0Undefined else if t = 0x07 then Some A0Reference
      else if t = 0x08 then Some A0EcmaArray else if t = 0x09 then Some A0ObjectEnd
      else if t = 0x0A then Some A0StrictArray else if t = 0x0B then Some A0Date
      else if t = 0x0C then Some A0LongString else if t = 0x0D then Some A0Unsupported
      else if t = 0x0E then Some A0Recordset else if t = 0x0F then Some A0XmlDoc
      else if t = 0x10 then Some A0TypedObject else if t = 0x11 then Some A0Avmplus
      else None)"

definition amf0_read_type :: "(buffer, amf0_type) op" where
  "amf0_read_type = bindS amf0_read_u8 (\<lambda>t.
     case amf0_type_of t of Some ty \<Rightarrow> retS ty | None \<Rightarrow> failS (Err EAmf))"

definition amf0_read_number :: "(buffer, f64) op" where
  "amf0_read_number = amf0_read_double"

definition amf0_read_boolean :: "(buffer, bool) op" where
  "amf0_read_boolean = bindS amf0_read_u8 (\<lambda>b. retS (b \<noteq> 0))"

text \<open>\<open>buf.read(&mut out[..n])?; out[n] = 0; Ok(n)\<close> with the caller's array.\<close>

definition amf0_read_into :: "error_code \<Rightarrow> bytes \<Rightarrow> nat \<Rightarrow> (buffer, nat \<times> bytes) op" where
  "amf0_read_into e out n =
     bindS (liftS (subslice out 0 n)) (\<lambda>_.
     bindS (map_errS e (buf_read n)) (\<lambda>data.
     bindS (liftS (bindR (copy_at out 0 data) (\<lambda>out. set_idx out n 0))) (\<lambda>out.
       retS (n, out))))"

definition amf0_read_string :: "bytes \<Rightarrow> (buffer, nat \<times> bytes) op" where
  "amf0_read_string out = bindS amf0_read_u8 (\<lambda>ty.
     if ty \<noteq> amf0_marker A0String then failS (Err EAmf)
     else bindS amf0_read_u16 (\<lambda>str_len.
       if unat str_len \<ge> length out then failS (Err EAmf)
       else amf0_read_into EAmf out (unat str_len)))"

definition amf0_read_string_alloc :: "(buffer, bytes) op" where
  "amf0_read_string_alloc = bindS amf0_read_u8 (\<lambda>ty.
     if ty \<noteq> amf0_marker A0String then failS (Err EAmf)
     else bindS amf0_read_u16 (\<lambda>len.
       bindS (map_errS EAmf (buf_read (unat len))) (\<lambda>bytes.
         if utf8_valid bytes then retS bytes else failS (Err EAmf))))"

definition amf0_read_long_string :: "bytes \<Rightarrow> (buffer, nat \<times> bytes) op" where
  "amf0_read_long_string out = bindS amf0_read_u8 (\<lambda>ty.
     if ty \<noteq> amf0_marker A0LongString then failS (Err EAmf)
     else bindS amf0_read_u32 (\<lambda>str_len.
       if out = [] \<or> unat str_len \<ge> length out then failS (Err EAmf)
       else amf0_read_into EAmf out (unat str_len)))"

definition amf0_read_object_begin :: "(buffer, unit) op" where
  "amf0_read_object_begin = bindS amf0_read_u8 (\<lambda>ty.
     if ty \<noteq> amf0_marker A0Object then failS (Err EAmf) else retS ())"

definition amf0_read_object_key :: "bytes \<Rightarrow> (buffer, nat \<times> bytes) op" where
  "amf0_read_object_key out = bindS amf0_read_u16 (\<lambda>klen.
     if unat klen \<ge> length out then failS (Err EAmf)
     else amf0_read_into EAmf out (unat klen))"

definition amf0_is_object_end :: "(buffer, bool) op" where
  "amf0_is_object_end = (\<lambda>b. (bindR (buf_peek b) (\<lambda>peek.
     if length peek < 3 then Inr False
     else bindR (idx peek 0) (\<lambda>p0. bindR (idx peek 1) (\<lambda>p1. bindR (idx peek 2) (\<lambda>p2.
       Inr (p0 = 0x00 \<and> p1 = 0x00 \<and> p2 = 0x09))))), b))"

section \<open>Skipping a value\<close>

definition MAX_SKIP_DEPTH :: nat where
  "MAX_SKIP_DEPTH = 32"

definition MAX_OBJECT_KEYS :: nat where
  "MAX_OBJECT_KEYS = 256"

text \<open>\<open>if buf.available() < len { return Err(Io) } buf.drain(len)\<close>\<close>

definition amf0_skip_bytes :: "nat \<Rightarrow> (buffer, unit) op" where
  "amf0_skip_bytes len = bindS (getS buf_available) (\<lambda>a.
     if a < len then failS (Err EIo) else modS (buf_drain len))"

text \<open>
  The \<open>for\<close> loop over the elements of a strict array, and the \<open>loop\<close> over the members of an object
  with the number of keys it may still read. Both take the routine that skips a child value.
\<close>

primrec amf0_skip_items :: "(amf0_type \<Rightarrow> (buffer, unit) op) \<Rightarrow> nat \<Rightarrow> (buffer, unit) op" where
  "amf0_skip_items skip_child 0 = retS ()"
| "amf0_skip_items skip_child (Suc n) =
     bindS amf0_read_type (\<lambda>child_ty. thenS (skip_child child_ty) (amf0_skip_items skip_child n))"

primrec amf0_skip_members :: "(amf0_type \<Rightarrow> (buffer, unit) op) \<Rightarrow> nat \<Rightarrow> (buffer, unit) op" where
  "amf0_skip_members skip_child 0 = bindS amf0_is_object_end (\<lambda>fin.
     if fin then voidS (map_errS EIo (buf_read 3)) else failS (Err EAmf))"
| "amf0_skip_members skip_child (Suc keys_left) = bindS amf0_is_object_end (\<lambda>fin.
     if fin then voidS (map_errS EIo (buf_read 3))
     else bindS amf0_read_u16 (\<lambda>klen.
       thenS (amf0_skip_bytes (unat klen))
         (bindS amf0_read_type (\<lambda>child_ty.
           thenS (skip_child child_ty) (amf0_skip_members skip_child keys_left)))))"

function amf0_skip_value_depth :: "nat \<Rightarrow> amf0_type \<Rightarrow> (buffer, unit) op" where
  "amf0_skip_value_depth depth ty =
     (case ty of
        A0Number \<Rightarrow> voidS amf0_read_double
      | A0Boolean \<Rightarrow> voidS amf0_read_u8
      | A0String \<Rightarrow> bindS amf0_read_u16 (\<lambda>len. amf0_skip_bytes (unat len))
      | A0LongString \<Rightarrow> bindS amf0_read_u32 (\<lambda>len. amf0_skip_bytes (unat len))
      | A0StrictArray \<Rightarrow>
          if depth \<ge> MAX_SKIP_DEPTH then failS (Err EAmf)
          else bindS amf0_read_u32 (\<lambda>count.
            if unat count > MAX_OBJECT_KEYS then failS (Err EAmf)
            else amf0_skip_items (\<lambda>child_ty. amf0_skip_value_depth (depth + 1) child_ty) (unat count))
      | A0Object \<Rightarrow>
          if depth \<ge> MAX_SKIP_DEPTH then failS (Err EAmf)
          else amf0_skip_members (\<lambda>child_ty. amf0_skip_value_depth (depth + 1) child_ty) MAX_OBJECT_KEYS
      | A0EcmaArray \<Rightarrow>
          if depth \<ge> MAX_SKIP_DEPTH then failS (Err EAmf)
          else thenS amf0_read_u32
            (amf0_skip_members (\<lambda>child_ty. amf0_skip_value_depth (depth + 1) child_ty) MAX_OBJECT_KEYS)
      | A0Date \<Rightarrow> amf0_skip_bytes 10
      | A0Reference \<Rightarrow> amf0_skip_bytes 2
      | A0Null \<Rightarrow> retS ()
      | A0Undefined \<Rightarrow> retS ()
      | A0Movieclip \<Rightarrow> retS ()
      | A0XmlDoc \<Rightarrow> bindS amf0_read_u32 (\<lambda>len. amf0_skip_bytes (unat len))
      | A0TypedObject \<Rightarrow>
          if depth \<ge> MAX_SKIP_DEPTH then failS (Err EAmf)
          else bindS amf0_read_u16 (\<lambda>class_len.
            thenS (amf0_skip_bytes (unat class_len))
              (amf0_skip_members (\<lambda>child_ty. amf0_skip_value_depth (depth + 1) child_ty) MAX_OBJECT_KEYS))
      | _ \<Rightarrow> failS (Err EUnsupported))"
  by pat_completeness auto
termination
  by (relation "measure (\<lambda>(depth, _). MAX_SKIP_DEPTH - depth)") auto

declare amf0_skip_value_depth.simps [simp del]

definition amf0_skip_value_after_type :: "amf0_type \<Rightarrow> (buffer, unit) op" where
  "amf0_skip_value_after_type ty = amf0_skip_value_depth 0 ty"

definition amf0_skip_value :: "(buffer, unit) op" where
  "amf0_skip_value = bindS amf0_read_type (amf0_skip_value_depth 0)"

section \<open>Reading back what is written\<close>

lemma emits_amf0_put: "bq.emits (amf0_put d) () d"
  unfolding amf0_put_def by (rule bq.emits_put)

lemmas emits_put2 = bq.emits_then [OF emits_amf0_put emits_amf0_put]
lemmas emits_put3 = bq.emits_then [OF emits_amf0_put emits_put2]

definition len16_bytes :: "bytes \<Rightarrow> bytes" where
  "len16_bytes s = be16 (of_nat (length s)) @ s"

definition len32_bytes :: "bytes \<Rightarrow> bytes" where
  "len32_bytes s = be32 (of_nat (length s)) @ s"

lemma emits_amf0_scalars:
  "bq.emits (amf0_write_number v) () (0 # be64 v)"
  "bq.emits (amf0_write_boolean c) () [1, if c then 1 else 0]"
  "bq.emits amf0_write_null () [5]"
  "bq.emits amf0_write_undefined () [6]"
  "bq.emits amf0_write_object_begin () [3]"
  "bq.emits amf0_write_object_end () [0, 0, 9]"
  "bq.emits (amf0_write_ecma_array_begin n) () (8 # be32 n)"
  using emits_put2 [of "[0]" "be64 v"] emits_put2 [of "[1]" "[if c then 1 else 0]"] emits_amf0_put
    emits_put2 [of "[8]" "be32 n"]
  by (simp_all add: amf0_write_number_def amf0_write_boolean_def amf0_write_null_def
      amf0_write_undefined_def amf0_write_object_begin_def amf0_write_object_end_def
      amf0_write_ecma_array_begin_def)

lemma emits_amf0_strings:
  "length s \<le> 0xFFFF \<Longrightarrow> bq.emits (amf0_write_string s) () (2 # len16_bytes s)"
  "length s \<le> 0xFFFFFFFF \<Longrightarrow> bq.emits (amf0_write_long_string_bytes s) () (12 # len32_bytes s)"
  "length s \<le> 0xFFFF \<Longrightarrow> bq.emits (amf0_write_object_key s) () (len16_bytes s)"
  using emits_put3 [of "[2]" "be16 (of_nat (length s))" s] emits_put3 [of "[12]" "be32 (of_nat (length s))" s]
    emits_put2 [of "be16 (of_nat (length s))" s]
  by (simp_all add: amf0_write_string_def amf0_write_long_string_bytes_def amf0_write_object_key_def
      len16_bytes_def len32_bytes_def)

lemma parses_read_lift:
  assumes "n = length bs" "g bs = Inr x"
  shows "bq.parses (bindS (map_errS e (buf_read n)) (\<lambda>b. liftS (g b))) bs x"
  using assms(1) by (rule bq.parses_pull_last) (rule bq.parses_lift [of "g bs", OF assms(2)])

lemma parses_amf0_fixed:
  "bq.parses amf0_read_u8 [b] b"
  "bq.parses amf0_read_u16 (be16 w) w"
  "bq.parses amf0_read_u32 (be32 d) d"
  "bq.parses amf0_read_double (be64 v) v"
proof -
  show "bq.parses amf0_read_u8 [b] b"
    unfolding amf0_read_u8_def by (rule parses_read_lift) simp_all
  show "bq.parses amf0_read_u16 (be16 w) w"
    unfolding amf0_read_u16_def by (rule parses_read_lift) (simp_all add: be16_def be_simps)
  show "bq.parses amf0_read_u32 (be32 d) d"
    unfolding amf0_read_u32_def by (rule parses_read_lift) (simp_all add: be32_def be_simps)
  show "bq.parses amf0_read_double (be64 v) v"
    unfolding amf0_read_double_def
    by (rule parses_read_lift) (use u64_of_be_be64 [of v "[]"] in simp_all)
qed

lemma amf0_type_of_marker [simp]: "amf0_type_of (amf0_marker ty) = Some ty"
  by (cases ty) (simp_all add: amf0_type_of_def)

lemma parses_marker: "bq.parses (f ty) bs y \<Longrightarrow> bq.parses (bindS amf0_read_type f) (amf0_marker ty # bs) y"
proof (rule bq.parses_bind_Cons)
  show "bq.parses amf0_read_type [amf0_marker ty] ty"
    unfolding amf0_read_type_def
    by (rule bq.parses_bind_Cons [OF parses_amf0_fixed(1)]) (simp add: bq.parses_ret)
qed

lemma length_of_nat16: "length s \<le> 0xFFFF \<Longrightarrow> unat (of_nat (length s) :: u16) = length s"
  by (simp add: unat_of_nat take_bit_nat_eq_self)

lemma length_of_nat32: "length s \<le> 0xFFFFFFFF \<Longrightarrow> unat (of_nat (length s) :: u32) = length s"
  by (simp add: unat_of_nat take_bit_nat_eq_self)

lemma parses_len16:
  assumes "length s \<le> 0xFFFF" "bq.parses (f (of_nat (length s))) s x"
  shows "bq.parses (bindS amf0_read_u16 f) (len16_bytes s) x"
  unfolding len16_bytes_def by (rule bq.parses_bind [OF parses_amf0_fixed(2)]) (rule assms(2))

lemma parses_len32:
  assumes "bq.parses (f (of_nat (length s))) s x"
  shows "bq.parses (bindS amf0_read_u32 f) (len32_bytes s) x"
  unfolding len32_bytes_def by (rule bq.parses_bind [OF parses_amf0_fixed(3)]) (rule assms)

text \<open>The caller's array after a string has been read into it.\<close>

definition filled :: "bytes \<Rightarrow> bytes \<Rightarrow> bytes" where
  "filled out s = s @ 0 # drop (Suc (length s)) out"

lemma parses_read_into:
  assumes "length s < length out"
  shows "bq.parses (amf0_read_into e out (length s)) s (length s, filled out s)"
proof -
  have "bindR (copy_at out 0 s) (\<lambda>out. set_idx out (length s) 0) = Inr (filled out s)"
    using assms by (simp add: filled_def list_update_append Cons_nth_drop_Suc [symmetric])
  then have "bq.parses (bindS (liftS (bindR (copy_at out 0 s) (\<lambda>out. set_idx out (length s) 0))) (\<lambda>out.
      retS (length s, out))) [] (length s, filled out s)"
    by (rule bq.parses_bind_lift) (rule bq.parses_ret)
  then show ?thesis
    unfolding amf0_read_into_def
    by (intro bq.parses_bind_lift [OF subslice_ok] bq.parses_pull_last [OF refl])
      (use assms in simp_all)
qed

text \<open>A value written into an empty buffer is what the reader returns, and nothing is left over.\<close>

definition reads_back :: "(buffer, unit) op \<Rightarrow> (buffer, 'a) op \<Rightarrow> 'a \<Rightarrow> buffer \<Rightarrow> bool" where
  "reads_back w r x b \<longleftrightarrow> (\<exists>b1 b2. w b = (Inr (), b1) \<and> r b1 = (Inr x, b2) \<and> contents b2 = [])"

lemma reads_backI:
  assumes "bq.emits w () bs" "bq.parses r bs x" "buf_inv b" "contents b = []" "buf_room b (length bs)"
  shows "reads_back w r x b"
  unfolding reads_back_def by (rule bq.emits_parses [OF assms])

text \<open>A marker and the value it announces.\<close>

definition amf0_typed :: "(buffer, 'a) op \<Rightarrow> (buffer, amf0_type \<times> 'a) op" where
  "amf0_typed r = bindS amf0_read_type (\<lambda>ty. bindS r (\<lambda>x. retS (ty, x)))"

lemma parses_amf0_typed: "bq.parses r bs x \<Longrightarrow> bq.parses (amf0_typed r) (amf0_marker ty # bs) (ty, x)"
  unfolding amf0_typed_def by (rule parses_marker, rule bq.parses_bind_last, assumption, rule bq.parses_ret)

lemma parses_amf0_boolean: "bq.parses amf0_read_boolean [if c then 1 else 0] c"
proof -
  have "((if c then 1 else 0 :: u8) \<noteq> 0) = c" by simp
  with bq.parses_ret [of "(if c then 1 else 0 :: u8) \<noteq> 0"]
  have "bq.parses (retS ((if c then 1 else 0 :: u8) \<noteq> 0)) [] c" by (simp only:)
  then show ?thesis
    unfolding amf0_read_boolean_def by (rule bq.parses_bind_last [OF parses_amf0_fixed(1)])
qed

lemma parses_typed:
  "bq.parses (amf0_typed amf0_read_number) (0 # be64 v) (A0Number, v)"
  "bq.parses (amf0_typed amf0_read_boolean) [1, if c then 1 else 0] (A0Boolean, c)"
  using parses_amf0_typed [OF parses_amf0_fixed(4) [folded amf0_read_number_def], of A0Number v]
    parses_amf0_typed [OF parses_amf0_boolean, of A0Boolean c]
  by simp_all

lemma parses_amf0_strings:
  "length s \<le> 0xFFFF \<Longrightarrow> length s < length out \<Longrightarrow>
     bq.parses (amf0_read_string out) (2 # len16_bytes s) (length s, filled out s)"
  "length s \<le> 0xFFFF \<Longrightarrow> utf8_valid s \<Longrightarrow> bq.parses amf0_read_string_alloc (2 # len16_bytes s) s"
  "length s \<le> 0xFFFFFFFF \<Longrightarrow> length s < length out \<Longrightarrow>
     bq.parses (amf0_read_long_string out) (12 # len32_bytes s) (length s, filled out s)"
  "length s \<le> 0xFFFF \<Longrightarrow> length s < length out \<Longrightarrow>
     bq.parses (amf0_read_object_key out) (len16_bytes s) (length s, filled out s)"
proof -
  assume "length s \<le> 0xFFFF" "utf8_valid s"
  then have "bq.parses (bindS (map_errS EAmf (buf_read (length s))) (\<lambda>bytes.
      if utf8_valid bytes then retS bytes else failS (Err EAmf))) s s"
    by (intro bq.parses_pull_last [OF refl]) (simp add: bq.parses_ret)
  with \<open>length s \<le> 0xFFFF\<close> show "bq.parses amf0_read_string_alloc (2 # len16_bytes s) s"
    unfolding amf0_read_string_alloc_def
    by (intro bq.parses_bind_Cons [OF parses_amf0_fixed(1)]) (simp add: parses_len16 length_of_nat16)
qed (unfold amf0_read_string_def amf0_read_long_string_def amf0_read_object_key_def,
  auto intro!: bq.parses_bind_Cons [OF parses_amf0_fixed(1)] parses_len16 parses_len32
    simp: length_of_nat16 length_of_nat32 parses_read_into)

section \<open>Whole values\<close>

text \<open>
  The values the encoder can write, and how its clients write them: an object or ECMA array is its
  begin marker, key and value of each member, and the end marker.
\<close>

datatype amf0_value =
    VNumber f64 | VBoolean bool | VNull | VUndefined | VString bytes | VLongString bytes
  | VObject "(bytes \<times> amf0_value) list" | VEcmaArray u32 "(bytes \<times> amf0_value) list"

fun amf0_write_value :: "amf0_value \<Rightarrow> (buffer, unit) op"
  and amf0_write_members :: "(bytes \<times> amf0_value) list \<Rightarrow> (buffer, unit) op" where
  "amf0_write_value (VNumber v) = amf0_write_number v"
| "amf0_write_value (VBoolean c) = amf0_write_boolean c"
| "amf0_write_value VNull = amf0_write_null"
| "amf0_write_value VUndefined = amf0_write_undefined"
| "amf0_write_value (VString s) = amf0_write_string s"
| "amf0_write_value (VLongString s) = amf0_write_long_string s"
| "amf0_write_value (VObject ms) = thenS amf0_write_object_begin (amf0_write_members ms)"
| "amf0_write_value (VEcmaArray n ms) = thenS (amf0_write_ecma_array_begin n) (amf0_write_members ms)"
| "amf0_write_members [] = amf0_write_object_end"
| "amf0_write_members ((k, v) # ms) =
     thenS (amf0_write_object_key k) (thenS (amf0_write_value v) (amf0_write_members ms))"

fun amf0_tag :: "amf0_value \<Rightarrow> amf0_type" where
  "amf0_tag (VNumber _) = A0Number"
| "amf0_tag (VBoolean _) = A0Boolean"
| "amf0_tag VNull = A0Null"
| "amf0_tag VUndefined = A0Undefined"
| "amf0_tag (VString _) = A0String"
| "amf0_tag (VLongString _) = A0LongString"
| "amf0_tag (VObject _) = A0Object"
| "amf0_tag (VEcmaArray _ _) = A0EcmaArray"

text \<open>The bytes after the type marker.\<close>

fun amf0_body :: "amf0_value \<Rightarrow> bytes" and amf0_members_bytes :: "(bytes \<times> amf0_value) list \<Rightarrow> bytes" where
  "amf0_body (VNumber v) = be64 v"
| "amf0_body (VBoolean c) = [if c then 1 else 0]"
| "amf0_body VNull = []"
| "amf0_body VUndefined = []"
| "amf0_body (VString s) = len16_bytes s"
| "amf0_body (VLongString s) = len32_bytes s"
| "amf0_body (VObject ms) = amf0_members_bytes ms"
| "amf0_body (VEcmaArray n ms) = be32 n @ amf0_members_bytes ms"
| "amf0_members_bytes [] = [0, 0, 9]"
| "amf0_members_bytes ((k, v) # ms) =
     len16_bytes k @ amf0_marker (amf0_tag v) # amf0_body v @ amf0_members_bytes ms"

definition amf0_bytes :: "amf0_value \<Rightarrow> bytes" where
  "amf0_bytes v = amf0_marker (amf0_tag v) # amf0_body v"

text \<open>Encodable: every string fits its length field. Skippable: nesting and key counts within the limits.\<close>

fun amf0_encodable :: "amf0_value \<Rightarrow> bool" and amf0_members_encodable :: "(bytes \<times> amf0_value) list \<Rightarrow> bool" where
  "amf0_encodable (VString s) = (length s \<le> 0xFFFF)"
| "amf0_encodable (VLongString s) = (length s \<le> 0xFFFFFFFF)"
| "amf0_encodable (VObject ms) = amf0_members_encodable ms"
| "amf0_encodable (VEcmaArray _ ms) = amf0_members_encodable ms"
| "amf0_encodable _ = True"
| "amf0_members_encodable [] = True"
| "amf0_members_encodable ((k, v) # ms) =
     (length k \<le> 0xFFFF \<and> amf0_encodable v \<and> amf0_members_encodable ms)"

fun amf0_depth :: "amf0_value \<Rightarrow> nat" and amf0_members_depth :: "(bytes \<times> amf0_value) list \<Rightarrow> nat" where
  "amf0_depth (VObject ms) = Suc (amf0_members_depth ms)"
| "amf0_depth (VEcmaArray _ ms) = Suc (amf0_members_depth ms)"
| "amf0_depth _ = 0"
| "amf0_members_depth [] = 0"
| "amf0_members_depth ((_, v) # ms) = max (amf0_depth v) (amf0_members_depth ms)"

fun amf0_few_keys :: "amf0_value \<Rightarrow> bool" and amf0_members_few_keys :: "(bytes \<times> amf0_value) list \<Rightarrow> bool" where
  "amf0_few_keys (VObject ms) = (length ms \<le> MAX_OBJECT_KEYS \<and> amf0_members_few_keys ms)"
| "amf0_few_keys (VEcmaArray _ ms) = (length ms \<le> MAX_OBJECT_KEYS \<and> amf0_members_few_keys ms)"
| "amf0_few_keys _ = True"
| "amf0_members_few_keys [] = True"
| "amf0_members_few_keys ((_, v) # ms) = (amf0_few_keys v \<and> amf0_members_few_keys ms)"

lemma emits_write_value:
  "amf0_encodable v \<Longrightarrow> bq.emits (amf0_write_value v) () (amf0_bytes v)"
  "amf0_members_encodable ms \<Longrightarrow> bq.emits (amf0_write_members ms) () (amf0_members_bytes ms)"
proof (induction v and ms rule: amf0_write_value_amf0_write_members.induct)
  case (7 ms)
  with bq.emits_then [OF emits_amf0_scalars(5), of "amf0_write_members ms"] show ?case
    by (simp add: amf0_bytes_def)
next
  case (8 n ms)
  with bq.emits_then [OF emits_amf0_scalars(7), of "amf0_write_members ms"] show ?case
    by (simp add: amf0_bytes_def)
next
  case (10 k v ms)
  then show ?case
    using bq.emits_then [OF emits_amf0_strings(3) bq.emits_then, of k "amf0_write_value v" _ "amf0_bytes v"
        "amf0_write_members ms"]
    by (simp add: amf0_bytes_def)
qed (simp_all add: amf0_bytes_def emits_amf0_scalars emits_amf0_strings amf0_write_long_string_def)

text \<open>A member never looks like the end of its object: no value has the end marker as its type.\<close>

lemma amf0_marker_not_end [simp]: "amf0_marker (amf0_tag v) \<noteq> 9"
  by (cases v) simp_all

lemma be16_zero: "be16 w = [0, 0] \<longleftrightarrow> w = 0"
proof
  assume "be16 w = [0, 0]"
  then have "ucast (drop_bit 8 w) = (0 :: u8)" "ucast w = (0 :: u8)" by (simp_all add: be16_def)
  moreover have "w = u16_be (ucast (drop_bit 8 w)) (ucast w)" by (simp only: u16_be_be16)
  ultimately have "w = u16_be 0 0" by (simp only:)
  then show "w = 0" by (simp add: u16_be_def)
qed (simp add: be16_def)

lemma is_object_end_apply:
  "buf_inv b \<Longrightarrow> amf0_is_object_end b = (Inr (take 3 (contents b) = [0, 0, 9]), b)"
proof -
  assume "buf_inv b"
  then have "buf_peek b = Inr (contents b)" by (rule bq.peek_contents)
  then show ?thesis
  proof (cases "length (contents b) < 3")
    case False
    then obtain x y z r where "contents b = x # y # z # r"
      by (auto simp: not_less numeral_3_eq_3 Suc_le_length_iff)
    with \<open>buf_peek b = _\<close> show ?thesis by (simp add: amf0_is_object_end_def)
  qed (auto simp: amf0_is_object_end_def take_Cons' dest: arg_cong [of _ _ length])
qed

lemma member_not_end:
  assumes "length k \<le> 0xFFFF"
  shows "take 3 (len16_bytes k @ amf0_marker (amf0_tag v) # rest) \<noteq> [0, 0, 9]"
proof (cases k)
  case Nil
  then show ?thesis by (simp add: len16_bytes_def be16_def)
next
  case (Cons x xs)
  then have "unat (of_nat (length k) :: u16) \<noteq> 0" using length_of_nat16 [OF assms] by simp
  then have "be16 (of_nat (length k)) \<noteq> [0, 0]" by (metis be16_zero unat_0)
  then show ?thesis by (auto simp: len16_bytes_def be16_def)
qed

lemma parses_skip_bytes: "n = length bs \<Longrightarrow> bq.parses (amf0_skip_bytes n) bs ()"
  unfolding amf0_skip_bytes_def by (rule bq.parses_drain)

lemma parses_members_end: "bq.parses (amf0_skip_members f k) [0, 0, 9] ()"
proof -
  have "bq.parses (voidS (map_errS EIo (buf_read 3))) [0, 0, 9] ()"
    by (rule bq.parses_void [OF bq.parses_map_err [OF bq.parses_read]]) simp
  then show ?thesis
    by (cases k) (auto intro!: bq.parses_look [where v = True] simp: is_object_end_apply)
qed

lemma parses_members_step:
  assumes k: "length k \<le> 0xFFFF" and v: "bq.parses (f (amf0_tag v)) (amf0_body v) ()"
    and rest: "bq.parses (amf0_skip_members f n) bs ()"
  shows "bq.parses (amf0_skip_members f (Suc n))
    (len16_bytes k @ amf0_marker (amf0_tag v) # amf0_body v @ bs) ()"
proof -
  let ?m = "amf0_marker (amf0_tag v) # amf0_body v @ bs"
  have m: "bq.parses (bindS amf0_read_type (\<lambda>ty. thenS (f ty) (amf0_skip_members f n))) ?m ()"
    by (rule parses_marker) (rule bq.parses_then [OF v rest])
  have "bq.parses (bindS amf0_read_u16 (\<lambda>klen. thenS (amf0_skip_bytes (unat klen))
      (bindS amf0_read_type (\<lambda>ty. thenS (f ty) (amf0_skip_members f n)))))
      (be16 (of_nat (length k)) @ k @ ?m) ()"
    by (rule bq.parses_bind [OF parses_amf0_fixed(2)], rule bq.parses_then [OF parses_skip_bytes m])
      (rule length_of_nat16 [OF k])
  then have "bq.parses (bindS amf0_read_u16 (\<lambda>klen. thenS (amf0_skip_bytes (unat klen))
      (bindS amf0_read_type (\<lambda>ty. thenS (f ty) (amf0_skip_members f n))))) (len16_bytes k @ ?m) ()"
    by (simp add: len16_bytes_def)
  then show ?thesis
    using member_not_end [OF k, of v]
    by (auto intro!: bq.parses_look [where v = False] simp: is_object_end_apply)
qed

lemma parses_skip_value_depth:
  "amf0_encodable v \<Longrightarrow> amf0_few_keys v \<Longrightarrow> depth + amf0_depth v \<le> MAX_SKIP_DEPTH \<Longrightarrow>
     bq.parses (amf0_skip_value_depth depth (amf0_tag v)) (amf0_body v) ()"
  "amf0_members_encodable ms \<Longrightarrow> amf0_members_few_keys ms \<Longrightarrow> length ms \<le> n \<Longrightarrow>
     depth + amf0_members_depth ms \<le> MAX_SKIP_DEPTH \<Longrightarrow>
     bq.parses (amf0_skip_members (amf0_skip_value_depth depth) n) (amf0_members_bytes ms) ()"
proof (induction v and ms arbitrary: depth and depth n rule: amf0_write_value_amf0_write_members.induct)
  case (1 v)
  then show ?case
    by (subst amf0_skip_value_depth.simps) (simp add: bq.parses_void [OF parses_amf0_fixed(4)])
next
  case (2 c)
  then show ?case
    by (subst amf0_skip_value_depth.simps) (simp add: bq.parses_void [OF parses_amf0_fixed(1)])
next
  case (5 s)
  then show ?case
    by (subst amf0_skip_value_depth.simps)
      (auto intro!: parses_len16 parses_skip_bytes simp: length_of_nat16)
next
  case (6 s)
  then show ?case
    by (subst amf0_skip_value_depth.simps)
      (auto intro!: parses_len32 parses_skip_bytes simp: length_of_nat32)
next
  case (7 ms)
  then have "bq.parses (amf0_skip_members (amf0_skip_value_depth (Suc depth)) MAX_OBJECT_KEYS)
      (amf0_members_bytes ms) ()" by simp
  with 7 show ?case by (subst amf0_skip_value_depth.simps) simp
next
  case (8 n ms)
  then have "bq.parses (amf0_skip_members (amf0_skip_value_depth (Suc depth)) MAX_OBJECT_KEYS)
      (amf0_members_bytes ms) ()" by simp
  from bq.parses_then [OF parses_amf0_fixed(3) this] 8 show ?case
    by (subst amf0_skip_value_depth.simps) simp
next
  case 9
  then show ?case by (simp add: parses_members_end)
next
  case (10 k v ms)
  then obtain m where m: "n = Suc m" "length ms \<le> m" by (cases n) auto
  have "bq.parses (amf0_skip_value_depth depth (amf0_tag v)) (amf0_body v) ()"
    "bq.parses (amf0_skip_members (amf0_skip_value_depth depth) m) (amf0_members_bytes ms) ()"
    using 10 m(2) by simp_all
  with parses_members_step [of k "amf0_skip_value_depth depth" v m "amf0_members_bytes ms"] 10(3)
  show ?case by (simp add: m(1))
qed (subst amf0_skip_value_depth.simps, simp add: bq.parses_ret)+

section \<open>Arbitrary input\<close>

lemma consumes_read_lift:
  assumes "\<And>b. length b = n \<Longrightarrow> g b \<noteq> panic"
  shows "bq.consumes (bindS (map_errS e (buf_read n)) (\<lambda>b. liftS (g b)))"
proof (rule bq.consumes_bind)
  show "bq.consumes (map_errS e (buf_read n))" by (rule bq.consumes_map_err [OF bq.consumes_read])
  fix b s assume "buf_inv s" "fst (map_errS e (buf_read n) s) = Inr b"
  then have "length b = n" by (auto simp: map_errS_def split: prod.splits dest!: bq.read_length [of s n b])
  then show "bq.consumes (liftS (g b))" by (intro bq.consumes_lift assms)
qed

lemma consumes_amf0_fixed [intro]:
  "bq.consumes amf0_read_u8" "bq.consumes amf0_read_u16" "bq.consumes amf0_read_u32"
  "bq.consumes amf0_read_double"
  unfolding amf0_read_u8_def amf0_read_u16_def amf0_read_u32_def amf0_read_double_def
  by (auto intro!: consumes_read_lift simp: idx_def u64_of_be_def simp del: length_greater_0_conv)

lemma consumes_amf0_read_type [intro]: "bq.consumes amf0_read_type"
  unfolding amf0_read_type_def
  by (rule bq.consumes_bind) (auto split: option.splits)

lemma consumes_amf0_skip_bytes [intro]: "bq.consumes (amf0_skip_bytes n)"
  unfolding amf0_skip_bytes_def by (rule bq.consumes_bind) auto

lemma consumes_is_object_end [intro]: "bq.consumes amf0_is_object_end"
  by (simp add: bq.consumes_def is_object_end_apply)

lemma consumes_amf0_read_into [intro]:
  assumes "n < length out"
  shows "bq.consumes (amf0_read_into e out n)"
  unfolding amf0_read_into_def
proof (rule bq.consumes_bind)
  show "bq.consumes (liftS (subslice out 0 n))" using assms by auto
  show "bq.consumes (bindS (map_errS e (buf_read n)) (\<lambda>data.
      bindS (liftS (bindR (copy_at out 0 data) (\<lambda>out. set_idx out n 0))) (\<lambda>out. retS (n, out))))"
  proof (rule bq.consumes_bind)
    fix b s assume "buf_inv s" "fst (map_errS e (buf_read n) s) = Inr b"
    then have "length b = n" by (auto simp: map_errS_def split: prod.splits dest!: bq.read_length [of s n b])
    then have "bindR (copy_at out 0 b) (\<lambda>out. set_idx out n 0) \<noteq> panic"
      using assms by (simp add: set_idx_def)
    then show "bq.consumes (bindS (liftS (bindR (copy_at out 0 b) (\<lambda>out. set_idx out n 0))) (\<lambda>out. retS (n, out)))"
      by (intro bq.consumes_bind bq.consumes_lift bq.consumes_ret)
  qed auto
qed

lemmas consumes_intros = bq.consumes_bind bq.consumes_then bq.consumes_void bq.consumes_map_err
  bq.consumes_if bq.consumes_fail bq.consumes_ret bq.consumes_read bq.consumes_get
  consumes_amf0_fixed consumes_amf0_read_type consumes_amf0_skip_bytes consumes_is_object_end
  consumes_amf0_read_into

lemma consumes_amf0_readers [intro]:
  "bq.consumes amf0_read_number" "bq.consumes amf0_read_boolean" "bq.consumes (amf0_read_string out)"
  "bq.consumes amf0_read_string_alloc" "bq.consumes (amf0_read_long_string out)"
  "bq.consumes amf0_read_object_begin" "bq.consumes (amf0_read_object_key out)"
  unfolding amf0_read_number_def amf0_read_boolean_def amf0_read_string_def amf0_read_string_alloc_def
    amf0_read_long_string_def amf0_read_object_begin_def amf0_read_object_key_def
  by (intro consumes_intros; simp)+

lemma consumes_skip_items:
  "(\<And>ty. bq.consumes (f ty)) \<Longrightarrow> bq.consumes (amf0_skip_items f n)"
  by (induction n) (auto intro!: bq.consumes_bind)

lemma consumes_skip_members:
  "(\<And>ty. bq.consumes (f ty)) \<Longrightarrow> bq.consumes (amf0_skip_members f n)"
  by (induction n) (auto intro!: bq.consumes_bind)

lemma consumes_skip_value_depth [intro]: "bq.consumes (amf0_skip_value_depth depth ty)"
proof (induction "MAX_SKIP_DEPTH - depth" arbitrary: depth ty rule: less_induct)
  case less
  show ?case
  proof (cases "depth \<ge> MAX_SKIP_DEPTH")
    case True
    then show ?thesis
      by (subst amf0_skip_value_depth.simps) (cases ty, auto intro!: bq.consumes_bind)
  next
    case False
    then have "bq.consumes (amf0_skip_value_depth (Suc depth) c)" for c
      by (intro less) simp
    note items = consumes_skip_items [OF this] and members = consumes_skip_members [OF this]
    show ?thesis
      by (subst amf0_skip_value_depth.simps) (cases ty, auto intro!: bq.consumes_bind items members)
  qed
qed

section \<open>Properties\<close>

text \<open>C8: \<open>skip_value\<close> consumes exactly one value: whatever value the encoder writes, with nested objects and
  ECMA arrays up to the depth and key limits, skipping it succeeds and stops at the byte after it.\<close>
theorem amf0_skip_value_exact:
  assumes "amf0_encodable v" and "amf0_few_keys v" and "amf0_depth v \<le> MAX_SKIP_DEPTH"
    and "buf_inv b" and "contents b = amf0_bytes v @ rest"
  shows "\<exists>b'. amf0_skip_value b = (Inr (), b') \<and> buf_inv b' \<and> contents b' = rest"
proof -
  have "bq.parses amf0_skip_value (amf0_bytes v) ()"
    unfolding amf0_skip_value_def amf0_bytes_def
    by (rule parses_marker) (rule parses_skip_value_depth, use assms in simp_all)
  with assms(4,5) show ?thesis by (auto elim: bq.parsesE)
qed

theorem amf0_skip_value_exact_witness:
  "\<exists>b'. amf0_skip_value (buf_from_slice (amf0_bytes (VObject [(ascii ''app'', VString (ascii ''live'')),
      (ascii ''o'', VObject [])]) @ [7])) = (Inr (), b') \<and> buf_inv b' \<and> contents b' = [7]"
  by (rule amf0_skip_value_exact) (simp_all add: MAX_OBJECT_KEYS_def MAX_SKIP_DEPTH_def)

text \<open>C9: On any bytes at all, \<open>skip_value\<close> ends without a panic and without moving outside its input: it
  only ever consumes a prefix of the buffer, on success and on every error.\<close>
theorem amf0_skip_value_safe:
  assumes "buf_inv b"
  shows "\<exists>r b' used. amf0_skip_value b = (r, b') \<and> r \<noteq> panic \<and> buf_inv b' \<and> contents b = used @ contents b'"
proof -
  have "bq.consumes amf0_skip_value"
    unfolding amf0_skip_value_def by (rule bq.consumes_bind) auto
  from bq.consumesD [OF this assms] show ?thesis by (metis prod.collapse)
qed

theorem amf0_skip_value_safe_witness:
  "\<exists>r b' used. amf0_skip_value (buf_from_slice [3, 0, 1, 65, 2, 0, 9]) = (r, b') \<and> r \<noteq> panic \<and>
    [3, 0, 1, 65, 2, 0, 9] = used @ contents b'"
  using amf0_skip_value_safe [of "buf_from_slice [3, 0, 1, 65, 2, 0, 9]"] by auto



end
