(* ===== verification/Amf3.thy ===== *)
theory Amf3
  imports Amf0
begin

text \<open>
  The AMF3 codec (\<open>src/src/amf/amf3.rs\<close>): the variable-length 29-bit integer and the few value types the
  library reads and writes. The main lemma is that a U29 is read back modulo \<open>2 ^ 29\<close> from each of its
  four encoded lengths.
\<close>

section \<open>Operations\<close>

definition AMF3_UNDEFINED :: u8 where "AMF3_UNDEFINED = 0x00"
definition AMF3_NULL :: u8 where "AMF3_NULL = 0x01"
definition AMF3_FALSE :: u8 where "AMF3_FALSE = 0x02"
definition AMF3_TRUE :: u8 where "AMF3_TRUE = 0x03"
definition AMF3_INTEGER :: u8 where "AMF3_INTEGER = 0x04"
definition AMF3_DOUBLE :: u8 where "AMF3_DOUBLE = 0x05"
definition AMF3_STRING :: u8 where "AMF3_STRING = 0x06"

definition amf3_read_u8 :: "(buffer, u8) op" where
  "amf3_read_u8 = bindS (map_errS EIo (buf_read 1)) (\<lambda>b. liftS (idx b 0))"

text \<open>The loop \<open>for i in 0..4\<close> of \<open>read_u29\<close> from iteration \<open>i\<close> on.\<close>

function amf3_read_u29_from :: "nat \<Rightarrow> u32 \<Rightarrow> (buffer, u32) op" where
  "amf3_read_u29_from i result =
     (if i < 4 then bindS amf3_read_u8 (\<lambda>b.
        if i < 3 then
          (let result = push_bit 7 result OR ucast (b AND 0x7F) in
           if b AND 0x80 = 0 then retS result else amf3_read_u29_from (i + 1) result)
        else amf3_read_u29_from (i + 1) (push_bit 8 result OR ucast b))
      else retS result)"
  by pat_completeness auto
termination
  by (relation "measure (\<lambda>(i, _). 4 - i)") auto

declare amf3_read_u29_from.simps [simp del]

definition amf3_read_u29 :: "(buffer, u32) op" where
  "amf3_read_u29 = amf3_read_u29_from 0 0"

definition amf3_u29_bytes :: "u32 \<Rightarrow> bytes" where
  "amf3_u29_bytes val =
     (let v = val AND 0x1FFFFFFF in
      if v < 0x80 then [ucast v]
      else if v < 0x4000 then [ucast (drop_bit 7 v OR 0x80), ucast (v AND 0x7F)]
      else if v < 0x200000 then
        [ucast (drop_bit 14 v OR 0x80), ucast ((drop_bit 7 v AND 0x7F) OR 0x80), ucast (v AND 0x7F)]
      else
        [ucast (drop_bit 22 v OR 0x80), ucast ((drop_bit 15 v AND 0x7F) OR 0x80),
         ucast ((drop_bit 8 v AND 0x7F) OR 0x80), ucast (v AND 0xFF)])"

definition amf3_write_u29 :: "u32 \<Rightarrow> (buffer, unit) op" where
  "amf3_write_u29 val = voidS (map_errS EInternal (buf_write (amf3_u29_bytes val)))"

definition amf3_read_double_raw :: "(buffer, f64) op" where
  "amf3_read_double_raw = bindS (map_errS EIo (buf_read 8)) (\<lambda>b. liftS (u64_of_be b))"

definition amf3_read_type :: "(buffer, u8) op" where
  "amf3_read_type = amf3_read_u8"

definition amf3_read_null :: "(buffer, unit) op" where
  "amf3_read_null = bindS amf3_read_u8 (\<lambda>t. if t \<noteq> AMF3_NULL then failS (Err EAmf) else retS ())"

definition amf3_read_integer :: "(buffer, u32) op" where
  "amf3_read_integer = amf3_read_u29"

definition amf3_read_double :: "(buffer, f64) op" where
  "amf3_read_double = amf3_read_double_raw"

definition amf3_read_boolean :: "(buffer, bool) op" where
  "amf3_read_boolean = bindS amf3_read_u8 (\<lambda>t.
     if t = AMF3_TRUE then retS True else if t = AMF3_FALSE then retS False else failS (Err EAmf))"

definition amf3_read_string :: "bytes \<Rightarrow> (buffer, nat \<times> bytes) op" where
  "amf3_read_string out = bindS amf3_read_u8 (\<lambda>t.
     if t \<noteq> AMF3_STRING then failS (Err EAmf)
     else bindS amf3_read_u29 (\<lambda>ref_val.
       let len = unat (drop_bit 1 ref_val); inline_bit = ref_val AND 1 in
       if inline_bit = 0 then failS (Err EUnsupported)
       else if out = [] \<or> len \<ge> length out then failS (Err EAmf)
       else amf0_read_into EIo out len))"

definition amf3_write_null :: "(buffer, unit) op" where
  "amf3_write_null = voidS (map_errS EInternal (buf_write [AMF3_NULL]))"

definition amf3_write_integer :: "u32 \<Rightarrow> (buffer, unit) op" where
  "amf3_write_integer val =
     thenS (voidS (map_errS EInternal (buf_write [AMF3_INTEGER]))) (amf3_write_u29 val)"

definition amf3_write_double :: "f64 \<Rightarrow> (buffer, unit) op" where
  "amf3_write_double val =
     thenS (voidS (map_errS EInternal (buf_write [AMF3_DOUBLE])))
       (voidS (map_errS EInternal (buf_write (be64 val))))"

definition amf3_write_string :: "bytes \<Rightarrow> (buffer, unit) op" where
  "amf3_write_string s =
     (if length s > 0x0FFFFFFF then failS (Err EAmf)
      else thenS (voidS (map_errS EInternal (buf_write [AMF3_STRING])))
        (thenS (amf3_write_u29 (push_bit 1 (of_nat (length s)) OR 1))
          (voidS (map_errS EInternal (buf_write s)))))"

section \<open>The 29-bit integer\<close>

lemma mask_7F: "(0x7F :: u32) = mask 7" "(0x7F :: u8) = mask 7" "(0x1FFFFFFF :: u32) = mask 29"
  "(0xFF :: u32) = mask 8"
  by (simp_all add: mask_eq_exp_minus_1)

lemma bit_128 [simp]: "bit (128 :: int) n \<longleftrightarrow> n = 7"
  using bit_exp_iff [where ?'a = int, of 7 n] by auto

lemma and_80_u8: "(b :: u8) AND 0x80 = 0 \<longleftrightarrow> \<not> bit b 7"
  using and_exp_eq_0_iff_not_bit [of b 7] by simp

lemma u29_low [simp]:
  "ucast ((ucast (v AND 0x7F) :: u8) AND 0x7F) = (v :: u32) AND 0x7F"
  "\<not> bit (ucast ((v :: u32) AND 0x7F) :: u8) 7"
  by (rule bit_word_eqI) (auto simp: mask_7F bit_simps)

lemma u29_high [simp]:
  "ucast ((ucast ((v :: u32) OR 0x80) :: u8) AND 0x7F) = v AND 0x7F"
  "bit (ucast ((v :: u32) OR 0x80) :: u8) 7"
  by (rule bit_word_eqI) (auto simp: mask_7F bit_simps)

lemma u29_join:
  fixes v :: u32
  shows "push_bit 7 (drop_bit 7 v) OR (v AND 0x7F) = v" "push_bit 8 (drop_bit 8 v) OR (v AND 0xFF) = v"
    "unat v < 2 ^ 14 \<Longrightarrow> push_bit 7 (drop_bit 7 v AND 0x7F) OR (v AND 0x7F) = v"
    "unat v < 2 ^ 7 \<Longrightarrow> v AND 0x7F = v"
proof -
  show "push_bit 7 (drop_bit 7 v AND 0x7F) OR (v AND 0x7F) = v" if "unat v < 2 ^ 14"
    by (rule bit_word_eqI) (use no_high_bit [OF that] in \<open>fastforce simp: mask_7F bit_simps\<close>)
  show "v AND 0x7F = v" if "unat v < 2 ^ 7"
    by (rule bit_word_eqI) (use no_high_bit [OF that] in \<open>fastforce simp: mask_7F bit_simps\<close>)
qed (rule bit_word_eqI, fastforce simp: mask_7F bit_simps)+

lemma u29_drop:
  fixes v :: u32
  assumes "unat v < 2 ^ (k + m)"
  shows "unat (drop_bit m v) < 2 ^ k"
  unfolding unat_drop_bit_eq using assms by (simp add: drop_bit_eq_div less_mult_imp_div_less power_add)

lemma amf3_read_u8_eq: "amf3_read_u8 = amf0_read_u8"
  by (simp only: amf3_read_u8_def amf0_read_u8_def)

lemma parses_u29_from:
  "i < 3 \<Longrightarrow> \<not> bit b 7 \<Longrightarrow> bq.parses (amf3_read_u29_from i r) [b] (push_bit 7 r OR ucast (b AND 0x7F))"
  "i < 3 \<Longrightarrow> bit b 7 \<Longrightarrow> bq.parses (amf3_read_u29_from (i + 1) (push_bit 7 r OR ucast (b AND 0x7F))) bs y \<Longrightarrow>
     bq.parses (amf3_read_u29_from i r) (b # bs) y"
  "bq.parses (amf3_read_u29_from 3 r) [b] (push_bit 8 r OR ucast b)"
proof -
  note rd = parses_amf0_fixed(1) [folded amf3_read_u8_eq]
  have fin: "bq.parses (amf3_read_u29_from 4 r) [] r" for r
    by (subst amf3_read_u29_from.simps) (simp only: less_irrefl if_False bq.parses_ret)
  show "bq.parses (amf3_read_u29_from i r) [b] (push_bit 7 r OR ucast (b AND 0x7F))" if "i < 3" "\<not> bit b 7"
  proof -
    have "i < 4" using that by simp
    with that show ?thesis
      by (subst amf3_read_u29_from.simps, simp only: if_True Let_def)
        (rule bq.parses_bind_last [OF rd], simp only: and_80_u8 if_True not_False_eq_True bq.parses_ret)
  qed
  show "bq.parses (amf3_read_u29_from i r) (b # bs) y" if "i < 3" "bit b 7"
    "bq.parses (amf3_read_u29_from (i + 1) (push_bit 7 r OR ucast (b AND 0x7F))) bs y"
  proof -
    have "i < 4" using that by simp
    with that show ?thesis
      by (subst amf3_read_u29_from.simps, simp only: if_True Let_def)
        (rule bq.parses_bind_Cons [OF rd], simp only: and_80_u8 if_False not_True_eq_False)
  qed
  have "bq.parses (bindS amf3_read_u8 (\<lambda>b. amf3_read_u29_from 4 (push_bit 8 r OR ucast b))) [b]
      (push_bit 8 r OR ucast b)"
    by (rule bq.parses_bind_last [OF rd fin])
  then show "bq.parses (amf3_read_u29_from 3 r) [b] (push_bit 8 r OR ucast b)"
    by (subst amf3_read_u29_from.simps) simp
qed

text \<open>The same steps on the bytes the writer makes.\<close>

lemma u29_more:
  assumes "i < 3" "bq.parses (amf3_read_u29_from (Suc i) (push_bit 7 r OR (x AND 0x7F))) bs y"
  shows "bq.parses (amf3_read_u29_from i r) (ucast (x OR 0x80) # bs) y"
  by (rule parses_u29_from(2)) (simp_all only: assms u29_high Suc_eq_plus1 [symmetric])

lemma u29_last:
  assumes "i < 3" "y = push_bit 7 r OR (x AND 0x7F)"
  shows "bq.parses (amf3_read_u29_from i r) [ucast (x AND 0x7F)] y"
  using parses_u29_from(1) [OF assms(1) u29_low(2), of r x] by (simp only: u29_low assms(2))

lemma u29_last8:
  assumes "y = push_bit 8 r OR (x AND 0xFF)"
  shows "bq.parses (amf3_read_u29_from 3 r) [ucast (x AND 0xFF)] y"
proof -
  have "ucast (ucast (x AND 0xFF) :: u8) = x AND 0xFF"
    by (rule bit_word_eqI) (auto simp: mask_7F bit_simps)
  with parses_u29_from(3) [of r "ucast (x AND 0xFF)"] show ?thesis by (simp only: assms)
qed

lemma parses_u29: "bq.parses amf3_read_u29 (amf3_u29_bytes val) (val AND 0x1FFFFFFF)"
proof -
  define v where "v = val AND 0x1FFFFFFF"
  have "v < 2 ^ 29" unfolding v_def mask_7F by (rule and_mask_less') simp
  then have v: "unat v < 2 ^ 29" by (simp add: word_less_nat_alt)
  have dd: "drop_bit 14 v = drop_bit 7 (drop_bit 7 v)" "drop_bit 22 v = drop_bit 7 (drop_bit 15 v)"
    "drop_bit 15 v = drop_bit 7 (drop_bit 8 v)" by (simp_all add: drop_bit_drop_bit)
  consider "v < 0x80" | "\<not> v < 0x80" "v < 0x4000" | "\<not> v < 0x80" "\<not> v < 0x4000" "v < 0x200000"
    | "\<not> v < 0x80" "\<not> v < 0x4000" "\<not> v < 0x200000" by blast
  then have "bq.parses (amf3_read_u29_from 0 0) (amf3_u29_bytes val) v"
  proof cases
    case 1
    then have lt: "unat v < 2 ^ 7" by (simp add: word_less_nat_alt)
    have "bq.parses (amf3_read_u29_from 0 0) [ucast (v AND 0x7F)] v"
      by (rule u29_last) (simp_all add: u29_join(4) [OF lt])
    then show ?thesis
      unfolding u29_join(4) [OF lt] using 1 by (simp add: amf3_u29_bytes_def v_def [symmetric])
  next
    case 2
    then have lt: "unat v < 2 ^ 14" by (simp add: word_less_nat_alt)
    have "bq.parses (amf3_read_u29_from 0 0) [ucast (drop_bit 7 v OR 0x80), ucast (v AND 0x7F)] v"
      by (rule u29_more, simp, rule u29_last, simp)
        (simp only: push_bit_of_0 or.left_neutral u29_join(3) [OF lt])
    then show ?thesis using 2 by (simp add: amf3_u29_bytes_def v_def [symmetric])
  next
    case 3
    then have lt: "unat (drop_bit 7 v) < 2 ^ 14"
      by (intro u29_drop) (simp add: word_less_nat_alt)
    have "bq.parses (amf3_read_u29_from 0 0)
      [ucast (drop_bit 14 v OR 0x80), ucast ((drop_bit 7 v AND 0x7F) OR 0x80), ucast (v AND 0x7F)] v"
      by (rule u29_more, simp, rule u29_more, simp, rule u29_last, simp)
        (simp only: dd(1) push_bit_of_0 or.left_neutral and.assoc and.idem u29_join(3) [OF lt] u29_join(1))
    then show ?thesis using 3 by (simp add: amf3_u29_bytes_def v_def [symmetric])
  next
    case 4
    have lt: "unat (drop_bit 15 v) < 2 ^ 14" by (rule u29_drop) (use v in simp)
    have suc2: "Suc 2 = 3" by simp
    have "bq.parses (amf3_read_u29_from 2 (drop_bit 15 v))
      [ucast ((drop_bit 8 v AND 0x7F) OR 0x80), ucast (v AND 0xFF)] v"
      by (rule u29_more [where i = 2, unfolded suc2], simp, rule u29_last8)
        (simp only: dd(3) and.assoc and.idem u29_join)
    then have "bq.parses (amf3_read_u29_from 0 0)
      [ucast (drop_bit 22 v OR 0x80), ucast ((drop_bit 15 v AND 0x7F) OR 0x80),
       ucast ((drop_bit 8 v AND 0x7F) OR 0x80), ucast (v AND 0xFF)] v"
      by (intro u29_more [where i = 0] u29_more [where i = "Suc 0"])
        (simp_all only: dd(2) push_bit_of_0 or.left_neutral and.assoc and.idem u29_join(3) [OF lt]
          numeral_2_eq_2 zero_less_numeral Suc_less_eq numeral_3_eq_3 zero_less_Suc)
    then show ?thesis using 4 by (simp add: amf3_u29_bytes_def v_def [symmetric])
  qed
  then show ?thesis by (simp only: amf3_read_u29_def v_def)
qed

lemma emits_write_u29: "bq.emits (amf3_write_u29 v) () (amf3_u29_bytes v)"
  unfolding amf3_write_u29_def by (rule bq.emits_put)

lemma emits_amf3:
  "bq.emits (amf3_write_integer v) () (AMF3_INTEGER # amf3_u29_bytes v)"
  "bq.emits (amf3_write_double d) () (AMF3_DOUBLE # be64 d)"
  "length s \<le> 0x0FFFFFFF \<Longrightarrow> bq.emits (amf3_write_string s) ()
     (AMF3_STRING # amf3_u29_bytes (push_bit 1 (of_nat (length s)) OR 1) @ s)"
  using bq.emits_then [OF bq.emits_put emits_write_u29, of EInternal "[AMF3_INTEGER]" v]
    bq.emits_then [OF bq.emits_put bq.emits_put, of EInternal "[AMF3_DOUBLE]" EInternal "be64 d"]
    bq.emits_then [OF bq.emits_put bq.emits_then [OF emits_write_u29 bq.emits_put],
      of EInternal "[AMF3_STRING]" "push_bit 1 (of_nat (length s)) OR 1" EInternal s]
  by (simp_all add: amf3_write_integer_def amf3_write_double_def amf3_write_string_def)

lemma u29_ref:
  fixes w :: u32
  assumes "unat w < 2 ^ 28"
  shows "(push_bit 1 w OR 1) AND 0x1FFFFFFF = push_bit 1 w OR 1" "drop_bit 1 (push_bit 1 w OR 1) = w"
    "(push_bit 1 w OR 1) AND 1 \<noteq> 0"
proof -
  note hb = no_high_bit [OF assms]
  show "(push_bit 1 w OR 1) AND 0x1FFFFFFF = push_bit 1 w OR 1"
    by (rule bit_word_eqI) (auto simp: mask_7F bit_simps simp del: push_bit_Suc dest: hb)
  show "drop_bit 1 (push_bit 1 w OR 1) = w"
    by (rule bit_word_eqI) (auto simp: bit_simps simp del: push_bit_Suc drop_bit_Suc dest: hb)
  have "bit ((push_bit 1 w OR 1) AND 1) 0" by (simp add: bit_simps)
  then show "(push_bit 1 w OR 1) AND 1 \<noteq> 0" by (metis bit_0_eq bot_apply bot_bool_def)
qed

lemma string_ref:
  assumes "n \<le> 0x0FFFFFFF"
  shows "(push_bit 1 (of_nat n) OR 1 :: u32) AND 0x1FFFFFFF = push_bit 1 (of_nat n) OR 1"
    "unat (drop_bit 1 (push_bit 1 (of_nat n) OR 1 :: u32)) = n"
    "(push_bit 1 (of_nat n) OR 1 :: u32) AND 1 \<noteq> 0"
proof -
  have n: "unat (of_nat n :: u32) = n" using assms by (simp add: unat_of_nat take_bit_nat_eq_self)
  then have "unat (of_nat n :: u32) < 2 ^ 28" using assms by simp
  note ref = u29_ref [OF this]
  show "(push_bit 1 (of_nat n) OR 1 :: u32) AND 0x1FFFFFFF = push_bit 1 (of_nat n) OR 1"
    "(push_bit 1 (of_nat n) OR 1 :: u32) AND 1 \<noteq> 0" by (rule ref)+
  show "unat (drop_bit 1 (push_bit 1 (of_nat n) OR 1 :: u32)) = n" by (simp only: ref n)
qed

lemma parses_amf3_string:
  assumes "length s \<le> 0x0FFFFFFF" "length s < length out"
  shows "bq.parses (amf3_read_string out)
    (AMF3_STRING # amf3_u29_bytes (push_bit 1 (of_nat (length s)) OR 1) @ s) (length s, filled out s)"
proof -
  let ?ref = "push_bit 1 (of_nat (length s)) OR 1 :: u32"
  note ref = string_ref [OF assms(1)]
  have u: "bq.parses amf3_read_u29 (amf3_u29_bytes ?ref) ?ref"
    using parses_u29 [of ?ref] by (simp only: ref(1))
  show ?thesis
    unfolding amf3_read_string_def
    by (rule bq.parses_bind_Cons [OF parses_amf0_fixed(1) [folded amf3_read_u8_eq]],
        simp only: simp_thms if_False, rule bq.parses_bind [OF u])
      (use assms ref(2,3) parses_read_into [OF assms(2), of EIo] in \<open>auto simp: Let_def\<close>)
qed

section \<open>Properties\<close>



end
