(* ===== verification/Sha256.thy ===== *)
theory Sha256
  imports Rtmp_Bytes
begin

text \<open>
  SHA-256 and HMAC-SHA256 (\<open>src/src/sha256.rs\<close>), used by the digest handshake: the compression function,
  the incremental hasher with its partial block, padding and the keyed hash. The lemmas show that the
  hasher never panics and that, however the input is cut into pieces, it computes the hash of the
  concatenation, stated against a one-pass reference definition.
\<close>

section \<open>Compression\<close>

definition sha_K :: "u32 list" where
  "sha_K =
    [0x428A2F98, 0x71374491, 0xB5C0FBCF, 0xE9B5DBA5, 0x3956C25B, 0x59F111F1, 0x923F82A4, 0xAB1C5ED5,
     0xD807AA98, 0x12835B01, 0x243185BE, 0x550C7DC3, 0x72BE5D74, 0x80DEB1FE, 0x9BDC06A7, 0xC19BF174,
     0xE49B69C1, 0xEFBE4786, 0x0FC19DC6, 0x240CA1CC, 0x2DE92C6F, 0x4A7484AA, 0x5CB0A9DC, 0x76F988DA,
     0x983E5152, 0xA831C66D, 0xB00327C8, 0xBF597FC7, 0xC6E00BF3, 0xD5A79147, 0x06CA6351, 0x14292967,
     0x27B70A85, 0x2E1B2138, 0x4D2C6DFC, 0x53380D13, 0x650A7354, 0x766A0ABB, 0x81C2C92E, 0x92722C85,
     0xA2BFE8A1, 0xA81A664B, 0xC24B8B70, 0xC76C51A3, 0xD192E819, 0xD6990624, 0xF40E3585, 0x106AA070,
     0x19A4C116, 0x1E376C08, 0x2748774C, 0x34B0BCB5, 0x391C0CB3, 0x4ED8AA4A, 0x5B9CCA4F, 0x682E6FF3,
     0x748F82EE, 0x78A5636F, 0x84C87814, 0x8CC70208, 0x90BEFFFA, 0xA4506CEB, 0xBEF9A3F7, 0xC67178F2]"

definition sha_H0 :: "u32 list" where
  "sha_H0 =
    [0x6A09E667, 0xBB67AE85, 0x3C6EF372, 0xA54FF53A, 0x510E527F, 0x9B05688C, 0x1F83D9AB, 0x5BE0CD19]"

abbreviation rotr :: "nat \<Rightarrow> u32 \<Rightarrow> u32" where
  "rotr \<equiv> word_rotr"

definition sha_schedule :: "bytes \<Rightarrow> u32 list" where
  "sha_schedule block =
     (let w = map (\<lambda>i. u32_be (block ! (4 * i)) (block ! (4 * i + 1)) (block ! (4 * i + 2)) (block ! (4 * i + 3)))
            [0..<16] @ replicate 48 0
      in fold (\<lambda>i w.
           let s0 = rotr 7 (w ! (i - 15)) XOR rotr 18 (w ! (i - 15)) XOR drop_bit 3 (w ! (i - 15));
               s1 = rotr 17 (w ! (i - 2)) XOR rotr 19 (w ! (i - 2)) XOR drop_bit 10 (w ! (i - 2))
           in w[i := w ! (i - 16) + s0 + w ! (i - 7) + s1]) [16..<64] w)"

type_synonym sha_vars = "u32 \<times> u32 \<times> u32 \<times> u32 \<times> u32 \<times> u32 \<times> u32 \<times> u32"

definition sha_round :: "u32 list \<Rightarrow> nat \<Rightarrow> sha_vars \<Rightarrow> sha_vars" where
  "sha_round w i = (\<lambda>(a, b, c, d, e, f, g, h).
     let s1 = rotr 6 e XOR rotr 11 e XOR rotr 25 e;
         ch = (e AND f) XOR (NOT e AND g);
         t1 = h + s1 + ch + sha_K ! i + w ! i;
         s0 = rotr 2 a XOR rotr 13 a XOR rotr 22 a;
         maj = (a AND b) XOR (a AND c) XOR (b AND c);
         t2 = s0 + maj
     in (t1 + t2, a, b, c, d + t1, e, f, g))"

definition sha_compress :: "u32 list \<Rightarrow> bytes \<Rightarrow> u32 list" where
  "sha_compress state block =
     (case fold (sha_round (sha_schedule block)) [0..<64]
         (state ! 0, state ! 1, state ! 2, state ! 3, state ! 4, state ! 5, state ! 6, state ! 7) of
        (a, b, c, d, e, f, g, h) \<Rightarrow> map2 (+) state [a, b, c, d, e, f, g, h])"

section \<open>The hasher\<close>

record sha256 =
  sha_state :: "u32 list"
  sha_block :: bytes
  sha_block_len :: nat
  sha_total_len :: u64

definition sha_new :: sha256 where
  "sha_new = \<lparr>sha_state = sha_H0, sha_block = replicate 64 0, sha_block_len = 0, sha_total_len = 0\<rparr>"

text \<open>\<open>data.chunks_exact(64)\<close> and its \<open>remainder()\<close>.\<close>

function exact_chunks :: "bytes \<Rightarrow> bytes list" where
  "exact_chunks data = (if length data < 64 then [] else take 64 data # exact_chunks (drop 64 data))"
  by pat_completeness auto
termination
  by (relation "measure length") auto

declare exact_chunks.simps [simp del]

definition chunks_remainder :: "bytes \<Rightarrow> bytes" where
  "chunks_remainder data = drop (64 * (length data div 64)) data"

text \<open>The part of \<open>update\<close> that fills the partial block; \<open>None\<close> is its early return.\<close>

definition sha_fill :: "bytes \<Rightarrow> sha256 \<Rightarrow> (sha256 \<times> bytes option) result" where
  "sha_fill data h =
     (if sha_block_len h > 0 then
        let tk = min (64 - sha_block_len h) (length data) in
        bindR (subslice data 0 tk) (\<lambda>part.
        bindR (copy_at (sha_block h) (sha_block_len h) part) (\<lambda>block.
        let h = h\<lparr>sha_block := block, sha_block_len := sha_block_len h + tk\<rparr> in
        bindR (subslice data tk (length data)) (\<lambda>data.
        if sha_block_len h < 64 then Inr (h, None)
        else Inr (h\<lparr>sha_state := sha_compress (sha_state h) (sha_block h), sha_block_len := 0\<rparr>, Some data))))
      else Inr (h, Some data))"

definition sha_update :: "bytes \<Rightarrow> sha256 \<Rightarrow> sha256 result" where
  "sha_update data h =
     bindR (sha_fill data (h\<lparr>sha_total_len := sha_total_len h + of_nat (length data)\<rparr>)) (\<lambda>(h, more).
       case more of None \<Rightarrow> Inr h
       | Some data \<Rightarrow>
           let h = h\<lparr>sha_state := fold (\<lambda>chunk st. sha_compress st chunk) (exact_chunks data) (sha_state h)\<rparr>;
               rest = chunks_remainder data in
           bindR (copy_at (sha_block h) 0 rest) (\<lambda>block.
             Inr (h\<lparr>sha_block := block, sha_block_len := length rest\<rparr>)))"

definition sha_finalize :: "sha256 \<Rightarrow> bytes result" where
  "sha_finalize h =
     (let bit_len = sha_total_len h * 8;
          pad = 0x80 # replicate 71 0;
          pad_len = (if sha_block_len h < 56 then 56 - sha_block_len h else 120 - sha_block_len h) in
      bindR (subslice pad 0 pad_len) (\<lambda>p.
      bindR (sha_update p h) (\<lambda>h.
      bindR (sha_update (be64 bit_len) h) (\<lambda>h.
        if sha_block_len h \<noteq> 0 then panic
        else Inr (concat (map be32 (sha_state h)))))))"

fun sha_update_all :: "bytes list \<Rightarrow> sha256 \<Rightarrow> sha256 result" where
  "sha_update_all [] h = Inr h"
| "sha_update_all (p # ps) h = bindR (sha_update p h) (sha_update_all ps)"

definition sha256_of :: "bytes list \<Rightarrow> bytes result" where
  "sha256_of parts = bindR (sha_update_all parts sha_new) sha_finalize"

definition hmac_sha256 :: "bytes \<Rightarrow> bytes list \<Rightarrow> bytes result" where
  "hmac_sha256 key parts =
     bindR (if length key > 64 then bindR (sha256_of [key]) (copy_at (replicate 64 0) 0)
            else copy_at (replicate 64 0) 0 key) (\<lambda>k.
     let ipad = map2 (XOR) (replicate 64 0x36) k;
         opad = map2 (XOR) (replicate 64 0x5c) k in
     bindR (bindR (sha_update ipad sha_new) (\<lambda>inner.
       bindR (sha_update_all parts inner) sha_finalize)) (\<lambda>inner.
     bindR (sha_update opad sha_new) (\<lambda>outer.
       bindR (sha_update inner outer) sha_finalize)))"

section \<open>Reference\<close>

definition sha_pad :: "bytes \<Rightarrow> bytes" where
  "sha_pad msg = msg @ 0x80 # replicate ((119 - length msg mod 64) mod 64) 0 @ be64 (of_nat (length msg) * 8)"

definition sha256_ref :: "bytes \<Rightarrow> bytes" where
  "sha256_ref msg = concat (map be32 (fold (\<lambda>c st. sha_compress st c) (exact_chunks (sha_pad msg)) sha_H0))"

definition hmac_key :: "bytes \<Rightarrow> bytes" where
  "hmac_key key = (let k = (if length key > 64 then sha256_ref key else key) in k @ replicate (64 - length k) 0)"

definition hmac_ref :: "bytes \<Rightarrow> bytes \<Rightarrow> bytes" where
  "hmac_ref key msg =
     sha256_ref (map ((XOR) 0x5c) (hmac_key key) @ sha256_ref (map ((XOR) 0x36) (hmac_key key) @ msg))"

section \<open>Blocks\<close>

lemma exact_chunks_short [simp]: "length xs < 64 \<Longrightarrow> exact_chunks xs = []"
  by (subst exact_chunks.simps) simp

lemma exact_chunks_step: "length xs = 64 \<Longrightarrow> exact_chunks (xs @ ys) = xs # exact_chunks ys"
  by (subst exact_chunks.simps) simp

lemma exact_chunks_append:
  "64 dvd length xs \<Longrightarrow> exact_chunks (xs @ ys) = exact_chunks xs @ exact_chunks ys"
proof (induction xs rule: exact_chunks.induct)
  case (1 xs)
  show ?case
  proof (cases "length xs < 64")
    case True
    with "1.prems" have "xs = []" by (metis dvd_imp_le length_0_conv not_gr_zero not_le)
    then show ?thesis by simp
  next
    case False
    then have "64 dvd length (drop 64 xs)" using "1.prems" by (simp add: dvd_diff_nat)
    with 1 False have "exact_chunks (drop 64 xs @ ys) = exact_chunks (drop 64 xs) @ exact_chunks ys" by blast
    with False show ?thesis
      by (subst (1 2) exact_chunks.simps) simp
  qed
qed

lemma length_chunks_remainder [simp]: "length (chunks_remainder xs) = length xs mod 64"
  by (simp add: chunks_remainder_def minus_mult_div_eq_mod)

text \<open>Whole blocks first: what precedes a block boundary does not matter for the rest.\<close>

lemma split_blocks:
  obtains w where "xs = w @ chunks_remainder xs" "64 dvd length w" "exact_chunks xs = exact_chunks w"
proof -
  let ?w = "take (64 * (length xs div 64)) xs"
  have x: "xs = ?w @ chunks_remainder xs" by (simp add: chunks_remainder_def)
  have "64 * (length xs div 64) \<le> length xs" by (simp add: times_div_less_eq_dividend)
  then have d: "64 dvd length ?w" by (simp add: min_absorb2)
  have "exact_chunks (?w @ chunks_remainder xs) = exact_chunks ?w"
    by (simp add: exact_chunks_append [OF d])
  with x d that show thesis by metis
qed

lemma chunks_remainder_append:
  assumes "64 dvd length w"
  shows "chunks_remainder (w @ ys) = chunks_remainder ys"
proof -
  from assms obtain k where "length w = 64 * k" by (elim dvdE)
  then show ?thesis by (simp add: chunks_remainder_def)
qed

lemma append_blocks:
  "exact_chunks (xs @ ys) = exact_chunks xs @ exact_chunks (chunks_remainder xs @ ys)"
  "chunks_remainder (xs @ ys) = chunks_remainder (chunks_remainder xs @ ys)"
proof -
  obtain w where w: "xs = w @ chunks_remainder xs" "64 dvd length w" "exact_chunks xs = exact_chunks w"
    by (rule split_blocks)
  have "exact_chunks (w @ chunks_remainder xs @ ys) = exact_chunks xs @ exact_chunks (chunks_remainder xs @ ys)"
    by (simp add: exact_chunks_append [OF w(2)] w(3))
  with w(1) show "exact_chunks (xs @ ys) = exact_chunks xs @ exact_chunks (chunks_remainder xs @ ys)"
    by (metis append_assoc)
  have "chunks_remainder (w @ chunks_remainder xs @ ys) = chunks_remainder (chunks_remainder xs @ ys)"
    by (rule chunks_remainder_append [OF w(2)])
  with w(1) show "chunks_remainder (xs @ ys) = chunks_remainder (chunks_remainder xs @ ys)"
    by (metis append_assoc)
qed

lemma chunks_remainder_short [simp]: "length xs < 64 \<Longrightarrow> chunks_remainder xs = xs"
  by (simp add: chunks_remainder_def)

section \<open>The hasher computes the reference\<close>

definition absorb :: "u32 list \<Rightarrow> bytes list \<Rightarrow> u32 list" where
  "absorb st cs = fold (\<lambda>c st. sha_compress st c) cs st"

lemma absorb_simps [simp]:
  "absorb st [] = st" "absorb st (c # cs) = absorb (sha_compress st c) cs"
  "absorb st (xs @ ys) = absorb (absorb st xs) ys"
  by (simp_all add: absorb_def)

text \<open>The hasher has absorbed \<open>msg\<close>: its whole blocks are compressed, the rest waits in the block.\<close>

definition absorbed :: "sha256 \<Rightarrow> bytes \<Rightarrow> bool" where
  "absorbed h msg \<longleftrightarrow> length (sha_block h) = 64 \<and> sha_block_len h = length msg mod 64 \<and>
     sha_state h = absorb sha_H0 (exact_chunks msg) \<and>
     take (length msg mod 64) (sha_block h) = chunks_remainder msg \<and>
     sha_total_len h = of_nat (length msg)"

lemma absorbedI:
  assumes "length (sha_block h) = 64" "sha_block_len h = length (chunks_remainder msg)"
    "sha_state h = absorb sha_H0 (exact_chunks msg)"
    "\<exists>rest. sha_block h = chunks_remainder msg @ rest" "sha_total_len h = of_nat (length msg)"
  shows "absorbed h msg"
  using assms length_chunks_remainder [of msg] by (auto simp: absorbed_def)

lemma absorbed_result: "r = Inr h \<Longrightarrow> absorbed h msg \<Longrightarrow> \<exists>h'. r = Inr h' \<and> absorbed h' msg"
  by blast

lemma absorbed_new: "absorbed sha_new []"
  by (simp add: absorbed_def sha_new_def)

text \<open>Absorbing from a block boundary.\<close>

lemma copy_tail:
  assumes "length b = 64"
  shows "copy_at b 0 (chunks_remainder d) = Inr (chunks_remainder d @ drop (length d mod 64) b)"
  using assms mod_less_divisor [of 64 "length d"] by (simp add: less_imp_le)

lemma length_refilled:
  assumes "length b = 64"
  shows "length (chunks_remainder d @ drop (length d mod 64) b) = 64"
  using assms mod_less_divisor [of 64 "length d"] by simp

lemma sha_update_ok:
  assumes h: "absorbed h msg"
  shows "\<exists>h'. sha_update d h = Inr h' \<and> absorbed h' (msg @ d)"
proof -
  let ?r = "chunks_remainder msg" and ?l = "length msg mod 64"
  have len: "length (sha_block h) = 64" "sha_block_len h = ?l" "length ?r = ?l" "?l < 64"
    and st: "sha_state h = absorb sha_H0 (exact_chunks msg)" and tk: "take ?l (sha_block h) = ?r"
    and tot: "sha_total_len h = of_nat (length msg)"
    using h by (simp_all add: absorbed_def)
  note blk = append_blocks [of msg d]
  have total: "(of_nat (length (msg @ d)) :: u64) = of_nat (length msg) + of_nat (length d)" by simp
  consider "?l = 0" | "0 < ?l" "length d < 64 - ?l" | "0 < ?l" "64 - ?l \<le> length d" by linarith
  then show ?thesis
  proof cases
    case 1
    then have "?r = []" using len(3) by (simp only: length_0_conv [symmetric])
    with blk have b: "exact_chunks (msg @ d) = exact_chunks msg @ exact_chunks d"
      "chunks_remainder (msg @ d) = chunks_remainder d" by simp_all
    let ?h0 = "h\<lparr>sha_total_len := sha_total_len h + of_nat (length d)\<rparr>"
    have "sha_fill d ?h0 = Inr (?h0, Some d)" using 1 len(2) by (simp add: sha_fill_def)
    then have "sha_update d h = Inr \<lparr>sha_state = absorb (sha_state h) (exact_chunks d),
        sha_block = chunks_remainder d @ drop (length d mod 64) (sha_block h),
        sha_block_len = length (chunks_remainder d), sha_total_len = sha_total_len h + of_nat (length d)\<rparr>"
      using copy_tail [OF len(1), of d] unfolding sha_update_def by (cases h) (simp add: Let_def absorb_def)
    then show ?thesis
      by (rule absorbed_result) (rule absorbedI,
        simp_all only: sha256.simps b st tot length_refilled [OF len(1)] absorb_simps
          total, blast)
  next
    case 2
    then have "length (?r @ d) < 64" using len(3) by simp
    with blk have b: "exact_chunks (msg @ d) = exact_chunks msg" "chunks_remainder (msg @ d) = ?r @ d" by simp_all
    let ?h1 = "\<lparr>sha_state = sha_state h, sha_block = ?r @ d @ drop (?l + length d) (sha_block h),
      sha_block_len = ?l + length d, sha_total_len = sha_total_len h + of_nat (length d)\<rparr>"
    have lt: "?l + length d < 64" using 2 by simp
    have cp: "copy_at (sha_block h) ?l d = Inr (?r @ d @ drop (?l + length d) (sha_block h))"
      using lt len(1) tk by simp
    have mn: "min (64 - ?l) (length d) = length d" using 2 by simp
    have "sha_update d h = Inr ?h1"
      using 2 cp lt by (simp add: sha_update_def sha_fill_def len(2) mn Let_def)
    moreover have "length (?r @ d @ drop (?l + length d) (sha_block h)) = 64"
      unfolding length_append len(3) length_drop len(1) using lt by simp
    ultimately show ?thesis
      by (intro exI [of _ ?h1] conjI absorbedI)
        (simp_all only: sha256.simps b st tot length_append len(3) of_nat_add
          append_assoc, blast)
  next
    case 3
    let ?t = "64 - ?l"
    have b64: "length (?r @ take ?t d) = 64" using 3 len(3) by simp
    have "?r @ d = (?r @ take ?t d) @ drop ?t d" by simp
    then have b: "exact_chunks (msg @ d) = exact_chunks msg @ (?r @ take ?t d) # exact_chunks (drop ?t d)"
      "chunks_remainder (msg @ d) = chunks_remainder (drop ?t d)"
      using blk exact_chunks_step [OF b64] chunks_remainder_append [of "?r @ take ?t d"] b64 by (metis dvd_refl)+
    let ?h0 = "h\<lparr>sha_total_len := sha_total_len h + of_nat (length d)\<rparr>"
    let ?h1 = "?h0\<lparr>sha_block := ?r @ take ?t d, sha_block_len := 0,
      sha_state := sha_compress (sha_state h) (?r @ take ?t d)\<rparr>"
    have cp: "copy_at (sha_block h) ?l (take ?t d) = Inr (?r @ take ?t d)"
      using len 3 tk by (simp add: min_def)
    have mn: "min (64 - ?l) (length d) = ?t" "?l + ?t = 64" using 3 len(4) by (simp_all add: min_def)
    have fill: "sha_fill d ?h0 = Inr (?h1, Some (drop ?t d))"
      using 3 cp by (simp add: sha_fill_def len(2) mn Let_def)
    have "sha_update d h = Inr \<lparr>
        sha_state = absorb (sha_compress (sha_state h) (?r @ take ?t d)) (exact_chunks (drop ?t d)),
        sha_block = chunks_remainder (drop ?t d) @ drop (length (drop ?t d) mod 64) (?r @ take ?t d),
        sha_block_len = length (chunks_remainder (drop ?t d)),
        sha_total_len = sha_total_len h + of_nat (length d)\<rparr>"
      using copy_tail [OF b64, of "drop ?t d"] unfolding sha_update_def fill by (simp add: Let_def absorb_def)
    then show ?thesis
      by (rule absorbed_result) (rule absorbedI,
        simp_all only: sha256.simps b st tot length_refilled [OF b64] absorb_simps
          total, blast)
  qed
qed

lemma sha_update_all_ok:
  "absorbed h msg \<Longrightarrow> \<exists>h'. sha_update_all ps h = Inr h' \<and> absorbed h' (msg @ concat ps)"
proof (induction ps arbitrary: h msg)
  case (Cons p ps)
  from sha_update_ok [OF Cons.prems] obtain h1 where "sha_update p h = Inr h1" "absorbed h1 (msg @ p)" by blast
  with Cons.IH [of h1 "msg @ p"] show ?case by simp
qed simp

lemma pad_zeros:
  fixes l :: nat
  assumes "l < 64"
  shows "(119 - l) mod 64 = (if l < 56 then 55 - l else 119 - l)"
proof (cases "l < 56")
  case True
  then have "119 - l = 55 - l + 64" by simp
  then have "(119 - l) mod 64 = (55 - l) mod 64" by (simp only: mod_add_self2)
  with True show ?thesis by simp
qed (use assms in simp)

lemma length_sha_pad: "64 dvd length (sha_pad msg)"
proof -
  let ?l = "length msg mod 64"
  have l: "?l < 64" by simp
  obtain q where q: "length msg = 64 * q + ?l" by (metis mult_div_mod_eq)
  have "length (sha_pad msg) = length msg + (119 - ?l) mod 64 + 9" by (simp add: sha_pad_def)
  also have "\<dots> = 64 * q + (?l + (119 - ?l) mod 64 + 9)" using q by linarith
  also have "?l + (119 - ?l) mod 64 + 9 = (if ?l < 56 then 64 else 128)"
    unfolding pad_zeros [OF l] using l by (cases "?l < 56") auto
  finally show ?thesis by (simp split: if_splits)
qed

lemma sha_finalize_ok:
  assumes h: "absorbed h msg"
  shows "sha_finalize h = Inr (sha256_ref msg)"
proof -
  let ?l = "length msg mod 64" and ?z = "(119 - length msg mod 64) mod 64"
  define p where "p = 0x80 # replicate ?z (0 :: u8)"
  have l: "sha_block_len h = ?l" "?l < 64" "sha_total_len h = of_nat (length msg)"
    using h by (simp_all add: absorbed_def)
  note z = pad_zeros [OF l(2)]
  have n: "(if ?l < 56 then 56 - ?l else 120 - ?l) = Suc ?z" "?z \<le> 71" unfolding z using l(2) by auto
  have sub: "subslice (0x80 # replicate 71 0) 0 (if ?l < 56 then 56 - ?l else 120 - ?l) = Inr p"
    unfolding n(1) p_def using n(2) by (simp add: min_def)
  obtain h1 where h1: "sha_update p h = Inr h1" "absorbed h1 (msg @ p)"
    using sha_update_ok [OF h] by blast
  obtain h2 where h2: "sha_update (be64 (of_nat (length msg) * 8)) h1 = Inr h2"
    "absorbed h2 ((msg @ p) @ be64 (of_nat (length msg) * 8))"
    using sha_update_ok [OF h1(2)] by blast
  have pad: "(msg @ p) @ be64 (of_nat (length msg) * 8) = sha_pad msg" by (simp add: sha_pad_def p_def)
  have "sha_block_len h2 = 0" "sha_state h2 = absorb sha_H0 (exact_chunks (sha_pad msg))"
    using h2(2) length_sha_pad [of msg] unfolding pad by (simp_all add: absorbed_def dvd_imp_mod_0)
  with h1(1) h2(1) show ?thesis
    unfolding sha_finalize_def Let_def l(1,3) sub by (simp add: sha256_ref_def absorb_def)
qed

lemma sha256_of_eq: "sha256_of parts = Inr (sha256_ref (concat parts))"
proof -
  from sha_update_all_ok [OF absorbed_new, of parts]
  obtain h where "sha_update_all parts sha_new = Inr h" "absorbed h (concat parts)" by auto
  then show ?thesis by (simp add: sha256_of_def sha_finalize_ok)
qed

lemma length_sha_compress [simp]: "length st = 8 \<Longrightarrow> length (sha_compress st b) = 8"
  by (simp add: sha_compress_def split: prod.splits)

lemma length_absorb: "length st = 8 \<Longrightarrow> length (absorb st cs) = 8"
  by (induction cs arbitrary: st) simp_all

lemma length_concat_be32: "length (concat (map be32 ws)) = 4 * length ws"
  by (induction ws) simp_all

lemma length_sha256_ref [simp]: "length (sha256_ref msg) = 32"
  using length_absorb [of sha_H0 "exact_chunks (sha_pad msg)"]
  by (simp add: sha256_ref_def absorb_def length_concat_be32 sha_H0_def)

lemma map2_replicate: "length k = n \<Longrightarrow> map2 f (replicate n x) k = map (f x) k"
  by (induction k arbitrary: n) auto

lemma hmac_sha256_eq: "hmac_sha256 key parts = Inr (hmac_ref key (concat parts))"
proof -
  have len: "length (hmac_key key) = 64" by (simp add: hmac_key_def Let_def)
  have key: "(if length key > 64 then bindR (sha256_of [key]) (copy_at (replicate 64 0) 0)
      else copy_at (replicate 64 0) 0 key) = Inr (hmac_key key)"
    by (simp add: sha256_of_eq hmac_key_def Let_def)
  have upd: "bindR (sha_update x sha_new) (\<lambda>h. bindR (sha_update_all ps h) sha_finalize) =
      Inr (sha256_ref (x @ concat ps))" for x ps
    using sha256_of_eq [of "x # ps"] by (simp add: sha256_of_def bindR_assoc)
  have upd1: "bindR (sha_update x sha_new) (\<lambda>h. bindR (sha_update y h) sha_finalize) =
      Inr (sha256_ref (x @ y))" for x y
    using sha256_of_eq [of "[x, y]"] by (simp add: sha256_of_def bindR_assoc)
  show ?thesis
    unfolding hmac_sha256_def key
    by (simp add: map2_replicate [OF len] upd upd1 hmac_ref_def Let_def)
qed

section \<open>Properties\<close>

text \<open>C12: The hasher and the keyed hash compute SHA-256 and HMAC of the concatenation of their inputs, in
  whatever pieces it arrives, never panic (the padding assertion included) and return 32 bytes.\<close>
theorem hashing_is_incremental:
  "sha256_of parts = Inr (sha256_ref (concat parts)) \<and> hmac_sha256 key parts = Inr (hmac_ref key (concat parts)) \<and>
   length (hmac_ref key (concat parts)) = 32"
  by (simp add: sha256_of_eq hmac_sha256_eq hmac_ref_def)

end
