(* ===== verification/Handshake.thy ===== *)
theory Handshake
  imports Rtmp_Buffer Rtmp_Text Sha256
begin

text \<open>
  The RTMP handshake (\<open>src/src/handshake.rs\<close>): the server answers C0 and C1 with the plain handshake or,
  when C1 carries a valid Adobe digest, with a signed S1 and S2; the client makes C0, C1 and C2. The
  clock and the global counter that seed the pseudo-random payload are inputs of the model: a
  \<open>clock\<close> is what one call reads from them.

  The lemmas show that no slice of the digest arithmetic is out of range, what each step consumes and
  queues, that a digest S1 verifies the way a client checks it, and that client and server bring each
  other to the end of the handshake.
\<close>

section \<open>State\<close>

definition RTMP_VERSION :: u8 where "RTMP_VERSION = 0x03"

definition HANDSHAKE_SIZE :: nat where "HANDSHAKE_SIZE = 1536"

datatype handshake_state =
  ServerWaitC0 | ServerWaitC1 | ServerWaitC2 | ClientWaitS0 | ClientWaitS1 | ClientWaitS2 | HsDone

record handshake =
  hs_state :: handshake_state
  hs_version :: u8
  hs_peer_time :: u32
  hs_out :: buffer

definition handshake_default :: handshake where
  "handshake_default = \<lparr>hs_state = ServerWaitC0, hs_version = 0, hs_peer_time = 0, hs_out = buf_new\<rparr>"

definition hs_is_complete :: "handshake \<Rightarrow> bool" where
  "hs_is_complete hs \<longleftrightarrow> hs_state hs = HsDone"

definition hs_cleanup :: "handshake \<Rightarrow> handshake" where
  "hs_cleanup hs = hs\<lparr>hs_out := buf_reset (hs_out hs)\<rparr>"

section \<open>Pseudo-random payload\<close>

definition splitmix64 :: "u64 \<Rightarrow> u64 \<times> u64" where
  "splitmix64 state =
     (let state = state + 0x9E3779B97F4A7C15;
          z = (state XOR drop_bit 30 state) * 0xBF58476D1CE4E5B9;
          z = (z XOR drop_bit 27 z) * 0x94D049BB133111EB
      in (z XOR drop_bit 31 z, state))"

record clock =
  clk_secs :: u64
  clk_nanos :: u32
  clk_counter :: u64

function random_fill :: "u64 \<Rightarrow> nat \<Rightarrow> bytes" where
  "random_fill state n =
     (if n = 0 then []
      else let (r, state) = splitmix64 state in
        take n (map (\<lambda>b. ucast (drop_bit (b * 8) r)) [0..<8]) @ random_fill state (n - 8))"
  by pat_completeness auto
termination
  by (relation "measure snd") auto

declare random_fill.simps [simp del]

text \<open>\<open>fill_random(&mut buf[..])\<close> on \<open>n\<close> bytes, all of which it overwrites.\<close>

definition fill_random :: "clock \<Rightarrow> nat \<Rightarrow> bytes" where
  "fill_random clk n =
     random_fill (clk_secs clk XOR push_bit 32 (ucast (clk_nanos clk))
       XOR clk_counter clk * 0xD1B54A32D192ED03 XOR of_nat n) n"

definition get_time :: "clock \<Rightarrow> u32" where
  "get_time clk = ucast (clk_secs clk)"

section \<open>The digest handshake\<close>

definition DIGEST_LEN :: nat where "DIGEST_LEN = 32"

definition HANDSHAKE_KEY_TAIL :: bytes where
  "HANDSHAKE_KEY_TAIL =
    [0xF0, 0xEE, 0xC2, 0x4A, 0x80, 0x68, 0xBE, 0xE8, 0x2E, 0x00, 0xD0, 0xD1, 0x02, 0x9E, 0x7E, 0x57,
     0x6E, 0xEC, 0x5D, 0x2D, 0x29, 0x80, 0x6F, 0xAB, 0x93, 0xB8, 0xE6, 0x36, 0xCF, 0xEB, 0x31, 0xAE]"

definition FP_KEY_TEXT :: bytes where
  "FP_KEY_TEXT = ascii ''Genuine Adobe Flash Player 001''"

definition FMS_KEY_TEXT :: bytes where
  "FMS_KEY_TEXT = ascii ''Genuine Adobe Flash Media Server 001''"

definition SERVER_DIGEST_VERSION :: bytes where
  "SERVER_DIGEST_VERSION = [0x04, 0x05, 0x00, 0x01]"

definition DIGEST_BLOCK_BASES :: "nat list" where
  "DIGEST_BLOCK_BASES = [772, 8]"

datatype handshake_mode = HsSimple | HsSimpleFallback | HsDigest nat

definition c1_requests_complex_handshake :: "bytes \<Rightarrow> bool result" where
  "c1_requests_complex_handshake c1 =
     (if length c1 \<ge> HANDSHAKE_SIZE then
        bindR (idx c1 4) (\<lambda>b4. bindR (idx c1 5) (\<lambda>b5. bindR (idx c1 6) (\<lambda>b6. bindR (idx c1 7) (\<lambda>b7.
          Inr (b4 \<noteq> 0 \<or> b5 \<noteq> 0 \<or> b6 \<noteq> 0 \<or> b7 \<noteq> 0)))))
      else Inr False)"

definition digest_offset :: "bytes \<Rightarrow> nat \<Rightarrow> nat result" where
  "digest_offset buf base =
     bindR (subslice buf base (base + 4)) (\<lambda>d. Inr (base + 4 + sum_list (map unat d) mod 728))"

definition digest_without :: "bytes \<Rightarrow> nat \<Rightarrow> bytes \<Rightarrow> bytes result" where
  "digest_without buf offset key =
     bindR (subslice buf 0 offset) (\<lambda>a.
     bindR (subslice buf (offset + DIGEST_LEN) (length buf)) (\<lambda>b. hmac_sha256 key [a, b]))"

text \<open>The closure of \<open>find_map\<close> on one block base, and the search over the bases.\<close>

definition c1_digest_at :: "bytes \<Rightarrow> nat \<Rightarrow> (nat \<times> bytes) option result" where
  "c1_digest_at c1 base =
     bindR (digest_offset c1 base) (\<lambda>off.
     bindR (digest_without c1 off FP_KEY_TEXT) (\<lambda>expected.
     bindR (subslice c1 off (off + DIGEST_LEN)) (\<lambda>found.
       Inr (if expected = found then Some (base, found) else None))))"

fun find_map_base :: "(nat \<Rightarrow> 'a option result) \<Rightarrow> nat list \<Rightarrow> 'a option result" where
  "find_map_base f [] = Inr None"
| "find_map_base f (b # bs) =
     bindR (f b) (\<lambda>r. case r of Some x \<Rightarrow> Inr (Some x) | None \<Rightarrow> find_map_base f bs)"

definition find_c1_digest :: "bytes \<Rightarrow> (nat \<times> bytes) option result" where
  "find_c1_digest c1 = find_map_base (c1_digest_at c1) DIGEST_BLOCK_BASES"

definition fms_full_key :: "bytes result" where
  "fms_full_key =
     bindR (copy_at (replicate 68 0) 0 FMS_KEY_TEXT) (\<lambda>key.
       copy_at key (length FMS_KEY_TEXT) HANDSHAKE_KEY_TAIL)"

definition build_digest_s1s2 :: "clock \<Rightarrow> clock \<Rightarrow> nat \<Rightarrow> bytes \<Rightarrow> u32 \<Rightarrow> (bytes \<times> bytes) result" where
  "build_digest_s1s2 clk1 clk2 base c1_digest server_time =
     bindR (copy_at (replicate HANDSHAKE_SIZE 0) 8 (fill_random clk1 (HANDSHAKE_SIZE - 8))) (\<lambda>s1.
     bindR (copy_at s1 0 (be32 server_time)) (\<lambda>s1.
     bindR (copy_at s1 4 SERVER_DIGEST_VERSION) (\<lambda>s1.
     bindR (digest_offset s1 base) (\<lambda>off.
     bindR (digest_without s1 off FMS_KEY_TEXT) (\<lambda>digest.
     bindR (copy_at s1 off digest) (\<lambda>s1.
     let s2 = fill_random clk2 HANDSHAKE_SIZE; sig_at = HANDSHAKE_SIZE - DIGEST_LEN in
     bindR fms_full_key (\<lambda>full_key.
     bindR (hmac_sha256 full_key [c1_digest]) (\<lambda>sign_key.
     bindR (subslice s2 0 sig_at) (\<lambda>signed.
     bindR (hmac_sha256 sign_key [signed]) (\<lambda>signature.
     bindR (copy_at s2 sig_at signature) (\<lambda>s2. Inr (s1, s2))))))))))))"

section \<open>Server side\<close>

text \<open>The two \<open>&mut\<close> arguments of every step: the handshake and the input buffer.\<close>

type_synonym hs_ctx = "handshake \<times> buffer"

definition on_in :: "(buffer, 'a) op \<Rightarrow> (hs_ctx, 'a) op" where
  "on_in = zoomS snd (\<lambda>b (hs, _). (hs, b))"

definition on_hs_out :: "(buffer, 'a) op \<Rightarrow> (hs_ctx, 'a) op" where
  "on_hs_out = zoomS (hs_out \<circ> fst) (\<lambda>b (hs, i). (hs\<lparr>hs_out := b\<rparr>, i))"

definition mod_hs :: "(handshake \<Rightarrow> handshake) \<Rightarrow> (hs_ctx, unit) op" where
  "mod_hs f = modS (\<lambda>(hs, i). (f hs, i))"

definition server_init :: "handshake \<Rightarrow> handshake" where
  "server_init hs = hs\<lparr>hs_state := ServerWaitC0, hs_version := 0, hs_peer_time := 0\<rparr>"

text \<open>Reading a version byte, shared by C0 and S0, which differ in the next state.\<close>

definition read_version :: "handshake_state \<Rightarrow> (hs_ctx, unit) op" where
  "read_version next_state =
     bindS (on_in (map_errS EIo (buf_read 1))) (\<lambda>ver.
     bindS (liftS (idx ver 0)) (\<lambda>v.
       if v \<noteq> RTMP_VERSION then failS (Err EHandshake)
       else mod_hs (\<lambda>hs. hs\<lparr>hs_version := v, hs_state := next_state\<rparr>)))"

definition server_read_c0 :: "(hs_ctx, unit) op" where
  "server_read_c0 = read_version ServerWaitC1"

text \<open>\<open>if buf.available() < 1536 { return Err(Io) } buf.read(&mut block)\<close>\<close>

definition read_block :: "(hs_ctx, bytes) op" where
  "read_block = on_in (bindS (getS buf_available) (\<lambda>a.
     if a < HANDSHAKE_SIZE then failS (Err EIo) else map_errS EIo (buf_read HANDSHAKE_SIZE)))"

definition plain_s1s2 :: "clock \<Rightarrow> bytes \<Rightarrow> u32 \<Rightarrow> (bytes \<times> bytes) result" where
  "plain_s1s2 clk c1 server_time =
     bindR (copy_at (replicate HANDSHAKE_SIZE 0) 0 (be32 server_time)) (\<lambda>s1.
     bindR (copy_at s1 8 (fill_random clk (HANDSHAKE_SIZE - 8))) (\<lambda>s1.
     bindR (copy_at c1 4 (be32 server_time)) (\<lambda>s2. Inr (s1, s2))))"

definition answer_c1 :: "clock \<Rightarrow> clock \<Rightarrow> bytes \<Rightarrow> u32 \<Rightarrow> (bytes \<times> bytes \<times> handshake_mode) result" where
  "answer_c1 clk1 clk2 c1 server_time =
     bindR (c1_requests_complex_handshake c1) (\<lambda>complex.
     bindR (if complex then find_c1_digest c1 else Inr None) (\<lambda>found.
       case found of
         Some (base, c1_digest) \<Rightarrow>
           bindR (build_digest_s1s2 clk1 clk2 base c1_digest server_time) (\<lambda>(s1, s2).
             Inr (s1, s2, HsDigest base))
       | None \<Rightarrow>
           bindR (plain_s1s2 clk1 c1 server_time) (\<lambda>(s1, s2).
             Inr (s1, s2, if complex then HsSimpleFallback else HsSimple))))"

definition server_read_c1_mode :: "clock \<Rightarrow> clock \<Rightarrow> clock \<Rightarrow> (hs_ctx, handshake_mode) op" where
  "server_read_c1_mode clk0 clk1 clk2 =
     bindS read_block (\<lambda>c1.
     bindS (liftS (bindR (subslice c1 0 4) ntoh32)) (\<lambda>t.
     thenS (mod_hs (\<lambda>hs. hs\<lparr>hs_peer_time := t\<rparr>))
     (bindS (liftS (answer_c1 clk1 clk2 c1 (get_time clk0))) (\<lambda>(s1, s2, mode).
       thenS (mod_hs (\<lambda>hs. hs\<lparr>hs_out := buf_reset (hs_out hs)\<rparr>))
       (thenS (on_hs_out (map_errS EInternal (buf_write s1)))
       (thenS (on_hs_out (map_errS EInternal (buf_write s2)))
       (thenS (mod_hs (\<lambda>hs. hs\<lparr>hs_state := ServerWaitC2\<rparr>))
         (retS mode))))))))"

definition server_read_c1 :: "clock \<Rightarrow> clock \<Rightarrow> clock \<Rightarrow> (hs_ctx, unit) op" where
  "server_read_c1 clk0 clk1 clk2 = voidS (server_read_c1_mode clk0 clk1 clk2)"

definition server_read_c2 :: "(hs_ctx, unit) op" where
  "server_read_c2 = thenS read_block (mod_hs (\<lambda>hs. hs\<lparr>hs_state := HsDone\<rparr>))"

section \<open>Client side\<close>

definition client_init :: "handshake \<Rightarrow> handshake" where
  "client_init hs = hs\<lparr>hs_state := ClientWaitS0, hs_version := 0, hs_peer_time := 0\<rparr>"

definition client_c0c1 :: "clock \<Rightarrow> u32 \<Rightarrow> bytes result" where
  "client_c0c1 clk client_time =
     bindR (set_idx (replicate (1 + HANDSHAKE_SIZE) 0) 0 RTMP_VERSION) (\<lambda>c.
     bindR (copy_at c 1 (be32 client_time)) (\<lambda>c.
       copy_at c 9 (fill_random clk (1 + HANDSHAKE_SIZE - 9))))"

definition client_generate_c0c1 :: "clock \<Rightarrow> clock \<Rightarrow> (hs_ctx, unit) op" where
  "client_generate_c0c1 clk0 clk1 =
     thenS (mod_hs (\<lambda>hs. hs\<lparr>hs_peer_time := get_time clk0\<rparr>))
     (bindS (liftS (client_c0c1 clk1 (get_time clk0))) (\<lambda>c0c1.
       thenS (mod_hs (\<lambda>hs. hs\<lparr>hs_out := buf_reset (hs_out hs)\<rparr>))
       (thenS (on_hs_out (map_errS EInternal (buf_write c0c1)))
         (mod_hs (\<lambda>hs. hs\<lparr>hs_state := ClientWaitS0\<rparr>)))))"

definition client_read_s0 :: "(hs_ctx, unit) op" where
  "client_read_s0 = read_version ClientWaitS1"

definition client_read_s1 :: "clock \<Rightarrow> (hs_ctx, unit) op" where
  "client_read_s1 clk =
     bindS read_block (\<lambda>s1.
     bindS (liftS (bindR (subslice s1 0 4) ntoh32)) (\<lambda>t.
     thenS (mod_hs (\<lambda>hs. hs\<lparr>hs_peer_time := t\<rparr>))
     (bindS (liftS (copy_at s1 4 (be32 (get_time clk)))) (\<lambda>c2.
       thenS (mod_hs (\<lambda>hs. hs\<lparr>hs_out := buf_reset (hs_out hs)\<rparr>))
       (thenS (on_hs_out (map_errS EInternal (buf_write c2)))
         (mod_hs (\<lambda>hs. hs\<lparr>hs_state := ClientWaitS2\<rparr>)))))))"

definition client_read_s2 :: "(hs_ctx, unit) op" where
  "client_read_s2 = thenS read_block (mod_hs (\<lambda>hs. hs\<lparr>hs_state := HsDone\<rparr>))"

section \<open>What a digest and an answer are\<close>

definition digest_pos :: "bytes \<Rightarrow> nat \<Rightarrow> nat" where
  "digest_pos buf base = base + 4 + sum_list (map unat (take 4 (drop base buf))) mod 728"

text \<open>The check a peer makes: the 32 bytes at the position the block selects are the keyed hash of the rest.\<close>

definition digest_valid :: "bytes \<Rightarrow> bytes \<Rightarrow> nat \<Rightarrow> bool" where
  "digest_valid key buf base \<longleftrightarrow>
     take 32 (drop (digest_pos buf base) buf)
       = hmac_ref key (take (digest_pos buf base) buf @ drop (digest_pos buf base + 32) buf)"

text \<open>\<open>block @ tail\<close> with \<open>tail\<close> the signature of \<open>block\<close> under the key derived from the client's digest.\<close>

definition signed_with :: "bytes \<Rightarrow> bytes \<Rightarrow> bool" where
  "signed_with c1_digest s2 \<longleftrightarrow>
     drop 1504 s2 = hmac_ref (hmac_ref (FMS_KEY_TEXT @ HANDSHAKE_KEY_TAIL) c1_digest) (take 1504 s2)"

definition announces_digest :: "bytes \<Rightarrow> bool" where
  "announces_digest c1 \<longleftrightarrow> take 4 (drop 4 c1) \<noteq> [0, 0, 0, 0]"

definition echoes :: "bytes \<Rightarrow> u32 \<Rightarrow> bytes \<Rightarrow> bool" where
  "echoes c1 t s2 \<longleftrightarrow> s2 = take 4 c1 @ be32 t @ drop 8 c1"

fun answers :: "bytes \<Rightarrow> u32 \<Rightarrow> handshake_mode \<Rightarrow> bytes \<Rightarrow> bytes \<Rightarrow> bool" where
  "answers c1 t (HsDigest base) s1 s2 \<longleftrightarrow>
     announces_digest c1 \<and> (base = 772 \<or> base = 8 \<and> \<not> digest_valid FP_KEY_TEXT c1 772) \<and>
     digest_valid FP_KEY_TEXT c1 base \<and> digest_valid FMS_KEY_TEXT s1 base \<and>
     take 8 s1 = be32 t @ SERVER_DIGEST_VERSION \<and>
     signed_with (take 32 (drop (digest_pos c1 base) c1)) s2"
| "answers c1 t HsSimpleFallback s1 s2 \<longleftrightarrow>
     announces_digest c1 \<and> \<not> digest_valid FP_KEY_TEXT c1 772 \<and> \<not> digest_valid FP_KEY_TEXT c1 8 \<and>
     take 8 s1 = be32 t @ [0, 0, 0, 0] \<and> echoes c1 t s2"
| "answers c1 t HsSimple s1 s2 \<longleftrightarrow>
     \<not> announces_digest c1 \<and> take 8 s1 = be32 t @ [0, 0, 0, 0] \<and> echoes c1 t s2"

section \<open>The digest arithmetic stays in range\<close>

lemma length_random_fill [simp]: "length (random_fill st n) = n"
  by (induction st n rule: random_fill.induct)
    (subst random_fill.simps, auto simp: min_def split: prod.split)

lemma length_fill_random [simp]: "length (fill_random clk n) = n"
  by (simp add: fill_random_def)

lemma digest_pos_range:
  "base + 4 \<le> digest_pos buf base" "digest_pos buf base < base + 732"
  using mod_less_divisor [of 728 "sum_list (map unat (take 4 (drop base buf)))"]
  by (simp_all add: digest_pos_def)

lemma digest_offset_eq: "base + 4 \<le> length buf \<Longrightarrow> digest_offset buf base = Inr (digest_pos buf base)"
  by (simp add: digest_offset_def digest_pos_def)

lemma digest_without_eq:
  "off + 32 \<le> length buf \<Longrightarrow>
   digest_without buf off key = Inr (hmac_ref key (take off buf @ drop (off + 32) buf))"
  by (simp add: digest_without_def DIGEST_LEN_def hmac_sha256_eq)

lemma base_fits: "base = 772 \<or> base = 8 \<Longrightarrow> digest_pos buf base + 32 \<le> 1536"
  using digest_pos_range(2) [of buf base] by auto

lemma c1_digest_at_eq:
  assumes "length c1 = 1536" "base = 772 \<or> base = 8"
  shows "c1_digest_at c1 base = Inr (if digest_valid FP_KEY_TEXT c1 base
    then Some (base, take 32 (drop (digest_pos c1 base) c1)) else None)"
proof -
  have "base + 4 \<le> length c1" using assms by auto
  with base_fits [OF assms(2), of c1] assms(1) show ?thesis
    by (simp add: c1_digest_at_def digest_offset_eq digest_without_eq DIGEST_LEN_def digest_valid_def eq_commute)
qed

lemma find_c1_digest_eq:
  assumes "length c1 = 1536"
  shows "find_c1_digest c1 = Inr
    (if digest_valid FP_KEY_TEXT c1 772 then Some (772, take 32 (drop (digest_pos c1 772) c1))
     else if digest_valid FP_KEY_TEXT c1 8 then Some (8, take 32 (drop (digest_pos c1 8) c1)) else None)"
  by (simp add: find_c1_digest_def DIGEST_BLOCK_BASES_def c1_digest_at_eq [OF assms])

lemma c1_requests_complex_eq:
  assumes "length c1 = 1536"
  shows "c1_requests_complex_handshake c1 = Inr (announces_digest c1)"
proof -
  have "take 4 (drop 4 c1) = [c1 ! 4, c1 ! 5, c1 ! 6, c1 ! 7]"
    using assms by (simp add: list_eq_iff_nth_eq less_Suc_eq numeral_eq_Suc)
  then show ?thesis
    using assms by (simp add: c1_requests_complex_handshake_def HANDSHAKE_SIZE_def announces_digest_def)
qed

lemma fms_full_key_eq: "fms_full_key = Inr (FMS_KEY_TEXT @ HANDSHAKE_KEY_TAIL)"
  by (simp add: fms_full_key_def FMS_KEY_TEXT_def HANDSHAKE_KEY_TAIL_def)

text \<open>Writing the digest at its position changes neither the position nor what is hashed.\<close>

lemma digest_pos_copy:
  assumes "base + 4 \<le> off" "off \<le> length buf"
  shows "digest_pos (take off buf @ d) base = digest_pos buf base"
  using assms by (simp add: digest_pos_def drop_take min_def)

lemma digest_valid_written:
  assumes "length buf = 1536" "base = 772 \<or> base = 8" "off = digest_pos buf base"
    "d = hmac_ref key (take off buf @ drop (off + 32) buf)" "length d = 32"
  shows "digest_valid key (take off buf @ d @ drop (off + 32) buf) base"
proof -
  have "off \<le> length buf" "base + 4 \<le> off"
    using base_fits [OF assms(2), of buf] digest_pos_range(1) [of base buf] assms(1,3) by auto
  then show ?thesis
    using assms(3-5) by (simp add: digest_valid_def digest_pos_copy)
qed

section \<open>The answer to C1\<close>

lemma length_hmac_ref [simp]: "length (hmac_ref key msg) = 32"
  by (simp add: hmac_ref_def)

lemma digest_s1_valid:
  assumes base: "base = 772 \<or> base = 8" and s1: "length s1 = 1536" "take 8 s1 = h"
  obtains s1' where "bindR (digest_offset s1 base) (\<lambda>off. bindR (digest_without s1 off key) (copy_at s1 off))
      = Inr s1'" "length s1' = 1536" "take 8 s1' = h" "digest_valid key s1' base"
proof
  let ?off = "digest_pos s1 base"
  let ?d = "hmac_ref key (take ?off s1 @ drop (?off + 32) s1)"
  let ?s = "take ?off s1 @ ?d @ drop (?off + 32) s1"
  have fit: "?off + 32 \<le> length s1" "base + 4 \<le> length s1" "8 \<le> ?off"
    using base_fits [OF base, of s1] digest_pos_range(1) [of base s1] base s1 by auto
  show "bindR (digest_offset s1 base) (\<lambda>off. bindR (digest_without s1 off key) (copy_at s1 off)) = Inr ?s"
    using fit by (simp add: digest_offset_eq digest_without_eq)
  show "length ?s = 1536" "take 8 ?s = h" using fit s1 by (simp_all add: min_def)
  show "digest_valid key ?s base" by (rule digest_valid_written [OF s1(1) base refl refl]) simp
qed

lemma s2_signed:
  assumes "length s2 = 1536"
  obtains s2' where "bindR fms_full_key (\<lambda>k. bindR (hmac_sha256 k [d]) (\<lambda>sk.
      bindR (subslice s2 0 1504) (\<lambda>sg. bindR (hmac_sha256 sk [sg]) (copy_at s2 1504)))) = Inr s2'"
    "length s2' = 1536" "signed_with d s2'"
proof
  let ?s = "take 1504 s2 @ hmac_ref (hmac_ref (FMS_KEY_TEXT @ HANDSHAKE_KEY_TAIL) d) (take 1504 s2)"
  show "bindR fms_full_key (\<lambda>k. bindR (hmac_sha256 k [d]) (\<lambda>sk.
      bindR (subslice s2 0 1504) (\<lambda>sg. bindR (hmac_sha256 sk [sg]) (copy_at s2 1504)))) = Inr ?s"
    using assms by (simp add: fms_full_key_eq hmac_sha256_eq)
  show "length ?s = 1536" "signed_with d ?s"
    using assms by (simp_all add: signed_with_def)
qed

lemma build_digest_shape:
  "build_digest_s1s2 clk1 clk2 base d t =
     (let s1 = be32 t @ SERVER_DIGEST_VERSION @ fill_random clk1 1528; s2 = fill_random clk2 1536 in
      bindR (bindR (digest_offset s1 base) (\<lambda>off. bindR (digest_without s1 off FMS_KEY_TEXT) (copy_at s1 off)))
        (\<lambda>s1'. bindR (bindR fms_full_key (\<lambda>k. bindR (hmac_sha256 k [d]) (\<lambda>sk.
          bindR (subslice s2 0 1504) (\<lambda>sg. bindR (hmac_sha256 sk [sg]) (copy_at s2 1504)))))
        (\<lambda>s2'. Inr (s1', s2'))))"
  by (simp add: build_digest_s1s2_def HANDSHAKE_SIZE_def DIGEST_LEN_def SERVER_DIGEST_VERSION_def Let_def bindR_assoc)

lemma build_digest_ok:
  assumes base: "base = 772 \<or> base = 8"
  obtains s1 s2 where "build_digest_s1s2 clk1 clk2 base d t = Inr (s1, s2)" "length s1 = 1536"
    "length s2 = 1536" "take 8 s1 = be32 t @ SERVER_DIGEST_VERSION" "digest_valid FMS_KEY_TEXT s1 base"
    "signed_with d s2"
proof -
  let ?s1 = "be32 t @ SERVER_DIGEST_VERSION @ fill_random clk1 1528"
  have "length ?s1 = 1536" "take 8 ?s1 = be32 t @ SERVER_DIGEST_VERSION"
    by (simp_all add: SERVER_DIGEST_VERSION_def)
  from digest_s1_valid [OF base this, of FMS_KEY_TEXT] obtain s1 where
    s1: "bindR (digest_offset ?s1 base) (\<lambda>off. bindR (digest_without ?s1 off FMS_KEY_TEXT) (copy_at ?s1 off))
      = Inr s1" "length s1 = 1536" "take 8 s1 = be32 t @ SERVER_DIGEST_VERSION" "digest_valid FMS_KEY_TEXT s1 base"
    by blast
  let ?s2 = "fill_random clk2 1536"
  obtain s2 where s2: "bindR fms_full_key (\<lambda>k. bindR (hmac_sha256 k [d]) (\<lambda>sk.
      bindR (subslice ?s2 0 1504) (\<lambda>sg. bindR (hmac_sha256 sk [sg]) (copy_at ?s2 1504)))) = Inr s2"
    "length s2 = 1536" "signed_with d s2"
    by (rule s2_signed [OF length_fill_random [of clk2 1536]])
  show thesis
    by (rule that [OF _ s1(2) s2(2) s1(3,4) s2(3)]) (simp only: build_digest_shape Let_def s1(1) s2(1) bindR_simps)
qed

lemma plain_s1s2_ok:
  assumes "length c1 = 1536"
  shows "plain_s1s2 clk c1 t = Inr (be32 t @ replicate 4 0 @ fill_random clk 1528, take 4 c1 @ be32 t @ drop 8 c1)"
  using assms by (simp add: plain_s1s2_def HANDSHAKE_SIZE_def)

lemma answer_c1_ok:
  assumes c1: "length c1 = 1536"
  obtains s1 s2 mode where "answer_c1 clk1 clk2 c1 t = Inr (s1, s2, mode)" "length s1 = 1536"
    "length s2 = 1536" "answers c1 t mode s1 s2"
proof (cases "announces_digest c1 \<and> (digest_valid FP_KEY_TEXT c1 772 \<or> digest_valid FP_KEY_TEXT c1 8)")
  case True
  define base :: nat where "base = (if digest_valid FP_KEY_TEXT c1 772 then 772 else 8)"
  then have b: "base = 772 \<or> base = 8" by simp
  obtain s1 s2 where s: "build_digest_s1s2 clk1 clk2 base (take 32 (drop (digest_pos c1 base) c1)) t = Inr (s1, s2)"
    "length s1 = 1536" "length s2 = 1536" "take 8 s1 = be32 t @ SERVER_DIGEST_VERSION"
    "digest_valid FMS_KEY_TEXT s1 base" "signed_with (take 32 (drop (digest_pos c1 base) c1)) s2"
    by (rule build_digest_ok [OF b])
  have "find_c1_digest c1 = Inr (Some (base, take 32 (drop (digest_pos c1 base) c1)))"
    using True by (auto simp: find_c1_digest_eq [OF c1] base_def)
  then have "answer_c1 clk1 clk2 c1 t = Inr (s1, s2, HsDigest base)"
    using True s(1) by (simp add: answer_c1_def c1_requests_complex_eq [OF c1])
  moreover have "answers c1 t (HsDigest base) s1 s2"
    using True s by (auto simp: base_def)
  ultimately show thesis using that s(2,3) by blast
next
  case False
  let ?mode = "if announces_digest c1 then HsSimpleFallback else HsSimple"
  let ?s1 = "be32 t @ replicate 4 0 @ fill_random clk1 1528" and ?s2 = "take 4 c1 @ be32 t @ drop 8 c1"
  have "answer_c1 clk1 clk2 c1 t = Inr (?s1, ?s2, ?mode)"
    using False by (simp add: answer_c1_def c1_requests_complex_eq [OF c1] plain_s1s2_ok [OF c1] find_c1_digest_eq [OF c1])
  moreover have "answers c1 t ?mode ?s1 ?s2"
    using False by (auto simp: echoes_def numeral_eq_Suc)
  ultimately show thesis using that [of ?s1 ?s2] c1 by simp
qed

section \<open>What each step does to the buffers\<close>

lemma on_in_eq: "m i = (r, i') \<Longrightarrow> on_in m (hs, i) = (r, (hs, i'))"
  by (simp add: on_in_def zoomS_def)

lemma mod_hs_eq [simp]: "mod_hs f (hs, i) = (Inr (), (f hs, i))"
  by (simp add: mod_hs_def)

lemma read_block_short:
  "buf_inv i \<Longrightarrow> length (contents i) < 1536 \<Longrightarrow> read_block (hs, i) = (err EIo, (hs, i))"
  unfolding read_block_def by (rule on_in_eq) (simp add: bindS_apply buf_available_contents HANDSHAKE_SIZE_def)

lemma read_block_ok:
  assumes "buf_inv i" "1536 \<le> length (contents i)"
  obtains i' where "read_block (hs, i) = (Inr (take 1536 (contents i)), (hs, i'))" "buf_inv i'"
    "contents i' = drop 1536 (contents i)" "buf_owned i' = buf_owned i"
proof (rule that [OF _ buf_read_ok(2,3) [OF assms]])
  show "read_block (hs, i) = (Inr (take 1536 (contents i)), (hs, i\<lparr>buf_rpos := buf_rpos i + 1536\<rparr>))"
    unfolding read_block_def by (rule on_in_eq)
      (use assms in \<open>simp add: bindS_apply map_errS_apply buf_available_contents HANDSHAKE_SIZE_def buf_read_ok(1)\<close>)
qed simp

lemma read_version_ok:
  assumes "buf_inv i" "contents i = RTMP_VERSION # rest"
  obtains i' where "read_version st (hs, i) = (Inr (), (hs\<lparr>hs_version := RTMP_VERSION, hs_state := st\<rparr>, i'))"
    "buf_inv i'" "contents i' = rest" "buf_owned i' = buf_owned i"
proof -
  have l: "1 \<le> length (contents i)" by (simp add: assms)
  let ?i = "i\<lparr>buf_rpos := buf_rpos i + 1\<rparr>"
  have "on_in (map_errS EIo (buf_read 1)) (hs, i) = (Inr [RTMP_VERSION], (hs, ?i))"
    by (rule on_in_eq) (simp add: map_errS_apply buf_read_ok(1) [OF assms(1) l] assms(2) take_Cons' del: One_nat_def)
  then have "read_version st (hs, i) = (Inr (), (hs\<lparr>hs_version := RTMP_VERSION, hs_state := st\<rparr>, ?i))"
    by (simp add: read_version_def bindS_apply)
  then show thesis
    by (rule that) (use buf_read_ok(2,3) [OF assms(1) l] assms(2) in simp_all)
qed

text \<open>Queueing the reply: \<open>hs.out.reset()\<close> and writes that fit a fresh buffer.\<close>

lemma queue_reply:
  assumes "buf_owned (hs_out hs)" "buf_inv (hs_out hs)" "length (contents (hs_out hs)) + length d \<le> 4096"
  obtains out' where "on_hs_out (map_errS EInternal (buf_write d)) (hs, i) = (Inr (length d), (hs\<lparr>hs_out := out'\<rparr>, i))"
    "buf_inv out'" "buf_owned out'" "contents out' = contents (hs_out hs) @ d"
proof -
  have "buf_room (hs_out hs) (length d)"
    using assms by (simp add: buf_room_owned BUFFER_MAX_SIZE_def)
  from buf_write_ok [OF assms(2) this] obtain out' where o: "buf_write d (hs_out hs) = (Inr (length d), out')"
    "buf_inv out'" "contents out' = contents (hs_out hs) @ d" "buf_owned out' = buf_owned (hs_out hs)" by blast
  show thesis
    by (rule that [of out']) (use o assms in \<open>simp_all add: on_hs_out_def zoomS_def\<close>)
qed

lemma ntoh32_front:
  assumes "4 \<le> length c"
  obtains t where "bindR (subslice c 0 4) ntoh32 = Inr t" "take 4 c = be32 t"
proof -
  have "\<exists>b0 b1 b2 b3 r. c = b0 # b1 # b2 # b3 # r"
    using assms by (auto simp: numeral_eq_Suc Suc_le_length_iff)
  then obtain b0 b1 b2 b3 r where c: "c = b0 # b1 # b2 # b3 # r" by blast
  show thesis
    by (rule that [of "u32_be b0 b1 b2 b3"]) (simp_all add: c ntoh32_def be_simps)
qed

lemma server_read_c1_ok:
  assumes hs: "buf_owned (hs_out hs)" and i: "buf_inv i" "1536 \<le> length (contents i)"
  obtains mode s1 s2 t out' i' where
    "server_read_c1_mode clk0 clk1 clk2 (hs, i)
       = (Inr mode, (hs\<lparr>hs_peer_time := t, hs_out := out', hs_state := ServerWaitC2\<rparr>, i'))"
    "answers (take 1536 (contents i)) (get_time clk0) mode s1 s2" "length s1 = 1536" "length s2 = 1536"
    "take 4 (contents i) = be32 t" "buf_inv out'" "buf_owned out'" "contents out' = s1 @ s2"
    "buf_inv i'" "contents i' = drop 1536 (contents i)" "buf_owned i' = buf_owned i"
proof -
  obtain i' where rb: "read_block (hs, i) = (Inr (take 1536 (contents i)), (hs, i'))" "buf_inv i'"
    "contents i' = drop 1536 (contents i)" "buf_owned i' = buf_owned i" by (rule read_block_ok [OF i])
  let ?c1 = "take 1536 (contents i)"
  have len: "length ?c1 = 1536" using i by simp
  then have "4 \<le> length ?c1" by simp
  then obtain t where t: "bindR (subslice ?c1 0 4) ntoh32 = Inr t" "take 4 ?c1 = be32 t" by (rule ntoh32_front)
  obtain s1 s2 mode where a: "answer_c1 clk1 clk2 ?c1 (get_time clk0) = Inr (s1, s2, mode)" "length s1 = 1536"
    "length s2 = 1536" "answers ?c1 (get_time clk0) mode s1 s2" by (rule answer_c1_ok [OF len])
  let ?h = "hs\<lparr>hs_peer_time := t, hs_out := buf_reset (hs_out hs)\<rparr>"
  obtain o1 where o1: "on_hs_out (map_errS EInternal (buf_write s1)) (?h, i') = (Inr (length s1), (?h\<lparr>hs_out := o1\<rparr>, i'))"
    "buf_inv o1" "buf_owned o1" "contents o1 = s1"
    by (rule queue_reply [of ?h s1 i']) (use hs a(2) in simp_all)
  obtain o2 where o2: "on_hs_out (map_errS EInternal (buf_write s2)) (?h\<lparr>hs_out := o1\<rparr>, i')
      = (Inr (length s2), (?h\<lparr>hs_out := o1, hs_out := o2\<rparr>, i'))"
    "buf_inv o2" "buf_owned o2" "contents o2 = s1 @ s2"
    by (rule queue_reply [of "?h\<lparr>hs_out := o1\<rparr>" s2 i']) (use o1 a(2,3) in simp_all)
  have "server_read_c1_mode clk0 clk1 clk2 (hs, i)
      = (Inr mode, (hs\<lparr>hs_peer_time := t, hs_out := o2, hs_state := ServerWaitC2\<rparr>, i'))"
    using o1(1) o2(1) by (simp add: server_read_c1_mode_def bindS_apply thenS_apply rb(1) t(1) a(1))
  then show thesis by (rule that) (use a o2 rb t in \<open>simp_all add: min_def\<close>)
qed

lemma server_read_c1_short:
  "buf_inv i \<Longrightarrow> length (contents i) < 1536 \<Longrightarrow>
   server_read_c1_mode clk0 clk1 clk2 (hs, i) = (err EIo, (hs, i))"
  by (simp add: server_read_c1_mode_def read_block_short)

lemma read_last_block:
  assumes "buf_inv i" "1536 \<le> length (contents i)"
  obtains i' where "thenS read_block (mod_hs f) (hs, i) = (Inr (), (f hs, i'))" "buf_inv i'"
    "contents i' = drop 1536 (contents i)" "buf_owned i' = buf_owned i"
  using read_block_ok [OF assms, of hs] by (metis mod_hs_eq thenS_Inr)

lemma client_c0c1_eq:
  "client_c0c1 clk t = Inr (RTMP_VERSION # be32 t @ replicate 4 0 @ fill_random clk 1528)"
proof -
  have "(replicate 1537 0)[0 := RTMP_VERSION] = RTMP_VERSION # replicate 1536 (0 :: u8)"
    by (simp add: numeral_eq_Suc del: replicate_Suc) (simp add: replicate_Suc)
  then show ?thesis
    by (simp add: client_c0c1_def HANDSHAKE_SIZE_def take_Cons')
qed

lemma client_generate_c0c1_ok:
  assumes "buf_owned (hs_out hs)"
  obtains out' where "client_generate_c0c1 clk0 clk1 (hs, i)
      = (Inr (), (hs\<lparr>hs_peer_time := get_time clk0, hs_out := out', hs_state := ClientWaitS0\<rparr>, i))"
    "buf_inv out'" "buf_owned out'"
    "contents out' = RTMP_VERSION # be32 (get_time clk0) @ replicate 4 0 @ fill_random clk1 1528"
proof -
  let ?c = "RTMP_VERSION # be32 (get_time clk0) @ replicate 4 0 @ fill_random clk1 1528"
  let ?h = "hs\<lparr>hs_peer_time := get_time clk0, hs_out := buf_reset (hs_out hs)\<rparr>"
  obtain o1 where o1: "on_hs_out (map_errS EInternal (buf_write ?c)) (?h, i) = (Inr (length ?c), (?h\<lparr>hs_out := o1\<rparr>, i))"
    "buf_inv o1" "buf_owned o1" "contents o1 = contents (hs_out ?h) @ ?c"
    by (rule queue_reply [of ?h ?c i]) (use assms in simp_all)
  have "client_generate_c0c1 clk0 clk1 (hs, i)
      = (Inr (), (hs\<lparr>hs_peer_time := get_time clk0, hs_out := o1, hs_state := ClientWaitS0\<rparr>, i))"
    using o1(1) by (simp add: client_generate_c0c1_def bindS_apply thenS_apply client_c0c1_eq)
  then show thesis by (rule that) (use o1 in simp_all)
qed

lemma client_read_s1_ok:
  assumes hs: "buf_owned (hs_out hs)" and i: "buf_inv i" "1536 \<le> length (contents i)"
  obtains t out' i' where "client_read_s1 clk (hs, i)
      = (Inr (), (hs\<lparr>hs_peer_time := t, hs_out := out', hs_state := ClientWaitS2\<rparr>, i'))"
    "take 4 (contents i) = be32 t" "buf_inv out'" "buf_owned out'"
    "echoes (take 1536 (contents i)) (get_time clk) (contents out')"
    "buf_inv i'" "contents i' = drop 1536 (contents i)" "buf_owned i' = buf_owned i"
proof -
  obtain i' where rb: "read_block (hs, i) = (Inr (take 1536 (contents i)), (hs, i'))" "buf_inv i'"
    "contents i' = drop 1536 (contents i)" "buf_owned i' = buf_owned i" by (rule read_block_ok [OF i])
  let ?s1 = "take 1536 (contents i)"
  let ?c2 = "take 4 ?s1 @ be32 (get_time clk) @ drop 8 ?s1"
  have len: "length ?s1 = 1536" using i by simp
  then have "4 \<le> length ?s1" by simp
  then obtain t where t: "bindR (subslice ?s1 0 4) ntoh32 = Inr t" "take 4 ?s1 = be32 t" by (rule ntoh32_front)
  have c2: "copy_at ?s1 4 (be32 (get_time clk)) = Inr ?c2" using len by simp
  let ?h = "hs\<lparr>hs_peer_time := t, hs_out := buf_reset (hs_out hs)\<rparr>"
  obtain o1 where o1: "on_hs_out (map_errS EInternal (buf_write ?c2)) (?h, i') = (Inr (length ?c2), (?h\<lparr>hs_out := o1\<rparr>, i'))"
    "buf_inv o1" "buf_owned o1" "contents o1 = contents (hs_out ?h) @ ?c2"
    by (rule queue_reply [of ?h ?c2 i']) (use hs len in simp_all)
  have "client_read_s1 clk (hs, i) = (Inr (), (hs\<lparr>hs_peer_time := t, hs_out := o1, hs_state := ClientWaitS2\<rparr>, i'))"
    unfolding client_read_s1_def bindS_apply thenS_apply rb(1) prod.case sum.case liftS_apply t(1) c2 mod_hs_eq
    using o1(1) by simp
  then show thesis by (rule that) (use o1 rb t in \<open>simp_all add: min_def echoes_def\<close>)
qed

section \<open>Properties\<close>

text \<open>C7: The server's answer to C1, for every input buffer. With fewer than 1536 bytes it returns
  \<open>Io\<close> and changes nothing. Otherwise it never panics or fails: it consumes exactly the 1536 bytes of
  C1, moves to \<open>ServerWaitC2\<close> and queues exactly 1536 + 1536 bytes. A C1 with a valid digest (block 772
  before block 8) is answered by an S1 whose own digest verifies under the server key at the same
  block and an S2 signed with the key derived from the client's digest; any other C1 by a plain S1 and
  an S2 that echoes C1 with the server's time.\<close>
theorem server_answers_c1:
  assumes "buf_owned (hs_out hs)" and "buf_inv i"
  shows "if length (contents i) < 1536 then server_read_c1_mode clk0 clk1 clk2 (hs, i) = (err EIo, (hs, i))
    else \<exists>mode s1 s2 hs' i'. server_read_c1_mode clk0 clk1 clk2 (hs, i) = (Inr mode, (hs', i')) \<and>
      contents i' = drop 1536 (contents i) \<and> hs_state hs' = ServerWaitC2 \<and>
      be32 (hs_peer_time hs') = take 4 (contents i) \<and>
      contents (hs_out hs') = s1 @ s2 \<and> length s1 = 1536 \<and> length s2 = 1536 \<and>
      answers (take 1536 (contents i)) (get_time clk0) mode s1 s2"
proof (cases "length (contents i) < 1536")
  case True
  then show ?thesis using server_read_c1_short [OF assms(2)] by simp
next
  case False
  then have "1536 \<le> length (contents i)" by simp
  from server_read_c1_ok [OF assms this, of clk0 clk1 clk2] False show ?thesis by fastforce
qed

text \<open>Witness for C14: an all-zero C1 followed by one more byte.\<close>
theorem server_answers_c1_witness:
  "\<exists>mode s1 s2 hs' i'.
     server_read_c1_mode \<lparr>clk_secs = 7, clk_nanos = 0, clk_counter = 0\<rparr>
       \<lparr>clk_secs = 7, clk_nanos = 1, clk_counter = 0\<rparr> \<lparr>clk_secs = 7, clk_nanos = 2, clk_counter = 1\<rparr>
       (handshake_default, buf_from_slice (replicate 1536 0 @ [9])) = (Inr mode, (hs', i')) \<and>
     contents i' = [9] \<and> hs_state hs' = ServerWaitC2 \<and>
     contents (hs_out hs') = s1 @ s2 \<and> length s1 = 1536 \<and> length s2 = 1536 \<and>
     answers (replicate 1536 0) 7 mode s1 s2"
proof -
  let ?i = "buf_from_slice (replicate 1536 0 @ [9])"
  have "buf_owned (hs_out handshake_default)" by (simp add: handshake_default_def)
  from server_answers_c1 [OF this, of ?i "\<lparr>clk_secs = 7, clk_nanos = 0, clk_counter = 0\<rparr>"
      "\<lparr>clk_secs = 7, clk_nanos = 1, clk_counter = 0\<rparr>" "\<lparr>clk_secs = 7, clk_nanos = 2, clk_counter = 1\<rparr>"]
  show ?thesis unfolding get_time_def by (simp del: answers.simps) blast
qed

end
