(* ===== verification/Session.thy ===== *)
theory Session
  imports Handshake Chunk_State
begin

text \<open>
  The parts of the session layer that are small state machines: the connection states and their
  transitions (\<open>src/src/session/state_machine.rs\<close>), the per-stream record (\<open>stream.rs\<close>), the table
  of publish routes (\<open>publish_route.rs\<close>) and the handshake driver of a server connection
  (\<open>src/src/session/conn.rs\<close>: \<open>do_handshake\<close> and the loop of \<open>recv\<close> up to the end of the handshake)
  with its counterpart in \<open>src/src/client/mod.rs\<close>.
\<close>

section \<open>Connection states\<close>

datatype conn_state =
    TcpAccepted | CsHandshake | Connected | CapsNegotiated | AppConnected
  | StreamCreated | Publishing | Playing | Closing | Closed

text \<open>The discriminants, which the derived \<open>Ord\<close> compares.\<close>

fun conn_state_num :: "conn_state \<Rightarrow> nat" where
  "conn_state_num TcpAccepted = 0"
| "conn_state_num CsHandshake = 1"
| "conn_state_num Connected = 2"
| "conn_state_num CapsNegotiated = 3"
| "conn_state_num AppConnected = 4"
| "conn_state_num StreamCreated = 5"
| "conn_state_num Publishing = 6"
| "conn_state_num Playing = 7"
| "conn_state_num Closing = 8"
| "conn_state_num Closed = 9"

lemma conn_state_num_inject [simp]: "conn_state_num a = conn_state_num b \<longleftrightarrow> a = b"
  by (cases a; cases b) simp_all

instantiation conn_state :: linorder
begin

definition less_eq_conn_state :: "conn_state \<Rightarrow> conn_state \<Rightarrow> bool" where
  "less_eq_conn_state a b \<longleftrightarrow> conn_state_num a \<le> conn_state_num b"

definition less_conn_state :: "conn_state \<Rightarrow> conn_state \<Rightarrow> bool" where
  "less_conn_state a b \<longleftrightarrow> conn_state_num a < conn_state_num b"

instance
  by standard (auto simp: less_eq_conn_state_def less_conn_state_def)

end

definition STATE_NAMES :: "string list" where
  "STATE_NAMES = [''TCP_ACCEPTED'', ''HANDSHAKE'', ''CONNECTED'', ''CAPS_NEGOTIATED'',
     ''APP_CONNECTED'', ''STREAM_CREATED'', ''PUBLISHING'', ''PLAYING'', ''CLOSING'', ''CLOSED'']"

definition conn_state_str :: "conn_state \<Rightarrow> string" where
  "conn_state_str s =
     (case get_opt STATE_NAMES (conn_state_num s) of Some n \<Rightarrow> n | None \<Rightarrow> ''UNKNOWN'')"

definition conn_transition :: "conn_state \<Rightarrow> (conn_state, unit) op" where
  "conn_transition new_state = (\<lambda>current.
     let peer_role_switch =
       (current, new_state) = (Playing, Publishing) \<or> (current, new_state) = (Publishing, Playing)
     in if \<not> peer_role_switch \<and> new_state < current then (err EProtocol, current)
        else (Inr (), new_state))"

section \<open>Streams\<close>

record stream =
  st_stream_id :: u32
  st_is_publishing :: bool
  st_is_playing :: bool
  st_name :: bytes
  st_paused :: bool
  st_receive_audio :: bool
  st_receive_video :: bool

definition stream_new :: "u32 \<Rightarrow> stream" where
  "stream_new sid = \<lparr>st_stream_id = sid, st_is_publishing = False, st_is_playing = False, st_name = [],
     st_paused = False, st_receive_audio = True, st_receive_video = True\<rparr>"

definition publish_begin :: "stream \<Rightarrow> stream" where
  "publish_begin st = st\<lparr>st_is_publishing := True\<rparr>"

definition play_begin :: "stream \<Rightarrow> stream" where
  "play_begin st = st\<lparr>st_is_playing := True\<rparr>"

section \<open>Publish routes\<close>

text \<open>The shared table behind a mutex; a poisoned mutex makes every \<open>lock()\<close> fail.\<close>

type_synonym route = "bytes \<times> bytes"

record route_registry =
  rr_routes :: "route \<rightharpoonup> u64"
  rr_poisoned :: bool

definition routes_new :: route_registry where
  "routes_new = \<lparr>rr_routes = Map.empty, rr_poisoned = False\<rparr>"

definition route_claim :: "u64 \<Rightarrow> bytes \<Rightarrow> bytes \<Rightarrow> route_registry \<Rightarrow> bool \<times> route_registry" where
  "route_claim conn_id app strm reg =
     (if rr_poisoned reg then (False, reg)
      else case rr_routes reg (app, strm) of
          Some owner \<Rightarrow>
            if owner \<noteq> conn_id then (False, reg)
            else (True, reg\<lparr>rr_routes := (rr_routes reg)((app, strm) \<mapsto> conn_id)\<rparr>)
        | None \<Rightarrow> (True, reg\<lparr>rr_routes := (rr_routes reg)((app, strm) \<mapsto> conn_id)\<rparr>))"

definition route_release :: "u64 \<Rightarrow> bytes \<Rightarrow> bytes \<Rightarrow> route_registry \<Rightarrow> route_registry" where
  "route_release conn_id app strm reg =
     (if \<not> rr_poisoned reg \<and> rr_routes reg (app, strm) = Some conn_id
      then reg\<lparr>rr_routes := (rr_routes reg)((app, strm) := None)\<rparr> else reg)"

definition route_force_release :: "bytes \<Rightarrow> bytes \<Rightarrow> route_registry \<Rightarrow> route_registry" where
  "route_force_release app strm reg =
     (if \<not> rr_poisoned reg then reg\<lparr>rr_routes := (rr_routes reg)((app, strm) := None)\<rparr> else reg)"

section \<open>The handshake of a server connection\<close>

datatype log_level = LogDebug | LogInfo | LogWarn | LogError

text \<open>The fields of \<open>Conn\<close> the handshake reads or writes.\<close>

record hs_conn =
  hc_state :: conn_state
  hc_handshake :: handshake
  hc_recv_buffer :: buffer
  hc_send_buffer :: buffer
  hc_has_fd :: bool
  hc_close_reason :: "(log_level \<times> bytes) option"
  hc_bytes_received :: u64

definition hs_conn_new :: hs_conn where
  "hs_conn_new = \<lparr>hc_state = TcpAccepted, hc_handshake = handshake_default, hc_recv_buffer = buf_new,
     hc_send_buffer = buf_new, hc_has_fd = True, hc_close_reason = None, hc_bytes_received = 0\<rparr>"

definition set_close_reason :: "log_level \<Rightarrow> bytes \<Rightarrow> hs_conn \<Rightarrow> hs_conn" where
  "set_close_reason level reason c =
     (if hc_close_reason c = None then c\<lparr>hc_close_reason := Some (level, reason)\<rparr> else c)"

definition run_hs :: "(hs_ctx, 'a) op \<Rightarrow> (hs_conn, 'a) op" where
  "run_hs = zoomS (\<lambda>c. (hc_handshake c, hc_recv_buffer c))
     (\<lambda>(h, i) c. c\<lparr>hc_handshake := h, hc_recv_buffer := i\<rparr>)"

definition on_send :: "(buffer, 'a) op \<Rightarrow> (hs_conn, 'a) op" where
  "on_send = zoomS hc_send_buffer (\<lambda>b c. c\<lparr>hc_send_buffer := b\<rparr>)"

text \<open>The clock readings of one call: \<open>get_time\<close>, and the seeds of S1 and S2.\<close>

type_synonym clocks = "clock \<times> clock \<times> clock"

text \<open>
  \<open>do_handshake_recurse\<close>. Its \<open>i32\<close> is 1, 0 or an error code; a panic is the failure of the model.
  The replies go out only on a connection with a socket.
\<close>

definition send_s0s1s2 :: "(hs_conn, int) op" where
  "send_s0s1s2 = (\<lambda>c.
     case (if hc_has_fd c
           then thenS (on_send (buf_write [0x03]))
             (bindS (getS (\<lambda>c. hs_out (hc_handshake c))) (\<lambda>q.
              bindS (liftS (buf_peek q)) (\<lambda>out_data. voidS (on_send (buf_write out_data))))) c
           else (Inr (), c)) of
       (Inl (Err _), c) \<Rightarrow> (Inr (error_code_as_i32 EInternal), c)
     | (Inl Panic, c) \<Rightarrow> (panic, c)
     | (Inr _, c) \<Rightarrow>
         (Inr 1, c\<lparr>hc_handshake := (hc_handshake c)\<lparr>hs_out := buf_reset (hs_out (hc_handshake c))\<rparr>\<rparr>))"

definition do_handshake_recurse :: "clocks \<Rightarrow> (hs_conn, int) op" where
  "do_handshake_recurse = (\<lambda>(clk0, clk1, clk2) c.
     case run_hs (server_read_c1_mode clk0 clk1 clk2) c of
       (Inr mode, c) \<Rightarrow> send_s0s1s2 c
     | (Inl (Err EIo), c) \<Rightarrow> (Inr 0, c)
     | (Inl (Err e), c) \<Rightarrow> (Inr (error_code_as_i32 e), c)
     | (Inl Panic, c) \<Rightarrow> (panic, c))"

definition hex_digit :: "nat \<Rightarrow> u8" where
  "hex_digit n = (if n < 10 then 48 + of_nat n else 87 + of_nat n)"

definition c0_hint :: "u8 \<Rightarrow> string" where
  "c0_hint c0 =
     (if c0 = 0x06 \<or> c0 = 0x08 then '' (RTMPE encrypted handshake, not supported)''
      else if c0 = 0x16 then '' (TLS ClientHello: RTMPS client on a plain RTMP port)''
      else if c0 = 0x47 \<or> c0 = 0x50 \<or> c0 = 0x48 then '' (HTTP request on the RTMP port)''
      else [])"

definition c0_reason :: "u8 \<Rightarrow> bytes" where
  "c0_reason c0 = ascii ''handshake: unsupported C0 version byte 0x'' @
     [hex_digit (unat c0 div 16), hex_digit (unat c0 mod 16)] @ ascii (c0_hint c0)"

definition do_handshake :: "clocks \<Rightarrow> (hs_conn, int) op" where
  "do_handshake clks = (\<lambda>c.
     case hs_state (hc_handshake c) of
       ServerWaitC0 \<Rightarrow>
         let c = c\<lparr>hc_handshake := server_init (hc_handshake c)\<rparr> in
         (case buf_peek (hc_recv_buffer c) of
            Inl e \<Rightarrow> (Inl e, c)
          | Inr peeked \<Rightarrow>
             (case run_hs server_read_c0 c of
                (Inr _, c) \<Rightarrow> do_handshake_recurse clks (c\<lparr>hc_state := CsHandshake\<rparr>)
              | (Inl (Err EIo), c) \<Rightarrow> (Inr 0, c)
              | (Inl (Err e), c) \<Rightarrow>
                  (let c0 = (case get_opt peeked 0 of Some b \<Rightarrow> b | None \<Rightarrow> 0) in
                   (Inr (error_code_as_i32 e), set_close_reason LogWarn (c0_reason c0) c))
              | (Inl Panic, c) \<Rightarrow> (panic, c)))
     | ServerWaitC1 \<Rightarrow> do_handshake_recurse clks c
     | ServerWaitC2 \<Rightarrow>
         (case run_hs server_read_c2 c of
            (Inr _, c) \<Rightarrow> (Inr 1, c\<lparr>hc_state := Connected\<rparr>)
          | (Inl (Err EIo), c) \<Rightarrow> (Inr 0, c)
          | (Inl (Err e), c) \<Rightarrow> (Inr (error_code_as_i32 e), c)
          | (Inl Panic, c) \<Rightarrow> (panic, c))
     | HsDone \<Rightarrow> (Inr 1, c\<lparr>hc_state := Connected\<rparr>)
     | _ \<Rightarrow> (Inr (- 1), c))"

text \<open>
  \<open>recv\<close> while the connection is in a handshake state: the loop leaves as soon as the state is past
  the handshake, where \<open>read_messages\<close> takes over. The window is 0 until the first message, so no
  acknowledgement is due.
\<close>

definition MAX_RECV_BUFFER_BYTES :: nat where
  "MAX_RECV_BUFFER_BYTES = 2 * unat DEFAULT_MAX_MSG_LENGTH"

definition rc_error :: "int \<Rightarrow> error_code" where
  "rc_error rc =
     (if rc = -1 then EIo else if rc = -2 then ETimeout else if rc = -3 then EProtocol
      else if rc = -4 then EHandshake else if rc = -5 then EChunk else if rc = -6 then EAmf
      else if rc = -7 then EUnsupported else if rc = -8 then EAuth else EInternal)"

fun error_code_as_str :: "error_code \<Rightarrow> string" where
  "error_code_as_str EOk = ''OK''"
| "error_code_as_str EIo = ''I/O error''"
| "error_code_as_str ETimeout = ''Timeout''"
| "error_code_as_str EProtocol = ''Protocol error''"
| "error_code_as_str EHandshake = ''Handshake error''"
| "error_code_as_str EChunk = ''Chunk error''"
| "error_code_as_str EAmf = ''AMF error''"
| "error_code_as_str EUnsupported = ''Unsupported''"
| "error_code_as_str EAuth = ''Authentication error''"
| "error_code_as_str EInternal = ''Internal error''"

text \<open>The derived \<open>Debug\<close> names, and \<open>Display\<close> of a \<open>usize\<close>.\<close>

fun conn_state_debug :: "conn_state \<Rightarrow> string" where
  "conn_state_debug TcpAccepted = ''TcpAccepted''"
| "conn_state_debug CsHandshake = ''Handshake''"
| "conn_state_debug Connected = ''Connected''"
| "conn_state_debug CapsNegotiated = ''CapsNegotiated''"
| "conn_state_debug AppConnected = ''AppConnected''"
| "conn_state_debug StreamCreated = ''StreamCreated''"
| "conn_state_debug Publishing = ''Publishing''"
| "conn_state_debug Playing = ''Playing''"
| "conn_state_debug Closing = ''Closing''"
| "conn_state_debug Closed = ''Closed''"

fun dec_digits :: "nat \<Rightarrow> bytes" where
  "dec_digits n = (if n < 10 then [48 + of_nat n] else dec_digits (n div 10) @ [48 + of_nat (n mod 10)])"

declare dec_digits.simps [simp del]

definition handshaking :: "hs_conn \<Rightarrow> bool" where
  "handshaking c \<longleftrightarrow> hc_state c = TcpAccepted \<or> hc_state c = CsHandshake"

primrec recv_loop :: "(nat \<Rightarrow> clocks) \<Rightarrow> nat \<Rightarrow> nat \<Rightarrow> (hs_conn, unit) op" where
  "recv_loop clks 0 = (\<lambda>no_progress c. (Inr (), c))"
| "recv_loop clks (Suc max_iter) = (\<lambda>no_progress c.
     let before = buf_available (hc_recv_buffer c) in
      if \<not> handshaking c \<or> before = 0 \<and> hc_state c \<noteq> CsHandshake then (Inr (), c)
      else case do_handshake (clks max_iter) c of
          (Inl e, c) \<Rightarrow> (Inl e, c)
        | (Inr rc, c) \<Rightarrow>
            if rc < 0 then
              (err (rc_error rc), set_close_reason LogWarn
                 (ascii (error_code_as_str (rc_error rc) @ '' in state '' @ conn_state_debug (hc_state c))) c)
            else
              (let after = buf_available (hc_recv_buffer c);
                   no_progress = (if after = before then no_progress + 1 else 0) in
               if after = before \<and> no_progress > 3 then (Inr (), c)
               else if after = 0 \<and> hc_state c < Closing then (Inr (), c)
               else recv_loop clks max_iter no_progress c))"

definition sat_add64 :: "u64 \<Rightarrow> nat \<Rightarrow> u64" where
  "sat_add64 a n = (if unat a + n > USIZE_MAX then -1 else a + of_nat n)"

definition on_recv :: "(buffer, 'a) op \<Rightarrow> (hs_conn, 'a) op" where
  "on_recv = zoomS hc_recv_buffer (\<lambda>b c. c\<lparr>hc_recv_buffer := b\<rparr>)"

definition recv_handshake :: "(nat \<Rightarrow> clocks) \<Rightarrow> bytes \<Rightarrow> (hs_conn, unit) op" where
  "recv_handshake clks data = (\<lambda>c.
     if data \<noteq> [] \<and> sat_add (buf_available (hc_recv_buffer c)) (length data) > MAX_RECV_BUFFER_BYTES
     then (err EProtocol, set_close_reason LogWarn 
         (ascii ''receive buffer limit exceeded ('' @ dec_digits (buf_available (hc_recv_buffer c)) @
          ascii '' bytes unprocessed)'') c)
     else thenS (on_recv (map_errS EInternal (buf_write data)))
       (thenS (modS (\<lambda>c. c\<lparr>hc_bytes_received := sat_add64 (hc_bytes_received c) (length data)\<rparr>))
       (thenS (recv_loop clks 256 0)
         (on_recv (buf_release_excess RECV_BUFFER_KEEP_CAPACITY)))) c)"

section \<open>The handshake of a client\<close>

text \<open>
  The transport a client sees before its deadline: the bytes that will arrive, the bytes it accepted so
  far, how many more it accepts, and the error a stalled or closed socket ends in. \<open>hk_buf\<close> is the
  local buffer the replies are parsed from.
\<close>

record link =
  lk_in :: bytes
  lk_sent :: bytes
  lk_window :: nat
  lk_fault :: error_code

record hs_client =
  hk_handshake :: handshake
  hk_buf :: buffer
  hk_link :: link

definition read_exact_bounded :: "nat \<Rightarrow> (link, bytes) op" where
  "read_exact_bounded n = (\<lambda>l.
     if length (lk_in l) < n then (err (lk_fault l), l\<lparr>lk_in := []\<rparr>)
     else (Inr (take n (lk_in l)), l\<lparr>lk_in := drop n (lk_in l)\<rparr>))"

definition send_bounded :: "(buffer \<times> link, unit) op" where
  "send_bounded = (\<lambda>(b, l).
     case buf_peek b of
       Inl e \<Rightarrow> (Inl e, (b, l))
     | Inr d \<Rightarrow>
         let n = min (length d) (lk_window l);
             l' = l\<lparr>lk_sent := lk_sent l @ take n d, lk_window := lk_window l - n\<rparr> in
         (if n < length d then err (lk_fault l) else Inr (), (buf_drain n b, l')))"

definition on_link :: "(link, 'a) op \<Rightarrow> (hs_client, 'a) op" where
  "on_link = zoomS hk_link (\<lambda>l k. k\<lparr>hk_link := l\<rparr>)"

definition run_client :: "(hs_ctx, 'a) op \<Rightarrow> (hs_client, 'a) op" where
  "run_client = zoomS (\<lambda>k. (hk_handshake k, hk_buf k))
     (\<lambda>(h, i) k. k\<lparr>hk_handshake := h, hk_buf := i\<rparr>)"

text \<open>\<open>send_bounded(transport, &mut self.handshake.out, ..)?; self.handshake.out.reset();\<close>\<close>

definition send_out :: "(hs_client, unit) op" where
  "send_out = thenS
     (zoomS (\<lambda>k. (hs_out (hk_handshake k), hk_link k))
       (\<lambda>(b, l) k. k\<lparr>hk_handshake := (hk_handshake k)\<lparr>hs_out := b\<rparr>, hk_link := l\<rparr>) send_bounded)
     (modS (\<lambda>k. k\<lparr>hk_handshake := (hk_handshake k)\<lparr>hs_out := buf_reset (hs_out (hk_handshake k))\<rparr>\<rparr>))"

text \<open>\<open>let s = read_exact_bounded(..)?; let mut buf = Buffer::new(); buf.write(&s).map_err(..)?;\<close>\<close>

definition receive_exact :: "nat \<Rightarrow> (hs_client, unit) op" where
  "receive_exact n = bindS (on_link (read_exact_bounded n)) (\<lambda>s.
     thenS (modS (\<lambda>k. k\<lparr>hk_buf := buf_new\<rparr>))
       (voidS (zoomS hk_buf (\<lambda>b k. k\<lparr>hk_buf := b\<rparr>) (map_errS EInternal (buf_write s)))))"

definition client_do_handshake :: "clocks \<Rightarrow> (hs_client, unit) op" where
  "client_do_handshake = (\<lambda>(clk0, clk1, clk2).
     thenS (modS (\<lambda>k. k\<lparr>hk_handshake := client_init (hk_handshake k)\<rparr>))
     (thenS (run_client (client_generate_c0c1 clk0 clk1))
     (thenS send_out
     (thenS (receive_exact (1 + HANDSHAKE_SIZE))
     (thenS (run_client client_read_s0)
     (thenS (run_client (client_read_s1 clk2))
     (thenS send_out
     (thenS (receive_exact HANDSHAKE_SIZE)
       (run_client client_read_s2)))))))))"

section \<open>Connection states only move forward\<close>

text \<open>Lifecycle rank: publishing and playing are peers.\<close>

definition lifecycle :: "conn_state \<Rightarrow> nat" where
  "lifecycle s = (if s = Playing then conn_state_num Publishing else conn_state_num s)"

inductive moves :: "conn_state \<Rightarrow> conn_state \<Rightarrow> bool" where
  stay: "moves s s"
| step: "moves s t \<Longrightarrow> conn_transition new_state t = (r, u) \<Longrightarrow> moves s u"

lemma conn_transition_rank:
  "conn_transition new_state t = (r, u) \<Longrightarrow> lifecycle t \<le> lifecycle u"
  by (cases t; cases new_state) (auto simp: conn_transition_def lifecycle_def less_conn_state_def Let_def)

lemma lifecycle_le_iff:
  "lifecycle s \<le> lifecycle t \<longleftrightarrow> s \<le> t \<or> (s = Playing \<and> t = Publishing)"
  by (cases s; cases t) (auto simp: lifecycle_def less_eq_conn_state_def)

lemma moves_rank: "moves s t \<Longrightarrow> lifecycle s \<le> lifecycle t"
  by (induction rule: moves.induct) (auto dest: conn_transition_rank)

lemma transition_allowed:
  "lifecycle s \<le> lifecycle t \<Longrightarrow> conn_transition t s = (Inr (), t)"
  by (auto simp: lifecycle_le_iff conn_transition_def Let_def)


section \<open>A claimed route stays claimed\<close>

datatype route_op = RClaim u64 bytes bytes | RRelease u64 bytes bytes | RForce bytes bytes

fun route_exec :: "route_op \<Rightarrow> route_registry \<Rightarrow> route_registry" where
  "route_exec (RClaim c a s) reg = snd (route_claim c a s reg)"
| "route_exec (RRelease c a s) reg = route_release c a s reg"
| "route_exec (RForce a s) reg = route_force_release a s reg"

fun gives_up :: "u64 \<Rightarrow> route \<Rightarrow> route_op \<Rightarrow> bool" where
  "gives_up c k (RClaim d a s) = False"
| "gives_up c k (RRelease d a s) \<longleftrightarrow> d = c \<and> k = (a, s)"
| "gives_up c k (RForce a s) \<longleftrightarrow> k = (a, s)"

lemma owner_kept:
  "rr_routes reg k = Some c \<Longrightarrow> \<not> gives_up c k x \<Longrightarrow> rr_routes (route_exec x reg) k = Some c"
  by (cases x) (auto simp: route_claim_def route_release_def route_force_release_def split: option.splits)

lemma poisoned_kept: "rr_poisoned (route_exec x reg) = rr_poisoned reg"
  by (cases x) (auto simp: route_claim_def route_release_def route_force_release_def split: option.splits)

lemma owner_kept_fold:
  "rr_routes reg k = Some c \<Longrightarrow> list_all (\<lambda>x. \<not> gives_up c k x) ops \<Longrightarrow>
   rr_routes (fold route_exec ops reg) k = Some c \<and> rr_poisoned (fold route_exec ops reg) = rr_poisoned reg"
  by (induction ops arbitrary: reg) (simp_all add: owner_kept poisoned_kept)



end
