(* ===== verification/Handshake_Live.thy ===== *)
theory Handshake_Live
  imports Session
begin

text \<open>
  The handshake comes to an end. The server side is driven by \<open>recv\<close> with the client's bytes cut into
  arbitrary pieces; the client side reads the server's bytes. A stage is the number of the client's
  messages (C0, C1, C2) the server has consumed; the invariant \<open>at_stage\<close> relates it to the bytes
  received so far, and the loop of \<open>recv\<close> always reaches the last stage those bytes allow.
\<close>

section \<open>Stages\<close>

fun consumed :: "nat \<Rightarrow> nat" where
  "consumed 0 = 0"
| "consumed (Suc 0) = 1"
| "consumed (Suc (Suc 0)) = 1537"
| "consumed _ = 3073"

definition level :: "bytes \<Rightarrow> nat" where
  "level p = (if length p < 1 then 0 else if length p < 1537 then 1 else if length p < 3073 then 2 else 3)"

definition replied :: "bytes \<Rightarrow> bytes \<Rightarrow> bool" where
  "replied c1 out \<longleftrightarrow> (\<exists>t mode s1 s2. out = RTMP_VERSION # s1 @ s2 \<and> length s1 = 1536 \<and> length s2 = 1536 \<and>
     answers c1 t mode s1 s2)"

definition conn_ok :: "hs_conn \<Rightarrow> bool" where
  "conn_ok c \<longleftrightarrow> buf_inv (hc_recv_buffer c) \<and> buf_owned (hc_recv_buffer c) \<and>
     buf_inv (hc_send_buffer c) \<and> buf_owned (hc_send_buffer c) \<and>
     buf_owned (hs_out (hc_handshake c)) \<and> hc_has_fd c"

fun stage_state :: "nat \<Rightarrow> conn_state \<times> handshake_state" where
  "stage_state 0 = (TcpAccepted, ServerWaitC0)"
| "stage_state (Suc 0) = (CsHandshake, ServerWaitC1)"
| "stage_state (Suc (Suc 0)) = (CsHandshake, ServerWaitC2)"
| "stage_state _ = (Connected, HsDone)"

definition at_stage :: "nat \<Rightarrow> bytes \<Rightarrow> hs_conn \<Rightarrow> bool" where
  "at_stage k p c \<longleftrightarrow> conn_ok c \<and> k \<le> level p \<and> contents (hc_recv_buffer c) = drop (consumed k) p \<and>
     (hc_state c, hs_state (hc_handshake c)) = stage_state k \<and>
     (if k < 2 then contents (hc_send_buffer c) = []
      else replied (take 1536 (drop 1 p)) (contents (hc_send_buffer c)))"

lemma level_cases: "k < level p \<Longrightarrow> k = 0 \<or> k = 1 \<or> k = 2" and level_le: "level p \<le> 3"
  by (auto simp: level_def split: if_splits)

lemma consumed_simps [simp]: "consumed 2 = 1537" "consumed 3 = 3073" "consumed 1 = 1"
  by (simp_all add: numeral_eq_Suc)

lemma stage_state_simps [simp]:
  "stage_state 1 = (CsHandshake, ServerWaitC1)" "stage_state 2 = (CsHandshake, ServerWaitC2)"
  "stage_state 3 = (Connected, HsDone)"
  by (simp_all add: numeral_eq_Suc)

section \<open>One call of the driver\<close>

lemma run_hs_eq:
  "m (hc_handshake c, hc_recv_buffer c) = (r, (h, i)) \<Longrightarrow>
   run_hs m c = (r, c\<lparr>hc_handshake := h, hc_recv_buffer := i\<rparr>)"
  by (simp add: run_hs_def zoomS_def)

lemma send_write:
  assumes "buf_inv (hc_send_buffer c)" "buf_owned (hc_send_buffer c)"
    "length (contents (hc_send_buffer c)) + length d \<le> 4096"
  obtains b where "on_send (buf_write d) c = (Inr (length d), c\<lparr>hc_send_buffer := b\<rparr>)" "buf_inv b" "buf_owned b"
    "contents b = contents (hc_send_buffer c) @ d"
proof -
  have "buf_room (hc_send_buffer c) (length d)"
    using assms by (simp add: buf_room_owned BUFFER_MAX_SIZE_def)
  from buf_write_ok [OF assms(1) this] obtain b where b: "buf_write d (hc_send_buffer c) = (Inr (length d), b)"
    "buf_inv b" "contents b = contents (hc_send_buffer c) @ d" "buf_owned b = buf_owned (hc_send_buffer c)" by blast
  show thesis
    by (rule that [of b]) (use b assms in \<open>simp_all add: on_send_def zoomS_def\<close>)
qed

lemma send_replies:
  assumes "conn_ok c" "contents (hc_send_buffer c) = []" "buf_inv (hs_out (hc_handshake c))"
    "contents (hs_out (hc_handshake c)) = s" "length s = 3072"
  obtains b where "send_s0s1s2 c = (Inr 1, c\<lparr>hc_send_buffer := b,
      hc_handshake := (hc_handshake c)\<lparr>hs_out := buf_reset (hs_out (hc_handshake c))\<rparr>\<rparr>)"
    "buf_inv b" "buf_owned b" "contents b = RTMP_VERSION # s"
proof -
  have c: "hc_has_fd c" "buf_inv (hc_send_buffer c)" "buf_owned (hc_send_buffer c)"
    using assms(1) by (simp_all add: conn_ok_def)
  obtain b1 where b1: "on_send (buf_write [0x03]) c = (Inr (length [0x03 :: u8]), c\<lparr>hc_send_buffer := b1\<rparr>)"
    "buf_inv b1" "buf_owned b1" "contents b1 = contents (hc_send_buffer c) @ [0x03]"
    by (rule send_write [OF c(2,3), of "[0x03]"]) (simp_all add: assms(2))
  let ?c1 = "c\<lparr>hc_send_buffer := b1\<rparr>"
  obtain b2 where b2: "on_send (buf_write s) ?c1 = (Inr (length s), ?c1\<lparr>hc_send_buffer := b2\<rparr>)"
    "buf_inv b2" "buf_owned b2" "contents b2 = contents (hc_send_buffer ?c1) @ s"
    by (rule send_write [of ?c1 s]) (use b1 assms in simp_all)
  show thesis
    by (rule that [OF _ b2(2,3)])
      (use c b1 b2 assms in \<open>simp_all add: send_s0s1s2_def thenS_apply bindS_apply voidS_def buf_peek_contents RTMP_VERSION_def\<close>)
qed

lemma recurse_short:
  assumes "conn_ok c" "length (contents (hc_recv_buffer c)) < 1536"
  shows "do_handshake_recurse clks c = (Inr 0, c)"
proof -
  obtain clk0 clk1 clk2 where clks: "clks = (clk0, clk1, clk2)" by (cases clks)
  have "run_hs (server_read_c1_mode clk0 clk1 clk2) c = (err EIo, c\<lparr>hc_handshake := hc_handshake c, hc_recv_buffer := hc_recv_buffer c\<rparr>)"
    by (rule run_hs_eq, rule server_read_c1_short) (use assms in \<open>simp_all add: conn_ok_def\<close>)
  then show ?thesis by (simp add: do_handshake_recurse_def clks)
qed

lemma recurse_ok:
  assumes "conn_ok c" "1536 \<le> length (contents (hc_recv_buffer c))" "contents (hc_send_buffer c) = []"
  obtains c' where "do_handshake_recurse clks c = (Inr 1, c')" "conn_ok c'" "hc_state c' = hc_state c"
    "hs_state (hc_handshake c') = ServerWaitC2"
    "contents (hc_recv_buffer c') = drop 1536 (contents (hc_recv_buffer c))"
    "replied (take 1536 (contents (hc_recv_buffer c))) (contents (hc_send_buffer c'))"
proof -
  obtain clk0 clk1 clk2 where clks: "clks = (clk0, clk1, clk2)" by (cases clks)
  let ?h = "hc_handshake c" and ?i = "hc_recv_buffer c"
  have c: "buf_owned (hs_out ?h)" "buf_inv ?i" using assms(1) by (simp_all add: conn_ok_def)
  obtain mode s1 s2 t out' i' where r: "server_read_c1_mode clk0 clk1 clk2 (?h, ?i)
       = (Inr mode, (?h\<lparr>hs_peer_time := t, hs_out := out', hs_state := ServerWaitC2\<rparr>, i'))"
    "answers (take 1536 (contents ?i)) (get_time clk0) mode s1 s2" "length s1 = 1536" "length s2 = 1536"
    "take 4 (contents ?i) = be32 t" "buf_inv out'" "buf_owned out'" "contents out' = s1 @ s2"
    "buf_inv i'" "contents i' = drop 1536 (contents ?i)" "buf_owned i' = buf_owned ?i"
    by (rule server_read_c1_ok [OF c assms(2)])
  define c1 where "c1 = c\<lparr>hc_handshake := ?h\<lparr>hs_peer_time := t, hs_out := out', hs_state := ServerWaitC2\<rparr>,
    hc_recv_buffer := i'\<rparr>"
  have c1: "conn_ok c1" "contents (hc_send_buffer c1) = []" "hs_out (hc_handshake c1) = out'"
    "hc_state c1 = hc_state c" "hs_state (hc_handshake c1) = ServerWaitC2" "hc_recv_buffer c1 = i'"
    using assms r by (simp_all add: c1_def conn_ok_def)
  obtain b where b: "send_s0s1s2 c1 = (Inr 1, c1\<lparr>hc_send_buffer := b,
      hc_handshake := (hc_handshake c1)\<lparr>hs_out := buf_reset (hs_out (hc_handshake c1))\<rparr>\<rparr>)"
    "buf_inv b" "buf_owned b" "contents b = RTMP_VERSION # (s1 @ s2)"
    by (rule send_replies [OF c1(1,2), of "s1 @ s2"]) (use r c1 in simp_all)
  have "do_handshake_recurse clks c = send_s0s1s2 c1"
    using run_hs_eq [where m = "server_read_c1_mode clk0 clk1 clk2", OF r(1)] by (simp add: do_handshake_recurse_def clks c1_def)
  with b(1) have "do_handshake_recurse clks c = (Inr 1, c1\<lparr>hc_send_buffer := b,
      hc_handshake := (hc_handshake c1)\<lparr>hs_out := buf_reset (hs_out (hc_handshake c1))\<rparr>\<rparr>)" by simp
  then show thesis
  proof (rule that)
    show "replied (take 1536 (contents ?i)) (contents (hc_send_buffer (c1\<lparr>hc_send_buffer := b,
      hc_handshake := (hc_handshake c1)\<lparr>hs_out := buf_reset (hs_out (hc_handshake c1))\<rparr>\<rparr>)))"
      unfolding replied_def using b(4) r(2-4) by auto
  qed (use c1 b r in \<open>simp_all add: conn_ok_def\<close>)
qed

text \<open>Stuck: not enough bytes for the next message. Progress: at least one more message is consumed.\<close>

lemma at_stageD:
  assumes "at_stage k p c"
  shows "conn_ok c" "k \<le> level p" "contents (hc_recv_buffer c) = drop (consumed k) p"
    "hc_state c = fst (stage_state k)" "hs_state (hc_handshake c) = snd (stage_state k)"
    "k < 2 \<Longrightarrow> contents (hc_send_buffer c) = []"
    "\<not> k < 2 \<Longrightarrow> replied (take 1536 (drop 1 p)) (contents (hc_send_buffer c))"
  using assms by (auto simp: at_stage_def prod_eq_iff)

lemma at_stageI:
  assumes "conn_ok c" "k \<le> level p" "contents (hc_recv_buffer c) = drop (consumed k) p"
    "hc_state c = fst (stage_state k)" "hs_state (hc_handshake c) = snd (stage_state k)"
    "k < 2 \<Longrightarrow> contents (hc_send_buffer c) = []"
    "\<not> k < 2 \<Longrightarrow> replied (take 1536 (drop 1 p)) (contents (hc_send_buffer c))"
  shows "at_stage k p c"
  using assms by (simp add: at_stage_def prod_eq_iff)

lemma c2_short:
  assumes "conn_ok c" "length (contents (hc_recv_buffer c)) < 1536"
  shows "run_hs server_read_c2 c = (err EIo, c)"
proof -
  have "run_hs server_read_c2 c = (err EIo, c\<lparr>hc_handshake := hc_handshake c, hc_recv_buffer := hc_recv_buffer c\<rparr>)"
    by (rule run_hs_eq, unfold server_read_c2_def, rule thenS_Inl, rule read_block_short)
      (use assms in \<open>simp_all add: conn_ok_def\<close>)
  then show ?thesis by simp
qed

lemma c2_ok:
  assumes "conn_ok c" "1536 \<le> length (contents (hc_recv_buffer c))"
  obtains i where "run_hs server_read_c2 c = (Inr (), c\<lparr>hc_handshake := (hc_handshake c)\<lparr>hs_state := HsDone\<rparr>, hc_recv_buffer := i\<rparr>)"
    "buf_inv i" "buf_owned i" "contents i = drop 1536 (contents (hc_recv_buffer c))"
proof -
  have "buf_inv (hc_recv_buffer c)" using assms(1) by (simp add: conn_ok_def)
  then obtain i where i: "thenS read_block (mod_hs (\<lambda>hs. hs\<lparr>hs_state := HsDone\<rparr>)) (hc_handshake c, hc_recv_buffer c)
      = (Inr (), ((hc_handshake c)\<lparr>hs_state := HsDone\<rparr>, i))" "buf_inv i"
    "contents i = drop 1536 (contents (hc_recv_buffer c))" "buf_owned i = buf_owned (hc_recv_buffer c)"
    by (rule read_last_block [OF _ assms(2)])
  show thesis
    by (rule that [of i], rule run_hs_eq)
      (use i assms in \<open>simp_all add: server_read_c2_def conn_ok_def\<close>)
qed

lemma c0_ok:
  assumes "conn_ok c" "contents (hc_recv_buffer c) = RTMP_VERSION # rest" "hs_state (hc_handshake c) = ServerWaitC0"
  obtains c' where "do_handshake clks c = do_handshake_recurse clks c'" "conn_ok c'" "hc_state c' = CsHandshake"
    "hs_state (hc_handshake c') = ServerWaitC1" "contents (hc_recv_buffer c') = rest"
    "hc_send_buffer c' = hc_send_buffer c"
proof -
  have inv: "buf_inv (hc_recv_buffer c)" using assms(1) by (simp add: conn_ok_def)
  let ?h = "server_init (hc_handshake c)" and ?c = "c\<lparr>hc_handshake := server_init (hc_handshake c)\<rparr>"
  obtain i where i: "read_version ServerWaitC1 (?h, hc_recv_buffer c)
      = (Inr (), (?h\<lparr>hs_version := RTMP_VERSION, hs_state := ServerWaitC1\<rparr>, i))"
    "buf_inv i" "contents i = rest" "buf_owned i = buf_owned (hc_recv_buffer c)"
    by (rule read_version_ok [OF inv assms(2)])
  have "run_hs server_read_c0 ?c = (Inr (), ?c\<lparr>hc_handshake := ?h\<lparr>hs_version := RTMP_VERSION, hs_state := ServerWaitC1\<rparr>,
      hc_recv_buffer := i\<rparr>)"
    by (rule run_hs_eq) (use i in \<open>simp add: server_read_c0_def\<close>)
  then show thesis
    using that [of "c\<lparr>hc_handshake := ?h\<lparr>hs_version := RTMP_VERSION, hs_state := ServerWaitC1\<rparr>,
      hc_recv_buffer := i, hc_state := CsHandshake\<rparr>"] i assms
    by (simp add: do_handshake_def Let_def buf_peek_contents [OF inv] conn_ok_def server_init_def)
qed

lemma handshake_stuck:
  assumes "at_stage k p c" "k = level p" "k = 1 \<or> k = 2"
  shows "do_handshake clks c = (Inr 0, c)"
proof -
  note c = at_stageD [OF assms(1)]
  have short: "length (contents (hc_recv_buffer c)) < 1536"
    using assms(2,3) c(3) by (auto simp: level_def split: if_splits)
  from assms(3) show ?thesis
  proof
    assume "k = 1"
    with c(5) recurse_short [OF c(1) short] show ?thesis by (simp add: do_handshake_def)
  next
    assume "k = 2"
    with c(5) c2_short [OF c(1) short] show ?thesis by (simp add: do_handshake_def)
  qed
qed

lemma reply_stage:
  assumes "conn_ok c" "hc_state c = CsHandshake" "contents (hc_send_buffer c) = []"
    "contents (hc_recv_buffer c) = drop 1 p" "2 \<le> level p"
  obtains c' where "do_handshake_recurse clks c = (Inr 1, c')" "at_stage 2 p c'"
proof -
  have len: "1536 \<le> length (contents (hc_recv_buffer c))"
    using assms(4,5) by (auto simp: level_def split: if_splits)
  obtain c' where "do_handshake_recurse clks c = (Inr 1, c')" "conn_ok c'" "hc_state c' = hc_state c"
    "hs_state (hc_handshake c') = ServerWaitC2"
    "contents (hc_recv_buffer c') = drop 1536 (contents (hc_recv_buffer c))"
    "replied (take 1536 (contents (hc_recv_buffer c))) (contents (hc_send_buffer c'))"
    by (rule recurse_ok [OF assms(1) len assms(3)])
  then show thesis using that assms by (simp add: at_stage_def)
qed

lemma handshake_progress:
  assumes "at_stage k p c" "k < level p" "p \<noteq> [] \<Longrightarrow> hd p = RTMP_VERSION"
  obtains k' rc c' where "do_handshake clks c = (Inr rc, c')" "0 \<le> rc" "k < k'" "at_stage k' p c'"
proof -
  note c = at_stageD [OF assms(1)]
  from assms(2) have "k = 0 \<or> k = 1 \<or> k = 2" by (rule level_cases)
  then consider "k = 0" | "k = 1" | "k = 2" by blast
  then show thesis
  proof cases
    case 1
    have "p \<noteq> []" using assms(2) 1 by (auto simp: level_def)
    then have "contents (hc_recv_buffer c) = RTMP_VERSION # drop 1 p"
      using c(3) 1 assms(3) by (cases p) simp_all
    then obtain c1 where c1: "do_handshake clks c = do_handshake_recurse clks c1" "conn_ok c1" "hc_state c1 = CsHandshake"
      "hs_state (hc_handshake c1) = ServerWaitC1" "contents (hc_recv_buffer c1) = drop 1 p"
      "hc_send_buffer c1 = hc_send_buffer c"
      by (rule c0_ok [OF c(1)]) (use c(5) 1 in simp_all)
    show thesis
    proof (cases "2 \<le> level p")
      case True
      obtain c2 where c2: "do_handshake_recurse clks c1 = (Inr 1, c2)" "at_stage 2 p c2"
        by (rule reply_stage [OF c1(2,3) _ c1(5) True]) (use c(6) 1 c1(6) in simp)
      show thesis by (rule that [OF trans [OF c1(1) c2(1)] _ _ c2(2)]) (use 1 in simp_all)
    next
      case False
      then have r: "do_handshake_recurse clks c1 = (Inr 0, c1)"
        by (intro recurse_short) (use c1 in \<open>auto simp: level_def split: if_splits\<close>)
      have "at_stage 1 p c1" using c1 c(6) 1 assms(2) by (simp add: at_stage_def)
      show thesis by (rule that [OF trans [OF c1(1) r] _ _ \<open>at_stage 1 p c1\<close>]) (use 1 in simp_all)
    qed
  next
    case 2
    obtain c2 where c2: "do_handshake_recurse clks c = (Inr 1, c2)" "at_stage 2 p c2"
      by (rule reply_stage [OF c(1), of p clks]) (use c 2 assms(2) in simp_all)
    show thesis
      by (rule that [OF _ _ _ c2(2), of 1]) (use 2 c(5) c2(1) in \<open>simp_all add: do_handshake_def\<close>)
  next
    case 3
    have len: "1536 \<le> length (contents (hc_recv_buffer c))"
      using assms(2) 3 c(3) by (auto simp: level_def split: if_splits)
    obtain i where i: "run_hs server_read_c2 c = (Inr (), c\<lparr>hc_handshake := (hc_handshake c)\<lparr>hs_state := HsDone\<rparr>, hc_recv_buffer := i\<rparr>)"
      "buf_inv i" "buf_owned i" "contents i = drop 1536 (contents (hc_recv_buffer c))"
      by (rule c2_ok [OF c(1) len])
    let ?c = "c\<lparr>hc_handshake := (hc_handshake c)\<lparr>hs_state := HsDone\<rparr>, hc_recv_buffer := i, hc_state := Connected\<rparr>"
    have d: "do_handshake clks c = (Inr 1, ?c)" using i(1) c(5) 3 by (simp add: do_handshake_def)
    have st: "at_stage 3 p ?c"
      using i c(1,3,7) 3 assms(2) by (simp add: at_stage_def conn_ok_def)
    show thesis by (rule that [OF d _ _ st]) (use 3 in simp_all)
  qed
qed

section \<open>The receive loop\<close>

lemma recv_loop_stuck:
  assumes "\<And>clk. do_handshake clk c = (Inr 0, c)" "handshaking c"
  shows "recv_loop clks n np c = (Inr (), c)"
  using assms by (induction n arbitrary: np) (simp_all add: Let_def)

lemma at_stage_avail:
  assumes "at_stage k p c" "buf_available (hc_recv_buffer c) = 0"
  shows "k = level p"
proof -
  note c = at_stageD [OF assms(1)]
  have "length p \<le> consumed k" using assms(2) c(1,3) by (simp add: buf_available_contents conn_ok_def)
  moreover have "k = 0 \<or> k = 1 \<or> k = 2 \<or> k = 3" using c(2) level_le [of p] by auto
  ultimately show ?thesis using c(2) by (auto simp: level_def split: if_splits)
qed

lemma stage_cases:
  assumes "k \<le> level p"
  obtains "k = 0" | "k = 1" | "k = 2" | "k = 3"
  using assms level_le [of p] by linarith

lemma consumed_level:
  assumes "k \<le> level p"
  shows "consumed k \<le> length p"
  by (rule stage_cases [OF assms]) (use assms in \<open>auto simp: level_def Suc_le_eq split: if_splits\<close>)

lemma at_stage_length:
  assumes "at_stage k p c"
  shows "buf_available (hc_recv_buffer c) + consumed k = length p"
  using consumed_level [OF at_stageD(2) [OF assms]] at_stageD(1,3) [OF assms]
  by (simp add: conn_ok_def buf_available_contents)

lemma consumed_mono:
  assumes "k < k'" "k' \<le> level p"
  shows "consumed k < consumed k'"
proof -
  have k: "k \<le> level p" using assms by simp
  show ?thesis
    by (rule stage_cases [OF k]; rule stage_cases [OF assms(2)]; use assms(1) in simp)
qed

lemma at_stage_handshaking:
  assumes "at_stage k p c"
  shows "handshaking c \<longleftrightarrow> k < 3"
  by (rule stage_cases [OF at_stageD(2) [OF assms]])
    (use at_stageD(4) [OF assms] in \<open>simp_all add: handshaking_def\<close>)

lemma recv_loop_done:
  assumes "at_stage (level p) p c"
  shows "recv_loop clks n np c = (Inr (), c)"
proof (cases "level p = 1 \<or> level p = 2")
  case True
  show ?thesis
    by (rule recv_loop_stuck) (use handshake_stuck [OF assms refl True] True at_stage_handshaking [OF assms] in auto)
next
  case False
  then consider "level p = 0" | "level p = 3" using level_le [of p] by linarith
  then have "\<not> handshaking c \<or> buf_available (hc_recv_buffer c) = 0 \<and> hc_state c \<noteq> CsHandshake"
  proof cases
    case 1
    then have "p = []" by (simp add: level_def split: if_splits)
    with 1 at_stageD(1,3,4) [OF assms] show ?thesis by (simp add: buf_available_contents conn_ok_def)
  next
    case 2
    with at_stage_handshaking [OF assms] show ?thesis by simp
  qed
  then show ?thesis by (cases n) (simp_all add: Let_def)
qed

lemma recv_loop_settles:
  assumes "at_stage k p c" "3 - k \<le> n" "p \<noteq> [] \<Longrightarrow> hd p = RTMP_VERSION"
  obtains c' where "recv_loop clks n np c = (Inr (), c')" "at_stage (level p) p c'"
  using assms
proof (induction n arbitrary: k c np thesis)
  case 0
  then have "k = level p" using at_stageD(2) [OF "0.prems"(2)] level_le [of p] by simp
  then show ?case using 0 by simp
next
  case (Suc n)
  show ?case
  proof (cases "k = level p")
    case True
    then show ?thesis using Suc.prems(1,2) recv_loop_done by blast
  next
    case False
    then have lt: "k < level p" using at_stageD(2) [OF Suc.prems(2)] by simp
    obtain k' rc c1 where c1: "do_handshake (clks n) c = (Inr rc, c1)" "0 \<le> rc" "k < k'" "at_stage k' p c1"
      by (rule handshake_progress [OF Suc.prems(2) lt Suc.prems(4)])
    have ne: "buf_available (hc_recv_buffer c1) \<noteq> buf_available (hc_recv_buffer c)"
      using at_stage_length [OF Suc.prems(2)] at_stage_length [OF c1(4)]
        consumed_mono [OF c1(3) at_stageD(2) [OF c1(4)]] by linarith
    have "handshaking c" using at_stage_handshaking [OF Suc.prems(2)] lt level_le [of p] by simp
    moreover have "buf_available (hc_recv_buffer c) \<noteq> 0" using at_stage_avail [OF Suc.prems(2)] False by blast
    ultimately have eq: "recv_loop clks (Suc n) np c = (if buf_available (hc_recv_buffer c1) = 0 \<and> hc_state c1 < Closing
        then (Inr (), c1) else recv_loop clks n 0 c1)"
      using ne c1(1,2) by (simp add: Let_def)
    show ?thesis
    proof (cases "buf_available (hc_recv_buffer c1) = 0 \<and> hc_state c1 < Closing")
      case True
      then have "k' = level p" using at_stage_avail [OF c1(4)] by blast
      with eq True c1(4) show ?thesis using Suc.prems(1) by simp
    next
      case False
      have "3 - k' \<le> n" using Suc.prems(3) c1(3) by simp
      obtain c' where c': "recv_loop clks n 0 c1 = (Inr (), c')" "at_stage (level p) p c'"
        by (rule Suc.IH [OF _ c1(4) \<open>3 - k' \<le> n\<close> Suc.prems(4)])
      then have "recv_loop clks (Suc n) np c = (Inr (), c')" unfolding eq using False by auto
      then show ?thesis using c'(2) by (rule Suc.prems(1))
    qed
  qed
qed

section \<open>Receiving in pieces\<close>

lemma at_stage_append:
  assumes "at_stage (level p) p c" "buf_inv b" "buf_owned b" "contents b = contents (hc_recv_buffer c) @ d"
  shows "at_stage (level p) (p @ d) (c\<lparr>hc_recv_buffer := b, hc_bytes_received := n\<rparr>)"
proof (rule at_stageI)
  note c = at_stageD [OF assms(1)]
  show "level p \<le> level (p @ d)" by (simp add: level_def)
  have "consumed (level p) \<le> length p" by (rule consumed_level) simp
  with c(3) assms(4)
  show "contents (hc_recv_buffer (c\<lparr>hc_recv_buffer := b, hc_bytes_received := n\<rparr>)) = drop (consumed (level p)) (p @ d)"
    by simp
  assume ge: "\<not> level p < 2"
  then have "1537 \<le> length p" by (simp add: level_def split: if_splits)
  with c(7) [OF ge] show "replied (take 1536 (drop 1 (p @ d)))
      (contents (hc_send_buffer (c\<lparr>hc_recv_buffer := b, hc_bytes_received := n\<rparr>)))" by simp
qed (use assms(2,3) at_stageD [OF assms(1)] in \<open>simp_all add: conn_ok_def\<close>)

lemma at_stage_same_recv:
  assumes "at_stage k p c" "buf_inv b" "buf_owned b" "contents b = contents (hc_recv_buffer c)"
  shows "at_stage k p (c\<lparr>hc_recv_buffer := b\<rparr>)"
  by (rule at_stageI) (use assms(2-4) at_stageD [OF assms(1)] in \<open>simp_all add: conn_ok_def\<close>)

lemma recv_handshake_ok:
  assumes c: "at_stage (level p) p c" and p: "p @ d \<noteq> [] \<Longrightarrow> hd (p @ d) = RTMP_VERSION" "length (p @ d) \<le> 3073"
  obtains c' where "recv_handshake clks d c = (Inr (), c')" "at_stage (level (p @ d)) (p @ d) c'"
proof -
  note cD = at_stageD [OF c]
  have inv: "buf_inv (hc_recv_buffer c)" "buf_owned (hc_recv_buffer c)" using cD(1) by (simp_all add: conn_ok_def)
  have len: "length (contents (hc_recv_buffer c)) + length d \<le> 3073" using cD(3) p(2) by simp
  then have "buf_room (hc_recv_buffer c) (length d)"
    using inv by (simp add: buf_room_owned BUFFER_MAX_SIZE_def)
  from buf_write_ok [OF inv(1) this] obtain b where b: "buf_write d (hc_recv_buffer c) = (Inr (length d), b)"
    "buf_inv b" "buf_owned b = buf_owned (hc_recv_buffer c)" "contents b = contents (hc_recv_buffer c) @ d" by blast
  define c1 where "c1 = c\<lparr>hc_recv_buffer := b, hc_bytes_received := sat_add64 (hc_bytes_received c) (length d)\<rparr>"
  have st: "at_stage (level p) (p @ d) c1" unfolding c1_def by (rule at_stage_append [OF c b(2) _ b(4)]) (simp add: b(3) inv(2))
  obtain c2 where c2: "recv_loop clks 256 0 c1 = (Inr (), c2)" "at_stage (level (p @ d)) (p @ d) c2"
    by (rule recv_loop_settles [OF st _ p(1), of 256]) arith
  have "buf_inv (hc_recv_buffer c2)" using at_stageD(1) [OF c2(2)] by (simp add: conn_ok_def)
  then obtain b2 where b2: "buf_release_excess RECV_BUFFER_KEEP_CAPACITY (hc_recv_buffer c2) = (Inr (), b2)" "buf_inv b2"
    "contents b2 = contents (hc_recv_buffer c2)" "buf_owned b2 = buf_owned (hc_recv_buffer c2)"
    by (rule buf_release_excess_ok)
  have "\<not> sat_add (buf_available (hc_recv_buffer c)) (length d) > MAX_RECV_BUFFER_BYTES"
    using len inv(1) by (simp add: buf_available_contents sat_add_def MAX_RECV_BUFFER_BYTES_def DEFAULT_MAX_MSG_LENGTH_def)
  then have "recv_handshake clks d c = (Inr (), c2\<lparr>hc_recv_buffer := b2\<rparr>)"
    using b(1) c2(1) b2(1) by (simp add: recv_handshake_def on_recv_def zoomS_def thenS_apply c1_def)
  moreover have "at_stage (level (p @ d)) (p @ d) (c2\<lparr>hc_recv_buffer := b2\<rparr>)"
    by (rule at_stage_same_recv [OF c2(2) b2(2) _ b2(3)]) (use b2(4) at_stageD(1) [OF c2(2)] in \<open>simp add: conn_ok_def\<close>)
  ultimately show thesis by (rule that)
qed

text \<open>A stream delivered in pieces: the piece lengths, and the clock readings of each delivery.\<close>

fun cut :: "((nat \<Rightarrow> clocks) \<times> nat) list \<Rightarrow> (nat \<Rightarrow> clocks) \<Rightarrow> bytes \<Rightarrow> ((nat \<Rightarrow> clocks) \<times> bytes) list" where
  "cut [] clks bs = [(clks, bs)]"
| "cut ((clk, n) # cs) clks bs = (clk, take n bs) # cut cs clks (drop n bs)"

fun recv_all :: "((nat \<Rightarrow> clocks) \<times> bytes) list \<Rightarrow> (hs_conn, unit) op" where
  "recv_all [] = retS ()"
| "recv_all ((clks, d) # ds) = thenS (recv_handshake clks d) (recv_all ds)"

lemma concat_cut [simp]: "concat (map snd (cut cs clks bs)) = bs"
  by (induction cs clks bs rule: cut.induct) simp_all

lemma recv_all_ok:
  assumes "at_stage (level p) p c" "p @ concat (map snd ds) \<noteq> [] \<Longrightarrow> hd (p @ concat (map snd ds)) = RTMP_VERSION"
    "length (p @ concat (map snd ds)) \<le> 3073"
  shows "\<exists>c'. recv_all ds c = (Inr (), c') \<and>
    at_stage (level (p @ concat (map snd ds))) (p @ concat (map snd ds)) c'"
  using assms
proof (induction ds arbitrary: p c rule: recv_all.induct)
  case (2 clks d ds)
  have full: "p @ concat (map snd ((clks, d) # ds)) = (p @ d) @ concat (map snd ds)" by simp
  have hd: "hd (p @ d) = RTMP_VERSION" if "p @ d \<noteq> []"
    using "2.prems"(2) [unfolded full] that hd_append2 [OF that, of "concat (map snd ds)"] by auto
  obtain c1 where c1: "recv_handshake clks d c = (Inr (), c1)" "at_stage (level (p @ d)) (p @ d) c1"
    by (rule recv_handshake_ok [OF "2.prems"(1) hd]) (use "2.prems"(3) in simp_all)
  have "\<exists>c'. recv_all ds c1 = (Inr (), c') \<and>
      at_stage (level ((p @ d) @ concat (map snd ds))) ((p @ d) @ concat (map snd ds)) c'"
    by (rule "2.IH" [OF c1(2)]) (use "2.prems"(2,3) in simp_all)
  with c1(1) show ?case by simp
qed simp

lemma fresh_conn_stage: "at_stage (level []) [] hs_conn_new"
  by (simp add: at_stage_def level_def conn_ok_def hs_conn_new_def handshake_default_def)

section \<open>The client\<close>

text \<open>Total correctness of a client step, and where the client is between two steps.\<close>

definition completes :: "(hs_client \<Rightarrow> bool) \<Rightarrow> (hs_client, unit) op \<Rightarrow> (hs_client \<Rightarrow> bool) \<Rightarrow> bool" where
  "completes P m Q \<longleftrightarrow> (\<forall>k. P k \<longrightarrow> (\<exists>k'. m k = (Inr (), k') \<and> Q k'))"

definition client_at :: "handshake_state \<Rightarrow> bytes \<Rightarrow> bytes \<Rightarrow> bytes \<Rightarrow> bytes \<Rightarrow> nat \<Rightarrow> hs_client \<Rightarrow> bool" where
  "client_at st out buf inp sent w k \<longleftrightarrow>
     hs_state (hk_handshake k) = st \<and> buf_inv (hs_out (hk_handshake k)) \<and> buf_owned (hs_out (hk_handshake k)) \<and>
     contents (hs_out (hk_handshake k)) = out \<and> buf_inv (hk_buf k) \<and> contents (hk_buf k) = buf \<and>
     lk_in (hk_link k) = inp \<and> lk_sent (hk_link k) = sent \<and> w \<le> lk_window (hk_link k)"

lemma completes_then: "completes P m Q \<Longrightarrow> completes Q n R \<Longrightarrow> completes P (thenS m n) R"
  unfolding completes_def by (metis thenS_Inr)

lemma completesI: "(\<And>k. P k \<Longrightarrow> \<exists>k'. m k = (Inr (), k') \<and> Q k') \<Longrightarrow> completes P m Q"
  by (simp add: completes_def)

lemma run_client_step:
  assumes "m (hk_handshake k, hk_buf k) = (Inr (), (h, i))" "Q (k\<lparr>hk_handshake := h, hk_buf := i\<rparr>)"
  shows "\<exists>k'. run_client m k = (Inr (), k') \<and> Q k'"
  using assms by (simp add: run_client_def zoomS_def)

lemma client_send_out:
  assumes "length out + w = v"
  shows "completes (client_at st out buf inp sent v) send_out (client_at st [] buf inp (sent @ out) w)"
proof (rule completesI)
  fix k assume k: "client_at st out buf inp sent v k"
  let ?o = "hs_out (hk_handshake k)"
  have o: "buf_inv ?o" "buf_owned ?o" "contents ?o = out" "length out + w \<le> lk_window (hk_link k)"
    using k assms by (simp_all add: client_at_def)
  let ?k = "k\<lparr>hk_handshake := (hk_handshake k)\<lparr>hs_out := buf_reset (buf_drain (length out) ?o)\<rparr>,
    hk_link := (hk_link k)\<lparr>lk_sent := lk_sent (hk_link k) @ out, lk_window := lk_window (hk_link k) - length out\<rparr>\<rparr>"
  have "send_out k = (Inr (), ?k)"
    using o by (simp add: send_out_def thenS_apply zoomS_def send_bounded_def buf_peek_contents Let_def min_def)
  moreover have "client_at st [] buf inp (sent @ out) w ?k"
    using k o(4) by (simp add: client_at_def buf_drain_def)
  ultimately show "\<exists>k'. send_out k = (Inr (), k') \<and> client_at st [] buf inp (sent @ out) w k'" by blast
qed

lemma client_receive:
  assumes "length d = n" "n \<le> 4096"
  shows "completes (client_at st out buf (d @ inp) sent w) (receive_exact n) (client_at st out d inp sent w)"
proof (rule completesI)
  fix k assume k: "client_at st out buf (d @ inp) sent w k"
  have room: "buf_room buf_new (length d)" using assms by (simp add: buf_room_owned BUFFER_MAX_SIZE_def)
  from buf_write_ok [OF buf_inv_fresh(1) room] obtain b where b: "buf_write d buf_new = (Inr (length d), b)"
    "buf_inv b" "contents b = contents buf_new @ d" by blast
  let ?k = "k\<lparr>hk_buf := b, hk_link := (hk_link k)\<lparr>lk_in := inp\<rparr>\<rparr>"
  have "receive_exact n k = (Inr (), ?k)"
    using assms(1) k b(1)
    by (simp add: client_at_def receive_exact_def on_link_def zoomS_def bindS_apply thenS_apply voidS_def read_exact_bounded_def)
  moreover have "client_at st out d inp sent w ?k" using k b by (simp add: client_at_def)
  ultimately show "\<exists>k'. receive_exact n k = (Inr (), k') \<and> client_at st out d inp sent w k'" by blast
qed

abbreviation c0c1_of :: "clock \<Rightarrow> clock \<Rightarrow> bytes" where
  "c0c1_of clk0 clk1 \<equiv> RTMP_VERSION # be32 (get_time clk0) @ replicate 4 0 @ fill_random clk1 1528"

definition client_fresh :: "bytes \<Rightarrow> bytes \<Rightarrow> bytes \<Rightarrow> nat \<Rightarrow> hs_client \<Rightarrow> bool" where
  "client_fresh buf inp sent w k \<longleftrightarrow>
     buf_owned (hs_out (hk_handshake k)) \<and> buf_inv (hk_buf k) \<and> contents (hk_buf k) = buf \<and>
     lk_in (hk_link k) = inp \<and> lk_sent (hk_link k) = sent \<and> w \<le> lk_window (hk_link k)"

lemma client_initialised:
  "completes (client_fresh buf inp sent w) (modS (\<lambda>k. k\<lparr>hk_handshake := client_init (hk_handshake k)\<rparr>))
     (client_fresh buf inp sent w)"
  by (simp add: completes_def client_fresh_def client_init_def)

lemma client_c0c1_queued:
  "completes (client_fresh buf inp sent w) (run_client (client_generate_c0c1 clk0 clk1))
     (client_at ClientWaitS0 (c0c1_of clk0 clk1) buf inp sent w)"
proof (rule completesI)
  fix k assume k: "client_fresh buf inp sent w k"
  then have "buf_owned (hs_out (hk_handshake k))" by (simp add: client_fresh_def)
  then obtain o1 where o1: "client_generate_c0c1 clk0 clk1 (hk_handshake k, hk_buf k)
      = (Inr (), ((hk_handshake k)\<lparr>hs_peer_time := get_time clk0, hs_out := o1, hs_state := ClientWaitS0\<rparr>, hk_buf k))"
    "buf_inv o1" "buf_owned o1" "contents o1 = c0c1_of clk0 clk1"
    by (rule client_generate_c0c1_ok)
  show "\<exists>k'. run_client (client_generate_c0c1 clk0 clk1) k = (Inr (), k') \<and>
      client_at ClientWaitS0 (c0c1_of clk0 clk1) buf inp sent w k'"
    by (rule run_client_step [where m = "client_generate_c0c1 clk0 clk1", OF o1(1)])
      (use k o1 in \<open>simp_all add: client_at_def client_fresh_def\<close>)
qed

lemma client_s0:
  "completes (client_at st out (RTMP_VERSION # buf) inp sent w) (run_client client_read_s0)
     (client_at ClientWaitS1 out buf inp sent w)"
proof (rule completesI)
  fix k assume k: "client_at st out (RTMP_VERSION # buf) inp sent w k"
  then have i: "buf_inv (hk_buf k)" "contents (hk_buf k) = RTMP_VERSION # buf" by (simp_all add: client_at_def)
  obtain i' where i': "read_version ClientWaitS1 (hk_handshake k, hk_buf k)
      = (Inr (), ((hk_handshake k)\<lparr>hs_version := RTMP_VERSION, hs_state := ClientWaitS1\<rparr>, i'))"
    "buf_inv i'" "contents i' = buf" by (rule read_version_ok [OF i])
  show "\<exists>k'. run_client client_read_s0 k = (Inr (), k') \<and> client_at ClientWaitS1 out buf inp sent w k'"
    by (rule run_client_step [OF trans [OF _ i'(1)]]) (use k i' in \<open>simp_all add: client_at_def client_read_s0_def\<close>)
qed

lemma client_s1:
  assumes "length s1 = 1536"
  shows "completes (client_at st [] s1 inp sent w) (run_client (client_read_s1 clk))
     (client_at ClientWaitS2 (take 4 s1 @ be32 (get_time clk) @ drop 8 s1) [] inp sent w)"
proof (rule completesI)
  fix k assume k: "client_at st [] s1 inp sent w k"
  let ?h = "hk_handshake k" and ?i = "hk_buf k"
  have h: "buf_owned (hs_out ?h)" "buf_inv ?i" "1536 \<le> length (contents ?i)" "contents ?i = s1"
    using k assms by (simp_all add: client_at_def)
  obtain t o1 i' where o1: "client_read_s1 clk (?h, ?i)
      = (Inr (), (?h\<lparr>hs_peer_time := t, hs_out := o1, hs_state := ClientWaitS2\<rparr>, i'))"
    "take 4 (contents ?i) = be32 t" "buf_inv o1" "buf_owned o1"
    "echoes (take 1536 (contents ?i)) (get_time clk) (contents o1)"
    "buf_inv i'" "contents i' = drop 1536 (contents ?i)" by (rule client_read_s1_ok [OF h(1-3)])
  show "\<exists>k'. run_client (client_read_s1 clk) k = (Inr (), k') \<and>
      client_at ClientWaitS2 (take 4 s1 @ be32 (get_time clk) @ drop 8 s1) [] inp sent w k'"
    by (rule run_client_step [where m = "client_read_s1 clk", OF o1(1)]) (use k o1 h(4) assms in \<open>simp_all add: client_at_def echoes_def\<close>)
qed

lemma client_s2:
  assumes "length s2 = 1536"
  shows "completes (client_at st out s2 inp sent w) (run_client client_read_s2) (client_at HsDone out [] inp sent w)"
proof (rule completesI)
  fix k assume k: "client_at st out s2 inp sent w k"
  have i: "buf_inv (hk_buf k)" "1536 \<le> length (contents (hk_buf k))" using k assms by (simp_all add: client_at_def)
  obtain i' where i': "thenS read_block (mod_hs (\<lambda>hs. hs\<lparr>hs_state := HsDone\<rparr>)) (hk_handshake k, hk_buf k)
      = (Inr (), ((hk_handshake k)\<lparr>hs_state := HsDone\<rparr>, i'))" "buf_inv i'"
    "contents i' = drop 1536 (contents (hk_buf k))"
    by (rule read_last_block [OF i])
  show "\<exists>k'. run_client client_read_s2 k = (Inr (), k') \<and> client_at HsDone out [] inp sent w k'"
    by (rule run_client_step [OF trans [OF _ i'(1)]])
      (use k i' assms in \<open>simp_all add: client_at_def client_read_s2_def\<close>)
qed

lemma client_completes:
  assumes "length s1 = 1536" "length s2 = 1536"
  shows "completes (client_fresh buf ((RTMP_VERSION # s1) @ s2 @ rest) sent 3073)
     (client_do_handshake (clk0, clk1, clk2))
     (client_at HsDone [] [] rest ((sent @ c0c1_of clk0 clk1) @ take 4 s1 @ be32 (get_time clk2) @ drop 8 s1) 0)"
  unfolding client_do_handshake_def prod.case
  by (rule completes_then [OF client_initialised], rule completes_then [OF client_c0c1_queued],
      rule completes_then [OF client_send_out [where w = 1536]], simp,
      rule completes_then [OF client_receive], simp add: assms HANDSHAKE_SIZE_def, simp add: HANDSHAKE_SIZE_def,
      rule completes_then [OF client_s0], rule completes_then [OF client_s1 [OF assms(1)]],
      rule completes_then [OF client_send_out [where w = 0]], simp add: assms,
      rule completes_then [OF client_receive [OF _ _, where d = s2]], simp add: assms HANDSHAKE_SIZE_def,
      simp add: HANDSHAKE_SIZE_def, rule client_s2 [OF assms(2)])

section \<open>The handshake completes\<close>

definition client_new :: "bytes \<Rightarrow> nat \<Rightarrow> error_code \<Rightarrow> hs_client" where
  "client_new inp w e = \<lparr>hk_handshake = handshake_default, hk_buf = buf_new,
     hk_link = \<lparr>lk_in = inp, lk_sent = [], lk_window = w, lk_fault = e\<rparr>\<rparr>"

text \<open>A client's C1 asks for the plain handshake, so S2 echoes it.\<close>

lemma replied_plain:
  assumes "replied c1 out" "\<not> announces_digest c1"
  obtains s1 s2 t where "out = RTMP_VERSION # s1 @ s2" "length s1 = 1536" "length s2 = 1536" "echoes c1 t s2"
proof -
  from assms(1) obtain t mode s1 s2 where r: "out = RTMP_VERSION # s1 @ s2" "length s1 = 1536" "length s2 = 1536"
    "answers c1 t mode s1 s2" by (auto simp: replied_def)
  then show thesis using that assms(2) by (cases mode) auto
qed

lemma server_after_c0c1:
  obtains conn1 s1 s2 t where "recv_all (cut ns clks (c0c1_of clk0 clk1)) hs_conn_new = (Inr (), conn1)"
    "at_stage (level (c0c1_of clk0 clk1)) (c0c1_of clk0 clk1) conn1"
    "contents (hc_send_buffer conn1) = RTMP_VERSION # s1 @ s2" "length s1 = 1536" "length s2 = 1536"
    "echoes (tl (c0c1_of clk0 clk1)) t s2"
proof -
  let ?c = "c0c1_of clk0 clk1"
  have "\<exists>c'. recv_all (cut ns clks ?c) hs_conn_new = (Inr (), c') \<and>
      at_stage (level ([] @ concat (map snd (cut ns clks ?c)))) ([] @ concat (map snd (cut ns clks ?c))) c'"
    by (rule recv_all_ok [OF fresh_conn_stage]) (simp_all only: concat_cut append_Nil list.sel length_Cons, simp_all)
  then obtain conn1 where c: "recv_all (cut ns clks ?c) hs_conn_new = (Inr (), conn1)" "at_stage (level ?c) ?c conn1"
    by (auto simp only: concat_cut append_Nil)
  have "level ?c = 2" by (simp add: level_def)
  then have "replied (take 1536 (drop 1 ?c)) (contents (hc_send_buffer conn1))" using at_stageD(7) [OF c(2)] by simp
  then have "replied (tl ?c) (contents (hc_send_buffer conn1))" by simp
  moreover have "\<not> announces_digest (tl ?c)" by (simp add: announces_digest_def numeral_eq_Suc)
  ultimately show thesis using that [OF c] by (rule replied_plain)
qed



end
