(* ===== verification/Control.thy ===== *)
theory Control
  imports Chunk_State
begin

text \<open>
  The protocol control and user control messages (\<open>src/src/message/control.rs\<close>): payload writers and
  readers. The lemmas show that every reader returns what the writer was given, up to the limit on
  the chunk size, that no reader panics on any payload, and which values can come out of them.
\<close>

section \<open>Constants\<close>

definition CTRL_SET_CHUNK_SIZE :: u8 where "CTRL_SET_CHUNK_SIZE = 0x01"
definition CTRL_ABORT_MESSAGE :: u8 where "CTRL_ABORT_MESSAGE = 0x02"
definition CTRL_ACKNOWLEDGEMENT :: u8 where "CTRL_ACKNOWLEDGEMENT = 0x03"
definition CTRL_USER_CONTROL :: u8 where "CTRL_USER_CONTROL = 0x04"
definition CTRL_WINDOW_ACK_SIZE :: u8 where "CTRL_WINDOW_ACK_SIZE = 0x05"
definition CTRL_SET_PEER_BANDWIDTH :: u8 where "CTRL_SET_PEER_BANDWIDTH = 0x06"

definition UCTRL_STREAM_BEGIN :: u16 where "UCTRL_STREAM_BEGIN = 0x00"
definition UCTRL_STREAM_EOF :: u16 where "UCTRL_STREAM_EOF = 0x01"
definition UCTRL_STREAM_DRY :: u16 where "UCTRL_STREAM_DRY = 0x02"
definition UCTRL_SET_BUFFER_LENGTH :: u16 where "UCTRL_SET_BUFFER_LENGTH = 0x03"
definition UCTRL_STREAM_IS_RECORDED :: u16 where "UCTRL_STREAM_IS_RECORDED = 0x04"
definition UCTRL_PING_REQUEST :: u16 where "UCTRL_PING_REQUEST = 0x06"
definition UCTRL_PING_RESPONSE :: u16 where "UCTRL_PING_RESPONSE = 0x07"

definition MIN_CHUNK_SIZE :: u32 where "MIN_CHUNK_SIZE = 128"
definition MAX_INBOUND_CHUNK_SIZE :: u32 where "MAX_INBOUND_CHUNK_SIZE = 65536"
definition MIN_WINDOW_ACK_SIZE :: u32 where "MIN_WINDOW_ACK_SIZE = 1024"

section \<open>Encoder\<close>

text \<open>\<open>buf.write(d).map_err(|_| ErrorCode::Internal)?;\<close>\<close>

abbreviation put_internal :: "bytes \<Rightarrow> (buffer, unit) op" where
  "put_internal d \<equiv> voidS (map_errS EInternal (buf_write d))"

definition write_set_chunk_size :: "u32 \<Rightarrow> (buffer, unit) op" where
  "write_set_chunk_size chunk_size = put_internal (be32 chunk_size)"

definition write_abort_message :: "u32 \<Rightarrow> (buffer, unit) op" where
  "write_abort_message csid = put_internal (be32 csid)"

definition write_acknowledgement :: "u32 \<Rightarrow> (buffer, unit) op" where
  "write_acknowledgement sequence_number = put_internal (be32 sequence_number)"

definition write_window_ack_size :: "u32 \<Rightarrow> (buffer, unit) op" where
  "write_window_ack_size window_size = put_internal (be32 window_size)"

definition write_set_peer_bandwidth :: "u32 \<Rightarrow> u8 \<Rightarrow> (buffer, unit) op" where
  "write_set_peer_bandwidth window_size limit_type =
     thenS (put_internal (be32 window_size)) (put_internal [limit_type])"

definition write_user_control_stream_begin :: "u32 \<Rightarrow> (buffer, unit) op" where
  "write_user_control_stream_begin stream_id =
     thenS (put_internal (be16 UCTRL_STREAM_BEGIN)) (put_internal (be32 stream_id))"

definition write_user_control_stream_eof :: "u32 \<Rightarrow> (buffer, unit) op" where
  "write_user_control_stream_eof stream_id =
     thenS (put_internal (be16 UCTRL_STREAM_EOF)) (put_internal (be32 stream_id))"

definition write_user_control_set_buffer_length :: "u32 \<Rightarrow> u32 \<Rightarrow> (buffer, unit) op" where
  "write_user_control_set_buffer_length stream_id ms =
     thenS (put_internal (be16 UCTRL_SET_BUFFER_LENGTH))
       (thenS (put_internal (be32 stream_id)) (put_internal (be32 ms)))"

definition write_user_control_ping_request :: "u32 \<Rightarrow> (buffer, unit) op" where
  "write_user_control_ping_request timestamp =
     thenS (put_internal (be16 UCTRL_PING_REQUEST)) (put_internal (be32 timestamp))"

definition write_user_control_ping_response :: "u32 \<Rightarrow> (buffer, unit) op" where
  "write_user_control_ping_response timestamp =
     thenS (put_internal (be16 UCTRL_PING_RESPONSE)) (put_internal (be32 timestamp))"

section \<open>Decoder\<close>

definition read_set_chunk_size :: "bytes \<Rightarrow> u32 result" where
  "read_set_chunk_size data =
     (if length data < 4 then err EProtocol
      else bindR (ntoh32 data) (\<lambda>cs.
        if cs < MIN_CHUNK_SIZE \<or> cs AND 0x80000000 \<noteq> 0 then err EProtocol
        else Inr (min cs MAX_PEER_CHUNK_SIZE)))"

definition read_abort_message :: "bytes \<Rightarrow> u32 result" where
  "read_abort_message data = (if length data < 4 then err EProtocol else ntoh32 data)"

definition read_acknowledgement_size :: "bytes \<Rightarrow> u32 result" where
  "read_acknowledgement_size data = (if length data < 4 then err EProtocol else ntoh32 data)"

definition read_window_ack_size :: "bytes \<Rightarrow> u32 result" where
  "read_window_ack_size data =
     (if length data < 4 then err EProtocol
      else bindR (ntoh32 data) (\<lambda>win.
        if win > 0 \<and> win < MIN_WINDOW_ACK_SIZE then err EProtocol else Inr win))"

definition read_set_peer_bandwidth :: "bytes \<Rightarrow> (u32 \<times> u8) result" where
  "read_set_peer_bandwidth data =
     (if length data < 5 then err EProtocol
      else bindR (ntoh32 data) (\<lambda>w. bindR (idx data 4) (\<lambda>l. Inr (w, l))))"

definition read_user_control :: "bytes \<Rightarrow> bool \<Rightarrow> (u16 \<times> u32 \<times> u32 option) result" where
  "read_user_control data param2 =
     (if length data < 6 then err EProtocol
      else bindR (idx data 0) (\<lambda>b0. bindR (idx data 1) (\<lambda>b1.
        bindR (bindR (subslice data 2 (length data)) ntoh32) (\<lambda>p1.
        bindR (if param2 \<and> length data \<ge> 10
               then bindR (bindR (subslice data 6 (length data)) ntoh32) (\<lambda>p. Inr (Some p))
               else Inr None) (\<lambda>p2.
          Inr (u16_be b0 b1, p1, p2))))))"

section \<open>The messages as values\<close>

datatype control_message =
    SetChunkSize u32 | AbortMessage u32 | Acknowledgement u32 | WindowAckSize u32
  | SetPeerBandwidth u32 u8 | StreamBegin u32 | StreamEof u32 | SetBufferLength u32 u32
  | PingRequest u32 | PingResponse u32

fun control_write :: "control_message \<Rightarrow> (buffer, unit) op" where
  "control_write (SetChunkSize n) = write_set_chunk_size n"
| "control_write (AbortMessage n) = write_abort_message n"
| "control_write (Acknowledgement n) = write_acknowledgement n"
| "control_write (WindowAckSize n) = write_window_ack_size n"
| "control_write (SetPeerBandwidth n l) = write_set_peer_bandwidth n l"
| "control_write (StreamBegin n) = write_user_control_stream_begin n"
| "control_write (StreamEof n) = write_user_control_stream_eof n"
| "control_write (SetBufferLength n m) = write_user_control_set_buffer_length n m"
| "control_write (PingRequest n) = write_user_control_ping_request n"
| "control_write (PingResponse n) = write_user_control_ping_response n"

text \<open>What the reader of the message's type returns on a payload.\<close>

fun control_reads :: "control_message \<Rightarrow> bytes \<Rightarrow> bool" where
  "control_reads (SetChunkSize n) d \<longleftrightarrow> read_set_chunk_size d =
     (if 128 \<le> n \<and> n < 0x80000000 then Inr (min n 0xFFFFFF) else err EProtocol)"
| "control_reads (AbortMessage n) d \<longleftrightarrow> read_abort_message d = Inr n"
| "control_reads (Acknowledgement n) d \<longleftrightarrow> read_acknowledgement_size d = Inr n"
| "control_reads (WindowAckSize n) d \<longleftrightarrow> read_window_ack_size d =
     (if n = 0 \<or> 1024 \<le> n then Inr n else err EProtocol)"
| "control_reads (SetPeerBandwidth n l) d \<longleftrightarrow> read_set_peer_bandwidth d = Inr (n, l)"
| "control_reads (StreamBegin n) d \<longleftrightarrow> read_user_control d False = Inr (UCTRL_STREAM_BEGIN, n, None)"
| "control_reads (StreamEof n) d \<longleftrightarrow> read_user_control d False = Inr (UCTRL_STREAM_EOF, n, None)"
| "control_reads (SetBufferLength n m) d \<longleftrightarrow>
     read_user_control d True = Inr (UCTRL_SET_BUFFER_LENGTH, n, Some m)"
| "control_reads (PingRequest n) d \<longleftrightarrow> read_user_control d False = Inr (UCTRL_PING_REQUEST, n, None)"
| "control_reads (PingResponse n) d \<longleftrightarrow> read_user_control d False = Inr (UCTRL_PING_RESPONSE, n, None)"

fun control_bytes :: "control_message \<Rightarrow> bytes" where
  "control_bytes (SetChunkSize n) = be32 n"
| "control_bytes (AbortMessage n) = be32 n"
| "control_bytes (Acknowledgement n) = be32 n"
| "control_bytes (WindowAckSize n) = be32 n"
| "control_bytes (SetPeerBandwidth n l) = be32 n @ [l]"
| "control_bytes (StreamBegin n) = be16 UCTRL_STREAM_BEGIN @ be32 n"
| "control_bytes (StreamEof n) = be16 UCTRL_STREAM_EOF @ be32 n"
| "control_bytes (SetBufferLength n m) = be16 UCTRL_SET_BUFFER_LENGTH @ be32 n @ be32 m"
| "control_bytes (PingRequest n) = be16 UCTRL_PING_REQUEST @ be32 n"
| "control_bytes (PingResponse n) = be16 UCTRL_PING_RESPONSE @ be32 n"

lemmas control_write_defs =
  write_set_chunk_size_def write_abort_message_def write_acknowledgement_def write_window_ack_size_def
  write_set_peer_bandwidth_def write_user_control_stream_begin_def write_user_control_stream_eof_def
  write_user_control_set_buffer_length_def write_user_control_ping_request_def
  write_user_control_ping_response_def

lemma emits_control: "bq.emits (control_write m) () (control_bytes m)"
  by (cases m) (simp_all only: control_write.simps control_bytes.simps control_write_defs,
    (rule bq.emits_put bq.emits_then)+)

text \<open>The reserved top bit.\<close>

lemma top_bit_clear: "(w :: u32) AND 0x80000000 = 0 \<longleftrightarrow> w < 0x80000000"
proof -
  have "(0x80000000 :: u32) = 2 ^ 31" by simp
  moreover have "w AND 2 ^ 31 = 0 \<longleftrightarrow> \<not> bit w 31"
    by (rule and_exp_eq_0_iff_not_bit)
  moreover have "bit w 31 \<longleftrightarrow> 0x80000000 \<le> w"
  proof
    assume "bit w 31"
    then have "\<not> unat w < 2 ^ 31" using no_high_bit [of w 31 31] by blast
    then show "0x80000000 \<le> w" by (simp add: word_le_nat_alt)
  next
    assume "0x80000000 \<le> w"
    then have "2 ^ 31 \<le> unat w" by (simp add: word_le_nat_alt)
    moreover have "unat w < 2 ^ 32" using unsigned_less [of w] by simp
    ultimately have "unat w div 2 ^ 31 = 1" by (simp add: div_nat_eqI)
    then have "bit (unat w) 31" by (simp add: bit_iff_odd)
    then show "bit w 31" by (simp add: bit_unsigned_iff)
  qed
  ultimately show ?thesis by (auto simp: not_le)
qed

section \<open>Readers\<close>

lemma ntoh32_ok: "4 \<le> length d \<Longrightarrow> \<exists>w. ntoh32 d = Inr w"
  by (auto simp: ntoh32_def numeral_eq_Suc Suc_le_length_iff)

lemma read_user_control_ok:
  assumes "6 \<le> length d"
  shows "\<exists>r. read_user_control d p2 = Inr r"
proof -
  have "d \<noteq> []" using assms by auto
  have "4 \<le> length (drop 2 d)" using assms by simp
  then obtain w where w: "ntoh32 (drop 2 d) = Inr w" using ntoh32_ok by blast
  show ?thesis
  proof (cases "p2 \<and> 10 \<le> length d")
    case True
    then have "4 \<le> length (drop 6 d)" by auto
    then obtain w2 where "ntoh32 (drop 6 d) = Inr w2" using ntoh32_ok by blast
    with True w \<open>d \<noteq> []\<close> show ?thesis by (simp add: read_user_control_def)
  next
    case False
    with assms w \<open>d \<noteq> []\<close> show ?thesis by (auto simp: read_user_control_def)
  qed
qed

lemma control_reads_bytes: "control_reads m (control_bytes m)"
proof (cases m)
  case (SetChunkSize n)
  then show ?thesis
    using ntoh32_be32 [of n "[]"]
    by (auto simp: read_set_chunk_size_def MIN_CHUNK_SIZE_def MAX_PEER_CHUNK_SIZE_def top_bit_clear not_less)
next
  case (WindowAckSize n)
  then show ?thesis
    using ntoh32_be32 [of n "[]"]
    by (auto simp: read_window_ack_size_def MIN_WINDOW_ACK_SIZE_def not_less word_gt_0)
next
  case (SetPeerBandwidth n l)
  then show ?thesis
    using ntoh32_be32 [of n "[l]"] by (simp add: read_set_peer_bandwidth_def nth_append)
next
  case (SetBufferLength n k)
  then show ?thesis
    using ntoh32_be32 [of n "be32 k"] ntoh32_be32 [of k "[]"]
    by (simp add: read_user_control_def be16_def be_simps)
qed (use ntoh32_be32 [of _ "[]"] in
  \<open>simp_all add: read_abort_message_def read_acknowledgement_size_def read_user_control_def be16_def be_simps\<close>)



text \<open>Untrusted control payloads. On every payload no reader panics; a payload shorter than the
  message's fields is refused with \<open>Protocol\<close>; an accepted chunk size lies between 128 and 0xFFFFFF and
  an accepted window is 0 or at least 1024, whatever the bytes are.\<close>
theorem control_readers_bounded:
  "read_set_chunk_size d \<noteq> panic \<and> read_abort_message d \<noteq> panic \<and> read_acknowledgement_size d \<noteq> panic \<and>
   read_window_ack_size d \<noteq> panic \<and> read_set_peer_bandwidth d \<noteq> panic \<and> read_user_control d p2 \<noteq> panic \<and>
   (case read_set_chunk_size d of Inr cs \<Rightarrow> 128 \<le> cs \<and> cs \<le> 0xFFFFFF | Inl e \<Rightarrow> e = Err EProtocol) \<and>
   (case read_window_ack_size d of Inr w \<Rightarrow> w = 0 \<or> 1024 \<le> w | Inl e \<Rightarrow> e = Err EProtocol) \<and>
   (case read_user_control d p2 of Inr _ \<Rightarrow> 6 \<le> length d | Inl e \<Rightarrow> e = Err EProtocol \<and> length d < 6)"
proof (intro conjI)
  show "case read_set_chunk_size d of Inr cs \<Rightarrow> 128 \<le> cs \<and> cs \<le> 0xFFFFFF | Inl e \<Rightarrow> e = Err EProtocol"
    using ntoh32_ok [of d]
    by (auto simp: read_set_chunk_size_def MIN_CHUNK_SIZE_def MAX_PEER_CHUNK_SIZE_def not_less min_def)
  show "case read_window_ack_size d of Inr w \<Rightarrow> w = 0 \<or> 1024 \<le> w | Inl e \<Rightarrow> e = Err EProtocol"
    using ntoh32_ok [of d] by (auto simp: read_window_ack_size_def MIN_WINDOW_ACK_SIZE_def not_less word_gt_0)
  show "read_set_chunk_size d \<noteq> panic" "read_window_ack_size d \<noteq> panic" "read_abort_message d \<noteq> panic"
    "read_acknowledgement_size d \<noteq> panic" "read_set_peer_bandwidth d \<noteq> panic"
    using ntoh32_ok [of d] by (auto simp: read_set_chunk_size_def read_window_ack_size_def read_abort_message_def
        read_acknowledgement_size_def read_set_peer_bandwidth_def split: if_splits)
  show "case read_user_control d p2 of Inr _ \<Rightarrow> 6 \<le> length d | Inl e \<Rightarrow> e = Err EProtocol \<and> length d < 6"
    "read_user_control d p2 \<noteq> panic"
    using read_user_control_ok [of d p2] by (cases "length d < 6"; auto simp: read_user_control_def not_less)+
qed

end
