(* ===== verification/Shared_Object.thy ===== *)
theory Shared_Object
  imports Control Amf0
begin

text \<open>
  Shared-object messages (\<open>src/src/message/shared_object.rs\<close>): the envelope of name, version, flags and a
  list of opaque events. The lemmas show that \<open>parse\<close> accepts exactly the encodings of well-formed
  messages, whatever the reserved word holds, and that \<open>write\<close> produces such an encoding.
\<close>

section \<open>Messages\<close>

definition MAX_SO_NAME_BYTES :: nat where "MAX_SO_NAME_BYTES = 256"
definition MAX_SO_EVENTS :: nat where "MAX_SO_EVENTS = 256"
definition MAX_SO_EVENT_DATA_BYTES :: nat where "MAX_SO_EVENT_DATA_BYTES = 64 * 1024"

datatype so_event_type =
    SoUse | SoRelease | SoRequestChange | SoChange | SoSuccess | SoSendMessage | SoStatus | SoClear
  | SoRemove | SoRequestRemove | SoUseSuccess | SoUnknown u8

definition so_from_byte :: "u8 \<Rightarrow> so_event_type" where
  "so_from_byte b =
     (if b = 1 then SoUse else if b = 2 then SoRelease else if b = 3 then SoRequestChange
      else if b = 4 then SoChange else if b = 5 then SoSuccess else if b = 6 then SoSendMessage
      else if b = 7 then SoStatus else if b = 8 then SoClear else if b = 9 then SoRemove
      else if b = 10 then SoRequestRemove else if b = 11 then SoUseSuccess else SoUnknown b)"

fun so_to_byte :: "so_event_type \<Rightarrow> u8" where
  "so_to_byte SoUse = 1"
| "so_to_byte SoRelease = 2"
| "so_to_byte SoRequestChange = 3"
| "so_to_byte SoChange = 4"
| "so_to_byte SoSuccess = 5"
| "so_to_byte SoSendMessage = 6"
| "so_to_byte SoStatus = 7"
| "so_to_byte SoClear = 8"
| "so_to_byte SoRemove = 9"
| "so_to_byte SoRequestRemove = 10"
| "so_to_byte SoUseSuccess = 11"
| "so_to_byte (SoUnknown b) = b"

record so_event =
  so_event_type :: so_event_type
  so_data :: bytes

record so_message =
  so_name :: bytes
  so_version :: u32
  so_flags :: u32
  so_events :: "so_event list"

definition so_message_default :: so_message where
  "so_message_default = \<lparr>so_name = [], so_version = 0, so_flags = 0, so_events = []\<rparr>"

definition so_is_persistent :: "so_message \<Rightarrow> bool" where
  "so_is_persistent m \<longleftrightarrow> so_flags m = 2"

section \<open>Parser\<close>

definition so_read_u16 :: "(buffer, u16) op" where
  "so_read_u16 = bindS (map_errS EAmf (buf_read 2)) (\<lambda>b. liftS (ntoh16 b))"

definition so_read_u32 :: "(buffer, u32) op" where
  "so_read_u32 = bindS (map_errS EAmf (buf_read 4)) (\<lambda>b. liftS (ntoh32 b))"

text \<open>\<open>if len > max || buf.available() < len { return Err(Amf) }\<close>, then \<open>len\<close> bytes.\<close>

definition so_read_bounded :: "nat \<Rightarrow> nat \<Rightarrow> (buffer, bytes) op" where
  "so_read_bounded len limit = bindS (getS buf_available) (\<lambda>a.
     if len > limit \<or> a < len then failS (Err EAmf) else map_errS EAmf (buf_read len))"

definition so_read_event :: "(buffer, so_event) op" where
  "so_read_event = bindS (map_errS EAmf (buf_read 1)) (\<lambda>ty_byte.
     bindS so_read_u32 (\<lambda>event_len.
     bindS (so_read_bounded (unat event_len) MAX_SO_EVENT_DATA_BYTES) (\<lambda>event_data.
     bindS (liftS (idx ty_byte 0)) (\<lambda>ty.
       retS \<lparr>so_event_type = so_from_byte ty, so_data = event_data\<rparr>))))"

text \<open>The event loop; the argument is how many more events are accepted.\<close>

primrec so_read_events :: "nat \<Rightarrow> (buffer, so_event list) op" where
  "so_read_events 0 = bindS (getS buf_available) (\<lambda>a.
     if a > 0 then failS (Err EAmf) else retS [])"
| "so_read_events (Suc n) = bindS (getS buf_available) (\<lambda>a.
     if a > 0 then bindS so_read_event (\<lambda>e. bindS (so_read_events n) (\<lambda>es. retS (e # es)))
     else retS [])"

definition so_read :: "(buffer, so_message) op" where
  "so_read = bindS so_read_u16 (\<lambda>name_len.
     bindS (so_read_bounded (unat name_len) MAX_SO_NAME_BYTES) (\<lambda>name_bytes.
     if \<not> utf8_valid name_bytes then failS (Err EAmf)
     else bindS so_read_u32 (\<lambda>version.
     bindS so_read_u32 (\<lambda>flags.
     bindS so_read_u32 (\<lambda>reserved.
     bindS (so_read_events MAX_SO_EVENTS) (\<lambda>events.
       retS \<lparr>so_name = name_bytes, so_version = version, so_flags = flags, so_events = events\<rparr>))))))"

definition so_parse :: "bytes \<Rightarrow> so_message result" where
  "so_parse data = fst (so_read (buf_from_slice data))"

section \<open>Writer\<close>

primrec so_write_events :: "so_event list \<Rightarrow> (buffer, unit) op" where
  "so_write_events [] = retS ()"
| "so_write_events (e # es) =
     (if length (so_data e) > MAX_SO_EVENT_DATA_BYTES then failS (Err EAmf)
      else thenS (map_errS EInternal (buf_write [so_to_byte (so_event_type e)]))
        (thenS (map_errS EInternal (buf_write (be32 (of_nat (length (so_data e))))))
        (thenS (map_errS EInternal (buf_write (so_data e)))
          (so_write_events es))))"

definition so_write :: "so_message \<Rightarrow> (buffer, unit) op" where
  "so_write msg =
     (if length (so_name msg) > MAX_SO_NAME_BYTES then failS (Err EAmf)
      else if length (so_events msg) > MAX_SO_EVENTS then failS (Err EAmf)
      else thenS (map_errS EInternal (buf_write (be16 (of_nat (length (so_name msg))))))
        (thenS (map_errS EInternal (buf_write (so_name msg)))
        (thenS (map_errS EInternal (buf_write (be32 (so_version msg))))
        (thenS (map_errS EInternal (buf_write (be32 (so_flags msg))))
        (thenS (map_errS EInternal (buf_write (be32 0)))
          (so_write_events (so_events msg)))))))"

section \<open>Well-formed messages and their encoding\<close>

text \<open>An event type is canonical when it is not a named type in the guise of an unknown one.\<close>

definition so_event_ok :: "so_event \<Rightarrow> bool" where
  "so_event_ok e \<longleftrightarrow> length (so_data e) \<le> MAX_SO_EVENT_DATA_BYTES \<and>
     so_from_byte (so_to_byte (so_event_type e)) = so_event_type e"

definition so_ok :: "so_message \<Rightarrow> bool" where
  "so_ok m \<longleftrightarrow> length (so_name m) \<le> MAX_SO_NAME_BYTES \<and> utf8_valid (so_name m) \<and>
     length (so_events m) \<le> MAX_SO_EVENTS \<and> list_all so_event_ok (so_events m)"

definition so_event_bytes :: "so_event \<Rightarrow> bytes" where
  "so_event_bytes e = so_to_byte (so_event_type e) # be32 (of_nat (length (so_data e))) @ so_data e"

definition so_bytes :: "u32 \<Rightarrow> so_message \<Rightarrow> bytes" where
  "so_bytes reserved m = be16 (of_nat (length (so_name m))) @ so_name m @ be32 (so_version m) @
     be32 (so_flags m) @ be32 reserved @ concat (map so_event_bytes (so_events m))"

lemma so_byte_from_byte [simp]: "so_to_byte (so_from_byte b) = b"
  by (simp add: so_from_byte_def)

section \<open>What the parser returns was encoded\<close>

lemma yields_bytes:
  "bq.yields so_read_u16 (\<lambda>w u. u = be16 w)" "bq.yields so_read_u32 (\<lambda>w u. u = be32 w)"
proof -
  have two: "\<exists>a b. u = [a, b]" if "length u = 2" for u :: bytes
    using that by (auto simp: numeral_eq_Suc length_Suc_conv)
  have four: "\<exists>a b c d. u = [a, b, c, d]" if "length u = 4" for u :: bytes
    using that by (auto simp: numeral_eq_Suc length_Suc_conv)
  show "bq.yields so_read_u16 (\<lambda>w u. u = be16 w)"
    unfolding so_read_u16_def
    by (rule bq.yields_bind [OF bq.yields_map_err [OF bq.yields_read]], rule bq.yields_lift)
      (auto dest!: two simp: ntoh16_def be_simps)
  show "bq.yields so_read_u32 (\<lambda>w u. u = be32 w)"
    unfolding so_read_u32_def
    by (rule bq.yields_bind [OF bq.yields_map_err [OF bq.yields_read]], rule bq.yields_lift)
      (auto dest!: four simp: ntoh32_def be_simps)
qed

lemma yields_bounded: "bq.yields (so_read_bounded n limit) (\<lambda>d u. d = u \<and> length u = n \<and> n \<le> limit)"
  unfolding so_read_bounded_def
  by (rule bq.yields_bind [OF bq.yields_get], rule bq.yields_if, rule bq.yields_fail,
      rule bq.yields_mono [OF bq.yields_map_err [OF bq.yields_read]]) auto

lemma yields_event: "bq.yields so_read_event (\<lambda>e u. so_event_ok e \<and> u = so_event_bytes e)"
  unfolding so_read_event_def
proof (rule bq.yields_bind [OF bq.yields_map_err [OF bq.yields_read]])
  fix ty_byte u :: bytes assume "ty_byte = u \<and> length u = 1"
  then obtain ty where ty: "ty_byte = [ty]" "u = [ty]" by (cases u) auto
  show "bq.yields (bindS so_read_u32 (\<lambda>event_len.
     bindS (so_read_bounded (unat event_len) MAX_SO_EVENT_DATA_BYTES) (\<lambda>event_data.
     bindS (liftS (idx ty_byte 0)) (\<lambda>ty.
       retS \<lparr>so_event_type = so_from_byte ty, so_data = event_data\<rparr>))))
     (\<lambda>e v. so_event_ok e \<and> u @ v = so_event_bytes e)"
    by (rule bq.yields_bind [OF yields_bytes(2)], rule bq.yields_bind [OF yields_bounded],
        rule bq.yields_bind [OF bq.yields_lift [where P = "\<lambda>x v. x = ty \<and> v = []"]], simp add: ty,
        rule bq.yields_ret) (auto simp: ty so_event_ok_def so_event_bytes_def)
qed

lemma so_events_inverse:
  "buf_inv b \<Longrightarrow> so_read_events n b = (Inr es, b') \<Longrightarrow>
   contents b = concat (map so_event_bytes es) \<and> length es \<le> n \<and> list_all so_event_ok es"
proof (induction n arbitrary: b es)
  case 0
  then show ?case by (auto simp: bindS_apply buf_available_contents split: if_splits)
next
  case (Suc n)
  show ?case
  proof (cases "contents b = []")
    case True
    with Suc.prems show ?thesis by (simp add: bindS_apply buf_available_contents)
  next
    case False
    then have "bindS so_read_event (\<lambda>e. bindS (so_read_events n) (\<lambda>es. retS (e # es))) b = (Inr es, b')"
      using Suc.prems by (simp add: bindS_apply buf_available_contents)
    then obtain e b1 es' where e: "so_read_event b = (Inr e, b1)" "so_read_events n b1 = (Inr es', b')" "es = e # es'"
      by (auto simp: bindS_def split: prod.splits sum.splits)
    from yields_event Suc.prems(1) e(1) obtain u where u: "buf_inv b1" "contents b = u @ contents b1"
      "so_event_ok e \<and> u = so_event_bytes e" by (rule bq.yieldsE)
    with Suc.IH [OF u(1) e(2)] e(3) show ?thesis by simp
  qed
qed

section \<open>What was encoded is what the parser returns\<close>

lemma parses_so_words: "bq.parses so_read_u16 (be16 v) v" "bq.parses so_read_u32 (be32 w) w"
  unfolding so_read_u16_def so_read_u32_def
  using ntoh16_be16 [of v "[]"] ntoh32_be32 [of w "[]"]
  by (auto intro!: bq.parses_pull_last bq.parses_lift)

lemma parses_bounded:
  assumes "length d = n" "n \<le> limit"
  shows "bq.parses (so_read_bounded n limit) d d"
  unfolding bq.parses_def
proof (intro allI impI)
  fix b rest assume b: "buf_inv b" "contents b = d @ rest"
  have "bq.parses (map_errS EAmf (buf_read n)) d d"
    using assms(1) by (intro bq.parses_map_err bq.parses_read) simp
  then obtain b' where b': "map_errS EAmf (buf_read n) b = (Inr d, b')" "buf_inv b'" "contents b' = rest"
    using b by (rule bq.parsesE)
  moreover have "so_read_bounded n limit b = map_errS EAmf (buf_read n) b"
    using assms b by (simp add: so_read_bounded_def bindS_apply buf_available_contents)
  ultimately show "\<exists>b'. so_read_bounded n limit b = (Inr d, b') \<and> buf_inv b' \<and> contents b' = rest" by simp
qed

lemma unat_len: "length d \<le> MAX_SO_EVENT_DATA_BYTES \<Longrightarrow> unat (of_nat (length d) :: u32) = length d"
  "length d \<le> MAX_SO_NAME_BYTES \<Longrightarrow> unat (of_nat (length d) :: u16) = length d"
  by (simp_all add: unat_of_nat take_bit_nat_eq_self MAX_SO_EVENT_DATA_BYTES_def MAX_SO_NAME_BYTES_def)

lemma parses_event:
  assumes "so_event_ok e"
  shows "bq.parses so_read_event (so_event_bytes e) e"
proof -
  have d: "length (so_data e) \<le> MAX_SO_EVENT_DATA_BYTES" "so_from_byte (so_to_byte (so_event_type e)) = so_event_type e"
    using assms by (simp_all add: so_event_ok_def)
  let ?k = "\<lambda>ty_byte. bindS so_read_u32 (\<lambda>event_len.
     bindS (so_read_bounded (unat event_len) MAX_SO_EVENT_DATA_BYTES) (\<lambda>event_data.
     bindS (liftS (idx ty_byte 0)) (\<lambda>ty. retS \<lparr>so_event_type = so_from_byte ty, so_data = event_data\<rparr>)))"
  have "bq.parses (bindS (liftS (idx [so_to_byte (so_event_type e)] 0))
      (\<lambda>ty. retS \<lparr>so_event_type = so_from_byte ty, so_data = so_data e\<rparr>)) [] e"
    by (rule bq.parses_bind_lift [OF idx_Cons_simps(1)], unfold d(2)) (auto simp: bq.parses_def)
  then have "bq.parses (?k [so_to_byte (so_event_type e)]) (be32 (of_nat (length (so_data e))) @ so_data e) e"
    by (intro bq.parses_bind [OF parses_so_words(2)])
      (rule bq.parses_bind_last [OF parses_bounded], simp_all add: unat_len d)
  then show ?thesis
    unfolding so_read_event_def so_event_bytes_def
    by (intro bq.parses_bind_Cons [where f = ?k, OF bq.parses_map_err [OF bq.parses_read]]) simp_all
qed

lemma so_events_forward:
  "buf_inv b \<Longrightarrow> contents b = concat (map so_event_bytes es) \<Longrightarrow> length es \<le> n \<Longrightarrow> list_all so_event_ok es \<Longrightarrow>
   \<exists>b'. so_read_events n b = (Inr es, b')"
proof (induction es arbitrary: b n)
  case Nil
  then show ?case by (cases n) (simp_all add: bindS_apply buf_available_contents)
next
  case (Cons e es)
  then obtain m where n: "n = Suc m" by (cases n) auto
  have "bq.parses so_read_event (so_event_bytes e) e" using Cons.prems by (intro parses_event) simp
  then obtain b1 where b1: "so_read_event b = (Inr e, b1)" "buf_inv b1" "contents b1 = concat (map so_event_bytes es)"
    by (rule bq.parsesE) (use Cons.prems in simp_all)
  from Cons.IH [OF b1(2,3), of m] Cons.prems n obtain b' where "so_read_events m b1 = (Inr es, b')" by auto
  moreover have "contents b \<noteq> []" using Cons.prems(2) by (simp add: so_event_bytes_def)
  ultimately show ?case using b1(1) Cons.prems(1) n by (simp add: bindS_apply buf_available_contents)
qed

lemma parses_so_bytes_head:
  assumes "so_ok m" "buf_inv b" "contents b = so_bytes r m"
  shows "\<exists>b'. so_read b = (Inr m, b')"
proof -
  let ?n = "so_name m"
  have m: "length ?n \<le> MAX_SO_NAME_BYTES" "utf8_valid ?n" "length (so_events m) \<le> MAX_SO_EVENTS"
    "list_all so_event_ok (so_events m)" using assms(1) by (simp_all add: so_ok_def)
  obtain b1 where b1: "so_read_u16 b = (Inr (of_nat (length ?n)), b1)" "buf_inv b1"
    "contents b1 = ?n @ be32 (so_version m) @ be32 (so_flags m) @ be32 r @ concat (map so_event_bytes (so_events m))"
    by (rule bq.parsesE [OF parses_so_words(1) assms(2)]) (use assms(3) in \<open>auto simp: so_bytes_def\<close>)
  obtain b2 where b2: "so_read_bounded (length ?n) MAX_SO_NAME_BYTES b1 = (Inr ?n, b2)" "buf_inv b2"
    "contents b2 = be32 (so_version m) @ be32 (so_flags m) @ be32 r @ concat (map so_event_bytes (so_events m))"
    by (rule bq.parsesE [OF parses_bounded [OF refl m(1)] b1(2,3)])
  obtain b3 where b3: "so_read_u32 b2 = (Inr (so_version m), b3)" "buf_inv b3"
    "contents b3 = be32 (so_flags m) @ be32 r @ concat (map so_event_bytes (so_events m))"
    by (rule bq.parsesE [OF parses_so_words(2) b2(2,3)])
  obtain b4 where b4: "so_read_u32 b3 = (Inr (so_flags m), b4)" "buf_inv b4"
    "contents b4 = be32 r @ concat (map so_event_bytes (so_events m))"
    by (rule bq.parsesE [OF parses_so_words(2) b3(2,3)])
  obtain b5 where b5: "so_read_u32 b4 = (Inr r, b5)" "buf_inv b5"
    "contents b5 = concat (map so_event_bytes (so_events m))"
    by (rule bq.parsesE [OF parses_so_words(2) b4(2,3)])
  obtain b6 where "so_read_events MAX_SO_EVENTS b5 = (Inr (so_events m), b6)"
    using so_events_forward [OF b5(2,3) m(3,4)] by blast
  with b1(1) b2(1) b3(1) b4(1) b5(1) m(1,2) show ?thesis
    by (simp add: so_read_def unat_len)
qed

lemma so_read_inverse:
  assumes "buf_inv b" "so_read b = (Inr m, b')"
  shows "so_ok m \<and> (\<exists>r. contents b = so_bytes r m)"
proof -
  from assms(2) obtain nl n v f r es b1 b2 b3 b4 b5 where s: "so_read_u16 b = (Inr nl, b1)"
    "so_read_bounded (unat nl) MAX_SO_NAME_BYTES b1 = (Inr n, b2)" "utf8_valid n" "so_read_u32 b2 = (Inr v, b3)"
    "so_read_u32 b3 = (Inr f, b4)" "so_read_u32 b4 = (Inr r, b5)" "so_read_events MAX_SO_EVENTS b5 = (Inr es, b')"
    "m = \<lparr>so_name = n, so_version = v, so_flags = f, so_events = es\<rparr>"
    unfolding so_read_def by (auto simp: bindS_def split: prod.splits sum.splits if_splits)
  obtain u1 where u1: "buf_inv b1" "contents b = u1 @ contents b1" "u1 = be16 nl"
    by (rule bq.yieldsE [OF yields_bytes(1) assms(1) s(1)])
  obtain u2 where u2: "buf_inv b2" "contents b1 = u2 @ contents b2" "n = u2 \<and> length u2 = unat nl \<and> unat nl \<le> MAX_SO_NAME_BYTES"
    by (rule bq.yieldsE [OF yields_bounded u1(1) s(2)])
  obtain u3 where u3: "buf_inv b3" "contents b2 = u3 @ contents b3" "u3 = be32 v"
    by (rule bq.yieldsE [OF yields_bytes(2) u2(1) s(4)])
  obtain u4 where u4: "buf_inv b4" "contents b3 = u4 @ contents b4" "u4 = be32 f"
    by (rule bq.yieldsE [OF yields_bytes(2) u3(1) s(5)])
  obtain u5 where u5: "buf_inv b5" "contents b4 = u5 @ contents b5" "u5 = be32 r"
    by (rule bq.yieldsE [OF yields_bytes(2) u4(1) s(6)])
  from so_events_inverse [OF u5(1) s(7)] u1 u2 u3 u4 u5 s(3,8) show ?thesis
    by (auto simp: so_ok_def so_bytes_def intro!: exI [of _ r])
qed

section \<open>No input makes the parser panic\<close>

lemma consumes_so_words [intro]: "bq.consumes so_read_u16" "bq.consumes so_read_u32"
  unfolding so_read_u16_def so_read_u32_def
  by (auto intro!: consumes_read_lift simp: ntoh16_def ntoh32_def idx_def simp del: length_greater_0_conv)

lemma consumes_bounded [intro]: "bq.consumes (so_read_bounded n limit)"
  unfolding so_read_bounded_def by (rule bq.consumes_bind) auto

lemma consumes_event [intro]: "bq.consumes so_read_event"
  unfolding so_read_event_def
proof (rule bq.consumes_bind)
  fix x s assume "buf_inv s" "fst (map_errS EAmf (buf_read 1) s) = Inr x"
  then have "length x = 1" by (auto simp: map_errS_def split: prod.splits dest!: bq.read_length [of s 1 x])
  then have "idx x 0 \<noteq> panic" by (simp add: idx_def)
  then show "bq.consumes (bindS so_read_u32 (\<lambda>event_len.
     bindS (so_read_bounded (unat event_len) MAX_SO_EVENT_DATA_BYTES) (\<lambda>event_data.
     bindS (liftS (idx x 0)) (\<lambda>ty. retS \<lparr>so_event_type = so_from_byte ty, so_data = event_data\<rparr>))))"
    by (intro bq.consumes_bind consumes_so_words consumes_bounded bq.consumes_lift bq.consumes_ret)
qed auto

lemma consumes_events [intro]: "bq.consumes (so_read_events n)"
proof (induction n)
  case 0
  show ?case
    unfolding so_read_events.simps
    by (intro bq.consumes_bind bq.consumes_get bq.consumes_if bq.consumes_fail bq.consumes_ret) simp
next
  case (Suc n)
  show ?case
    unfolding so_read_events.simps
    by (intro bq.consumes_bind bq.consumes_get bq.consumes_if bq.consumes_ret consumes_event Suc.IH)
qed

lemma consumes_so_read: "bq.consumes so_read"
  unfolding so_read_def
  by (intro bq.consumes_bind consumes_so_words consumes_bounded consumes_events bq.consumes_if bq.consumes_fail
      bq.consumes_ret) simp

section \<open>Properties\<close>

lemma emits_so_events:
  "list_all so_event_ok es \<Longrightarrow> bq.emits (so_write_events es) () (concat (map so_event_bytes es))"
proof (induction es)
  case Nil
  then show ?case by (auto simp del: retS_apply)
next
  case (Cons e es)
  then have e: "\<not> length (so_data e) > MAX_SO_EVENT_DATA_BYTES" by (simp add: so_event_ok_def)
  have "bq.emits (so_write_events (e # es)) () ([so_to_byte (so_event_type e)] @ be32 (of_nat (length (so_data e))) @
      so_data e @ concat (map so_event_bytes es))"
    unfolding so_write_events.simps if_not_P [OF e]
    by (intro bq.emits_put_then Cons.IH) (use Cons.prems in simp)
  then show ?case
    unfolding list.map concat.simps so_event_bytes_def [of e] append_Cons append_Nil append_assoc .
qed

lemma emits_so_write:
  assumes "so_ok m"
  shows "bq.emits (so_write m) () (so_bytes 0 m)"
proof -
  have m: "\<not> length (so_name m) > MAX_SO_NAME_BYTES" "\<not> length (so_events m) > MAX_SO_EVENTS" "list_all so_event_ok (so_events m)"
    using assms by (simp_all add: so_ok_def)
  show ?thesis
    unfolding so_write_def so_bytes_def if_not_P [OF m(1)] if_not_P [OF m(2)]
    by (intro bq.emits_put_then emits_so_events m(3))
qed

lemma so_parse_encoding: "so_ok m \<Longrightarrow> so_parse (so_bytes r m) = Inr m"
  using parses_so_bytes_head [of m "buf_from_slice (so_bytes r m)" r] by (auto simp: so_parse_def)

lemma so_parse_no_panic: "so_parse d \<noteq> panic"
  using bq.consumesD(1) [OF consumes_so_read, of "buf_from_slice d"] by (simp add: so_parse_def)

text \<open>C10: The shared-object parser accepts exactly the encodings. On every payload \<open>parse\<close> does not panic,
  and it returns a message if and only if the payload is the encoding of that message, with any reserved
  word, and the message is within every limit (name of at most 256 bytes of UTF-8, at most 256 events of
  at most 64 KiB each). So an accepted message never differs from what was sent.\<close>
theorem shared_object_parse_exact:
  "so_parse d \<noteq> panic \<and> (so_parse d = Inr m \<longleftrightarrow> so_ok m \<and> (\<exists>r. d = so_bytes r m))"
proof
  show "so_parse d \<noteq> panic" by (rule so_parse_no_panic)
  show "so_parse d = Inr m \<longleftrightarrow> so_ok m \<and> (\<exists>r. d = so_bytes r m)"
  proof
    assume "so_parse d = Inr m"
    then have "so_read (buf_from_slice d) = (Inr m, snd (so_read (buf_from_slice d)))"
      by (simp add: so_parse_def prod_eq_iff)
    from so_read_inverse [OF _ this] show "so_ok m \<and> (\<exists>r. d = so_bytes r m)" by simp
  qed (auto simp: so_parse_encoding)
qed

text \<open>C21: Shared objects round-trip. Writing a message within the limits to a buffer with room appends
  exactly its encoding, and parsing that encoding returns the message.\<close>
theorem shared_object_roundtrip:
  assumes "so_ok m" and "buf_inv b" and "buf_room b (length (so_bytes 0 m))"
  shows "\<exists>b'. so_write m b = (Inr (), b') \<and> contents b' = contents b @ so_bytes 0 m \<and>
    so_parse (so_bytes 0 m) = Inr m"
  using bq.emitsE [OF emits_so_write [OF assms(1)] assms(2,3)] so_parse_encoding [OF assms(1)] by metis

text \<open>Witness for C21: a persistent shared object with a known and an unknown event.\<close>
theorem shared_object_roundtrip_witness:
  "\<exists>b'. so_write \<lparr>so_name = ascii ''chat'', so_version = 7, so_flags = 2,
      so_events = [\<lparr>so_event_type = SoUse, so_data = []\<rparr>, \<lparr>so_event_type = SoUnknown 99, so_data = [1, 2]\<rparr>]\<rparr> buf_new
        = (Inr (), b') \<and>
    so_parse (contents b') = Inr \<lparr>so_name = ascii ''chat'', so_version = 7, so_flags = 2,
      so_events = [\<lparr>so_event_type = SoUse, so_data = []\<rparr>, \<lparr>so_event_type = SoUnknown 99, so_data = [1, 2]\<rparr>]\<rparr>"
    (is "\<exists>b'. so_write ?m _ = _ \<and> _")
proof -
  have ok: "so_ok ?m"
    by (simp add: so_ok_def so_event_ok_def so_from_byte_def MAX_SO_NAME_BYTES_def MAX_SO_EVENTS_def
        MAX_SO_EVENT_DATA_BYTES_def)
  have "buf_room buf_new (length (so_bytes 0 ?m))"
    by (simp add: buf_room_owned BUFFER_MAX_SIZE_def so_bytes_def so_event_bytes_def)
  from shared_object_roundtrip [OF ok buf_inv_fresh(1) this] show ?thesis by auto
qed

end
