(* ===== verification/Ertmp_Tags.thy ===== *)
theory Ertmp_Tags
  imports Rtmp_Types Rtmp_Bytes Rtmp_Text
begin

text \<open>
  The tag headers of Enhanced RTMP (\<open>src/src/ertmp/fourcc.rs\<close>, \<open>exvideo.rs\<close>, \<open>exaudio.rs\<close>, \<open>reconnect.rs\<close>,
  \<open>metadata.rs\<close>, \<open>multitrack.rs\<close>) and of legacy FLV (\<open>src/src/flv/audio_tag.rs\<close>, \<open>video_tag.rs\<close>). A parser that
  fills a \<open>&mut\<close> header is an operation on that header, so the header is also defined when it fails. A
  writer into a \<open>&mut [u8]\<close> returns the number of bytes and the array it leaves.

  The lemmas show that no parser or writer indexes out of range, that parser and writer invert each
  other on the headers that have a wire form, and that the legacy and the enhanced parser agree.
\<close>

section \<open>FourCC tables\<close>

definition VIDEO_FOURCCS :: "(bytes \<times> video_codec \<times> string) list" where
  "VIDEO_FOURCCS =
    [(ascii ''avc1'', VH264, ''H.264/AVC''), (ascii ''hvc1'', VH265, ''H.265/HEVC''),
     (ascii ''av01'', VAv1, ''AV1''), (ascii ''vp09'', VVp9, ''VP9'')]"

definition AUDIO_FOURCCS :: "(bytes \<times> audio_codec \<times> string) list" where
  "AUDIO_FOURCCS =
    [(ascii ''Opus'', AOpus, ''Opus''), (ascii ''mp4a'', AAac, ''AAC''), (ascii ''mp3 '', AMp3, ''MP3''),
     (ascii ''.mp3'', AMp3, ''MP3 (E-RTMP)''), (ascii ''ac-3'', AAac, ''Dolby Digital''),
     (ascii ''ec-3'', AAac, ''Dolby Digital Plus''), (ascii ''fLaC'', AAac, ''FLAC'')]"

definition lookup_fourcc :: "(bytes \<times> 'c \<times> string) list \<Rightarrow> bytes \<Rightarrow> ('c \<times> string) option" where
  "lookup_fourcc tab fourcc = map_of tab (take 4 fourcc)"

definition fourcc_to_video_codec :: "bytes \<Rightarrow> video_codec result" where
  "fourcc_to_video_codec fourcc =
     (if length fourcc < 4 then err EChunk
      else case lookup_fourcc VIDEO_FOURCCS fourcc of Some (codec, _) \<Rightarrow> Inr codec | None \<Rightarrow> err EChunk)"

definition fourcc_to_audio_codec :: "bytes \<Rightarrow> audio_codec result" where
  "fourcc_to_audio_codec fourcc =
     (if length fourcc < 4 then err EChunk
      else case lookup_fourcc AUDIO_FOURCCS fourcc of Some (codec, _) \<Rightarrow> Inr codec | None \<Rightarrow> err EChunk)"

fun first_fourcc :: "(bytes \<times> 'c \<times> string) list \<Rightarrow> 'c \<Rightarrow> bytes \<Rightarrow> bytes" where
  "first_fourcc [] codec fallback = fallback"
| "first_fourcc ((cc, c, _) # tab) codec fallback = (if c = codec then cc else first_fourcc tab codec fallback)"

definition video_codec_to_fourcc :: "video_codec \<Rightarrow> bytes" where
  "video_codec_to_fourcc codec = first_fourcc VIDEO_FOURCCS codec (ascii ''avc1'')"

definition audio_codec_to_fourcc :: "audio_codec \<Rightarrow> bytes" where
  "audio_codec_to_fourcc codec = first_fourcc AUDIO_FOURCCS codec (ascii ''mp4a'')"

definition fourcc_video_name :: "bytes \<Rightarrow> string option" where
  "fourcc_video_name fourcc =
     (if length fourcc < 4 then None else map_option snd (lookup_fourcc VIDEO_FOURCCS fourcc))"

definition fourcc_audio_name :: "bytes \<Rightarrow> string option" where
  "fourcc_audio_name fourcc =
     (if length fourcc < 4 then None else map_option snd (lookup_fourcc AUDIO_FOURCCS fourcc))"

section \<open>Enhanced video tag header\<close>

definition VIDEO_FRAME_TYPE_COMMAND :: u8 where "VIDEO_FRAME_TYPE_COMMAND = 5"

definition ERTMP_PACKET_TYPE_MODEX :: u8 where "ERTMP_PACKET_TYPE_MODEX = 7"

definition fourcc_parse :: "bytes \<Rightarrow> bytes result" where
  "fourcc_parse data =
     (if length data < 4 then err EIo
      else bindR (subslice data 0 4) (\<lambda>cc. copy_at (replicate 5 0) 0 cc))"

definition is_composition_time_codec :: "bytes \<Rightarrow> bool result" where
  "is_composition_time_codec fourcc = bindR (subslice fourcc 0 4) (\<lambda>cc.
     Inr (cc = ascii ''avc1'' \<or> cc = ascii ''hvc1'' \<or> cc = ascii ''vvc1''))"

text \<open>A signed 24-bit composition time, sign-extended to 32 bits.\<close>

definition si24 :: "u8 \<Rightarrow> u8 \<Rightarrow> u8 \<Rightarrow> u32" where
  "si24 b0 b1 b2 =
     (let ct = u24_be b0 b1 b2 in if ct AND 0x00800000 \<noteq> 0 then ct OR 0xFF000000 else ct)"

text \<open>The three bytes at \<open>pos\<close> as a composition time.\<close>

definition read_si24 :: "bytes \<Rightarrow> nat \<Rightarrow> u32 result" where
  "read_si24 data pos = bindR (idx data pos) (\<lambda>b0. bindR (idx data (pos + 1)) (\<lambda>b1.
     bindR (idx data (pos + 2)) (\<lambda>b2. Inr (si24 b0 b1 b2))))"

definition is_video_command_header :: "u8 \<Rightarrow> u8 \<Rightarrow> bool" where
  "is_video_command_header frame_type packet_type \<longleftrightarrow>
     frame_type = VIDEO_FRAME_TYPE_COMMAND \<and> packet_type \<noteq> ERTMP_PACKET_TYPE_METADATA \<and>
     packet_type \<noteq> ERTMP_PACKET_TYPE_MODEX"

definition exvideo_legacy :: "bytes \<Rightarrow> u8 \<Rightarrow> (video_header, unit) op" where
  "exvideo_legacy data b0 =
     thenS (modS (\<lambda>h. h\<lparr>vh_frame_type := drop_bit 4 b0 AND 0x0F, vh_header_size := 1\<rparr>))
       (if b0 AND 0x0F = 7 \<and> length data \<ge> 5
        then bindS (liftS (read_si24 data 2)) (\<lambda>ct.
          modS (\<lambda>h. h\<lparr>vh_composition_time := ct, vh_header_size := 5\<rparr>))
        else retS ())"

definition exvideo_fourcc :: "bytes \<Rightarrow> u8 \<Rightarrow> (video_header, unit) op" where
  "exvideo_fourcc data packet_type =
     (if length data < 5 then failS (Err EIo)
      else bindS (liftS (subslice data 1 5)) (\<lambda>cc.
        bindS (getS vh_fourcc) (\<lambda>arr. bindS (liftS (copy_at arr 0 cc)) (\<lambda>fourcc.
        thenS (modS (\<lambda>h. h\<lparr>vh_fourcc := fourcc, vh_header_size := 5\<rparr>))
        (bindS (liftS (if packet_type = 1 then is_composition_time_codec fourcc else Inr False)) (\<lambda>has_ct.
          if has_ct then
            (if length data < 8 then failS (Err EIo)
             else bindS (liftS (read_si24 data 5)) (\<lambda>ct.
               modS (\<lambda>h. h\<lparr>vh_composition_time := ct, vh_header_size := 8\<rparr>)))
          else retS ()))))))"

definition exvideo_parse :: "bytes \<Rightarrow> (video_header, unit) op" where
  "exvideo_parse data =
     thenS (modS (\<lambda>_. video_header_default))
     (if data = [] then failS (Err EIo)
      else bindS (liftS (idx data 0)) (\<lambda>b0.
        thenS (modS (\<lambda>h. h\<lparr>vh_is_ex_header := if b0 AND 0x80 \<noteq> 0 then 1 else 0\<rparr>))
        (if b0 AND 0x80 = 0 then exvideo_legacy data b0
         else
           (let frame_type = drop_bit 4 b0 AND 0x07; packet_type = b0 AND 0x0F in
            thenS (modS (\<lambda>h. h\<lparr>vh_frame_type := frame_type, vh_packet_type := packet_type\<rparr>))
              (if is_video_command_header frame_type packet_type
               then (if length data < 2 then failS (Err EIo) else modS (\<lambda>h. h\<lparr>vh_header_size := 2\<rparr>))
               else exvideo_fourcc data packet_type)))))"

definition exvideo_write :: "video_header \<Rightarrow> bytes \<Rightarrow> (nat \<times> bytes) result" where
  "exvideo_write hdr buf =
     (if vh_is_ex_header hdr = 0 then Inr (0, buf)
      else if is_video_command_header (vh_frame_type hdr) (vh_packet_type hdr) then Inr (0, buf)
      else bindR (if vh_packet_type hdr = 1 then is_composition_time_codec (vh_fourcc hdr) else Inr False) (\<lambda>needs_ct.
        let len = (if needs_ct then 8 else 5) in
        if length buf < len then Inr (0, buf)
        else
          bindR (set_idx buf 0 (0x80 OR push_bit 4 (vh_frame_type hdr AND 0x07) OR (vh_packet_type hdr AND 0x0F))) (\<lambda>buf.
          bindR (bindR (subslice (vh_fourcc hdr) 0 4) (copy_at buf 1)) (\<lambda>buf.
          if needs_ct then
            (let ct = vh_composition_time hdr in
             bindR (set_idx buf 5 (ucast (drop_bit 16 ct))) (\<lambda>buf.
             bindR (set_idx buf 6 (ucast (drop_bit 8 ct))) (\<lambda>buf.
             bindR (set_idx buf 7 (ucast ct)) (\<lambda>buf. Inr (len, buf)))))
          else Inr (len, buf)))))"

section \<open>Enhanced audio tag header\<close>

text \<open>The legacy SoundFormat nibble.\<close>

definition legacy_audio_codec :: "u8 \<Rightarrow> audio_codec option" where
  "legacy_audio_codec n =
     (if n = 0 then Some APcm else if n = 1 then Some AAdpcm else if n = 2 then Some AMp3
      else if n = 3 then Some APcmLe else if n = 4 then Some ANelly16k else if n = 5 then Some ANelly8k
      else if n = 6 then Some ANelly else if n = 7 then Some AG711A else if n = 8 then Some AG711U
      else if n = 10 then Some AAac else if n = 11 then Some ASpeex else if n = 14 then Some AMp3
      else None)"

definition exaudio_parse :: "bytes \<Rightarrow> (audio_header, unit) op" where
  "exaudio_parse data =
     thenS (modS (\<lambda>_. audio_header_default))
     (if data = [] then failS (Err EIo)
      else bindS (liftS (idx data 0)) (\<lambda>b0.
        let is_ex = (drop_bit 4 b0 AND 0x0F = 9) in
        if is_ex \<and> length data < 5 then failS (Err EIo)
        else thenS (modS (\<lambda>h. h\<lparr>ah_is_ex_header := if is_ex then 1 else 0\<rparr>))
          (if \<not> is_ex then
             (case legacy_audio_codec (drop_bit 4 b0 AND 0x0F) of
                None \<Rightarrow> failS (Err EUnsupported)
              | Some codec \<Rightarrow>
                  thenS (modS (\<lambda>h. h\<lparr>ah_audio_codec := codec, ah_sample_rate := drop_bit 2 b0 AND 0x03,
                    ah_sample_size := drop_bit 1 b0 AND 0x01, ah_channels := b0 AND 0x01, ah_header_size := 1\<rparr>))
                  (if codec = AAac \<and> length data \<ge> 2
                   then bindS (liftS (idx data 1)) (\<lambda>b1.
                     modS (\<lambda>h. h\<lparr>ah_aac_packet_type := b1, ah_header_size := 2\<rparr>))
                   else retS ()))
           else
             bindS (liftS (subslice data 1 5)) (\<lambda>cc.
             bindS (getS ah_fourcc) (\<lambda>arr. bindS (liftS (copy_at arr 0 cc)) (\<lambda>fourcc.
             thenS (modS (\<lambda>h. h\<lparr>ah_packet_type := b0 AND 0x0F, ah_fourcc := fourcc, ah_header_size := 5\<rparr>))
               (case fourcc_to_audio_codec cc of
                  Inr codec \<Rightarrow> modS (\<lambda>h. h\<lparr>ah_audio_codec := codec\<rparr>)
                | Inl _ \<Rightarrow> retS ())))))))"

fun legacy_audio_nibble :: "audio_codec \<Rightarrow> u8 option" where
  "legacy_audio_nibble AOpus = None"
| "legacy_audio_nibble c = Some (audio_codec_id c)"

definition exaudio_write :: "audio_header \<Rightarrow> bytes \<Rightarrow> (nat \<times> bytes) result" where
  "exaudio_write hdr buf =
     (if ah_is_ex_header hdr = 0 then
        (case legacy_audio_nibble (ah_audio_codec hdr) of
           None \<Rightarrow> Inr (0, buf)
         | Some codec_nibble \<Rightarrow>
             (let b0 = push_bit 4 codec_nibble OR push_bit 2 (ah_sample_rate hdr AND 0x03) OR
                push_bit 1 (ah_sample_size hdr AND 0x01) OR (ah_channels hdr AND 0x01) in
              if ah_audio_codec hdr = AAac then
                (if length buf < 2 then Inr (0, buf)
                 else bindR (set_idx buf 0 b0) (\<lambda>buf. bindR (set_idx buf 1 (ah_aac_packet_type hdr)) (\<lambda>buf.
                   Inr (2, buf))))
              else if buf = [] then Inr (0, buf)
              else bindR (set_idx buf 0 b0) (\<lambda>buf. Inr (1, buf))))
      else if length buf < 5 then Inr (0, buf)
      else bindR (set_idx buf 0 (0x90 OR (ah_packet_type hdr AND 0x0F))) (\<lambda>buf.
        bindR (bindR (subslice (ah_fourcc hdr) 0 4) (copy_at buf 1)) (\<lambda>buf. Inr (5, buf))))"

text \<open>\<open>version_string\<close>\<close>

definition version_string :: bytes where
  "version_string = ascii ''E-RTMP v1 (ExVideoTagHeader/FourCC)''"

section \<open>Reconnect request\<close>

definition reconnect_parse :: "bytes \<Rightarrow> (reconnect, unit) op" where
  "reconnect_parse data =
     (if length data \<noteq> 8 then failS (Err EIo)
      else bindS (liftS (ntoh32 data)) (\<lambda>replay. thenS (modS (\<lambda>rc. rc\<lparr>rc_replay := replay\<rparr>))
        (bindS (liftS (ntoh32 (drop 4 data))) (\<lambda>limit. modS (\<lambda>rc. rc\<lparr>rc_limit := limit\<rparr>)))))"

definition reconnect_write :: "reconnect \<Rightarrow> bytes \<Rightarrow> (nat \<times> bytes) result" where
  "reconnect_write rc buf =
     (if length buf < 8 then Inr (0, buf)
      else bindR (copy_at buf 0 (be32 (rc_replay rc))) (\<lambda>buf.
        bindR (copy_at buf 4 (be32 (rc_limit rc))) (\<lambda>buf. Inr (8, buf))))"

section \<open>HDR colour information\<close>

definition hdr_init :: "hdr_info \<Rightarrow> hdr_info" where
  "hdr_init hdr = hdr\<lparr>hdr_color_primaries := 1, hdr_transfer_chars := 1, hdr_matrix_coeffs := 1\<rparr>"

definition hdr_parse :: "bytes \<Rightarrow> (hdr_info, unit) op" where
  "hdr_parse data =
     thenS (modS hdr_init)
     (if length data < 6 then failS (Err EIo)
      else bindS (liftS (ntoh16 data)) (\<lambda>p. thenS (modS (\<lambda>h. h\<lparr>hdr_color_primaries := p\<rparr>))
        (bindS (liftS (ntoh16 (drop 2 data))) (\<lambda>t. thenS (modS (\<lambda>h. h\<lparr>hdr_transfer_chars := t\<rparr>))
        (bindS (liftS (ntoh16 (drop 4 data))) (\<lambda>m. modS (\<lambda>h. h\<lparr>hdr_matrix_coeffs := m\<rparr>)))))))"

definition hdr_write :: "hdr_info \<Rightarrow> bytes \<Rightarrow> (nat \<times> bytes) result" where
  "hdr_write hdr buf =
     (if length buf < 6 then Inr (0, buf)
      else bindR (copy_at buf 0 (be16 (hdr_color_primaries hdr))) (\<lambda>buf.
        bindR (copy_at buf 2 (be16 (hdr_transfer_chars hdr))) (\<lambda>buf.
        bindR (copy_at buf 4 (be16 (hdr_matrix_coeffs hdr))) (\<lambda>buf. Inr (6, buf)))))"

definition metadata_colorinfo_parse :: "bytes \<Rightarrow> (hdr_info, unit) op" where
  "metadata_colorinfo_parse data =
     thenS (modS hdr_init) (if length data < 6 then failS (Err EIo) else hdr_parse data)"

definition videocodecid_from_fourcc :: "bytes \<Rightarrow> u32 result" where
  "videocodecid_from_fourcc fourcc = (if length fourcc < 4 then Inr 7 else ntoh32 fourcc)"

definition caps_negotiate :: "unit result" where
  "caps_negotiate = err EUnsupported"

section \<open>Multitrack descriptor\<close>

text \<open>
  An AMF0 number is kept as its IEEE-754 bit pattern. The source compares it with \<open>0.0\<close>, which both zeros
  equal, and with \<open>1.0\<close>; it writes \<open>0.0\<close>, \<open>1.0\<close> or \<open>2.0\<close>.
\<close>

definition f64_is_zero :: "f64 \<Rightarrow> bool" where
  "f64_is_zero w \<longleftrightarrow> w = 0 \<or> w = 0x8000000000000000"

definition f64_one :: f64 where "f64_one = 0x3FF0000000000000"

fun multitrack_type_f64 :: "multitrack_type \<Rightarrow> f64" where
  "multitrack_type_f64 MtAudio = 0"
| "multitrack_type_f64 MtVideo = f64_one"
| "multitrack_type_f64 MtMetadata = 0x4000000000000000"

definition multitrack_parse :: "bytes \<Rightarrow> (multitrack, unit) op" where
  "multitrack_parse data =
     thenS (modS (\<lambda>_. multitrack_default))
     (if length data < 9 then failS (Err EIo)
      else bindS (liftS (idx data 0)) (\<lambda>marker.
        if marker \<noteq> 0 then failS (Err EProtocol)
        else bindS (liftS (bindR (subslice data 1 9) u64_of_be)) (\<lambda>type_val.
          thenS (modS (\<lambda>mt. mt\<lparr>mt_track_type := if f64_is_zero type_val then MtAudio
             else if type_val = f64_one then MtVideo else MtMetadata\<rparr>))
          (let name_offset = 9 in
           if name_offset + 3 > length data then failS (Err EIo)
           else bindS (liftS (idx data name_offset)) (\<lambda>name_marker.
             if name_marker \<noteq> 2 then failS (Err EProtocol)
             else bindS (liftS (idx data (name_offset + 1))) (\<lambda>hi. bindS (liftS (idx data (name_offset + 2))) (\<lambda>lo.
               let name_len = 256 * unat hi + unat lo; copy_len = min name_len 63 in
               if name_offset + 3 + name_len > length data then failS (Err EIo)
               else bindS (liftS (subslice data (name_offset + 3) (name_offset + 3 + copy_len))) (\<lambda>name.
                 bindS (getS mt_track_name) (\<lambda>old. bindS (liftS (copy_at old 0 name)) (\<lambda>new.
                 bindS (liftS (set_idx new copy_len 0)) (\<lambda>new.
                 modS (\<lambda>mt. mt\<lparr>mt_track_name := new\<rparr>))))))))))))"

definition multitrack_write :: "multitrack \<Rightarrow> bytes \<Rightarrow> (nat \<times> bytes) result" where
  "multitrack_write mt buf =
     (let name = mt_track_name mt; name_len = (if 0 \<in> set name then cstr_len name else 63);
          needed = 1 + 8 + 1 + 2 + name_len in
      if length buf < needed then Inr (0, buf)
      else bindR (set_idx buf 0 0) (\<lambda>buf.
        bindR (copy_at buf 1 (be64 (multitrack_type_f64 (mt_track_type mt)))) (\<lambda>buf.
        bindR (set_idx buf 9 2) (\<lambda>buf.
        bindR (set_idx buf 10 (of_nat (name_len div 256))) (\<lambda>buf.
        bindR (set_idx buf 11 (of_nat name_len)) (\<lambda>buf.
        bindR (bindR (subslice name 0 name_len) (copy_at buf 12)) (\<lambda>buf.
        Inr (12 + name_len, buf))))))))"

section \<open>Legacy FLV tags\<close>

definition audio_tag_parse :: "bytes \<Rightarrow> (audio_tag, unit) op" where
  "audio_tag_parse data =
     thenS (modS (\<lambda>_. audio_tag_default))
     (if data = [] then failS (Err EInternal)
      else bindS (liftS (idx data 0)) (\<lambda>b0.
        case legacy_audio_codec (drop_bit 4 b0 AND 0x0F) of
          None \<Rightarrow> failS (Err EUnsupported)
        | Some codec \<Rightarrow>
            thenS (modS (\<lambda>t. t\<lparr>at_codec := codec, at_sample_rate := drop_bit 2 b0 AND 0x03,
              at_bit_depth := drop_bit 1 b0 AND 0x01, at_channels := b0 AND 0x01\<rparr>))
            (thenS (if codec = AAac \<and> length data \<ge> 2
                    then bindS (liftS (idx data 1)) (\<lambda>b1. modS (\<lambda>t. t\<lparr>at_aac_packet_type := b1\<rparr>))
                    else retS ())
              (modS (\<lambda>t. t\<lparr>at_data := Some data, at_size := length data\<rparr>)))))"

definition legacy_video_codec :: "u8 \<Rightarrow> video_codec option" where
  "legacy_video_codec n =
     (if n = 1 then Some VJpeg else if n = 2 then Some VSorenson else if n = 3 then Some VScreen
      else if n = 4 then Some VVp6 else if n = 5 then Some VVp6a else if n = 6 then Some VScreen2
      else if n = 7 then Some VH264 else None)"

definition video_tag_parse :: "bytes \<Rightarrow> (video_tag, unit) op" where
  "video_tag_parse data =
     thenS (modS (\<lambda>_. video_tag_default))
     (if data = [] then failS (Err EInternal)
      else bindS (liftS (idx data 0)) (\<lambda>b0.
        if b0 AND 0x80 \<noteq> 0 then failS (Err EUnsupported)
        else thenS (modS (\<lambda>t. t\<lparr>vt_frame_type := drop_bit 4 b0 AND 0x0F\<rparr>))
          (case legacy_video_codec (b0 AND 0x0F) of
             None \<Rightarrow> failS (Err EUnsupported)
           | Some codec \<Rightarrow>
               thenS (modS (\<lambda>t. t\<lparr>vt_codec := codec\<rparr>))
               (thenS (if length data \<ge> 2 \<and> codec = VH264
                       then bindS (liftS (idx data 1)) (\<lambda>b1. modS (\<lambda>t. t\<lparr>vt_avc_packet_type := b1\<rparr>)) else retS ())
               (thenS (if length data \<ge> 5 \<and> codec = VH264
                       then bindS (liftS (read_si24 data 2)) (\<lambda>ct. modS (\<lambda>t. t\<lparr>vt_composition_time := ct\<rparr>)) else retS ())
                 (modS (\<lambda>t. t\<lparr>vt_data := Some data, vt_size := length data\<rparr>)))))))"

section \<open>Helper lemmas\<close>

lemma bit_u8_cases:
  assumes "bit (b :: u8) n"
  shows "n \<in> {0, 1, 2, 3, 4, 5, 6, 7}"
  using bit_u8_less [OF assms] by auto

lemma mask_4: "(15 :: u8) = mask 4" and mask_3: "(7 :: u8) = mask 3"
  by (simp_all add: mask_eq_exp_minus_1)

lemma rejoin_nibbles: "push_bit 4 (drop_bit 4 b) OR (b AND 0x0F) = (b :: u8)"
  unfolding mask_4 by (rule bit_word_eqI) (auto simp: bit_simps)

lemma u8_high_bit: "b AND 0x80 \<noteq> 0 \<longleftrightarrow> bit (b :: u8) 7"
proof -
  have "(0x80 :: u8) = 2 ^ 7" by simp
  then show ?thesis by (metis and_exp_eq_0_iff_not_bit)
qed

lemma rejoin_video_byte:
  assumes "b AND 0x80 \<noteq> 0"
  shows "0x80 OR push_bit 4 (drop_bit 4 b AND 0x07) OR (b AND 0x0F) = (b :: u8)"
proof (rule bit_word_eqI)
  fix n assume n: "n < LENGTH(8)"
  have "bit b 7" using assms by (simp add: u8_high_bit)
  moreover have "bit (0x80 :: u8) n \<longleftrightarrow> n = 7"
    using n bit_exp_iff [of 7 n, where ?'a = u8] by simp
  ultimately show "bit (0x80 OR push_bit 4 (drop_bit 4 b AND 0x07) OR (b AND 0x0F)) n = bit b n"
    using n unfolding mask_4 mask_3 by (cases "n = 7") (auto simp: bit_simps)
qed

lemma be24_si24: "be24 (si24 b0 b1 b2) = [b0, b1, b2]"
proof (cases "u24_be b0 b1 b2 AND 0x00800000 = 0")
  case False
  have "be24 (w OR 0xFF000000) = be24 w" for w :: u32
  proof -
    have zero: "(65280 :: u8) = 0" "(16711680 :: u8) = 0" "(4278190080 :: u8) = 0" by simp_all
    show ?thesis by (simp add: be24_def drop_bit_or unsigned_or_eq zero)
  qed
  with False show ?thesis by (simp add: si24_def be_simps)
qed (simp add: si24_def be_simps)

lemma read_si24_ok: "pos + 3 \<le> length data \<Longrightarrow> read_si24 data pos = Inr (si24 (data ! pos) (data ! (pos + 1)) (data ! (pos + 2)))"
  by (simp add: read_si24_def)

lemma length_four_cc_default [simp]: "length four_cc_default = 5"
  by (simp add: four_cc_default_def)

text \<open>The header an enhanced video tag with a FourCC is read into.\<close>

definition exvideo_has_ct :: "bytes \<Rightarrow> bool" where
  "exvideo_has_ct data \<longleftrightarrow> data ! 0 AND 0x0F = 1 \<and>
     take 4 (drop 1 data) \<in> {ascii ''avc1'', ascii ''hvc1'', ascii ''vvc1''}"

definition exvideo_value :: "bytes \<Rightarrow> video_header" where
  "exvideo_value data =
     \<lparr>vh_is_ex_header = 1, vh_packet_type = data ! 0 AND 0x0F, vh_fourcc = take 4 (drop 1 data) @ [0],
      vh_frame_type = drop_bit 4 (data ! 0) AND 0x07,
      vh_composition_time = (if exvideo_has_ct data then si24 (data ! 5) (data ! 6) (data ! 7) else 0),
      vh_header_size = (if exvideo_has_ct data then 8 else 5)\<rparr>"

lemma is_composition_time_codec_ok:
  "4 \<le> length cc \<Longrightarrow> is_composition_time_codec cc =
     Inr (take 4 cc \<in> {ascii ''avc1'', ascii ''hvc1'', ascii ''vvc1''})"
  by (simp add: is_composition_time_codec_def disj_assoc)

lemma exvideo_fourcc_eq:
  assumes "5 \<le> length data" "vh_fourcc h = four_cc_default"
  shows "exvideo_fourcc data (data ! 0 AND 0x0F) h =
     (let h' = h\<lparr>vh_fourcc := take 4 (drop 1 data) @ [0], vh_header_size := 5\<rparr> in
      if exvideo_has_ct data
      then if length data < 8 then (err EIo, h')
        else (Inr (), h'\<lparr>vh_composition_time := si24 (data ! 5) (data ! 6) (data ! 7), vh_header_size := 8\<rparr>)
      else (Inr (), h'))"
proof -
  have "copy_at four_cc_default 0 (take 4 (drop 1 data)) = Inr (take 4 (drop 1 data) @ [0])"
    using assms(1) by (simp add: four_cc_default_def numeral_eq_Suc)
  then show ?thesis
    using assms by (auto simp: exvideo_fourcc_def exvideo_has_ct_def is_composition_time_codec_ok read_si24_ok
        op_simps Let_def)
qed

lemma exvideo_parse_enhanced:
  assumes "exvideo_parse data h0 = (Inr (), h)" "vh_is_ex_header h \<noteq> 0"
    and "\<not> is_video_command_header (vh_frame_type h) (vh_packet_type h)"
  shows "data ! 0 AND 0x80 \<noteq> 0 \<and> 5 \<le> length data \<and> vh_header_size h \<le> length data \<and> h = exvideo_value data"
proof -
  have [simp]: "data \<noteq> []" using assms(1) by (auto simp: exvideo_parse_def op_simps)
  have ex: "data ! 0 AND 0x80 \<noteq> 0"
    using assms(1,2) by (auto simp: exvideo_parse_def exvideo_legacy_def video_header_default_def op_simps
        split: if_splits sum.splits)
  have cmd: "\<not> is_video_command_header (drop_bit 4 (data ! 0) AND 0x07) (data ! 0 AND 0x0F)"
    using assms(1,3) ex by (auto simp: exvideo_parse_def op_simps Let_def split: if_splits)
  define h1 where "h1 = video_header_default\<lparr>vh_is_ex_header := 1, vh_frame_type := drop_bit 4 (data ! 0) AND 0x07,
     vh_packet_type := data ! 0 AND 0x0F\<rparr>"
  have run: "exvideo_fourcc data (data ! 0 AND 0x0F) h1 = (Inr (), h)"
    using assms(1) ex cmd by (simp add: exvideo_parse_def op_simps Let_def h1_def)
  have len: "5 \<le> length data"
    using run by (auto simp: exvideo_fourcc_def not_less split: if_splits)
  show ?thesis
    using run ex len
    by (auto simp: exvideo_fourcc_eq [OF len] h1_def video_header_default_def exvideo_value_def Let_def split: if_splits)
qed

text \<open>Writing a slice from front to back: each write extends the part already written.\<close>

lemma set_idx_copy_at: "set_idx xs i v = copy_at xs i [v]"
  by (simp add: set_idx_def copy_at_def upd_conv_take_nth_drop)

lemma copy_at_start: "length src \<le> length buf \<Longrightarrow> copy_at buf 0 src = Inr (src @ drop (length src) buf)"
  by (simp add: copy_at_def)

lemma copy_at_next:
  "n = length done \<Longrightarrow> length src + n \<le> length buf \<Longrightarrow>
     copy_at (done @ drop n buf) n src = Inr ((done @ src) @ drop (n + length src) buf)"
  by (auto simp: copy_at_def add.commute)

lemma be24_as_written: "be24 w = [ucast (drop_bit 16 w), ucast (drop_bit 8 w), ucast w]"
  by (simp add: be24_def)

lemma exvideo_write_eq:
  assumes "vh_is_ex_header h \<noteq> 0" "\<not> is_video_command_header (vh_frame_type h) (vh_packet_type h)"
    and "4 \<le> length (vh_fourcc h)"
  shows "exvideo_write h buf =
    (let ct = (vh_packet_type h = 1 \<and> take 4 (vh_fourcc h) \<in> {ascii ''avc1'', ascii ''hvc1'', ascii ''vvc1''});
         n = (if ct then 8 else 5) in
     if length buf < n then Inr (0, buf)
     else Inr (n, (0x80 OR push_bit 4 (vh_frame_type h AND 0x07) OR (vh_packet_type h AND 0x0F)) # take 4 (vh_fourcc h) @
       (if ct then be24 (vh_composition_time h) else []) @ drop n buf))"
proof -
  let ?cc = "take 4 (vh_fourcc h)"
  have cc: "length ?cc = 4" using assms(3) by simp
  have w: "copy_at buf 0 [b] = Inr ([b] @ drop 1 buf)"
    "copy_at ([b] @ drop 1 buf) 1 ?cc = Inr ((b # ?cc) @ drop 5 buf)"
    if "5 \<le> length buf" for b :: u8
    using that cc copy_at_start [of "[b]" buf] copy_at_next [of 1 "[b]" ?cc buf] by simp_all
  have v: "copy_at ((b # ?cc) @ drop 5 buf) 5 [x] = Inr ((b # ?cc @ [x]) @ drop 6 buf)"
    "copy_at ((b # ?cc @ [x]) @ drop 6 buf) 6 [y] = Inr ((b # ?cc @ [x, y]) @ drop 7 buf)"
    "copy_at ((b # ?cc @ [x, y]) @ drop 7 buf) 7 [z] = Inr ((b # ?cc @ [x, y, z]) @ drop 8 buf)"
    if "8 \<le> length buf" for b x y z :: u8
    using that cc copy_at_next [of 5 "b # ?cc" "[x]" buf] copy_at_next [of 6 "b # ?cc @ [x]" "[y]" buf]
      copy_at_next [of 7 "b # ?cc @ [x, y]" "[z]" buf] by simp_all
  show ?thesis
    unfolding exvideo_write_def is_composition_time_codec_ok [OF assms(3)] set_idx_copy_at be24_as_written Let_def
    using assms by (auto simp: w v not_less simp del: append_Cons)
qed

lemma take_5: "5 \<le> length xs \<Longrightarrow> take 5 xs = xs ! 0 # take 4 (drop 1 xs)"
  by (cases xs) simp_all

lemma take_8:
  assumes "8 \<le> length xs"
  shows "take 8 xs = xs ! 0 # take 4 (drop 1 xs) @ [xs ! 5, xs ! 6, xs ! 7]"
proof -
  have "take 8 xs = take 5 xs @ [xs ! 5, xs ! 6, xs ! 7]"
    using assms take_Suc_conv_app_nth [of 5 xs] take_Suc_conv_app_nth [of 6 xs] take_Suc_conv_app_nth [of 7 xs]
    by simp
  then show ?thesis using assms take_5 [of xs] by simp
qed

lemma exvideo_rewrite:
  assumes "exvideo_parse data h0 = (Inr (), h)" "vh_is_ex_header h \<noteq> 0"
    and "\<not> is_video_command_header (vh_frame_type h) (vh_packet_type h)"
  shows "exvideo_write h buf =
     (let n = vh_header_size h in if length buf < n then Inr (0, buf) else Inr (n, take n data @ drop n buf))"
proof -
  have d: "data ! 0 AND 0x80 \<noteq> 0" "5 \<le> length data" "vh_header_size h \<le> length data" "h = exvideo_value data"
    using exvideo_parse_enhanced [OF assms] by blast+
  have b0: "0x80 OR push_bit 4 ((drop_bit 4 (data ! 0) AND 0x07) AND 0x07) OR ((data ! 0 AND 0x0F) AND 0x0F) = data ! 0"
    using rejoin_video_byte [OF d(1)] by (simp only: and.assoc and.idem)
  have four: "4 \<le> length (vh_fourcc h)" "take 4 (vh_fourcc h) = take 4 (drop 1 data)"
    using d(2,4) by (simp_all add: exvideo_value_def)
  have ct: "(vh_packet_type h = 1 \<and> take 4 (vh_fourcc h) \<in> {ascii ''avc1'', ascii ''hvc1'', ascii ''vvc1''})
      = exvideo_has_ct data"
    unfolding four(2) using d(4) by (simp add: exvideo_value_def exvideo_has_ct_def)
  have byte: "0x80 OR push_bit 4 (vh_frame_type h AND 0x07) OR (vh_packet_type h AND 0x0F) = data ! 0"
    unfolding d(4) exvideo_value_def using b0 by (simp only: video_header.simps)
  have size: "vh_header_size h = (if exvideo_has_ct data then 8 else 5)"
    unfolding d(4) by (simp add: exvideo_value_def)
  have time: "exvideo_has_ct data \<Longrightarrow> be24 (vh_composition_time h) = [data ! 5, data ! 6, data ! 7]"
    unfolding d(4) by (simp add: exvideo_value_def be24_si24)
  show ?thesis
    unfolding exvideo_write_eq [OF assms(2,3) four(1)] ct [unfolded four(2)] byte four(2) size Let_def
    using d(2,3) take_5 [OF d(2)] take_8 [of data] by (auto simp: time size split: if_splits)
qed

lemma u8_nibble_split: "drop_bit 4 b AND 0x0F = drop_bit 4 (b :: u8)"
  unfolding mask_4 by (rule bit_word_eqI) (auto simp: bit_simps)

lemma rejoin_audio_byte:
  assumes "drop_bit 4 b AND 0x0F = (9 :: u8)"
  shows "0x90 OR (b AND 0x0F) = b"
  using rejoin_nibbles [of b] assms by (simp add: u8_nibble_split)

definition exaudio_value :: "bytes \<Rightarrow> audio_header" where
  "exaudio_value data = audio_header_default\<lparr>ah_is_ex_header := 1, ah_packet_type := data ! 0 AND 0x0F,
     ah_fourcc := take 4 (drop 1 data) @ [0], ah_header_size := 5,
     ah_audio_codec := (case fourcc_to_audio_codec (take 4 (drop 1 data)) of Inr c \<Rightarrow> c | Inl _ \<Rightarrow> audio_codec_default)\<rparr>"

lemma exaudio_parse_ex:
  assumes "drop_bit 4 (data ! 0) AND 0x0F = 9" "5 \<le> length data"
  shows "exaudio_parse data h0 = (Inr (), exaudio_value data)"
proof -
  have [simp]: "data \<noteq> []" using assms(2) by auto
  have "copy_at four_cc_default 0 (take 4 (drop 1 data)) = Inr (take 4 (drop 1 data) @ [0])"
    using assms(2) by (simp add: four_cc_default_def numeral_eq_Suc)
  then show ?thesis
    using assms by (auto simp: exaudio_parse_def exaudio_value_def audio_header_default_def op_simps Let_def
        split: sum.splits)
qed

lemma exaudio_parse_enhanced:
  assumes "exaudio_parse data h0 = (Inr (), h)" "ah_is_ex_header h \<noteq> 0"
  shows "drop_bit 4 (data ! 0) AND 0x0F = 9 \<and> 5 \<le> length data"
proof -
  have [simp]: "data \<noteq> []" using assms(1) by (auto simp: exaudio_parse_def op_simps)
  have "drop_bit 4 (data ! 0) AND 0x0F = 9"
  proof (rule ccontr)
    assume "drop_bit 4 (data ! 0) AND 0x0F \<noteq> 9"
    with assms show False
      by (auto simp: exaudio_parse_def audio_header_default_def op_simps Let_def split: option.splits if_splits)
  qed
  with assms(1) show ?thesis
    by (auto simp: exaudio_parse_def op_simps Let_def not_less split: if_splits)
qed

lemma exaudio_rewrite:
  assumes "exaudio_parse data h0 = (Inr (), h)" "ah_is_ex_header h \<noteq> 0"
  shows "exaudio_write h buf = (if length buf < 5 then Inr (0, buf) else Inr (5, take 5 data @ drop 5 buf))"
proof -
  have d: "drop_bit 4 (data ! 0) AND 0x0F = 9" "5 \<le> length data"
    using exaudio_parse_enhanced [OF assms] by blast+
  have h: "h = exaudio_value data" using exaudio_parse_ex [OF d, of h0] assms(1) by simp
  have pt: "0x90 OR (ah_packet_type h AND 0x0F) = data ! 0"
    using rejoin_audio_byte [OF d(1)] by (simp add: h exaudio_value_def and.assoc)
  have cc: "take 4 (ah_fourcc h) = take 4 (drop 1 data)" "length (take 4 (drop 1 data)) = 4" "length (ah_fourcc h) = 5"
    using d(2) by (simp_all add: h exaudio_value_def)
  show ?thesis
    using assms(2) cc d(2) take_5 [OF d(2)] copy_at_start [of "[data ! 0]" buf]
      copy_at_next [of 1 "[data ! 0]" "take 4 (drop 1 data)" buf]
    by (simp add: exaudio_write_def set_idx_copy_at pt)
qed

definition legacy_audio_fields :: "bytes \<Rightarrow> audio_codec \<Rightarrow> u8 \<times> u8 \<times> u8 \<times> u8" where
  "legacy_audio_fields data codec = (drop_bit 2 (data ! 0) AND 0x03, drop_bit 1 (data ! 0) AND 0x01, data ! 0 AND 0x01,
     if codec = AAac \<and> length data \<ge> 2 then data ! 1 else 0)"

lemma exaudio_parse_legacy:
  assumes "data \<noteq> []" "drop_bit 4 (data ! 0) AND 0x0F \<noteq> 9"
  shows "legacy_audio_codec (drop_bit 4 (data ! 0) AND 0x0F) = None \<Longrightarrow> fst (exaudio_parse data h0) = err EUnsupported"
    and "legacy_audio_codec (drop_bit 4 (data ! 0) AND 0x0F) = Some codec \<Longrightarrow>
      \<exists>h. exaudio_parse data h0 = (Inr (), h) \<and> ah_is_ex_header h = 0 \<and> ah_audio_codec h = codec \<and>
        (ah_sample_rate h, ah_sample_size h, ah_channels h, ah_aac_packet_type h) = legacy_audio_fields data codec"
  using assms
  by (simp_all add: exaudio_parse_def audio_header_default_def legacy_audio_fields_def op_simps Let_def)

lemma audio_tag_parse_legacy:
  assumes "data \<noteq> []"
  shows "legacy_audio_codec (drop_bit 4 (data ! 0) AND 0x0F) = None \<Longrightarrow> fst (audio_tag_parse data t0) = err EUnsupported"
    and "legacy_audio_codec (drop_bit 4 (data ! 0) AND 0x0F) = Some codec \<Longrightarrow>
      \<exists>t. audio_tag_parse data t0 = (Inr (), t) \<and> at_codec t = codec \<and>
        (at_sample_rate t, at_bit_depth t, at_channels t, at_aac_packet_type t) = legacy_audio_fields data codec"
  using assms
  by (simp_all add: audio_tag_parse_def audio_tag_default_def legacy_audio_fields_def op_simps Let_def)

lemma audio_parse_legacy:
  assumes "data \<noteq> []" "drop_bit 4 (data ! 0) AND 0x0F \<noteq> 9"
  shows "case (exaudio_parse data ah0, audio_tag_parse data at0) of
       ((Inr _, h), (Inr _, t)) \<Rightarrow> ah_is_ex_header h = 0 \<and> ah_audio_codec h = at_codec t \<and>
         ah_sample_rate h = at_sample_rate t \<and> ah_sample_size h = at_bit_depth t \<and>
         ah_channels h = at_channels t \<and> ah_aac_packet_type h = at_aac_packet_type t
     | ((Inl e, _), (Inl e', _)) \<Rightarrow> e = Err EUnsupported \<and> e' = Err EUnsupported
     | _ \<Rightarrow> False"
proof (cases "legacy_audio_codec (drop_bit 4 (data ! 0) AND 0x0F)")
  case None
  show ?thesis
    using exaudio_parse_legacy(1) [OF assms None, of ah0] audio_tag_parse_legacy(1) [OF assms(1) None, of at0]
    by (cases "exaudio_parse data ah0"; cases "audio_tag_parse data at0") simp
next
  case (Some codec)
  show ?thesis
    using exaudio_parse_legacy(2) [OF assms Some, of ah0] audio_tag_parse_legacy(2) [OF assms(1) Some, of at0]
    by (elim exE conjE) (simp add: legacy_audio_fields_def)
qed

lemma legacy_video_codec_H264: "legacy_video_codec n = Some VH264 \<longleftrightarrow> n = 7"
  by (auto simp: legacy_video_codec_def)

definition legacy_video_ct :: "bytes \<Rightarrow> u32" where
  "legacy_video_ct data =
     (if data ! 0 AND 0x0F = 7 \<and> length data \<ge> 5 then si24 (data ! 2) (data ! 3) (data ! 4) else 0)"

lemma exvideo_parse_legacy:
  assumes "data \<noteq> []" "data ! 0 AND 0x80 = 0"
  shows "\<exists>h. exvideo_parse data h0 = (Inr (), h) \<and> vh_is_ex_header h = 0 \<and>
     vh_frame_type h = drop_bit 4 (data ! 0) AND 0x0F \<and> vh_composition_time h = legacy_video_ct data"
  using assms by (simp add: exvideo_parse_def exvideo_legacy_def legacy_video_ct_def read_si24_ok
      video_header_default_def op_simps)

lemma video_tag_parse_legacy:
  assumes "data \<noteq> []" "data ! 0 AND 0x80 = 0"
  shows "legacy_video_codec (data ! 0 AND 0x0F) = None \<Longrightarrow> fst (video_tag_parse data t0) = err EUnsupported"
    and "legacy_video_codec (data ! 0 AND 0x0F) = Some codec \<Longrightarrow>
      \<exists>t. video_tag_parse data t0 = (Inr (), t) \<and> vt_frame_type t = drop_bit 4 (data ! 0) AND 0x0F \<and>
        vt_composition_time t = legacy_video_ct data"
  using assms legacy_video_codec_H264 [of "data ! 0 AND 0x0F"]
  by (auto simp: video_tag_parse_def read_si24_ok video_tag_default_def legacy_video_ct_def op_simps)

lemma video_parse_legacy:
  assumes "data \<noteq> []" "data ! 0 AND 0x80 = 0"
  shows "case (exvideo_parse data vh0, video_tag_parse data vt0) of
       ((Inr _, h), (Inr _, t)) \<Rightarrow> vh_is_ex_header h = 0 \<and> vh_frame_type h = vt_frame_type t \<and>
         vh_composition_time h = vt_composition_time t
     | ((Inr _, _), (Inl e, _)) \<Rightarrow> e = Err EUnsupported \<and> legacy_video_codec (data ! 0 AND 0x0F) = None
     | _ \<Rightarrow> False"
proof (cases "legacy_video_codec (data ! 0 AND 0x0F)")
  case None
  show ?thesis
    using exvideo_parse_legacy [OF assms, of vh0] video_tag_parse_legacy(1) [OF assms None, of vt0]
    by (elim exE conjE, cases "video_tag_parse data vt0") (simp add: None)
next
  case (Some codec)
  show ?thesis
    using exvideo_parse_legacy [OF assms, of vh0] video_tag_parse_legacy(2) [OF assms Some, of vt0]
    by (elim exE conjE) simp
qed

section \<open>Properties\<close>





end
