(* ===== verification/Modex.thy ===== *)
theory Modex
  imports Ertmp_Tags
begin

text \<open>
  The ModEx wrappers of Enhanced RTMP v2: \<open>src/src/media/modex.rs\<close>, which peels chains of wrappers off a media payload,
  and \<open>src/src/ertmp/modex.rs\<close>, the parser and writer of one wrapper. The loop of the normalizer counts its layers up to
  \<open>MAX_MODEX_CHAIN_LAYERS\<close>; the model recurses on the number of layers still allowed, so it is total.

  \<open>encode_layer\<close> and \<open>encode_chain\<close> are the wire format. The lemmas show that the layer parser reads exactly the
  encodings, and from this that the normalizer peels exactly the chains of at most 32 layers.
\<close>

section \<open>Definitions\<close>

definition MAX_MODEX_CHAIN_LAYERS :: nat where "MAX_MODEX_CHAIN_LAYERS = 32"

record modex_layer =
  ml_modex_type :: u8
  ml_next_packet_type :: u8
  ml_data_start :: nat
  ml_data_end :: nat
  ml_next_pos :: nat

text \<open>\<open>usize::checked_add\<close>\<close>

definition checked_add :: "nat \<Rightarrow> nat \<Rightarrow> nat option" where
  "checked_add a b = (if a + b \<le> USIZE_MAX then Some (a + b) else None)"

text \<open>The size field: where \<open>modExData\<close> starts and how long it is.\<close>

definition modex_size_field :: "bytes \<Rightarrow> nat \<Rightarrow> (nat \<times> nat) option" where
  "modex_size_field payload pos = Option.bind (get_opt payload pos) (\<lambda>size_minus_one.
     let cursor = pos + 1 in
     if size_minus_one = 0xFF then
       Option.bind (get_opt payload cursor) (\<lambda>hi. Option.bind (get_opt payload (cursor + 1)) (\<lambda>lo.
       Option.bind (checked_add (unat (u16_be hi lo)) 1) (\<lambda>modex_size. Some (cursor + 2, modex_size))))
     else Some (cursor, unat size_minus_one + 1))"

definition parse_modex_layer :: "bytes \<Rightarrow> nat \<Rightarrow> modex_layer option" where
  "parse_modex_layer payload pos = Option.bind (modex_size_field payload pos) (\<lambda>(cursor, modex_size).
     Option.bind (checked_add cursor modex_size) (\<lambda>data_end.
     Option.bind (get_opt payload data_end) (\<lambda>option_byte.
     Option.bind (checked_add data_end 1) (\<lambda>next_pos.
     Some \<lparr>ml_modex_type = drop_bit 4 option_byte, ml_next_packet_type = option_byte AND 0x0F,
           ml_data_start = cursor, ml_data_end = data_end, ml_next_pos = next_pos\<rparr>))))"

text \<open>
  The peeling loop. \<open>left\<close> is the number of layers it may still peel; \<open>None\<close> is the early return with the
  payload as it is, \<open>Some (pos, header)\<close> the normal end of the loop.
\<close>

primrec modex_peel :: "nat \<Rightarrow> bytes \<Rightarrow> nat \<Rightarrow> u8 \<Rightarrow> (nat \<times> u8) option" where
  "modex_peel 0 payload pos header = None"
| "modex_peel (Suc left) payload pos header =
     (case parse_modex_layer payload pos of
        None \<Rightarrow> None
      | Some layer \<Rightarrow>
          (let pos = ml_next_pos layer; header = (header AND 0xF0) OR ml_next_packet_type layer in
           if ml_next_packet_type layer \<noteq> ERTMP_PACKET_TYPE_MODEX then Some (pos, header)
           else modex_peel left payload pos header))"

definition modex_applies :: "bytes \<Rightarrow> u32 \<Rightarrow> frame_type \<Rightarrow> bool" where
  "modex_applies payload caps_ex_mask ft \<longleftrightarrow>
     \<not> (payload = [] \<or> caps_ex_mask AND CAPS_EX_MASK_MODEX = 0 \<or> payload ! 0 AND 0x80 = 0 \<or>
        payload ! 0 AND 0x0F \<noteq> ERTMP_PACKET_TYPE_MODEX) \<and>
     \<not> (ft = FAudio \<and> drop_bit 4 (payload ! 0) AND 0x0F \<noteq> 0x09)"

definition normalize_modex_payload_with_frame_type :: "bytes \<Rightarrow> u32 \<Rightarrow> frame_type \<Rightarrow> bytes result" where
  "normalize_modex_payload_with_frame_type payload caps_ex_mask ft =
     (if \<not> modex_applies payload caps_ex_mask ft then Inr payload
      else bindR (idx payload 0) (\<lambda>b0.
        case modex_peel MAX_MODEX_CHAIN_LAYERS payload 1 b0 of
          None \<Rightarrow> Inr payload
        | Some (pos, header) \<Rightarrow> bindR (subslice payload pos (length payload)) (\<lambda>rest. Inr (header # rest))))"

definition normalize_modex_payload :: "bytes \<Rightarrow> u32 \<Rightarrow> bytes result" where
  "normalize_modex_payload payload caps_ex_mask =
     normalize_modex_payload_with_frame_type payload caps_ex_mask FVideo"

subsection \<open>One wrapper\<close>

definition MODEX_TYPE_TIMESTAMP_OFFSET_NANO :: u8 where "MODEX_TYPE_TIMESTAMP_OFFSET_NANO = 0"

definition TIMESTAMP_OFFSET_NANO_LEN :: nat where "TIMESTAMP_OFFSET_NANO_LEN = 3"

definition modex_parse_prefix :: "bytes \<Rightarrow> (modex, nat) op" where
  "modex_parse_prefix data =
     (case parse_modex_layer data 0 of
        None \<Rightarrow> failS (Err EIo)
      | Some layer \<Rightarrow>
          (let mtype = (if ml_modex_type layer = MODEX_TYPE_TIMESTAMP_OFFSET_NANO then TimestampOffsetNano else ModexNop) in
           bindS (if mtype = TimestampOffsetNano
                  then bindS (liftS (subslice data (ml_data_start layer) (ml_data_end layer))) (\<lambda>modex_data.
                    if length modex_data < TIMESTAMP_OFFSET_NANO_LEN then failS (Err EProtocol)
                    else liftS (bindR (idx modex_data 0) (\<lambda>b0. bindR (idx modex_data 1) (\<lambda>b1.
                      bindR (idx modex_data 2) (\<lambda>b2. Inr (ucast (u32_be 0 b0 b1 b2)))))))
                  else retS 0) (\<lambda>offset.
           thenS (modS (\<lambda>_. \<lparr>mx_modex_type = mtype, mx_offset = offset,
               mx_next_packet_type = ml_next_packet_type layer\<rparr>))
             (retS (ml_next_pos layer)))))"

definition modex_parse :: "bytes \<Rightarrow> (modex, unit) op" where
  "modex_parse data = voidS (modex_parse_prefix data)"

definition modex_write :: "modex \<Rightarrow> bytes \<Rightarrow> (nat \<times> bytes) result" where
  "modex_write m buf =
     (case mx_modex_type m of
        ModexNop \<Rightarrow> Inr (0, buf)
      | TimestampOffsetNano \<Rightarrow>
          (let offset = (ucast (mx_offset m AND 0x00FFFFFF) :: u32);
               modex_data = [ucast (drop_bit 16 offset), ucast (drop_bit 8 offset), ucast offset];
               total = 1 + length modex_data + 1 in
           if length buf < total then Inr (0, buf)
           else bindR (set_idx buf 0 (of_nat (length modex_data - 1))) (\<lambda>buf.
             bindR (copy_at buf 1 modex_data) (\<lambda>buf.
             bindR (set_idx buf (1 + length modex_data)
               (push_bit 4 MODEX_TYPE_TIMESTAMP_OFFSET_NANO OR (mx_next_packet_type m AND 0x0F))) (\<lambda>buf.
             Inr (total, buf))))))"

section \<open>The wire format\<close>

text \<open>
  A layer is its data, its option byte and whether the size is written in the extended form. The short form holds
  up to 255 data bytes, the extended form up to 65536.
\<close>

type_synonym wire_layer = "bool \<times> bytes \<times> u8"

fun encode_layer :: "wire_layer \<Rightarrow> bytes" where
  "encode_layer (ext, d, opt) =
     (if ext then 0xFF # be16 (of_nat (length d - 1)) else [of_nat (length d - 1)]) @ d @ [opt]"

fun wf_layer :: "wire_layer \<Rightarrow> bool" where
  "wf_layer (ext, d, opt) \<longleftrightarrow> d \<noteq> [] \<and> length d \<le> (if ext then 65536 else 255)"

definition layer_next :: "wire_layer \<Rightarrow> u8" where
  "layer_next l = snd (snd l) AND 0x0F"

text \<open>A chain: every layer but the last announces a further ModEx layer.\<close>

fun wf_chain :: "wire_layer list \<Rightarrow> bool" where
  "wf_chain [] \<longleftrightarrow> False"
| "wf_chain [l] \<longleftrightarrow> wf_layer l \<and> layer_next l \<noteq> ERTMP_PACKET_TYPE_MODEX"
| "wf_chain (l # ls) \<longleftrightarrow> wf_layer l \<and> layer_next l = ERTMP_PACKET_TYPE_MODEX \<and> wf_chain ls"

definition encode_chain :: "wire_layer list \<Rightarrow> bytes" where
  "encode_chain ls = concat (map encode_layer ls)"

section \<open>The layer parser and the wire format\<close>

lemma get_opt_append [simp]: "get_opt (pre @ xs) (length pre + k) = get_opt xs k"
  by (simp add: get_opt_def)

lemma get_opt_drop: "pos \<le> length xs \<Longrightarrow> get_opt (drop pos xs) k = get_opt xs (pos + k)"
  by (auto simp: get_opt_def)

lemma unat_of_nat_small:
  "n < 256 \<Longrightarrow> unat (of_nat n :: u8) = n" "n < 65536 \<Longrightarrow> unat (of_nat n :: u16) = n"
  by (simp_all add: unat_of_nat take_bit_nat_eq_self)

text \<open>The parser at \<open>pos\<close> is the parser of the rest of the payload, moved.\<close>

lemma size_field_shift:
  assumes "pos \<le> length payload"
  shows "modex_size_field payload pos = map_option (\<lambda>(c, n). (pos + c, n)) (modex_size_field (drop pos payload) 0)"
proof -
  have g: "get_opt payload pos = get_opt (drop pos payload) 0" "get_opt payload (pos + 1) = get_opt (drop pos payload) (0 + 1)"
    "get_opt payload (pos + 1 + 1) = get_opt (drop pos payload) (0 + 1 + 1)"
    by (simp_all add: get_opt_drop [OF assms] del: drop_drop)
  show ?thesis
    unfolding modex_size_field_def Let_def g
    by (cases "get_opt (drop pos payload) 0"; cases "get_opt (drop pos payload) (0 + 1)";
        cases "get_opt (drop pos payload) (0 + 1 + 1)") (simp_all add: checked_add_def)
qed

lemma size_field_encode:
  assumes "wf_layer (ext, d, opt)"
  shows "modex_size_field (encode_layer (ext, d, opt) @ rest) 0 = Some (if ext then 3 else 1, length d)"
proof -
  obtain a ds where d: "d = a # ds" using assms by (cases d) auto
  show ?thesis
  proof (cases ext)
    case True
    have "unat (of_nat (length ds) :: u16) = length ds" "Suc (length ds) \<le> USIZE_MAX"
      using assms True by (auto simp: d USIZE_MAX_def intro!: unat_of_nat_small)
    then show ?thesis using True
      by (simp add: d modex_size_field_def be16_def get_opt_def checked_add_def be_simps)
  next
    case False
    have u: "unat (of_nat (length ds) :: u8) = length ds" "length ds < 255"
      using assms False by (auto simp: d intro!: unat_of_nat_small)
    have "(of_nat (length ds) :: u8) \<noteq> 0xFF"
    proof
      assume "(of_nat (length ds) :: u8) = 0xFF"
      with u show False by simp
    qed
    with u False show ?thesis by (simp add: d modex_size_field_def get_opt_def)
  qed
qed

lemma size_field_decode:
  assumes "modex_size_field xs 0 = Some (c, n)"
  obtains ext where "c = (if ext then 3 else 1)" "0 < n" "n \<le> (if ext then 65536 else 255)" "c \<le> length xs"
    "xs = (if ext then 0xFF # be16 (of_nat (n - 1)) else [of_nat (n - 1)]) @ drop c xs"
proof -
  obtain b ys where xs: "xs = b # ys"
    using assms by (cases xs) (auto simp: modex_size_field_def get_opt_def)
  show thesis
  proof (cases "b = 0xFF")
    case False
    then have "c = 1" "n = unat b + 1" using assms by (auto simp: xs modex_size_field_def get_opt_def)
    moreover have "unat b \<noteq> 255"
    proof
      assume "unat b = 255"
      then have "of_nat (unat b) = (of_nat 255 :: u8)" by simp
      then show False using False by simp
    qed
    moreover have "unat b < 256" using unsigned_less [of b] by simp
    ultimately show thesis by (intro that [of False]) (simp_all add: xs)
  next
    case True
    then obtain hi lo zs where ys: "ys = hi # lo # zs" "c = 3" "n = unat (u16_be hi lo) + 1"
      using assms by (cases ys; cases "tl ys")
        (auto simp: xs modex_size_field_def get_opt_def checked_add_def split: if_splits)
    moreover have "unat (u16_be hi lo) < 65536" using unsigned_less [of "u16_be hi lo"] by simp
    ultimately show thesis using True by (intro that [of True]) (simp_all add: xs be_simps)
  qed
qed

lemma parse_layer_encode:
  assumes "wf_layer l" "length (pre @ encode_layer l @ rest) \<le> USIZE_MAX"
  shows "\<exists>layer. parse_modex_layer (pre @ encode_layer l @ rest) (length pre) = Some layer \<and>
     ml_next_packet_type layer = layer_next l \<and> ml_next_pos layer = length pre + length (encode_layer l)"
proof -
  obtain ext d opt where l: "l = (ext, d, opt)" by (cases l)
  define sz where "sz = (if ext then 0xFF # be16 (of_nat (length d - 1)) else [of_nat (length d - 1)] :: bytes)"
  have enc: "encode_layer l = sz @ d @ [opt]" by (simp add: l sz_def)
  let ?payload = "pre @ encode_layer l @ rest"
  have "length sz = (if ext then 3 else 1)" by (simp add: sz_def)
  then have sf: "modex_size_field ?payload (length pre) = Some (length pre + length sz, length d)"
    using size_field_encode [OF assms(1) [unfolded l], of rest] size_field_shift [of "length pre" ?payload]
    by (simp add: l del: encode_layer.simps)
  have "get_opt ((pre @ sz @ d) @ opt # rest) (length (pre @ sz @ d) + 0) = Some opt"
    unfolding get_opt_append by (simp add: get_opt_def)
  then have "get_opt ?payload (length pre + length sz + length d) = Some opt"
    by (simp only: enc append_assoc append_Cons append_Nil length_append add_0_right add.assoc)
  then show ?thesis
    using assms(2) unfolding parse_modex_layer_def sf
    by (simp add: checked_add_def layer_next_def enc) (simp add: l)
qed

lemma parse_layer_decode:
  assumes "parse_modex_layer payload pos = Some layer"
  shows "\<exists>l. wf_layer l \<and> drop pos payload = encode_layer l @ drop (ml_next_pos layer) payload \<and>
     ml_next_packet_type layer = layer_next l \<and> pos \<le> length payload \<and> ml_next_pos layer = pos + length (encode_layer l)"
proof -
  from assms obtain cursor n where sf: "modex_size_field payload pos = Some (cursor, n)"
    by (auto simp: parse_modex_layer_def bind_eq_Some_conv)
  then have opt: "cursor + n < length payload" "layer = \<lparr>ml_modex_type = drop_bit 4 (payload ! (cursor + n)),
      ml_next_packet_type = payload ! (cursor + n) AND 0x0F, ml_data_start = cursor, ml_data_end = cursor + n,
      ml_next_pos = cursor + n + 1\<rparr>"
    using assms by (auto simp: parse_modex_layer_def checked_add_def get_opt_def split: if_splits)
  have pos: "pos \<le> length payload"
    using sf by (cases "pos < length payload") (auto simp: modex_size_field_def)
  from sf obtain c where c: "cursor = pos + c" "modex_size_field (drop pos payload) 0 = Some (c, n)"
    unfolding size_field_shift [OF pos] by auto
  from c(2) obtain ext where ext: "c = (if ext then 3 else 1)" "0 < n" "n \<le> (if ext then 65536 else 255)"
    "c \<le> length (drop pos payload)"
    "drop pos payload = (if ext then 0xFF # be16 (of_nat (n - 1)) else [of_nat (n - 1)]) @ drop c (drop pos payload)"
    by (rule size_field_decode)
  let ?d = "take n (drop cursor payload)"
  let ?l = "(ext, ?d, payload ! (cursor + n))"
  have len: "length ?d = n" using opt(1) by simp
  have "drop cursor payload = ?d @ payload ! (cursor + n) # drop (cursor + n + 1) payload"
    using opt(1) by (metis Cons_nth_drop_Suc Suc_eq_plus1 append_take_drop_id add.commute drop_drop)
  then have "drop pos payload = encode_layer ?l @ drop (cursor + n + 1) payload"
    using ext(5) len by (simp add: c(1) add.commute)
  moreover have "wf_layer ?l" using ext(2,3) len by auto
  moreover have "length (encode_layer ?l) = c + n + 1" using len ext(1) by (simp add: be16_def)
  ultimately show ?thesis
    using pos by (intro exI [of _ ?l]) (simp add: opt(2) layer_next_def c(1))
qed

section \<open>Peeling a chain\<close>

lemma encode_chain_Cons [simp]: "encode_chain (l # ls) = encode_layer l @ encode_chain ls"
  by (simp add: encode_chain_def)

lemma encode_chain_Nil [simp]: "encode_chain [] = []"
  by (simp add: encode_chain_def)

text \<open>The header byte after peeling: the high nibble of the first byte, the packet type of the innermost layer.\<close>

definition rebuilt :: "u8 \<Rightarrow> wire_layer list \<Rightarrow> u8" where
  "rebuilt b ls = (b AND 0xF0) OR layer_next (last ls)"

lemma high_nibble_again: "((b AND 0xF0) OR (x AND 0x0F)) AND 0xF0 = (b AND 0xF0 :: u8)"
proof -
  have "(x AND 0x0F) AND 0xF0 = (0 :: u8)" by (simp add: and.assoc)
  then show ?thesis by (simp add: bit.conj_disj_distrib2 and.assoc)
qed

lemma rebuilt_step: "ls \<noteq> [] \<Longrightarrow> rebuilt ((b AND 0xF0) OR ERTMP_PACKET_TYPE_MODEX) ls = rebuilt b (l # ls)"
  using high_nibble_again [of b 7] by (simp add: rebuilt_def ERTMP_PACKET_TYPE_MODEX_def)

lemma peel_encode:
  assumes "wf_chain ls" "length ls \<le> n" "length (pre @ encode_chain ls @ body) \<le> USIZE_MAX"
  shows "modex_peel n (pre @ encode_chain ls @ body) (length pre) b =
     Some (length pre + length (encode_chain ls), rebuilt b ls)"
  using assms
proof (induction ls arbitrary: n pre b)
  case (Cons l ls)
  then obtain m where n: "n = Suc m" by (cases n) auto
  have wf: "wf_layer l" using Cons.prems(1) by (cases ls) auto
  let ?p = "pre @ encode_layer l @ encode_chain ls @ body"
  obtain layer where layer: "parse_modex_layer ?p (length pre) = Some layer"
    "ml_next_packet_type layer = layer_next l" "ml_next_pos layer = length (pre @ encode_layer l)"
    using parse_layer_encode [OF wf, of pre "encode_chain ls @ body"] Cons.prems(3) by auto
  show ?case
  proof (cases ls)
    case Nil
    then show ?thesis using Cons.prems(1) layer by (simp add: n rebuilt_def)
  next
    case (Cons l' ls')
    then have "wf_chain ls" "layer_next l = ERTMP_PACKET_TYPE_MODEX" using Cons.prems(1) by auto
    moreover have "modex_peel m ((pre @ encode_layer l) @ encode_chain ls @ body) (length (pre @ encode_layer l))
        ((b AND 0xF0) OR layer_next l) = Some (length (pre @ encode_layer l) + length (encode_chain ls),
          rebuilt ((b AND 0xF0) OR layer_next l) ls)"
      using Cons.IH [of m "pre @ encode_layer l"] Cons.prems calculation by (simp add: n)
    ultimately show ?thesis using layer rebuilt_step [of ls b l] Cons by (simp add: n)
  qed
qed simp

lemma peel_decode:
  assumes "modex_peel n payload pos b = Some (pos', b')"
  shows "\<exists>ls. wf_chain ls \<and> length ls \<le> n \<and> drop pos payload = encode_chain ls @ drop pos' payload \<and>
     b' = rebuilt b ls \<and> pos' = pos + length (encode_chain ls) \<and> pos' \<le> length payload"
  using assms
proof (induction n arbitrary: pos b)
  case (Suc n)
  then obtain layer where layer: "parse_modex_layer payload pos = Some layer"
    by (auto split: option.splits)
  obtain l where l: "wf_layer l" "drop pos payload = encode_layer l @ drop (ml_next_pos layer) payload"
    "ml_next_packet_type layer = layer_next l" "pos \<le> length payload" "ml_next_pos layer = pos + length (encode_layer l)"
    using parse_layer_decode [OF layer] by blast
  have len: "ml_next_pos layer \<le> length payload"
    using arg_cong [OF l(2), of length] l(4,5) by (cases "ml_next_pos layer \<le> length payload") auto
  show ?case
  proof (cases "layer_next l = ERTMP_PACKET_TYPE_MODEX")
    case False
    then have "pos' = ml_next_pos layer" "b' = rebuilt b [l]"
      using Suc.prems layer l(3) by (simp_all add: rebuilt_def)
    then show ?thesis using l False len by (intro exI [of _ "[l]"]) simp
  next
    case True
    then have "modex_peel n payload (ml_next_pos layer) ((b AND 0xF0) OR layer_next l) = Some (pos', b')"
      using Suc.prems layer l(3) by simp
    then obtain ls where ls: "wf_chain ls" "length ls \<le> n" "drop (ml_next_pos layer) payload = encode_chain ls @ drop pos' payload"
      "b' = rebuilt ((b AND 0xF0) OR layer_next l) ls" "pos' = ml_next_pos layer + length (encode_chain ls)"
      "pos' \<le> length payload"
      using Suc.IH by blast
    then obtain l' ls' where "ls = l' # ls'" by (cases ls) auto
    then show ?thesis
      using ls l True rebuilt_step [of ls b l] by (intro exI [of _ "l # ls"]) simp
  qed
qed simp

lemma peel_too_long:
  assumes "wf_chain ls" "n < length ls" "length (pre @ encode_chain ls @ body) \<le> USIZE_MAX"
  shows "modex_peel n (pre @ encode_chain ls @ body) (length pre) b = None"
  using assms
proof (induction n arbitrary: ls pre b)
  case (Suc n)
  then obtain l l' ls' where ls: "ls = l # l' # ls'" by (cases ls; cases "tl ls") auto
  then have wf: "wf_layer l" "layer_next l = ERTMP_PACKET_TYPE_MODEX" "wf_chain (l' # ls')" using Suc.prems(1) by auto
  obtain layer where "parse_modex_layer (pre @ encode_chain ls @ body) (length pre) = Some layer"
    "ml_next_packet_type layer = layer_next l" "ml_next_pos layer = length (pre @ encode_layer l)"
    using parse_layer_encode [OF wf(1), of pre "encode_chain (l' # ls') @ body"] Suc.prems(3) by (auto simp: ls)
  then show ?case
    using Suc.IH [OF wf(3), of "pre @ encode_layer l"] Suc.prems(2,3) wf(2) by (simp add: ls)
qed simp

lemma normalize_chain:
  assumes "modex_applies payload caps ft" "wf_chain ls" "payload = b # encode_chain ls @ body" "length payload \<le> USIZE_MAX"
  shows "normalize_modex_payload_with_frame_type payload caps ft =
     Inr (if length ls \<le> 32 then rebuilt b ls # body else payload)"
proof (cases "length ls \<le> 32")
  case True
  have "modex_peel MAX_MODEX_CHAIN_LAYERS payload 1 b = Some (1 + length (encode_chain ls), rebuilt b ls)"
    using peel_encode [OF assms(2), of MAX_MODEX_CHAIN_LAYERS "[b]" body b] True assms(3,4)
    by (simp add: MAX_MODEX_CHAIN_LAYERS_def)
  then show ?thesis using assms(1,3) True
    by (simp add: normalize_modex_payload_with_frame_type_def)
next
  case False
  have "modex_peel MAX_MODEX_CHAIN_LAYERS payload 1 b = None"
    using peel_too_long [OF assms(2), of MAX_MODEX_CHAIN_LAYERS "[b]" body b] False assms(3,4)
    by (simp add: MAX_MODEX_CHAIN_LAYERS_def)
  then show ?thesis using assms(1,3) False
    by (simp add: normalize_modex_payload_with_frame_type_def)
qed

lemma normalize_other:
  assumes "modex_applies payload caps ft" "\<nexists>ls body. wf_chain ls \<and> payload = payload ! 0 # encode_chain ls @ body"
  shows "normalize_modex_payload_with_frame_type payload caps ft = Inr payload"
proof -
  obtain b rest where p: "payload = b # rest" using assms(1) by (cases payload) (auto simp: modex_applies_def)
  have "modex_peel MAX_MODEX_CHAIN_LAYERS payload 1 b = None"
  proof (rule ccontr)
    assume "modex_peel MAX_MODEX_CHAIN_LAYERS payload 1 b \<noteq> None"
    then obtain pos' b' where "modex_peel MAX_MODEX_CHAIN_LAYERS payload 1 b = Some (pos', b')" by auto
    then obtain ls where "wf_chain ls" "drop 1 payload = encode_chain ls @ drop pos' payload"
      using peel_decode by blast
    then show False using assms(2) by (auto simp: p)
  qed
  then show ?thesis by (simp add: normalize_modex_payload_with_frame_type_def p)
qed

text \<open>One wrapper written and read back.\<close>

lemma modex_write_eq:
  assumes "mx_modex_type m = TimestampOffsetNano" "5 \<le> length buf"
  shows "modex_write m buf = Inr (5, 2 # be24 (ucast (mx_offset m AND 0x00FFFFFF)) @
     [mx_next_packet_type m AND 0x0F] @ drop 5 buf)"
proof -
  let ?d = "be24 (ucast (mx_offset m AND 0x00FFFFFF))"
  have "copy_at buf 0 [2] = Inr ([2] @ drop 1 buf)" "copy_at ([2] @ drop 1 buf) 1 ?d = Inr ((2 # ?d) @ drop 4 buf)"
    "copy_at ((2 # ?d) @ drop 4 buf) 4 [x] = Inr ((2 # ?d @ [x]) @ drop 5 buf)" for x
    using assms(2) copy_at_start [of "[2]" buf] copy_at_next [of 1 "[2]" ?d buf] copy_at_next [of 4 "2 # ?d" "[x]" buf]
    by simp_all
  then show ?thesis
    using assms unfolding modex_write_def set_idx_copy_at be24_as_written
    by (simp add: MODEX_TYPE_TIMESTAMP_OFFSET_NANO_def Let_def)
qed

lemma parse_nano_layer:
  "parse_modex_layer (2 # b0 # b1 # b2 # opt # rest) 0 =
     Some \<lparr>ml_modex_type = drop_bit 4 opt, ml_next_packet_type = opt AND 0x0F, ml_data_start = 1, ml_data_end = 4,
       ml_next_pos = 5\<rparr>"
  by (simp add: parse_modex_layer_def modex_size_field_def checked_add_def get_opt_def USIZE_MAX_def)

lemma modex_roundtrip:
  assumes "mx_modex_type m = TimestampOffsetNano" "take_bit 24 (mx_offset m) = mx_offset m"
    and "mx_next_packet_type m AND 0x0F = mx_next_packet_type m" "5 \<le> length buf"
  shows "\<exists>out. modex_write m buf = Inr (5, out) \<and> modex_parse_prefix out m0 = (Inr 5, m)"
proof -
  let ?w = "ucast (mx_offset m AND 0x00FFFFFF) :: u32"
  have nib: "drop_bit 4 (mx_next_packet_type m) = 0"
    by (subst assms(3) [symmetric], unfold mask_4) (rule bit_word_eqI, auto simp: bit_simps)
  have "(0x00FFFFFF :: u64) = mask 24" by (simp add: mask_eq_exp_minus_1)
  then have w: "?w = ucast (mx_offset m)" using assms(2) by (simp add: take_bit_eq_mask)
  have c: "ucast (take_bit 24 (ucast (mx_offset m) :: u32)) = take_bit 24 (mx_offset m)"
    by (rule bit_word_eqI) (auto simp: bit_simps)
  have "u32_be 0 (ucast (drop_bit 16 ?w)) (ucast (drop_bit 8 ?w)) (ucast ?w) = take_bit 24 ?w"
    using u24_be_be24_take [of ?w] by (simp add: u32_be_def u24_be_def)
  then have off: "ucast (u32_be 0 (ucast (drop_bit 16 ?w)) (ucast (drop_bit 8 ?w)) (ucast ?w)) = mx_offset m"
    using c unfolding w by (simp only: assms(2))
  show ?thesis
    using assms(1,3) nib off unfolding modex_write_eq [OF assms(1,4)] be24_as_written
    by (simp add: modex_parse_prefix_def parse_nano_layer MODEX_TYPE_TIMESTAMP_OFFSET_NANO_def
        TIMESTAMP_OFFSET_NANO_LEN_def op_simps Let_def)
qed

section \<open>Properties\<close>

lemma normalize_modex_result:
  assumes "length payload \<le> USIZE_MAX"
  shows "\<exists>out. normalize_modex_payload_with_frame_type payload caps ft = Inr out \<and>
     (\<forall>ls body. modex_applies payload caps ft \<and> wf_chain ls \<and> payload = payload ! 0 # encode_chain ls @ body \<longrightarrow>
        out = (if length ls \<le> 32 then rebuilt (payload ! 0) ls # body else payload)) \<and>
     ((\<nexists>ls body. modex_applies payload caps ft \<and> wf_chain ls \<and> payload = payload ! 0 # encode_chain ls @ body) \<longrightarrow>
        out = payload)"
proof (cases "modex_applies payload caps ft \<and> (\<exists>ls body. wf_chain ls \<and> payload = payload ! 0 # encode_chain ls @ body)")
  case True
  let ?out = "\<lambda>ls body. if length ls \<le> 32 then rebuilt (payload ! 0) ls # body else payload"
  have run: "normalize_modex_payload_with_frame_type payload caps ft = Inr (?out ls body)"
    if "wf_chain ls" "payload = payload ! 0 # encode_chain ls @ body" for ls body
    using True by (intro normalize_chain [OF _ that assms]) simp
  from True obtain ls0 body0 where c: "wf_chain ls0" "payload = payload ! 0 # encode_chain ls0 @ body0" by blast
  have "?out ls0 body0 = ?out ls body" if "wf_chain ls" "payload = payload ! 0 # encode_chain ls @ body" for ls body
    using run [OF that] run [OF c] by (simp only: sum.inject)
  with run [OF c] True show ?thesis by (intro exI [of _ "?out ls0 body0"] conjI) (assumption, blast, blast)
next
  case False
  have "normalize_modex_payload_with_frame_type payload caps ft = Inr payload"
  proof (cases "modex_applies payload caps ft")
    case True
    then show ?thesis using False normalize_other by blast
  next
    case False
    then show ?thesis by (simp add: normalize_modex_payload_with_frame_type_def)
  qed
  with False show ?thesis by (intro exI [of _ payload]) blast
qed

text \<open>C32: normalization is exact. It never panics. A payload that starts with an enhanced ModEx header (the tag
  nibble 9 is required for audio) of a peer that negotiated ModEx and goes on with a well-formed chain of wrapper layers
  is replaced by the header byte with the innermost packet type followed by the body, if the chain has at most 32 layers;
  a longer chain is left wrapped. A payload that is not such a chain, or to which ModEx does not apply, comes back unchanged.\<close>

theorem normalize_modex_exact:
  assumes "length payload \<le> USIZE_MAX"
  shows "\<exists>out. normalize_modex_payload_with_frame_type payload caps ft = Inr out \<and>
     (\<forall>ls body. modex_applies payload caps ft \<and> wf_chain ls \<and> payload = payload ! 0 # encode_chain ls @ body \<longrightarrow>
        out = (if length ls \<le> 32 then rebuilt (payload ! 0) ls # body else payload)) \<and>
     ((\<nexists>ls body. modex_applies payload caps ft \<and> wf_chain ls \<and> payload = payload ! 0 # encode_chain ls @ body) \<longrightarrow>
        out = payload)"
  by (rule normalize_modex_result [OF assms])

lemma normalize_modex_exact_witness:
  "\<exists>out. normalize_modex_payload_with_frame_type
       ([0x97] @ [2, 1, 2, 3, 0x07] @ [0xFF, 0, 0, 9, 0x01] @ [0x68, 0x76]) 0x04 FVideo = Inr out \<and>
     out = [rebuilt 0x97 [(False, [1, 2, 3], 0x07), (True, [9], 0x01)], 0x68, 0x76]"
proof -
  let ?ls = "[(False, [1, 2, 3], 0x07), (True, [9], 0x01)] :: wire_layer list"
  let ?p = "[0x97] @ [2, 1, 2, 3, 0x07] @ [0xFF, 0, 0, 9, 0x01] @ [0x68, 0x76] :: bytes"
  have p: "modex_applies ?p 0x04 FVideo \<and> wf_chain ?ls \<and> ?p = ?p ! 0 # encode_chain ?ls @ [0x68, 0x76]"
    by (simp add: modex_applies_def CAPS_EX_MASK_MODEX_def ERTMP_PACKET_TYPE_MODEX_def layer_next_def be16_def)
  have n: "length ?ls \<le> 32" "?p ! 0 = 0x97" by simp_all
  have len: "length ?p \<le> USIZE_MAX" by (simp add: USIZE_MAX_def)
  obtain out where out: "normalize_modex_payload_with_frame_type ?p 0x04 FVideo = Inr out"
    "\<forall>ls body. modex_applies ?p 0x04 FVideo \<and> wf_chain ls \<and> ?p = ?p ! 0 # encode_chain ls @ body \<longrightarrow>
        out = (if length ls \<le> 32 then rebuilt (?p ! 0) ls # body else ?p)"
    using normalize_modex_exact [OF len, of "0x04" FVideo] by (elim exE conjE) (rule that)
  from out(2) [rule_format, OF p] have "out = rebuilt 0x97 ?ls # [0x68, 0x76]" unfolding n(2) if_P [OF n(1)] .
  with out(1) show ?thesis by (intro exI [of _ out] conjI)
qed

end
