(* ===== verification/Multitrack_Media.thy ===== *)
theory Multitrack_Media
  imports Modex
begin

text \<open>
  The multitrack containers of Enhanced RTMP v2 (\<open>src/src/ertmp/multitrack_media.rs\<close>). A visitor closure
  \<open>impl FnMut(&MediaTrackSlice)\<close> that updates captured variables is a function on those variables, the state of the walk.
  The loop counts its tracks up to \<open>MAX_MULTITRACK_SUBTRACKS\<close>; the model recurses on the number still allowed.

  \<open>encode_container\<close> is the wire format of the three container forms. The lemmas show that a walk succeeds on exactly
  the encodings and visits their tracks in order.
\<close>

section \<open>Definitions\<close>

definition MAX_MULTITRACK_SUBTRACKS :: nat where "MAX_MULTITRACK_SUBTRACKS = 4096"

datatype av_multitrack_type = OneTrack | ManyTracks | ManyTracksManyCodecs

fun av_multitrack_type_id :: "av_multitrack_type \<Rightarrow> u8" where
  "av_multitrack_type_id OneTrack = 0"
| "av_multitrack_type_id ManyTracks = 1"
| "av_multitrack_type_id ManyTracksManyCodecs = 2"

record media_track_slice =
  ts_track_id :: u8
  ts_packet_type :: u8
  ts_fourcc :: bytes
  ts_video_frame_type :: u8
  ts_payload :: bytes

definition read_u24 :: "bytes \<Rightarrow> nat result" where
  "read_u24 data = map_sum id unat (ntoh24 data)"

definition is_multitrack_container :: "frame_type \<Rightarrow> bytes \<Rightarrow> bool" where
  "is_multitrack_container ft payload =
     (if payload = [] \<or> payload ! 0 AND 0x80 = 0 then False
      else case ft of
        FVideo \<Rightarrow>
          if drop_bit 4 (payload ! 0) AND 0x07 = VIDEO_FRAME_TYPE_COMMAND then False
          else payload ! 0 AND 0x0F = ERTMP_VIDEO_PACKET_TYPE_MULTITRACK
      | FAudio \<Rightarrow>
          if drop_bit 4 (payload ! 0) AND 0x0F \<noteq> 0x09 then False
          else payload ! 0 AND 0x0F = ERTMP_AUDIO_PACKET_TYPE_MULTITRACK
      | _ \<Rightarrow> False)"

text \<open>\<open>xs.get(a..b)\<close>\<close>

definition get_range :: "'a list \<Rightarrow> nat \<Rightarrow> nat \<Rightarrow> 'a list option" where
  "get_range xs a b = (if a \<le> b \<and> b \<le> length xs then Some (take (b - a) (drop a xs)) else None)"

definition read_fourcc :: "bytes \<Rightarrow> nat \<Rightarrow> bytes option" where
  "read_fourcc payload pos = Option.bind (checked_add pos 4) (get_range payload pos)"

text \<open>The body length of a track: the rest of the payload, or the size field before it.\<close>

definition read_track_header :: "bytes \<Rightarrow> nat \<Rightarrow> bool \<Rightarrow> (u8 \<times> nat \<times> nat) option result" where
  "read_track_header payload pos one_track =
     (case get_opt payload pos of
        None \<Rightarrow> Inr None
      | Some track_id \<Rightarrow>
          (let body = pos + 1 in
           bindR
             (if one_track then (if body \<le> length payload then Inr (Some (body, length payload - body)) else panic)
              else case get_range payload body (body + 3) of
                None \<Rightarrow> Inr None
              | Some size_field \<Rightarrow> bindR (read_u24 size_field) (\<lambda>len. Inr (Some (body + 3, len))))
             (\<lambda>r. Inr (case r of
                None \<Rightarrow> None
              | Some (body, len) \<Rightarrow> if body + len \<le> length payload then Some (track_id, body, len) else None))))"

primrec walk_loop ::
  "nat \<Rightarrow> (bool \<times> bool \<times> u8 \<times> u8 \<times> bytes) \<Rightarrow> bytes \<Rightarrow> (media_track_slice \<Rightarrow> 's \<Rightarrow> 's) \<Rightarrow> nat \<Rightarrow> ('s, bool) op" where
  "walk_loop 0 cfg payload visit = (\<lambda>pos. retS False)"
| "walk_loop (Suc left) cfg payload visit = (\<lambda>pos.
     case cfg of (many_codecs, one_track, packet_type, video_frame_type, shared_fourcc) \<Rightarrow>
     (case (if many_codecs then map_option (\<lambda>cc. (cc, pos + 4)) (read_fourcc payload pos)
            else Some (shared_fourcc, pos)) of
        None \<Rightarrow> retS False
      | Some (fourcc, pos) \<Rightarrow>
          bindS (liftS (read_track_header payload pos one_track)) (\<lambda>hdr. case hdr of
             None \<Rightarrow> retS False
           | Some (track_id, body, len) \<Rightarrow>
               bindS (liftS (subslice payload body (body + len))) (\<lambda>track_payload.
               thenS (modS (visit \<lparr>ts_track_id = track_id, ts_packet_type = packet_type, ts_fourcc = fourcc,
                   ts_video_frame_type = video_frame_type, ts_payload = track_payload\<rparr>))
                 (if one_track \<or> body + len = length payload then retS (body + len = length payload)
                  else walk_loop left cfg payload visit (body + len))))))"

definition walk_tracks :: "frame_type \<Rightarrow> bytes \<Rightarrow> (media_track_slice \<Rightarrow> 's \<Rightarrow> 's) \<Rightarrow> ('s, bool) op" where
  "walk_tracks ft payload visit =
     (if \<not> is_multitrack_container ft payload \<or> length payload < 3 then retS False
      else bindS (liftS (idx payload 0)) (\<lambda>b0. bindS (liftS (idx payload 1)) (\<lambda>b1.
        let multitrack_type = drop_bit 4 b1 AND 0x0F in
        if multitrack_type > av_multitrack_type_id ManyTracksManyCodecs then retS False
        else
          (let many_codecs = (multitrack_type = av_multitrack_type_id ManyTracksManyCodecs);
               one_track = (multitrack_type = av_multitrack_type_id OneTrack);
               packet_type = b1 AND 0x0F;
               video_frame_type = (if ft = FVideo then drop_bit 4 b0 AND 0x07 else 0) in
           case (if many_codecs then Some (replicate 4 0, 2)
                 else map_option (\<lambda>cc. (cc, 2 + 4)) (read_fourcc payload 2)) of
             None \<Rightarrow> retS False
           | Some (shared_fourcc, pos) \<Rightarrow>
               walk_loop MAX_MULTITRACK_SUBTRACKS
                 (many_codecs, one_track, packet_type, video_frame_type, shared_fourcc) payload visit pos))))"

definition foreach_track :: "frame_type \<Rightarrow> bytes \<Rightarrow> (media_track_slice \<Rightarrow> 's \<Rightarrow> 's) \<Rightarrow> ('s, bool) op" where
  "foreach_track ft payload visit =
     bindS (walk_tracks ft payload (\<lambda>_ s. s)) (\<lambda>ok. if ok then walk_tracks ft payload visit else retS False)"

definition first_track_fourcc :: "frame_type \<Rightarrow> bytes \<Rightarrow> bytes option result" where
  "first_track_fourcc ft payload =
     (case foreach_track ft payload (\<lambda>track result. if result = None then Some (ts_fourcc track) else result) None of
        (Inr ok, result) \<Rightarrow> Inr (if ok then result else None)
      | (Inl e, _) \<Rightarrow> Inl e)"

definition multitrack_has_sequence_start :: "frame_type \<Rightarrow> bytes \<Rightarrow> bool result" where
  "multitrack_has_sequence_start ft payload =
     (case foreach_track ft payload (\<lambda>track found. found \<or> ts_packet_type track = 0) False of
        (Inr valid, found) \<Rightarrow> Inr (valid \<and> found)
      | (Inl e, _) \<Rightarrow> Inl e)"

definition multitrack_has_metadata :: "frame_type \<Rightarrow> bytes \<Rightarrow> bool result" where
  "multitrack_has_metadata ft payload =
     (case (case ft of FVideo \<Rightarrow> Some 4 | FAudio \<Rightarrow> Some 3 | _ \<Rightarrow> None) of
        None \<Rightarrow> Inr False
      | Some metadata_ty \<Rightarrow>
          (case foreach_track ft payload (\<lambda>track found. found \<or> ts_packet_type track = metadata_ty) False of
             (Inr valid, found) \<Rightarrow> Inr (valid \<and> found)
           | (Inl e, _) \<Rightarrow> Inl e))"

definition multitrack_has_keyframe :: "bytes \<Rightarrow> bool result" where
  "multitrack_has_keyframe payload =
     (if \<not> is_multitrack_container FVideo payload then Inr False
      else
        (let coded = (case map_option (\<lambda>b. b AND 0x0F) (get_opt payload 1) of Some p \<Rightarrow> p = 1 \<or> p = 3 | None \<Rightarrow> False) in
         bindR (idx payload 0) (\<lambda>b0.
           if coded \<and> drop_bit 4 b0 AND 0x07 = 1 then fst (foreach_track FVideo payload (\<lambda>_ s. s) ()) else Inr False)))"

section \<open>The wire format\<close>

type_synonym wire_track = "bytes \<times> u8 \<times> bytes"

record container =
  mc_first :: u8
  mc_kind :: av_multitrack_type
  mc_packet_type :: u8
  mc_shared :: bytes
  mc_tracks :: "wire_track list"

fun encode_track :: "av_multitrack_type \<Rightarrow> wire_track \<Rightarrow> bytes" where
  "encode_track k (cc, tid, body) =
     (if k = ManyTracksManyCodecs then cc else []) @ [tid] @
     (if k = OneTrack then [] else be24 (of_nat (length body))) @ body"

definition encode_container :: "container \<Rightarrow> bytes" where
  "encode_container c =
     [mc_first c, push_bit 4 (av_multitrack_type_id (mc_kind c)) OR mc_packet_type c] @
     (if mc_kind c = ManyTracksManyCodecs then [] else mc_shared c) @
     concat (map (encode_track (mc_kind c)) (mc_tracks c))"

fun wf_track :: "av_multitrack_type \<Rightarrow> bytes \<Rightarrow> wire_track \<Rightarrow> bool" where
  "wf_track k shared (cc, tid, body) \<longleftrightarrow> length cc = 4 \<and> (k \<noteq> ManyTracksManyCodecs \<longrightarrow> cc = shared) \<and>
     (k \<noteq> OneTrack \<longrightarrow> length body < 2 ^ 24)"

definition wf_container :: "container \<Rightarrow> bool" where
  "wf_container c \<longleftrightarrow> mc_packet_type c AND 0x0F = mc_packet_type c \<and> length (mc_shared c) = 4 \<and>
     list_all (wf_track (mc_kind c) (mc_shared c)) (mc_tracks c) \<and> mc_tracks c \<noteq> [] \<and>
     length (mc_tracks c) \<le> MAX_MULTITRACK_SUBTRACKS \<and> (mc_kind c = OneTrack \<longrightarrow> length (mc_tracks c) = 1)"

text \<open>What a visitor sees of a track.\<close>

definition track_slices :: "frame_type \<Rightarrow> container \<Rightarrow> media_track_slice list" where
  "track_slices ft c = map (\<lambda>(cc, tid, body). \<lparr>ts_track_id = tid, ts_packet_type = mc_packet_type c, ts_fourcc = cc,
     ts_video_frame_type = (if ft = FVideo then drop_bit 4 (mc_first c) AND 0x07 else 0), ts_payload = body\<rparr>) (mc_tracks c)"

section \<open>One track\<close>

declare walk_loop.simps(2) [simp del]

lemma read_u24_ok: "length xs = 3 \<Longrightarrow> read_u24 xs = Inr (unat (u24_be (xs ! 0) (xs ! 1) (xs ! 2)))"
  by (simp add: read_u24_def ntoh24_def)

lemma read_u24_be24: "n < 2 ^ 24 \<Longrightarrow> read_u24 (be24 (of_nat n)) = Inr n"
proof -
  assume n: "n < 2 ^ 24"
  then have u: "unat (of_nat n :: u32) = n" by (simp add: unat_of_nat take_bit_nat_eq_self)
  with n have "(of_nat n :: u32) \<le> 0xFFFFFF" by (simp add: word_le_nat_alt)
  then show ?thesis using u ntoh24_be24 [of "of_nat n" "[]"] by (simp add: read_u24_def)
qed

lemma be24_read_u24:
  assumes "length xs = 3" "read_u24 xs = Inr n"
  shows "xs = be24 (of_nat n)" "n < 2 ^ 24"
proof -
  obtain a b c where xs: "xs = [a, b, c]" using assms(1) by (auto simp: numeral_eq_Suc length_Suc_conv)
  then have n: "n = unat (u24_be a b c)" using assms(2) by (simp add: read_u24_ok)
  then show "xs = be24 (of_nat n)" by (simp add: xs be24_u24_be)
  show "n < 2 ^ 24" using u24_be_bound [of a b c] by (simp add: n word_le_nat_alt)
qed

lemma get_range_append: "get_range (pre @ xs @ rest) (length pre) (length pre + length xs) = Some xs"
  by (simp add: get_range_def)

lemma track_header_encode:
  assumes "k = OneTrack \<Longrightarrow> rest = []" "k \<noteq> OneTrack \<Longrightarrow> length body < 2 ^ 24"
    and "sz = (if k = OneTrack then [] else be24 (of_nat (length body)))"
  shows "read_track_header (pre @ [tid] @ sz @ body @ rest) (length pre) (k = OneTrack) =
     Inr (Some (tid, length pre + 1 + length sz, length body))"
proof -
  have g: "get_opt (pre @ [tid] @ sz @ body @ rest) (length pre) = Some tid"
    by (simp add: get_opt_def)
  show ?thesis
  proof (cases "k = OneTrack")
    case True
    then show ?thesis using assms by (simp add: read_track_header_def)
  next
    case False
    then have "get_range (pre @ [tid] @ sz @ body @ rest) (length pre + 1) (length pre + 1 + 3) = Some sz"
      using get_range_append [of "pre @ [tid]" sz "body @ rest"] assms(3) by simp
    moreover have "read_u24 sz = Inr (length body)" using assms(2,3) False by (simp add: read_u24_be24)
    moreover have "length sz = 3" using assms(3) False by simp
    ultimately show ?thesis using False unfolding read_track_header_def g by simp
  qed
qed

lemma track_header_decode:
  assumes "pos \<le> length payload"
  shows "\<exists>r. read_track_header payload pos (k = OneTrack) = Inr r \<and>
     (\<forall>tid body len. r = Some (tid, body, len) \<longrightarrow> body + len \<le> length payload \<and>
       (k = OneTrack \<longrightarrow> body + len = length payload) \<and> (k \<noteq> OneTrack \<longrightarrow> len < 2 ^ 24) \<and>
       drop pos payload = [tid] @ (if k = OneTrack then [] else be24 (of_nat len)) @
         take len (drop body payload) @ drop (body + len) payload)"
proof (cases "pos < length payload")
  case False
  then show ?thesis by (simp add: read_track_header_def)
next
  case pos: True
  have d: "drop pos payload = payload ! pos # drop (pos + 1) payload" using pos by (simp add: Cons_nth_drop_Suc)
  show ?thesis
  proof (cases "k = OneTrack")
    case True
    then show ?thesis using pos d by (simp add: read_track_header_def)
  next
    case False
    show ?thesis
    proof (cases "pos + 1 + 3 \<le> length payload")
      case True
      let ?sz = "take 3 (drop (pos + 1) payload)"
      have sz: "get_range payload (pos + 1) (pos + 1 + 3) = Some ?sz" "length ?sz = 3"
        using True by (simp_all add: get_range_def)
      then obtain n where n: "read_u24 ?sz = Inr n" using read_u24_ok by blast
      have "drop (pos + 1) payload = be24 (of_nat n) @ drop (pos + 4) payload"
        using be24_read_u24(1) [OF sz(2) n] append_take_drop_id [of 3 "drop (pos + 1) payload"]
        by (simp add: add.commute)
      moreover have "n < 2 ^ 24" by (rule be24_read_u24(2) [OF sz(2) n])
      moreover have "drop (pos + 4) payload = take n (drop (4 + pos) payload) @ drop (4 + pos + n) payload"
        by (metis append_take_drop_id drop_drop add.commute)
      ultimately show ?thesis using False pos d n sz by (auto simp: read_track_header_def)
    next
      case False
      then show ?thesis using \<open>k \<noteq> OneTrack\<close> pos by (simp add: read_track_header_def get_range_def)
    qed
  qed
qed

abbreviation loop_cfg :: "av_multitrack_type \<Rightarrow> u8 \<Rightarrow> u8 \<Rightarrow> bytes \<Rightarrow> bool \<times> bool \<times> u8 \<times> u8 \<times> bytes" where
  "loop_cfg k pt vft shared \<equiv> (k = ManyTracksManyCodecs, k = OneTrack, pt, vft, shared)"

abbreviation slice_of :: "u8 \<Rightarrow> u8 \<Rightarrow> wire_track \<Rightarrow> media_track_slice" where
  "slice_of pt vft t \<equiv> \<lparr>ts_track_id = fst (snd t), ts_packet_type = pt, ts_fourcc = fst t,
     ts_video_frame_type = vft, ts_payload = snd (snd t)\<rparr>"

lemma read_fourcc_append:
  "length cc = 4 \<Longrightarrow> length (pre @ cc @ rest) \<le> USIZE_MAX \<Longrightarrow> read_fourcc (pre @ cc @ rest) (length pre) = Some cc"
  using get_range_append [of pre cc rest] by (simp add: read_fourcc_def checked_add_def)

lemma read_fourcc_decode:
  "read_fourcc payload pos = Some cc \<Longrightarrow>
     length cc = 4 \<and> pos + 4 \<le> length payload \<and> drop pos payload = cc @ drop (pos + 4) payload"
  using append_take_drop_id [of 4 "drop pos payload"]
  by (auto simp: read_fourcc_def checked_add_def get_range_def add.commute split: if_splits)

lemma loop_encode_step:
  assumes "wf_track k shared t" "payload = pre @ encode_track k t @ rest" "k = OneTrack \<Longrightarrow> rest = []"
    and "length payload \<le> USIZE_MAX"
  shows "walk_loop (Suc n) (loop_cfg k pt vft shared) payload visit (length pre) s =
     (if rest = [] then (Inr True, visit (slice_of pt vft t) s)
      else walk_loop n (loop_cfg k pt vft shared) payload visit (length (pre @ encode_track k t)) (visit (slice_of pt vft t) s))"
proof -
  obtain cc tid body where t: "t = (cc, tid, body)" by (cases t)
  let ?m = "if k = ManyTracksManyCodecs then cc else []"
  let ?sz = "if k = OneTrack then [] else be24 (of_nat (length body)) :: bytes"
  let ?pre = "pre @ ?m"
  have p: "payload = ?pre @ [tid] @ ?sz @ body @ rest" using assms(2) by (simp add: t)
  have cc: "(if k = ManyTracksManyCodecs then map_option (\<lambda>cc. (cc, length pre + 4)) (read_fourcc payload (length pre))
        else Some (shared, length pre)) = Some (cc, length ?pre)"
    using assms(1,4) read_fourcc_append [of cc pre "[tid] @ ?sz @ body @ rest"] by (auto simp: p t)
  have hdr: "read_track_header payload (length ?pre) (k = OneTrack) =
      Inr (Some (tid, length ?pre + 1 + length ?sz, length body))"
    unfolding p using assms(1,3) by (intro track_header_encode) (auto simp: t)
  have sub: "subslice payload (length ?pre + 1 + length ?sz) (length ?pre + 1 + length ?sz + length body) = Inr body"
    by (simp add: p subslice_def)
  have pos: "length ?pre + 1 + length ?sz + length body = length (pre @ encode_track k t)" by (simp add: t)
  have fin: "(k = OneTrack \<or> length (pre @ encode_track k t) = length payload) = (rest = [])"
    "rest = [] \<Longrightarrow> length (pre @ encode_track k t) = length payload"
    using assms(2,3) by auto
  show ?thesis
    unfolding walk_loop.simps prod.case cc option.case bindS_apply liftS_apply hdr sum.case pos sub [unfolded pos]
      thenS_apply modS_apply fin(1)
    using fin(2) by (auto simp: t simp del: encode_track.simps length_append)
qed

lemma loop_decode_step:
  assumes "pos \<le> length payload" "length shared = 4"
  shows "walk_loop (Suc n) (loop_cfg k pt vft shared) payload visit pos s = (Inr False, s) \<or>
     (\<exists>t. wf_track k shared t \<and> pos + length (encode_track k t) \<le> length payload \<and>
       (k = OneTrack \<longrightarrow> pos + length (encode_track k t) = length payload) \<and>
       drop pos payload = encode_track k t @ drop (pos + length (encode_track k t)) payload)"
proof -
  let ?r = "if k = ManyTracksManyCodecs then map_option (\<lambda>cc. (cc, pos + 4)) (read_fourcc payload pos) else Some (shared, pos)"
  show ?thesis
  proof (cases ?r)
    case None
    then show ?thesis unfolding walk_loop.simps prod.case None option.case by simp
  next
    case (Some r)
    then obtain cc p where r: "?r = Some (cc, p)" by (cases r) auto
    let ?m = "if k = ManyTracksManyCodecs then cc else []"
    have p: "length cc = 4" "p \<le> length payload" "p = pos + length ?m" "drop pos payload = ?m @ drop p payload"
      "k \<noteq> ManyTracksManyCodecs \<longrightarrow> cc = shared"
      using r assms read_fourcc_decode [of payload pos] by (auto split: if_splits)
    obtain h where h: "read_track_header payload p (k = OneTrack) = Inr h"
      "\<forall>tid body len. h = Some (tid, body, len) \<longrightarrow> body + len \<le> length payload \<and>
       (k = OneTrack \<longrightarrow> body + len = length payload) \<and> (k \<noteq> OneTrack \<longrightarrow> len < 2 ^ 24) \<and>
       drop p payload = [tid] @ (if k = OneTrack then [] else be24 (of_nat len)) @
         take len (drop body payload) @ drop (body + len) payload"
      using track_header_decode [OF p(2)] by blast
    show ?thesis
    proof (cases h)
      case None
      then show ?thesis unfolding walk_loop.simps prod.case r option.case bindS_apply liftS_apply h(1) by simp
    next
      case (Some q)
      then obtain tid body len where q: "h = Some (tid, body, len)" by (cases q) auto
      let ?t = "(cc, tid, take len (drop body payload))"
      have d: "body + len \<le> length payload" "k = OneTrack \<longrightarrow> body + len = length payload" "k \<noteq> OneTrack \<longrightarrow> len < 2 ^ 24"
        "drop p payload = [tid] @ (if k = OneTrack then [] else be24 (of_nat len)) @
           take len (drop body payload) @ drop (body + len) payload"
        using h(2) q by blast+
      have len: "length (take len (drop body payload)) = len" using d(1) by simp
      have enc: "drop pos payload = encode_track k ?t @ drop (body + len) payload"
        unfolding encode_track.simps len using p(4) d(4) by simp
      have pos: "pos + length (encode_track k ?t) = body + len"
        using arg_cong [OF enc, of length] d(1) assms(1) unfolding length_append length_drop by linarith
      have wf: "wf_track k shared ?t" using d(3) p(1,5) len by simp
      show ?thesis by (rule disjI2, rule exI [of _ ?t], unfold pos) (intro conjI wf d(1,2) enc)
    qed
  qed
qed

section \<open>The walk\<close>

lemma loop_encode:
  assumes "list_all (wf_track k shared) ts" "ts \<noteq> []" "length ts \<le> n" "k = OneTrack \<Longrightarrow> length ts = 1"
    and "payload = pre @ concat (map (encode_track k) ts)" "length payload \<le> USIZE_MAX"
  shows "walk_loop n (loop_cfg k pt vft shared) payload visit (length pre) s =
     (Inr True, fold visit (map (slice_of pt vft) ts) s)"
  using assms
proof (induction ts arbitrary: n pre s)
  case (Cons t ts)
  then obtain m where n: "n = Suc m" by (cases n) auto
  let ?rest = "concat (map (encode_track k) ts)"
  have step: "walk_loop n (loop_cfg k pt vft shared) payload visit (length pre) s =
     (if ?rest = [] then (Inr True, visit (slice_of pt vft t) s)
      else walk_loop m (loop_cfg k pt vft shared) payload visit (length (pre @ encode_track k t)) (visit (slice_of pt vft t) s))"
    unfolding n using Cons.prems by (intro loop_encode_step) auto
  have "encode_track k t' \<noteq> []" for t' by (cases t') simp
  then have nil: "?rest = [] \<longleftrightarrow> ts = []" by (cases ts) (simp_all del: encode_track.simps)
  show ?case
  proof (cases "ts = []")
    case True
    then show ?thesis unfolding step nil by simp
  next
    case False
    then have "walk_loop m (loop_cfg k pt vft shared) payload visit (length (pre @ encode_track k t)) (visit (slice_of pt vft t) s)
       = (Inr True, fold visit (map (slice_of pt vft) ts) (visit (slice_of pt vft t) s))"
      using Cons.prems n by (intro Cons.IH) auto
    then show ?thesis unfolding step nil using False by simp
  qed
qed simp

lemma loop_decode:
  assumes "pos \<le> length payload" "length shared = 4" "length payload \<le> USIZE_MAX"
  shows "\<exists>ok s'. walk_loop n (loop_cfg k pt vft shared) payload visit pos s = (Inr ok, s') \<and>
     (ok \<longrightarrow> (\<exists>ts. list_all (wf_track k shared) ts \<and> ts \<noteq> [] \<and> length ts \<le> n \<and> (k = OneTrack \<longrightarrow> length ts = 1) \<and>
        drop pos payload = concat (map (encode_track k) ts)))"
  using assms(1)
proof (induction n arbitrary: pos s)
  case (Suc n)
  show ?case
  proof (cases "walk_loop (Suc n) (loop_cfg k pt vft shared) payload visit pos s = (Inr False, s)")
    case True
    then show ?thesis by blast
  next
    case False
    then obtain t where t: "wf_track k shared t" "pos + length (encode_track k t) \<le> length payload"
      "k = OneTrack \<longrightarrow> pos + length (encode_track k t) = length payload"
      "drop pos payload = encode_track k t @ drop (pos + length (encode_track k t)) payload"
      using loop_decode_step [OF Suc.prems assms(2), of n k pt vft visit s]
      by (elim disjE exE conjE) (simp only: simp_thms, rule that)
    let ?pos = "pos + length (encode_track k t)"
    let ?s = "visit (slice_of pt vft t) s"
    have "payload = take pos payload @ encode_track k t @ drop ?pos payload"
      using t(4) append_take_drop_id [of pos payload] by simp
    from loop_encode_step [OF t(1) this _ assms(3), of n pt vft visit s]
    have step: "walk_loop (Suc n) (loop_cfg k pt vft shared) payload visit pos s =
       (if drop ?pos payload = [] then (Inr True, ?s) else walk_loop n (loop_cfg k pt vft shared) payload visit ?pos ?s)"
      using t(3) Suc.prems by (simp add: min_absorb2)
    show ?thesis
    proof (cases "drop ?pos payload = []")
      case True
      with step t(1,4) show ?thesis
        by (intro exI [of _ True] exI [of _ ?s]) (auto intro!: exI [of _ "[t]"])
    next
      case False
      then have "k \<noteq> OneTrack" using t(3) by auto
      obtain ok s' where IH: "walk_loop n (loop_cfg k pt vft shared) payload visit ?pos ?s = (Inr ok, s')"
        "ok \<longrightarrow> (\<exists>ts. list_all (wf_track k shared) ts \<and> ts \<noteq> [] \<and> length ts \<le> n \<and> (k = OneTrack \<longrightarrow> length ts = 1) \<and>
          drop ?pos payload = concat (map (encode_track k) ts))"
        using Suc.IH [OF t(2), of ?s] by (elim exE conjE) (rule that)
      have "\<exists>ts. list_all (wf_track k shared) ts \<and> ts \<noteq> [] \<and> length ts \<le> Suc n \<and> (k = OneTrack \<longrightarrow> length ts = 1) \<and>
          drop pos payload = concat (map (encode_track k) ts)" if ok
      proof -
        from that IH(2) obtain ts where "list_all (wf_track k shared) ts" "length ts \<le> n"
          "drop ?pos payload = concat (map (encode_track k) ts)" by blast
        then show ?thesis using t(1,4) \<open>k \<noteq> OneTrack\<close> by (intro exI [of _ "t # ts"]) simp
      qed
      with step False IH(1) show ?thesis by (intro exI [of _ ok] exI [of _ s']) simp
    qed
  qed
qed (simp, blast)

lemma kind_nibbles:
  assumes "pt AND 0x0F = (pt :: u8)"
  shows "drop_bit 4 (push_bit 4 (av_multitrack_type_id k) OR pt) AND 0x0F = av_multitrack_type_id k"
    and "(push_bit 4 (av_multitrack_type_id k) OR pt) AND 0x0F = pt"
proof -
  have k: "av_multitrack_type_id k AND 0x0F = av_multitrack_type_id k" by (cases k) simp_all
  show "drop_bit 4 (push_bit 4 (av_multitrack_type_id k) OR pt) AND 0x0F = av_multitrack_type_id k"
    by (subst (1 2) k [symmetric], subst assms [symmetric], unfold mask_4) (rule bit_word_eqI, auto simp: bit_simps)
  show "(push_bit 4 (av_multitrack_type_id k) OR pt) AND 0x0F = pt"
    by (subst (1 2) assms [symmetric], unfold mask_4) (rule bit_word_eqI, auto simp: bit_simps)
qed

lemma kind_of_nibble:
  assumes "\<not> (2 :: u8) < n"
  obtains k where "av_multitrack_type_id k = n"
proof -
  have "unat n \<le> 2" using assms by (simp add: not_less word_le_nat_alt)
  then have "unat n = 0 \<or> unat n = 1 \<or> unat n = 2" by linarith
  then have "n = 0 \<or> n = 1 \<or> n = 2" by (auto simp: word_unat_eq_iff)
  then show thesis using that [of OneTrack] that [of ManyTracks] that [of ManyTracksManyCodecs] by auto
qed

lemma kind_id_eq [simp]: "av_multitrack_type_id k = av_multitrack_type_id k' \<longleftrightarrow> k = k'"
  by (cases k; cases k') simp_all

lemma kind_id_bound: "\<not> 2 < av_multitrack_type_id k"
  by (cases k) simp_all

lemma idx_front: "3 \<le> length xs \<Longrightarrow> idx xs 0 = Inr (xs ! 0)" "3 \<le> length xs \<Longrightarrow> idx xs 1 = Inr (xs ! 1)"
  by (rule idx_in, linarith)+

text \<open>The walk once the type nibble is known.\<close>

lemma walk_tracks_eq:
  assumes "is_multitrack_container ft payload" "3 \<le> length payload"
    and "payload ! 1 = push_bit 4 (av_multitrack_type_id k) OR pt" "pt AND 0x0F = pt"
  shows "walk_tracks ft payload visit s =
     (let vft = (if ft = FVideo then drop_bit 4 (payload ! 0) AND 0x07 else 0) in
      case (if k = ManyTracksManyCodecs then Some (replicate 4 0, 2)
            else map_option (\<lambda>cc. (cc, 2 + 4)) (read_fourcc payload 2)) of
        None \<Rightarrow> (Inr False, s)
      | Some (shared, pos) \<Rightarrow>
          walk_loop MAX_MULTITRACK_SUBTRACKS (loop_cfg k pt vft shared) payload visit pos s)"
proof -
  note i = idx_front [OF assms(2)]
  show ?thesis
    unfolding walk_tracks_def bindS_apply liftS_apply i sum.case prod.case assms(3) kind_nibbles [OF assms(4)] Let_def kind_id_eq
    using assms(1,2) by (auto simp: kind_id_bound bindS_apply i assms(3) kind_nibbles [OF assms(4)] split: option.splits)
qed

lemma walk_encode:
  assumes "wf_container c" "is_multitrack_container ft (encode_container c)" "length (encode_container c) \<le> USIZE_MAX"
  shows "walk_tracks ft (encode_container c) visit s = (Inr True, fold visit (track_slices ft c) s)"
proof -
  let ?k = "mc_kind c" let ?p = "encode_container c" let ?ts = "mc_tracks c"
  let ?pre = "[mc_first c, push_bit 4 (av_multitrack_type_id ?k) OR mc_packet_type c]"
  let ?tail = "concat (map (encode_track ?k) ?ts)"
  let ?vft = "if ft = FVideo then drop_bit 4 (mc_first c) AND 0x07 else 0"
  let ?sh = "if ?k = ManyTracksManyCodecs then [] else mc_shared c"
  have wf: "mc_packet_type c AND 0x0F = mc_packet_type c" "length (mc_shared c) = 4"
    "list_all (wf_track ?k (mc_shared c)) ?ts" "?ts \<noteq> []" "length ?ts \<le> MAX_MULTITRACK_SUBTRACKS"
    "?k = OneTrack \<Longrightarrow> length ?ts = 1"
    using assms(1) by (auto simp: wf_container_def)
  have p: "?p = ?pre @ ?sh @ ?tail" by (simp add: encode_container_def)
  obtain t ts where ts: "?ts = t # ts" using wf(4) by (cases ?ts) auto
  have "encode_track ?k t \<noteq> []" by (cases t) simp
  then have len: "3 \<le> length ?p" by (cases "encode_track ?k t") (simp_all add: p ts)
  have nth: "?p ! 0 = mc_first c" "?p ! 1 = push_bit 4 (av_multitrack_type_id ?k) OR mc_packet_type c"
    by (simp_all add: p)
  have eq: "walk_loop MAX_MULTITRACK_SUBTRACKS (loop_cfg ?k (mc_packet_type c) ?vft sh) ?p visit (length (?pre @ ?sh)) s =
     (Inr True, fold visit (map (slice_of (mc_packet_type c) ?vft) ?ts) s)"
    if "list_all (wf_track ?k sh) ?ts" for sh
    using wf that assms(3) p by (intro loop_encode) auto
  have pos: "length (?pre @ ?sh) = (if ?k = ManyTracksManyCodecs then 2 else 6)" using wf(2) by simp
  have slices: "map (slice_of (mc_packet_type c) ?vft) ?ts = track_slices ft c"
    by (simp add: track_slices_def split_def)
  show ?thesis
  proof (cases "?k = ManyTracksManyCodecs")
    case True
    then have "list_all (wf_track ?k (replicate 4 0)) ?ts" using wf(3) by (auto simp: list_all_iff)
    from eq [OF this, unfolded pos] show ?thesis
      unfolding walk_tracks_eq [OF assms(2) len nth(2) wf(1)] slices using True by (auto simp: nth(1))
  next
    case False
    have "read_fourcc ?p 2 = Some (mc_shared c)"
      using read_fourcc_append [OF wf(2), of ?pre ?tail] False p assms(3) by (simp add: numeral_2_eq_2)
    with eq [OF wf(3), unfolded pos] False show ?thesis
      unfolding walk_tracks_eq [OF assms(2) len nth(2) wf(1)] slices by (auto simp: nth(1))
  qed
qed

lemma walk_decode:
  assumes "length payload \<le> USIZE_MAX"
  shows "\<exists>ok s'. walk_tracks ft payload visit s = (Inr ok, s') \<and>
     (ok \<longrightarrow> is_multitrack_container ft payload \<and> (\<exists>c. wf_container c \<and> payload = encode_container c))"
proof (cases "is_multitrack_container ft payload \<and> 3 \<le> length payload \<and> \<not> 2 < drop_bit 4 (payload ! 1) AND (0x0F :: u8)")
  case False
  then have "walk_tracks ft payload visit s = (Inr False, s)"
    by (cases "length payload < 3") (auto simp: walk_tracks_def op_simps Let_def idx_front)
  then show ?thesis by blast
next
  case True
  then obtain k where k: "av_multitrack_type_id k = drop_bit 4 (payload ! 1) AND 0x0F"
    using kind_of_nibble by metis
  let ?pt = "payload ! 1 AND 0x0F"
  have pt: "?pt AND 0x0F = ?pt" by (simp add: and.assoc)
  have b1: "payload ! 1 = push_bit 4 (av_multitrack_type_id k) OR ?pt"
    unfolding k u8_nibble_split by (rule rejoin_nibbles [symmetric])
  note eq = walk_tracks_eq [OF _ _ b1 pt, of ft visit s]
  let ?vft = "if ft = FVideo then drop_bit 4 (payload ! 0) AND 0x07 else 0"
  let ?r = "if k = ManyTracksManyCodecs then Some (replicate 4 0, 2 :: nat) else map_option (\<lambda>cc. (cc, 2 + 4)) (read_fourcc payload 2)"
  show ?thesis
  proof (cases ?r)
    case None
    then have "walk_tracks ft payload visit s = (Inr False, s)" using True by (subst eq) (simp_all only: Let_def option.case)
    then show ?thesis by blast
  next
    case (Some r)
    then obtain sh pos where r: "?r = Some (sh, pos)" by (cases r) auto
    let ?sh = "if k = ManyTracksManyCodecs then [] else sh"
    have sh: "length sh = 4" "pos \<le> length payload" "drop 2 payload = ?sh @ drop pos payload"
      using r True read_fourcc_decode [of payload 2] by (auto split: if_splits)
    have run: "walk_tracks ft payload visit s =
        walk_loop MAX_MULTITRACK_SUBTRACKS (loop_cfg k ?pt ?vft sh) payload visit pos s"
      using True r by (subst eq) (simp_all only: Let_def option.case prod.case)
    obtain ok s' where ok: "walk_loop MAX_MULTITRACK_SUBTRACKS (loop_cfg k ?pt ?vft sh) payload visit pos s = (Inr ok, s')"
      "ok \<longrightarrow> (\<exists>ts. list_all (wf_track k sh) ts \<and> ts \<noteq> [] \<and> length ts \<le> MAX_MULTITRACK_SUBTRACKS \<and>
        (k = OneTrack \<longrightarrow> length ts = 1) \<and> drop pos payload = concat (map (encode_track k) ts))"
      using loop_decode [OF sh(2,1) assms, of MAX_MULTITRACK_SUBTRACKS k ?pt ?vft visit s] by (elim exE conjE) (rule that)
    have "\<exists>c. wf_container c \<and> payload = encode_container c" if ok
    proof -
      from ok(2) that obtain ts where ts: "list_all (wf_track k sh) ts" "ts \<noteq> []" "length ts \<le> MAX_MULTITRACK_SUBTRACKS"
        "k = OneTrack \<longrightarrow> length ts = 1" "drop pos payload = concat (map (encode_track k) ts)" by auto
      let ?c = "\<lparr>mc_first = payload ! 0, mc_kind = k, mc_packet_type = ?pt, mc_shared = sh, mc_tracks = ts\<rparr>"
      have "payload = payload ! 0 # payload ! 1 # drop 2 payload"
        using True by (cases payload; cases "tl payload") auto
      moreover have "encode_container ?c = payload ! 0 # payload ! 1 # drop 2 payload"
        unfolding encode_container_def container.simps b1 [symmetric] sh(3) ts(5) [symmetric] by (simp only: append_Cons append_Nil)
      ultimately have "payload = encode_container ?c" by (rule trans [OF _ sym])
      moreover have "wf_container ?c" using ts sh(1) pt by (simp add: wf_container_def)
      ultimately show ?thesis by blast
    qed
    with ok(1) run True show ?thesis by (intro exI [of _ ok] exI [of _ s']) simp
  qed
qed

section \<open>Visiting\<close>

lemma foreach_encode:
  assumes "wf_container c" "is_multitrack_container ft (encode_container c)" "length (encode_container c) \<le> USIZE_MAX"
  shows "foreach_track ft (encode_container c) visit s = (Inr True, fold visit (track_slices ft c) s)"
proof -
  have "fold (\<lambda>_ s. s) ts s = s" for ts :: "media_track_slice list" by (induction ts) simp_all
  then show ?thesis
    using walk_encode [OF assms, of "\<lambda>_ s. s" s] walk_encode [OF assms, of visit s] by (simp add: foreach_track_def)
qed

text \<open>Operations that leave the state alone; the validating pass of \<open>foreach_track\<close> is one.\<close>

definition idle :: "('s, 'a) op \<Rightarrow> bool" where
  "idle m \<longleftrightarrow> (\<forall>s r s'. m s = (r, s') \<longrightarrow> s' = s)"

lemma idle_intros:
  "idle (retS x)" "idle (liftS r)" "idle (modS (\<lambda>s. s))"
  "idle m1 \<Longrightarrow> (\<And>x. idle (f1 x)) \<Longrightarrow> idle (bindS m1 f1)" "idle m2 \<Longrightarrow> idle m3 \<Longrightarrow> idle (thenS m2 m3)"
  "(c \<Longrightarrow> idle m4) \<Longrightarrow> (\<not> c \<Longrightarrow> idle m5) \<Longrightarrow> idle (if c then m4 else m5)"
  "idle m6 \<Longrightarrow> (\<And>x. idle (f2 x)) \<Longrightarrow> idle (case_option m6 f2 opt)" "(\<And>a b. idle (g a b)) \<Longrightarrow> idle (case_prod g p)"
  by (fastforce simp: idle_def bindS_def thenS_def split: prod.splits sum.splits option.splits if_splits)+

lemma walk_idle: "idle (walk_tracks ft payload (\<lambda>_ s. s))"
proof -
  have "idle (walk_loop n cfg payload (\<lambda>_ s. s) pos)" for n cfg pos
  proof (induction n arbitrary: pos)
    case (Suc n)
    then show ?case unfolding walk_loop.simps by (intro idle_intros)
  qed (simp add: idle_intros)
  then show ?thesis unfolding walk_tracks_def Let_def by (intro idle_intros)
qed

lemma foreach_other:
  assumes "length payload \<le> USIZE_MAX"
    and "\<nexists>c. wf_container c \<and> payload = encode_container c \<and> is_multitrack_container ft payload"
  shows "foreach_track ft payload visit s = (Inr False, s)"
proof -
  obtain ok s' where w: "walk_tracks ft payload (\<lambda>_ s. s) s = (Inr ok, s')"
    "ok \<longrightarrow> is_multitrack_container ft payload \<and> (\<exists>c. wf_container c \<and> payload = encode_container c)"
    using walk_decode [OF assms(1), of ft "\<lambda>_ s. s" s] by (elim exE conjE) (rule that)
  have "\<not> ok" using w(2) assms(2) by blast
  moreover have "s' = s" by (rule walk_idle [of ft payload, unfolded idle_def, rule_format, OF w(1)])
  ultimately show ?thesis using w(1) by (simp add: foreach_track_def)
qed

section \<open>Properties\<close>

text \<open>C31: visiting the tracks of a multitrack container is exact and all-or-nothing. On every payload the walk ends
  without a panic. If the payload is the encoding of a container with between one and 4096 tracks (one track, many tracks of
  one codec, or many tracks each with its own FourCC, sizes below 2 to the 24), the visitor is run on every track in order
  with its id, FourCC, packet type and exactly its body, and the call returns true. On any other payload it returns false and
  the visitor has not run at all.\<close>

theorem multitrack_visit_exact:
  assumes "length payload \<le> USIZE_MAX"
  shows "\<exists>ok s'. foreach_track ft payload visit s = (Inr ok, s') \<and>
     (\<forall>c. wf_container c \<and> payload = encode_container c \<and> is_multitrack_container ft payload \<longrightarrow>
        ok \<and> s' = fold visit (track_slices ft c) s) \<and>
     ((\<nexists>c. wf_container c \<and> payload = encode_container c \<and> is_multitrack_container ft payload) \<longrightarrow> \<not> ok \<and> s' = s)"
proof (cases "\<exists>c. wf_container c \<and> payload = encode_container c \<and> is_multitrack_container ft payload")
  case True
  have run: "foreach_track ft payload visit s = (Inr True, fold visit (track_slices ft c) s)"
    if "wf_container c \<and> payload = encode_container c \<and> is_multitrack_container ft payload" for c
    using that assms foreach_encode [of c ft visit s] by blast
  from True obtain c0 where c0: "wf_container c0 \<and> payload = encode_container c0 \<and> is_multitrack_container ft payload" by blast
  have "fold visit (track_slices ft c0) s = fold visit (track_slices ft c) s"
    if "wf_container c \<and> payload = encode_container c \<and> is_multitrack_container ft payload" for c
    using run [OF that] run [OF c0] by (simp only: prod.inject)
  with run [OF c0] True show ?thesis
    by (intro exI [of _ True] exI [of _ "fold visit (track_slices ft c0) s"] conjI) (assumption, blast, blast)
next
  case False
  from foreach_other [OF assms False, of visit s] False show ?thesis
    by (intro exI [of _ False] exI [of _ s] conjI) (assumption, blast, blast)
qed

lemma multitrack_visit_exact_witness:
  "\<exists>ok s'. foreach_track FVideo [0x96, 0x21, 0x61, 0x76, 0x63, 0x31, 1, 0, 0, 2, 7, 8, 0x68, 0x76, 0x63, 0x31, 2, 0, 0, 0]
       (\<lambda>t ts. t # ts) [] = (Inr ok, s') \<and> ok \<and> map ts_payload s' = [[], [7, 8]]"
proof -
  let ?c = "\<lparr>mc_first = 0x96, mc_kind = ManyTracksManyCodecs, mc_packet_type = 1, mc_shared = [0, 0, 0, 0],
     mc_tracks = [(ascii ''avc1'', 1, [7, 8]), (ascii ''hvc1'', 2, [])]\<rparr>"
  let ?p = "[0x96, 0x21, 0x61, 0x76, 0x63, 0x31, 1, 0, 0, 2, 7, 8, 0x68, 0x76, 0x63, 0x31, 2, 0, 0, 0] :: bytes"
  have len: "length ?p \<le> USIZE_MAX" by (simp add: USIZE_MAX_def)
  have c: "wf_container ?c \<and> ?p = encode_container ?c \<and> is_multitrack_container FVideo ?p"
    by (simp add: wf_container_def MAX_MULTITRACK_SUBTRACKS_def encode_container_def be24_def
        is_multitrack_container_def VIDEO_FRAME_TYPE_COMMAND_def ERTMP_VIDEO_PACKET_TYPE_MULTITRACK_def)
  obtain ok s' where run: "foreach_track FVideo ?p (\<lambda>t ts. t # ts) [] = (Inr ok, s')"
    "\<forall>c. wf_container c \<and> ?p = encode_container c \<and> is_multitrack_container FVideo ?p \<longrightarrow>
       ok \<and> s' = fold (\<lambda>t ts. t # ts) (track_slices FVideo c) []"
    using multitrack_visit_exact [OF len, of FVideo "\<lambda>t ts. t # ts" "[]"] by (elim exE conjE) (rule that)
  from run(2) [rule_format, OF c] have "ok" "s' = fold (\<lambda>t ts. t # ts) (track_slices FVideo ?c) []" by blast+
  moreover have "map ts_payload (fold (\<lambda>t ts. t # ts) (track_slices FVideo ?c) []) = [[], [7, 8]]"
    by (simp add: track_slices_def)
  ultimately show ?thesis using run(1) by (intro exI [of _ ok] exI [of _ s'] conjI) simp_all
qed

end
