(* ===== verification/Codec_Config.thy ===== *)
theory Codec_Config
  imports Multitrack_Media
begin

text \<open>
  Structural validation of codec configuration records (\<open>src/src/media/codec_config.rs\<close>). The closure \<open>read_bits\<close>
  that captures \<open>bit_pos\<close> is an operation on that variable. A \<open>for\<close> loop over a count recurses on the count.

  The grammar of the records is written with \<open>param_sets\<close>; the lemmas show that the loops accept exactly the
  sequences of parameter sets of the grammar.
\<close>

section \<open>Definitions\<close>

datatype config_codec = CfgAvc | CfgHevc | CfgOpaque

definition config_codec_from_fourcc :: "bytes \<Rightarrow> config_codec" where
  "config_codec_from_fourcc fourcc =
     (if get_range fourcc 0 4 = Some (ascii ''avc1'') then CfgAvc
      else if get_range fourcc 0 4 = Some (ascii ''hvc1'') then CfgHevc else CfgOpaque)"

primrec read_bits_loop :: "bytes \<Rightarrow> nat \<Rightarrow> u32 \<Rightarrow> (nat, u32) op" where
  "read_bits_loop record 0 v = retS v"
| "read_bits_loop record (Suc n) v =
     bindS (getS id) (\<lambda>bit_pos. bindS (liftS (idx record (bit_pos div 8))) (\<lambda>byte.
       thenS (modS (\<lambda>p. p + 1))
         (read_bits_loop record n (push_bit 1 v OR ucast (drop_bit (7 - bit_pos mod 8) byte AND 1)))))"

definition read_bits :: "bytes \<Rightarrow> nat \<Rightarrow> (nat, u32 option) op" where
  "read_bits record count =
     bindS (getS id) (\<lambda>bit_pos.
       if bit_pos + count > length record * 8 then retS None
       else bindS (read_bits_loop record count 0) (\<lambda>v. retS (Some v)))"

definition validate_aac_config :: "bytes \<Rightarrow> bool result" where
  "validate_aac_config record = fst (
     (bindS (read_bits record 5) (\<lambda>r. case r of None \<Rightarrow> retS False | Some audio_object_type \<Rightarrow>
        if audio_object_type = 0 then retS False
        else bindS (if audio_object_type = 31 then read_bits record 6 else retS (Some 0)) (\<lambda>r. case r of None \<Rightarrow> retS False | Some _ \<Rightarrow>
        bindS (read_bits record 4) (\<lambda>r. case r of None \<Rightarrow> retS False | Some frequency_index \<Rightarrow>
          if frequency_index = 13 \<or> frequency_index = 14 then retS False
          else bindS (if frequency_index = 15 then read_bits record 24 else retS (Some 0)) (\<lambda>r. case r of None \<Rightarrow> retS False | Some _ \<Rightarrow>
            bindS (read_bits record 4) (\<lambda>r. retS (r \<noteq> None))))))) 0)"

definition skip_param_set :: "bytes \<Rightarrow> nat \<Rightarrow> nat option" where
  "skip_param_set record pos =
     Option.bind (checked_add pos 2) (\<lambda>len_end.
     Option.bind (get_opt record pos) (\<lambda>hi. Option.bind (get_opt record (pos + 1)) (\<lambda>lo.
       let len = unat (u16_be hi lo) in
       if len = 0 then None
       else Option.bind (checked_add len_end len) (\<lambda>fin. if fin \<le> length record then Some fin else None))))"

text \<open>\<open>for _ in 0..n\<close> over \<open>skip_param_set\<close>.\<close>

primrec skip_param_sets :: "nat \<Rightarrow> bytes \<Rightarrow> nat \<Rightarrow> nat option" where
  "skip_param_sets 0 record pos = Some pos"
| "skip_param_sets (Suc n) record pos = Option.bind (skip_param_set record pos) (skip_param_sets n record)"

definition validate_avc_extension :: "bytes \<Rightarrow> bool" where
  "validate_avc_extension ext =
     (if ext = [] then True
      else case get_opt ext 3 of
        None \<Rightarrow> False
      | Some num_sps_ext \<Rightarrow> (case skip_param_sets (unat num_sps_ext) ext 4 of None \<Rightarrow> False | Some _ \<Rightarrow> True))"

definition validate_avc_record :: "bytes \<Rightarrow> bool result" where
  "validate_avc_record record =
     (if length record < 7 then Inr False
      else bindR (idx record 0) (\<lambda>version.
        if version \<noteq> 1 then Inr False
        else bindR (idx record 5) (\<lambda>b5.
          let num_sps = unat (b5 AND 0x1F) in
          if num_sps = 0 then Inr False
          else case skip_param_sets num_sps record 6 of
            None \<Rightarrow> Inr False
          | Some pos \<Rightarrow> (case get_opt record pos of
              None \<Rightarrow> Inr False
            | Some num_pps \<Rightarrow>
                if num_pps = 0 then Inr False
                else case skip_param_sets (unat num_pps) record (pos + 1) of
                  None \<Rightarrow> Inr False
                | Some pos \<Rightarrow> bindR (subslice record pos (length record)) (\<lambda>ext. Inr (validate_avc_extension ext))))))"

definition HEVC_NAL_SPS :: u8 where "HEVC_NAL_SPS = 33"
definition HEVC_NAL_PPS :: u8 where "HEVC_NAL_PPS = 34"

text \<open>The inner loop of \<open>validate_hevc_record\<close>: every NAL unit of an array, counting SPS and PPS.\<close>

primrec hevc_nalus :: "nat \<Rightarrow> bytes \<Rightarrow> u8 \<Rightarrow> nat \<times> nat \<times> nat \<Rightarrow> (nat \<times> nat \<times> nat) option" where
  "hevc_nalus 0 record nal_type st = Some st"
| "hevc_nalus (Suc n) record nal_type st =
     (case st of (pos, sps, pps) \<Rightarrow>
      Option.bind (skip_param_set record pos) (\<lambda>pos.
        hevc_nalus n record nal_type
          (pos, if nal_type = HEVC_NAL_SPS then sps + 1 else sps,
           if nal_type \<noteq> HEVC_NAL_SPS \<and> nal_type = HEVC_NAL_PPS then pps + 1 else pps)))"

primrec hevc_arrays :: "nat \<Rightarrow> bytes \<Rightarrow> nat \<times> nat \<times> nat \<Rightarrow> (nat \<times> nat \<times> nat) option" where
  "hevc_arrays 0 record st = Some st"
| "hevc_arrays (Suc n) record st =
     (case st of (pos, sps, pps) \<Rightarrow>
      (case (get_opt record pos, get_opt record (pos + 1), get_opt record (pos + 2)) of
         (Some hdr, Some hi, Some lo) \<Rightarrow>
           Option.bind (hevc_nalus (unat (u16_be hi lo)) record (hdr AND 0x3F) (pos + 3, sps, pps))
             (hevc_arrays n record)
       | _ \<Rightarrow> None))"

definition HEVC_FIXED_HEADER :: nat where "HEVC_FIXED_HEADER = 22"

definition validate_hevc_record :: "bytes \<Rightarrow> bool result" where
  "validate_hevc_record record =
     (if length record \<le> HEVC_FIXED_HEADER then Inr False
      else bindR (idx record 0) (\<lambda>version.
        if version \<noteq> 1 then Inr False
        else bindR (idx record HEVC_FIXED_HEADER) (\<lambda>num_arrays.
          Inr (case hevc_arrays (unat num_arrays) record (HEVC_FIXED_HEADER + 1, 0, 0) of
                 None \<Rightarrow> False
               | Some (pos, sps, pps) \<Rightarrow> sps > 0 \<and> pps > 0))))"

fun validate_config_record :: "config_codec \<Rightarrow> bytes \<Rightarrow> bool result" where
  "validate_config_record CfgAvc record = validate_avc_record record"
| "validate_config_record CfgHevc record = validate_hevc_record record"
| "validate_config_record CfgOpaque record = Inr (record \<noteq> [])"

section \<open>The grammar of the records\<close>

definition param_set :: "bytes \<Rightarrow> bytes" where
  "param_set s = be16 (of_nat (length s)) @ s"

definition param_sets :: "bytes list \<Rightarrow> bytes" where
  "param_sets ss = concat (map param_set ss)"

definition wf_set :: "bytes \<Rightarrow> bool" where
  "wf_set s \<longleftrightarrow> s \<noteq> [] \<and> length s < 2 ^ 16"

definition avc_ext_grammar :: "bytes \<Rightarrow> bool" where
  "avc_ext_grammar ext \<longleftrightarrow> ext = [] \<or>
     (\<exists>a b c n ss rest. ext = [a, b, c, n] @ param_sets ss @ rest \<and> list_all wf_set ss \<and> length ss = unat n)"

definition avc_grammar :: "bytes \<Rightarrow> bool" where
  "avc_grammar record \<longleftrightarrow>
     (\<exists>p1 p2 p3 p4 nsps sps npps pps ext.
        record = [1, p1, p2, p3, p4, nsps] @ param_sets sps @ [npps] @ param_sets pps @ ext \<and>
        list_all wf_set (sps @ pps) \<and> length sps = unat (nsps AND 0x1F) \<and> length pps = unat npps \<and>
        sps \<noteq> [] \<and> pps \<noteq> [] \<and> avc_ext_grammar ext)"

type_synonym nal_array = "u8 \<times> bytes list"

fun encode_array :: "nal_array \<Rightarrow> bytes" where
  "encode_array (hdr, ss) = [hdr] @ be16 (of_nat (length ss)) @ param_sets ss"

fun wf_array :: "nal_array \<Rightarrow> bool" where
  "wf_array (hdr, ss) \<longleftrightarrow> list_all wf_set ss \<and> length ss < 2 ^ 16"

definition has_nal :: "u8 \<Rightarrow> nal_array list \<Rightarrow> bool" where
  "has_nal ty as \<longleftrightarrow> (\<exists>(hdr, ss) \<in> set as. hdr AND 0x3F = ty \<and> ss \<noteq> [])"

definition hevc_grammar :: "bytes \<Rightarrow> bool" where
  "hevc_grammar record \<longleftrightarrow>
     (\<exists>fixed n as rest.
        record = [1] @ fixed @ [n] @ concat (map encode_array as) @ rest \<and> length fixed = 21 \<and> length as = unat n \<and>
        list_all wf_array as \<and> has_nal HEVC_NAL_SPS as \<and> has_nal HEVC_NAL_PPS as)"

text \<open>The value of \<open>n\<close> bits from bit \<open>i\<close> on, most significant bit first.\<close>

definition record_bit :: "bytes \<Rightarrow> nat \<Rightarrow> bool" where
  "record_bit record i \<longleftrightarrow> bit (record ! (i div 8)) (7 - i mod 8)"

definition bits_value :: "bytes \<Rightarrow> nat \<Rightarrow> nat \<Rightarrow> u32" where
  "bits_value record i n = foldl (\<lambda>v j. push_bit 1 v OR of_bool (record_bit record j)) 0 [i..<i + n]"

definition aac_grammar :: "bytes \<Rightarrow> bool" where
  "aac_grammar record =
     (let aot = bits_value record 0 5; p = (if aot = 31 then 11 else 5); fi = bits_value record p 4;
          q = (if fi = 15 then p + 28 else p + 4) in
      q + 4 \<le> 8 * length record \<and> aot \<noteq> 0 \<and> fi \<noteq> 13 \<and> fi \<noteq> 14)"

section \<open>Bits\<close>

lemma bit_extract: "ucast (drop_bit k (b :: u8) AND 1) = (of_bool (bit b k) :: u32)"
  by (simp add: and_one_eq bit_iff_odd_drop_bit mod_2_eq_odd)

lemma read_bits_loop_eq:
  "pos + n \<le> 8 * length record \<Longrightarrow> read_bits_loop record n v pos =
     (Inr (foldl (\<lambda>v j. push_bit 1 v OR of_bool (record_bit record j)) v [pos..<pos + n]), pos + n)"
proof (induction n arbitrary: v pos)
  case (Suc n)
  then have "pos div 8 < length record" by linarith
  then have "read_bits_loop record (Suc n) v pos =
      read_bits_loop record n (push_bit 1 v OR of_bool (record_bit record pos)) (pos + 1)"
    by (simp add: op_simps bit_extract record_bit_def)
  also have "\<dots> = (Inr (foldl (\<lambda>v j. push_bit 1 v OR of_bool (record_bit record j))
      (push_bit 1 v OR of_bool (record_bit record pos)) [pos + 1..<pos + 1 + n]), pos + 1 + n)"
    using Suc.prems by (intro Suc.IH) simp
  finally have "read_bits_loop record (Suc n) v pos = \<dots>" .
  moreover have "[pos..<pos + Suc n] = pos # [pos + 1..<pos + 1 + n]" "pos + Suc n = pos + 1 + n"
    by (simp_all add: upt_rec [of pos] del: upt_Suc)
  ultimately show ?case by (simp only: foldl.simps)
qed simp

lemma read_bits_eq:
  "read_bits record n pos =
     (if pos + n > 8 * length record then (Inr None, pos) else (Inr (Some (bits_value record pos n)), pos + n))"
  by (simp add: read_bits_def op_simps read_bits_loop_eq bits_value_def mult.commute)

lemma validate_aac_exact: "validate_aac_config record = Inr (aac_grammar record)"
proof -
  let ?aot = "bits_value record 0 5"
  let ?p = "if ?aot = 31 then 11 else 5 :: nat"
  let ?fi = "bits_value record ?p 4"
  show ?thesis
  proof (cases "?p + 4 \<le> 8 * length record")
    case False
    then show ?thesis
      by (auto simp: validate_aac_config_def bindS_apply read_bits_eq aac_grammar_def Let_def not_le split: if_splits)
  next
    case True
    then have "5 \<le> 8 * length record" by (simp split: if_splits)
    with True show ?thesis
      by (cases "?aot = 31"; cases "?fi = 15")
        (simp_all add: validate_aac_config_def bindS_apply read_bits_eq aac_grammar_def Let_def not_less)
  qed
qed

section \<open>Parameter sets\<close>

lemma skip_encode:
  assumes "wf_set s" "length (pre @ param_set s @ rest) \<le> USIZE_MAX"
  shows "skip_param_set (pre @ param_set s @ rest) (length pre) = Some (length pre + length (param_set s))"
proof -
  have u: "unat (of_nat (length s) :: u16) = length s" "length s \<noteq> 0"
    using assms(1) by (simp_all add: wf_set_def unat_of_nat_small)
  let ?w = "of_nat (length s) :: u16"
  have g: "get_opt (pre @ param_set s @ rest) (length pre) = Some (ucast (drop_bit 8 ?w))"
    "get_opt (pre @ param_set s @ rest) (length pre + 1) = Some (ucast ?w)"
    by (simp_all add: param_set_def be16_def get_opt_def nth_append)
  have c: "checked_add (length pre) 2 = Some (length pre + 2)"
    "checked_add (length pre + 2) (length s) = Some (length pre + 2 + length s)"
    using assms(2) by (simp_all add: checked_add_def param_set_def)
  show ?thesis
    unfolding skip_param_set_def c(1) g Option.bind.simps u16_be_be16 Let_def u(1) c(2)
    using u(2) by (simp add: param_set_def)
qed

lemma skip_decode:
  assumes "skip_param_set record pos = Some fin"
  shows "\<exists>s. wf_set s \<and> drop pos record = param_set s @ drop fin record \<and> fin = pos + length (param_set s) \<and>
     fin \<le> length record"
proof -
  obtain hi lo where g: "get_opt record pos = Some hi" "get_opt record (pos + 1) = Some lo"
    using assms by (auto simp: skip_param_set_def bind_eq_Some_conv)
  let ?n = "unat (u16_be hi lo)"
  have n: "?n \<noteq> 0" "fin = pos + 2 + ?n" "fin \<le> length record"
    using assms unfolding skip_param_set_def g by (auto simp: bind_eq_Some_conv checked_add_def Let_def split: if_splits)
  let ?s = "take ?n (drop (pos + 2) record)"
  have len: "length ?s = ?n" using n by simp
  have "hi = record ! pos" "lo = record ! (pos + 1)"
    using g by (auto simp: get_opt_def split: if_splits)
  then have "drop pos record = hi # lo # drop (pos + 2) record"
    using n by (simp add: Cons_nth_drop_Suc)
  moreover have "drop (pos + 2) record = ?s @ drop fin record"
    unfolding n(2) by (metis append_take_drop_id drop_drop add.commute)
  moreover have "param_set ?s = hi # lo # ?s"
    unfolding param_set_def len by (simp add: be_simps)
  moreover have "wf_set ?s"
    unfolding wf_set_def using len n(1) unsigned_less [of "u16_be hi lo"] by auto
  moreover have "fin = pos + length (param_set ?s)" using calculation(3) len n(2) by simp
  ultimately show ?thesis using n(3) by (intro exI [of _ ?s] conjI) simp_all
qed

lemma param_sets_simps [simp]: "param_sets [] = []" "param_sets (s # ss) = param_set s @ param_sets ss"
  by (simp_all add: param_sets_def)

lemma sets_encode:
  assumes "list_all wf_set ss" "length (pre @ param_sets ss @ rest) \<le> USIZE_MAX"
  shows "skip_param_sets (length ss) (pre @ param_sets ss @ rest) (length pre) = Some (length pre + length (param_sets ss))"
  using assms
proof (induction ss arbitrary: pre)
  case (Cons s ss)
  have "skip_param_set (pre @ param_set s @ param_sets ss @ rest) (length pre) = Some (length (pre @ param_set s))"
    using Cons.prems skip_encode [of s pre "param_sets ss @ rest"] by simp
  then show ?case using Cons.IH [of "pre @ param_set s"] Cons.prems by simp
qed simp

lemma sets_encode_at:
  assumes "record = pre @ param_sets ss @ rest" "k = length pre" "n = length ss" "list_all wf_set ss" "length record \<le> USIZE_MAX"
  shows "skip_param_sets n record k = Some (k + length (param_sets ss))"
  using sets_encode [of ss pre rest] assms by simp

lemma sets_decode:
  assumes "skip_param_sets n record pos = Some fin" "pos \<le> length record"
  shows "\<exists>ss. length ss = n \<and> list_all wf_set ss \<and> drop pos record = param_sets ss @ drop fin record \<and>
     fin = pos + length (param_sets ss) \<and> fin \<le> length record"
  using assms
proof (induction n arbitrary: pos)
  case (Suc n)
  then obtain mid where mid: "skip_param_set record pos = Some mid" "skip_param_sets n record mid = Some fin"
    by (auto simp: bind_eq_Some_conv)
  obtain s where s: "wf_set s" "drop pos record = param_set s @ drop mid record" "mid = pos + length (param_set s)"
    "mid \<le> length record" using skip_decode [OF mid(1)] by blast
  obtain ss where "length ss = n" "list_all wf_set ss" "drop mid record = param_sets ss @ drop fin record"
    "fin = mid + length (param_sets ss)" "fin \<le> length record" using Suc.IH [OF mid(2) s(4)] by blast
  with s show ?case by (intro exI [of _ "s # ss"]) simp
qed simp

text \<open>The record from a position on, as seen by a decoder.\<close>

lemma get_opt_decode: "get_opt xs i = Some x \<Longrightarrow> i < length xs \<and> drop i xs = x # drop (i + 1) xs"
  by (auto simp: get_opt_def Cons_nth_drop_Suc split: if_splits)

section \<open>AVC\<close>

lemma subslice_from: "pos \<le> length xs \<Longrightarrow> subslice xs pos (length xs) = Inr (drop pos xs)"
  by (simp add: subslice_def)

lemma subslice_rest: "xs = pre @ rest \<Longrightarrow> k = length pre \<Longrightarrow> subslice xs k (length xs) = Inr rest"
  by (simp add: subslice_def)

lemma avc_ext_exact:
  assumes "length ext \<le> USIZE_MAX"
  shows "validate_avc_extension ext = avc_ext_grammar ext"
proof (cases "ext = []")
  case False
  show ?thesis
  proof
    assume "validate_avc_extension ext"
    with False obtain n fin where n: "get_opt ext 3 = Some n" "skip_param_sets (unat n) ext 4 = Some fin"
      by (auto simp: validate_avc_extension_def split: option.splits)
    have len: "3 < length ext" and d3: "drop 3 ext = n # drop 4 ext" using get_opt_decode [OF n(1)] by auto
    obtain ss where ss: "length ss = unat n" "list_all wf_set ss" "drop 4 ext = param_sets ss @ drop fin ext"
      using sets_decode [OF n(2)] len by auto
    have "ext = take 3 ext @ drop 3 ext" by simp
    also have "take 3 ext = [ext ! 0, ext ! 1, ext ! 2]"
      using len by (auto simp: numeral_eq_Suc Suc_le_length_iff less_eq_Suc_le)
    finally have "ext = [ext ! 0, ext ! 1, ext ! 2, n] @ param_sets ss @ drop fin ext" using d3 ss(3) by simp
    with ss(1,2) show "avc_ext_grammar ext" unfolding avc_ext_grammar_def by blast
  next
    assume "avc_ext_grammar ext"
    with False obtain a b c n ss rest where e: "ext = [a, b, c, n] @ param_sets ss @ rest" "list_all wf_set ss" "length ss = unat n"
      unfolding avc_ext_grammar_def by blast
    have "skip_param_sets (unat n) ext 4 = Some (4 + length (param_sets ss))"
      using assms e by (intro sets_encode_at [of _ "[a, b, c, n]" _ rest]) simp_all
    then show "validate_avc_extension ext" by (simp add: validate_avc_extension_def e(1) get_opt_def)
  qed
qed (simp add: validate_avc_extension_def avc_ext_grammar_def)

lemma avc_accepts:
  assumes "avc_grammar record" "length record \<le> USIZE_MAX"
  shows "validate_avc_record record = Inr True"
proof -
  obtain p1 p2 p3 p4 nsps sps npps pps ext where r: "record = [1, p1, p2, p3, p4, nsps] @ param_sets sps @ [npps] @ param_sets pps @ ext"
    "list_all wf_set (sps @ pps)" "length sps = unat (nsps AND 0x1F)" "length pps = unat npps" "sps \<noteq> []" "pps \<noteq> []" "avc_ext_grammar ext"
    using assms(1) unfolding avc_grammar_def by blast
  let ?h = "[1, p1, p2, p3, p4, nsps]"
  let ?q = "6 + length (param_sets sps)"
  have sps: "skip_param_sets (unat (nsps AND 0x1F)) record 6 = Some ?q"
    using r(1-3) assms(2) by (intro sets_encode_at [of _ ?h _ "[npps] @ param_sets pps @ ext"]) simp_all
  have at: "get_opt record ?q = Some npps"
    using get_opt_append [of "?h @ param_sets sps" "[npps] @ param_sets pps @ ext" 0] by (simp add: r(1) get_opt_def)
  have pps: "skip_param_sets (unat npps) record (?q + 1) = Some (?q + 1 + length (param_sets pps))"
    using r(1,2,4) assms(2) by (intro sets_encode_at [of _ "?h @ param_sets sps @ [npps]" _ ext]) simp_all
  have ext: "subslice record (?q + 1 + length (param_sets pps)) (length record) = Inr ext"
    by (rule subslice_rest [of _ "?h @ param_sets sps @ [npps] @ param_sets pps"]) (simp_all add: r(1))
  have n: "unat (nsps AND 0x1F) \<noteq> 0" "unat npps \<noteq> 0"
    unfolding r(3,4) [symmetric] using r(5,6) by simp_all
  then have "npps \<noteq> 0" by auto
  note n = n(1) this
  have first: "idx record 0 = Inr 1" "idx record 5 = Inr nsps" "\<not> length record < 7" by (simp_all add: r(1))
  show ?thesis
    unfolding validate_avc_record_def first bindR_simps Let_def sps option.case at pps ext
    using n avc_ext_exact [of ext] r(7) assms(2) first(3) by (simp add: r(1))
qed

lemma avc_sound:
  assumes "validate_avc_record record = Inr True" "length record \<le> USIZE_MAX"
  shows "avc_grammar record"
proof -
  have len: "7 \<le> length record" using assms(1) by (simp add: validate_avc_record_def not_less split: if_splits)
  then obtain p0 p1 p2 p3 p4 nsps rest where r: "record = p0 # p1 # p2 # p3 # p4 # nsps # rest"
    by (auto simp: numeral_eq_Suc Suc_le_length_iff)
  have i: "idx record 0 = Inr p0" "idx record 5 = Inr nsps" by (simp_all add: r)
  obtain q npps f where run: "p0 = 1" "unat (nsps AND 0x1F) \<noteq> 0" "skip_param_sets (unat (nsps AND 0x1F)) record 6 = Some q"
    "get_opt record q = Some npps" "npps \<noteq> 0" "skip_param_sets (unat npps) record (q + 1) = Some f"
    "bindR (subslice record f (length record)) (\<lambda>ext. Inr (validate_avc_extension ext)) = Inr True"
    using assms(1) unfolding validate_avc_record_def i bindR_simps Let_def
    by (auto split: if_splits option.splits)
  obtain sps where sps: "length sps = unat (nsps AND 0x1F)" "list_all wf_set sps" "drop 6 record = param_sets sps @ drop q record"
    using sets_decode [OF run(3)] len by auto
  have q: "q < length record" "drop q record = npps # drop (q + 1) record" using get_opt_decode [OF run(4)] by auto
  obtain pps where pps: "length pps = unat npps" "list_all wf_set pps" "drop (q + 1) record = param_sets pps @ drop f record" "f \<le> length record"
    using sets_decode [OF run(6)] q(1) by auto
  have ext: "avc_ext_grammar (drop f record)"
    using run(7) avc_ext_exact [of "drop f record"] assms(2) by (simp add: subslice_from [OF pps(4)])
  have ne: "sps \<noteq> []" "pps \<noteq> []" using run(2,5) sps(1) pps(1) by (auto simp: word_unat_eq_iff)
  have "drop 6 record = rest" by (simp add: r)
  then have "record = [1, p1, p2, p3, p4, nsps] @ param_sets sps @ [npps] @ param_sets pps @ drop f record"
    using r run(1) sps(3) q(2) pps(3) by simp
  with sps(1,2) pps(1,2) ne ext show ?thesis unfolding avc_grammar_def by (intro exI conjI) (assumption | simp)+
qed

section \<open>HEVC\<close>

lemma hevc_nalus_eq:
  "hevc_nalus n record ty (pos, sps, pps) =
     map_option (\<lambda>fin. (fin, if ty = HEVC_NAL_SPS then sps + n else sps, if ty = HEVC_NAL_PPS then pps + n else pps))
       (skip_param_sets n record pos)"
proof (induction n arbitrary: pos sps pps)
  case (Suc n)
  then show ?case
    by (cases "skip_param_set record pos") (auto simp: HEVC_NAL_SPS_def HEVC_NAL_PPS_def option.map_comp comp_def)
qed simp

text \<open>How many NAL units of a type the arrays hold.\<close>

definition nal_count :: "u8 \<Rightarrow> nal_array list \<Rightarrow> nat" where
  "nal_count ty as = sum_list (map (\<lambda>(hdr, ss). if hdr AND 0x3F = ty then length ss else 0) as)"

lemma nal_count_simps [simp]:
  "nal_count ty [] = 0" "nal_count ty ((hdr, ss) # as) = (if hdr AND 0x3F = ty then length ss else 0) + nal_count ty as"
  by (simp_all add: nal_count_def)

lemma nal_count_pos: "0 < nal_count ty as \<longleftrightarrow> has_nal ty as"
  by (induction as) (auto simp: has_nal_def split: if_splits)

lemma arrays_encode:
  assumes "list_all wf_array as" "record = pre @ concat (map encode_array as) @ rest" "length record \<le> USIZE_MAX"
  shows "hevc_arrays (length as) record (length pre, sps, pps) =
     Some (length pre + length (concat (map encode_array as)), sps + nal_count HEVC_NAL_SPS as, pps + nal_count HEVC_NAL_PPS as)"
  using assms
proof (induction as arbitrary: pre sps pps)
  case (Cons a as)
  obtain hdr ss where a: "a = (hdr, ss)" by (cases a)
  let ?w = "of_nat (length ss) :: u16"
  have u: "unat ?w = length ss" using Cons.prems(1) by (simp add: a unat_of_nat_small)
  let ?rest = "concat (map encode_array as) @ rest"
  have r: "record = pre @ [hdr, ucast (drop_bit 8 ?w), ucast ?w] @ param_sets ss @ ?rest"
    using Cons.prems(2) by (simp add: a be16_def)
  have g: "get_opt record (length pre) = Some hdr" "get_opt record (length pre + 1) = Some (ucast (drop_bit 8 ?w))"
    "get_opt record (length pre + 2) = Some (ucast ?w)"
    by (simp_all add: r get_opt_def nth_append)
  have skip: "skip_param_sets (length ss) record (length pre + 3) = Some (length pre + 3 + length (param_sets ss))"
    using Cons.prems(1,3) r
    by (intro sets_encode_at [of _ "pre @ [hdr, ucast (drop_bit 8 ?w), ucast ?w]" _ ?rest]) (simp_all add: a)
  have pos: "length pre + 3 + length (param_sets ss) = length (pre @ encode_array a)" by (simp add: a)
  have "hevc_arrays (Suc (length as)) record (length pre, sps, pps) =
      hevc_arrays (length as) record (length (pre @ encode_array a),
        if hdr AND 0x3F = HEVC_NAL_SPS then sps + length ss else sps, if hdr AND 0x3F = HEVC_NAL_PPS then pps + length ss else pps)"
    unfolding hevc_arrays.simps prod.case g option.case u16_be_be16 u hevc_nalus_eq skip option.map Option.bind.simps pos ..
  also have "\<dots> = Some (length (pre @ encode_array a) + length (concat (map encode_array as)),
      (if hdr AND 0x3F = HEVC_NAL_SPS then sps + length ss else sps) + nal_count HEVC_NAL_SPS as,
      (if hdr AND 0x3F = HEVC_NAL_PPS then pps + length ss else pps) + nal_count HEVC_NAL_PPS as)"
    using Cons.prems by (intro Cons.IH) simp_all
  finally show ?case by (simp add: a)
qed simp

lemma arrays_decode:
  assumes "hevc_arrays n record (pos, sps, pps) = Some (fin, sps', pps')" "pos \<le> length record"
  shows "\<exists>as. length as = n \<and> list_all wf_array as \<and> drop pos record = concat (map encode_array as) @ drop fin record \<and>
     sps' = sps + nal_count HEVC_NAL_SPS as \<and> pps' = pps + nal_count HEVC_NAL_PPS as"
  using assms
proof (induction n arbitrary: pos sps pps)
  case (Suc n)
  then obtain hdr hi lo where g: "get_opt record pos = Some hdr" "get_opt record (pos + 1) = Some hi" "get_opt record (pos + 2) = Some lo"
    by (auto split: option.splits)
  let ?n = "unat (u16_be hi lo)"
  from Suc.prems(1) obtain mid where mid: "skip_param_sets ?n record (pos + 3) = Some mid"
    and rec: "hevc_arrays n record (mid, if hdr AND 0x3F = HEVC_NAL_SPS then sps + ?n else sps,
        if hdr AND 0x3F = HEVC_NAL_PPS then pps + ?n else pps) = Some (fin, sps', pps')"
    unfolding hevc_arrays.simps prod.case g option.case hevc_nalus_eq by (auto simp: bind_eq_Some_conv)
  have d: "drop pos record = hdr # hi # lo # drop (pos + 3) record" "pos + 3 \<le> length record"
    using get_opt_decode [OF g(1)] get_opt_decode [OF g(2)] get_opt_decode [OF g(3)] by (simp_all add: numeral_eq_Suc)
  obtain ss where ss: "length ss = ?n" "list_all wf_set ss" "drop (pos + 3) record = param_sets ss @ drop mid record" "mid \<le> length record"
    using sets_decode [OF mid d(2)] by blast
  obtain as where as: "length as = n" "list_all wf_array as" "drop mid record = concat (map encode_array as) @ drop fin record"
    "sps' = (if hdr AND 0x3F = HEVC_NAL_SPS then sps + ?n else sps) + nal_count HEVC_NAL_SPS as"
    "pps' = (if hdr AND 0x3F = HEVC_NAL_PPS then pps + ?n else pps) + nal_count HEVC_NAL_PPS as"
    using Suc.IH [OF rec ss(4)] by (elim exE conjE) (rule that)
  have "encode_array (hdr, ss) = hdr # hi # lo # param_sets ss" using ss(1) by (simp add: be_simps)
  moreover have "wf_array (hdr, ss)" using ss(1,2) unsigned_less [of "u16_be hi lo"] by simp
  ultimately show ?case using d(1) ss(1,3) as by (intro exI [of _ "(hdr, ss) # as"]) (simp del: encode_array.simps)
qed simp

lemma hevc_record_eq:
  assumes "22 < length record"
  shows "validate_hevc_record record =
     Inr (record ! 0 = 1 \<and> (case hevc_arrays (unat (record ! 22)) record (23, 0, 0) of
        None \<Rightarrow> False | Some (pos, sps, pps) \<Rightarrow> sps > 0 \<and> pps > 0))"
proof -
  have "idx record 0 = Inr (record ! 0)" "idx record 22 = Inr (record ! 22)" by (rule idx_in, use assms in linarith)+
  then show ?thesis using assms by (simp add: validate_hevc_record_def HEVC_FIXED_HEADER_def)
qed

lemma hevc_exact:
  assumes "length record \<le> USIZE_MAX"
  shows "validate_hevc_record record = Inr (hevc_grammar record)"
proof (cases "22 < length record \<and> record ! 0 = 1")
  case False
  have "\<not> hevc_grammar record"
  proof
    assume "hevc_grammar record"
    then obtain fixed n as rest where "record = [1] @ fixed @ [n] @ concat (map encode_array as) @ rest" "length fixed = 21"
      unfolding hevc_grammar_def by blast
    with False show False by simp
  qed
  then show ?thesis using False
    by (cases "22 < length record") (simp_all add: hevc_record_eq, simp add: validate_hevc_record_def HEVC_FIXED_HEADER_def)
next
  case True
  let ?run = "hevc_arrays (unat (record ! 22)) record (23, 0, 0)"
  have eq: "validate_hevc_record record = Inr (case ?run of None \<Rightarrow> False | Some (pos, sps, pps) \<Rightarrow> sps > 0 \<and> pps > 0)"
    using True by (simp add: hevc_record_eq)
  show ?thesis
  proof (cases "hevc_grammar record")
    case True
    then obtain fixed n as rest where r: "record = [1] @ fixed @ [n] @ concat (map encode_array as) @ rest" "length fixed = 21"
      "length as = unat n" "list_all wf_array as" "has_nal HEVC_NAL_SPS as" "has_nal HEVC_NAL_PPS as"
      unfolding hevc_grammar_def by blast
    have "record ! 22 = n" using r(1,2) by (simp add: nth_append)
    moreover have "hevc_arrays (length as) record (length ([1] @ fixed @ [n]), 0, 0) =
      Some (length ([1] @ fixed @ [n]) + length (concat (map encode_array as)), 0 + nal_count HEVC_NAL_SPS as, 0 + nal_count HEVC_NAL_PPS as)"
      using r(1,4) assms by (intro arrays_encode [of _ _ _ rest]) simp_all
    ultimately show ?thesis using r(2,3,5,6) True by (simp add: eq nal_count_pos)
  next
    case no: False
    have "\<not> (case ?run of None \<Rightarrow> False | Some (pos, sps, pps) \<Rightarrow> sps > 0 \<and> pps > 0)"
    proof
      assume "case ?run of None \<Rightarrow> False | Some (pos, sps, pps) \<Rightarrow> sps > 0 \<and> pps > 0"
      then obtain fin sps pps where run: "?run = Some (fin, sps, pps)" "sps > 0" "pps > 0" by (auto split: option.splits)
      obtain as where as: "length as = unat (record ! 22)" "list_all wf_array as"
        "drop 23 record = concat (map encode_array as) @ drop fin record" "sps = 0 + nal_count HEVC_NAL_SPS as" "pps = 0 + nal_count HEVC_NAL_PPS as"
        using arrays_decode [OF run(1)] True by auto
      have "record = take 22 record @ record ! 22 # drop 23 record" using True id_take_nth_drop [of 22 "record"] by simp
      moreover have "take 22 record = 1 # take 21 (drop 1 record)" using True by (cases "record") simp_all
      ultimately have "record = [1] @ take 21 (drop 1 record) @ [record ! 22] @ concat (map encode_array as) @ drop fin record"
        using as(3) by simp
      moreover have "length (take 21 (drop 1 record)) = 21" using True by (auto simp: min_def)
      ultimately have "hevc_grammar record"
        unfolding hevc_grammar_def using as run(2,3) by (intro exI conjI) (assumption | simp add: nal_count_pos [symmetric])+
      with no show False by simp
    qed
    with no show ?thesis by (simp add: eq)
  qed
qed

lemma avc_exact:
  assumes "length record \<le> USIZE_MAX"
  shows "validate_avc_record record = Inr (avc_grammar record)"
proof -
  have "\<exists>b. validate_avc_record record = Inr b"
  proof (cases "length record < 7")
    case False
    then have "idx record 0 = Inr (record ! 0)" "idx record 5 = Inr (record ! 5)" by (intro idx_in; linarith)+
    moreover have "\<exists>b. bindR (subslice record f (length record)) (\<lambda>ext. Inr (validate_avc_extension ext)) = Inr b"
      if "skip_param_sets n record (q + 1) = Some f" "get_opt record q = Some x" for n q f x
      using sets_decode [OF that(1)] get_opt_decode [OF that(2)] by (auto simp: subslice_from)
    ultimately show ?thesis
      using False by (auto simp: validate_avc_record_def Let_def split: option.splits)
  qed (simp add: validate_avc_record_def, blast)
  then show ?thesis using avc_accepts [OF _ assms] avc_sound [OF _ assms] by (cases "avc_grammar record") auto
qed

section \<open>Properties\<close>

text \<open>C35: the validators of codec configuration records accept exactly the records of their grammar, and no record of any
  length or content makes them panic. An AVC record has version 1, a non-zero number of SPS and of PPS, every parameter set
  non-empty and contained, and nothing or a complete extension section after them; an HEVC record has its 22 fixed bytes,
  exactly the announced arrays of contained non-empty NAL units, at least one SPS and one PPS among them; an AAC configuration
  has all bits of object type, frequency and channel fields present, with the escapes, and no reserved value.\<close>

theorem config_records_exact:
  assumes "length record \<le> USIZE_MAX"
  shows "validate_avc_record record = Inr (avc_grammar record) \<and>
     validate_hevc_record record = Inr (hevc_grammar record) \<and>
     validate_aac_config record = Inr (aac_grammar record)"
  using avc_exact [OF assms] hevc_exact [OF assms] validate_aac_exact by (intro conjI)

lemma config_records_exact_witness:
  "validate_avc_record [1, 0x64, 0, 0x1F, 0xFF, 0xE1, 0, 2, 0x67, 0x64, 1, 0, 1, 0x68] =
     Inr (avc_grammar [1, 0x64, 0, 0x1F, 0xFF, 0xE1, 0, 2, 0x67, 0x64, 1, 0, 1, 0x68]) \<and>
   avc_grammar [1, 0x64, 0, 0x1F, 0xFF, 0xE1, 0, 2, 0x67, 0x64, 1, 0, 1, 0x68]"
proof -
  let ?r = "[1, 0x64, 0, 0x1F, 0xFF, 0xE1, 0, 2, 0x67, 0x64, 1, 0, 1, 0x68] :: bytes"
  have "length ?r \<le> USIZE_MAX" by (simp add: USIZE_MAX_def)
  from config_records_exact [OF this] have "validate_avc_record ?r = Inr (avc_grammar ?r)" by (rule conjunct1)
  moreover have "avc_grammar ?r"
    unfolding avc_grammar_def
    by (rule exI [of _ "0x64"], rule exI [of _ 0], rule exI [of _ "0x1F"], rule exI [of _ "0xFF"], rule exI [of _ "0xE1"],
        rule exI [of _ "[[0x67, 0x64]]"], rule exI [of _ 1], rule exI [of _ "[[0x68]]"], rule exI [of _ "[]"])
      (simp add: param_set_def be16_def wf_set_def avc_ext_grammar_def)
  ultimately show ?thesis by (rule conjI)
qed

end
