(* ===== verification/Init_Cache.thy ===== *)
theory Init_Cache
  imports Codec_Config
begin

text \<open>
  Classification of media frames for the init cache and for congested receivers, and the population of frame records:
  \<open>src/src/media/init_cache.rs\<close> (all but its AMF scanners) and \<open>src/src/media/delivery.rs\<close>.

  The functions return a result because the code indexes and slices; the lemmas show that no payload makes them panic,
  and characterise the frames that are cached as sequence headers by the grammars of the configuration records.
\<close>

section \<open>Classification for the cache\<close>

datatype cache_frame_kind = LiveOnly | VideoSequenceHeader | AudioSequenceHeader | VideoKeyframe

text \<open>\<open>payload.get(n..).unwrap_or(&[])\<close>\<close>

definition rest_or_empty :: "bytes \<Rightarrow> nat \<Rightarrow> bytes" where
  "rest_or_empty payload n = (case get_range payload n (length payload) of Some r \<Rightarrow> r | None \<Rightarrow> [])"

text \<open>A fallible call whose error only is handled: \<open>if call(..).is_err() { return d; }\<close>.\<close>

definition parse_or :: "'b result \<Rightarrow> ('h, unit) op \<Rightarrow> 'h \<Rightarrow> ('h \<Rightarrow> 'b result) \<Rightarrow> 'b result" where
  "parse_or d p h0 f =
     (case p h0 of (Inr _, h) \<Rightarrow> f h | (Inl (Err _), _) \<Rightarrow> d | (Inl Panic, _) \<Rightarrow> panic)"

definition is_video_command :: "bytes \<Rightarrow> bool" where
  "is_video_command payload =
     (case payload of [] \<Rightarrow> False | b # _ \<Rightarrow> b AND 0x80 \<noteq> 0 \<and> drop_bit 4 b AND 0x07 = VIDEO_FRAME_TYPE_COMMAND)"

definition sequence_header_kind :: "config_codec \<Rightarrow> bytes \<Rightarrow> cache_frame_kind result" where
  "sequence_header_kind codec rec =
     bindR (validate_config_record codec rec) (\<lambda>ok. Inr (if ok then VideoSequenceHeader else LiveOnly))"

definition sequence_start_config_valid :: "frame_type \<Rightarrow> bytes \<Rightarrow> bytes \<Rightarrow> bool result" where
  "sequence_start_config_valid ft fourcc rec =
     (if ft = FAudio \<and> get_range fourcc 0 4 = Some (ascii ''mp4a'') then validate_aac_config rec
      else if ft = FAudio \<and> rec = [] \<and> get_range fourcc 0 4 = Some (ascii ''Opus'') then Inr True
      else validate_config_record (config_codec_from_fourcc fourcc) rec)"

text \<open>The visitor captures \<open>all_valid\<close>; a panic of the validator it calls ends the walk with it.\<close>

definition multitrack_sequence_configs_valid :: "frame_type \<Rightarrow> bytes \<Rightarrow> bool result" where
  "multitrack_sequence_configs_valid ft payload =
     (case foreach_track ft payload (\<lambda>track st. bindR st (\<lambda>all_valid.
          if ts_packet_type track = 0
          then bindR (sequence_start_config_valid ft (ts_fourcc track) (ts_payload track)) (\<lambda>ok.
            Inr (if \<not> ok then False else all_valid))
          else Inr all_valid)) (Inr True) of
        (Inr _, all_valid) \<Rightarrow> all_valid
      | (Inl e, _) \<Rightarrow> Inl e)"

definition classify_multitrack_video :: "bytes \<Rightarrow> cache_frame_kind result" where
  "classify_multitrack_video payload =
     bindR (multitrack_has_sequence_start FVideo payload) (\<lambda>start.
       if start then bindR (multitrack_sequence_configs_valid FVideo payload) (\<lambda>ok.
         Inr (if ok then VideoSequenceHeader else LiveOnly))
       else bindR (multitrack_has_keyframe payload) (\<lambda>key. Inr (if key then VideoKeyframe else LiveOnly)))"

definition classify_ex_video :: "bytes \<Rightarrow> video_header \<Rightarrow> cache_frame_kind result" where
  "classify_ex_video payload hdr =
     (if vh_packet_type hdr = ERTMP_PACKET_TYPE_MODEX then Inr LiveOnly
      else if vh_packet_type hdr = 0
      then sequence_header_kind (config_codec_from_fourcc (vh_fourcc hdr)) (rest_or_empty payload (vh_header_size hdr))
      else if (vh_packet_type hdr = 1 \<or> vh_packet_type hdr = 3) \<and> vh_frame_type hdr = 1 then Inr VideoKeyframe
      else Inr LiveOnly)"

definition classify_legacy_video :: "bytes \<Rightarrow> cache_frame_kind result" where
  "classify_legacy_video payload = bindR (idx payload 0) (\<lambda>b0.
     let codec_id = b0 AND 0x0F; frame_type_nibble = drop_bit 4 b0 AND 0x0F; avc_packet_type = get_opt payload 1 in
     if codec_id = 7 \<and> avc_packet_type = Some 0 then sequence_header_kind CfgAvc (rest_or_empty payload 5)
     else if frame_type_nibble \<noteq> 1 then Inr LiveOnly
     else if codec_id \<noteq> 7 \<or> avc_packet_type = Some 1 then Inr VideoKeyframe
     else Inr LiveOnly)"

definition classify_video :: "bytes \<Rightarrow> cache_frame_kind result" where
  "classify_video payload =
     (if is_video_command payload then Inr LiveOnly
      else if is_multitrack_container FVideo payload then classify_multitrack_video payload
      else parse_or (Inr LiveOnly) (exvideo_parse payload) video_header_default (\<lambda>hdr.
        if vh_is_ex_header hdr \<noteq> 0 then classify_ex_video payload hdr else classify_legacy_video payload))"

definition classify_audio :: "bytes \<Rightarrow> cache_frame_kind result" where
  "classify_audio payload =
     bindR (if is_multitrack_container FAudio payload then multitrack_has_sequence_start FAudio payload else Inr False) (\<lambda>start.
     if start then bindR (multitrack_sequence_configs_valid FAudio payload) (\<lambda>ok.
       Inr (if ok then AudioSequenceHeader else LiveOnly))
     else parse_or (Inr LiveOnly) (exaudio_parse payload) audio_header_default (\<lambda>hdr.
       if ah_is_ex_header hdr \<noteq> 0 then
         (if ah_packet_type hdr = ERTMP_PACKET_TYPE_MODEX then Inr LiveOnly
          else if ah_packet_type hdr = 0 then
            bindR (sequence_start_config_valid FAudio (ah_fourcc hdr) (rest_or_empty payload (ah_header_size hdr))) (\<lambda>ok.
              Inr (if ok then AudioSequenceHeader else LiveOnly))
          else Inr LiveOnly)
       else if ah_audio_codec hdr = AAac \<and> ah_aac_packet_type hdr = 0 \<and> length payload \<ge> 2 then
         bindR (bindR (subslice payload 2 (length payload)) validate_aac_config) (\<lambda>ok.
           Inr (if ok then AudioSequenceHeader else LiveOnly))
       else Inr LiveOnly))"

fun classify_cache_frame :: "frame_type \<Rightarrow> bytes \<Rightarrow> cache_frame_kind result" where
  "classify_cache_frame FVideo payload = classify_video payload"
| "classify_cache_frame FAudio payload = classify_audio payload"
| "classify_cache_frame FScript payload = Inr LiveOnly"
| "classify_cache_frame FMetadata payload = Inr LiveOnly"

section \<open>Population of frames\<close>

definition populate_multitrack_frame :: "bytes \<Rightarrow> u8 \<Rightarrow> u8 \<Rightarrow> (frame, unit) op" where
  "populate_multitrack_frame fourcc_value packet_type video_frame_type =
     bindS (liftS (copy_at (replicate 5 0) 0 fourcc_value)) (\<lambda>cc.
     bindS (getS fr_frame_type) (\<lambda>ft. case ft of
       FVideo \<Rightarrow>
         thenS (modS (\<lambda>f. f\<lparr>fr_video_fourcc := cc, fr_video_frame_type := video_frame_type\<rparr>))
         (thenS (case fourcc_to_video_codec fourcc_value of Inr codec \<Rightarrow> modS (\<lambda>f. f\<lparr>fr_video_codec := codec\<rparr>) | Inl _ \<Rightarrow> retS ())
           (modS (\<lambda>f. f\<lparr>fr_is_metadata := if packet_type = ERTMP_PACKET_TYPE_METADATA then 1 else 0\<rparr>)))
     | FAudio \<Rightarrow>
         thenS (modS (\<lambda>f. f\<lparr>fr_audio_fourcc := cc\<rparr>))
         (thenS (case fourcc_to_audio_codec fourcc_value of Inr codec \<Rightarrow> modS (\<lambda>f. f\<lparr>fr_audio_codec := codec\<rparr>) | Inl _ \<Rightarrow> retS ())
           (modS (\<lambda>f. f\<lparr>fr_is_metadata := if packet_type = ERTMP_AUDIO_PACKET_TYPE_METADATA then 1 else 0\<rparr>)))
     | _ \<Rightarrow> modS (\<lambda>f. f\<lparr>fr_is_metadata := 1\<rparr>)))"

definition frame_video_codec :: "u8 \<Rightarrow> video_codec" where
  "frame_video_codec codec_id =
     (case legacy_video_codec codec_id of
        Some c \<Rightarrow> c
      | None \<Rightarrow> if codec_id = 12 then VH265 else if codec_id = 13 then VAv1 else if codec_id = 14 then VVp9
                else video_codec_default)"

definition populate_video_frame :: "bytes \<Rightarrow> (frame, unit) op" where
  "populate_video_frame payload =
     (case exvideo_parse payload video_header_default of
        (Inl (Err _), _) \<Rightarrow> retS ()
      | (Inl Panic, _) \<Rightarrow> failS Panic
      | (Inr _, hdr) \<Rightarrow>
          if vh_is_ex_header hdr \<noteq> 0 \<and> vh_packet_type hdr = ERTMP_PACKET_TYPE_MODEX then retS ()
          else thenS (modS (\<lambda>f. f\<lparr>fr_composition_time := vh_composition_time hdr, fr_video_frame_type := vh_frame_type hdr,
              fr_video_fourcc := vh_fourcc hdr\<rparr>))
            (thenS (if vh_is_ex_header hdr \<noteq> 0
                    then (case fourcc_to_video_codec (vh_fourcc hdr) of Inr codec \<Rightarrow> modS (\<lambda>f. f\<lparr>fr_video_codec := codec\<rparr>) | Inl _ \<Rightarrow> retS ())
                    else bindS (liftS (idx payload 0)) (\<lambda>b0. modS (\<lambda>f. f\<lparr>fr_video_codec := frame_video_codec (b0 AND 0x0F)\<rparr>)))
              (if vh_is_ex_header hdr \<noteq> 0 \<and> vh_packet_type hdr = ERTMP_PACKET_TYPE_METADATA
               then modS (\<lambda>f. f\<lparr>fr_is_metadata := 1\<rparr>) else retS ())))"

definition populate_audio_frame :: "bytes \<Rightarrow> (frame, unit) op" where
  "populate_audio_frame payload =
     (case exaudio_parse payload audio_header_default of
        (Inl (Err _), _) \<Rightarrow> retS ()
      | (Inl Panic, _) \<Rightarrow> failS Panic
      | (Inr _, hdr) \<Rightarrow>
          if ah_is_ex_header hdr \<noteq> 0 \<and> ah_packet_type hdr = ERTMP_PACKET_TYPE_MODEX then retS ()
          else thenS (modS (\<lambda>f. if ah_is_ex_header hdr \<noteq> 0
              then f\<lparr>fr_audio_sample_rate := 0, fr_audio_channels := 0, fr_audio_bit_depth := 0\<rparr>
              else f\<lparr>fr_audio_sample_rate := ucast (ah_sample_rate hdr), fr_audio_channels := ah_channels hdr,
                fr_audio_bit_depth := if ah_sample_size hdr \<noteq> 0 then 16 else 8\<rparr>))
            (thenS (modS (\<lambda>f. f\<lparr>fr_audio_fourcc := ah_fourcc hdr\<rparr>))
            (thenS (if ah_is_ex_header hdr \<noteq> 0
                    then (case fourcc_to_audio_codec (ah_fourcc hdr) of Inr codec \<Rightarrow> modS (\<lambda>f. f\<lparr>fr_audio_codec := codec\<rparr>) | Inl _ \<Rightarrow> retS ())
                    else modS (\<lambda>f. f\<lparr>fr_audio_codec := ah_audio_codec hdr\<rparr>))
              (if ah_is_ex_header hdr \<noteq> 0 \<and> ah_packet_type hdr = ERTMP_AUDIO_PACKET_TYPE_METADATA
               then modS (\<lambda>f. f\<lparr>fr_is_metadata := 1\<rparr>) else retS ()))))"

definition populate_av_frame :: "bytes \<Rightarrow> (frame, unit) op" where
  "populate_av_frame payload = bindS (getS fr_frame_type) (\<lambda>ft. case ft of
     FVideo \<Rightarrow> populate_video_frame payload
   | FAudio \<Rightarrow> populate_audio_frame payload
   | _ \<Rightarrow> modS (\<lambda>f. f\<lparr>fr_is_metadata := 1\<rparr>))"

section \<open>Delivery hints\<close>

datatype delivery_hint = Critical | ResyncPoint | Droppable

definition is_enhanced_video_metadata :: "bytes \<Rightarrow> bool result" where
  "is_enhanced_video_metadata payload =
     (if is_multitrack_container FVideo payload then multitrack_has_metadata FVideo payload
      else case payload of [] \<Rightarrow> Inr False
      | b0 # _ \<Rightarrow>
          if b0 AND 0x80 = 0 then Inr False
          else parse_or (Inr False) (exvideo_parse payload) video_header_default (\<lambda>hdr.
            Inr (vh_is_ex_header hdr \<noteq> 0 \<and> vh_packet_type hdr = ERTMP_PACKET_TYPE_METADATA)))"

text \<open>The tests for audio metadata and for a multichannel configuration differ in the packet type only.\<close>

definition ex_audio_packet_is :: "u8 \<Rightarrow> bytes \<Rightarrow> bool result" where
  "ex_audio_packet_is ty payload =
     (case payload of [] \<Rightarrow> Inr False
      | b0 # _ \<Rightarrow>
          if drop_bit 4 b0 AND 0x0F \<noteq> 0x09 then Inr False
          else parse_or (Inr False) (exaudio_parse payload) audio_header_default (\<lambda>hdr.
            Inr (ah_is_ex_header hdr \<noteq> 0 \<and> ah_packet_type hdr = ty)))"

definition is_enhanced_audio_metadata :: "bytes \<Rightarrow> bool result" where
  "is_enhanced_audio_metadata payload =
     (if is_multitrack_container FAudio payload then multitrack_has_metadata FAudio payload
      else ex_audio_packet_is ERTMP_AUDIO_PACKET_TYPE_METADATA payload)"

definition is_enhanced_audio_multichannel :: "bytes \<Rightarrow> bool result" where
  "is_enhanced_audio_multichannel payload =
     (if is_multitrack_container FAudio payload then
        (case foreach_track FAudio payload (\<lambda>track found. found \<or> ts_packet_type track = ERTMP_AUDIO_PACKET_TYPE_MULTICHANNEL) False of
           (Inr valid, found) \<Rightarrow> Inr (valid \<and> found)
         | (Inl e, _) \<Rightarrow> Inl e)
      else ex_audio_packet_is ERTMP_AUDIO_PACKET_TYPE_MULTICHANNEL payload)"

definition is_enhanced_video_command :: "bytes \<Rightarrow> bool" where
  "is_enhanced_video_command payload =
     (case payload of [] \<Rightarrow> False | b # _ \<Rightarrow> b AND 0x80 \<noteq> 0 \<and> drop_bit 4 b AND 0x07 = 5)"

definition delivery_classify :: "frame_type \<Rightarrow> bytes \<Rightarrow> bool \<Rightarrow> delivery_hint result" where
  "delivery_classify ft payload route_has_video =
     (if ft = FScript \<or> ft = FMetadata then Inr Critical
      else bindR (if ft = FVideo then is_enhanced_video_metadata payload else Inr False) (\<lambda>c1.
        if c1 then Inr Critical
        else bindR (if ft = FAudio then is_enhanced_audio_metadata payload else Inr False) (\<lambda>c2.
        if c2 then Inr Critical
        else if ft = FVideo \<and> is_enhanced_video_command payload then Inr Critical
        else bindR (if ft = FAudio then is_enhanced_audio_multichannel payload else Inr False) (\<lambda>c3.
        if c3 then Inr Critical
        else bindR (classify_cache_frame ft payload) (\<lambda>kind. Inr (case kind of
            VideoSequenceHeader \<Rightarrow> Critical
          | AudioSequenceHeader \<Rightarrow> Critical
          | VideoKeyframe \<Rightarrow> ResyncPoint
          | LiveOnly \<Rightarrow> if ft = FAudio \<and> \<not> route_has_video then ResyncPoint else Droppable))))))"

fun delivery_to_u8 :: "delivery_hint \<Rightarrow> u8" where
  "delivery_to_u8 Critical = 0"
| "delivery_to_u8 ResyncPoint = 1"
| "delivery_to_u8 Droppable = 2"

definition delivery_from_u8 :: "u8 \<Rightarrow> delivery_hint option" where
  "delivery_from_u8 code =
     (if code = 0 then Some Critical else if code = 1 then Some ResyncPoint else if code = 2 then Some Droppable else None)"

section \<open>What is cached\<close>

text \<open>The frames that carry a well-formed decoder configuration.\<close>

fun config_grammar :: "config_codec \<Rightarrow> bytes \<Rightarrow> bool" where
  "config_grammar CfgAvc rec = avc_grammar rec"
| "config_grammar CfgHevc rec = hevc_grammar rec"
| "config_grammar CfgOpaque rec = (rec \<noteq> [])"

definition start_grammar :: "frame_type \<Rightarrow> bytes \<Rightarrow> bytes \<Rightarrow> bool" where
  "start_grammar ft cc rec =
     (if ft = FAudio \<and> cc = ascii ''mp4a'' then aac_grammar rec
      else if ft = FAudio \<and> rec = [] \<and> cc = ascii ''Opus'' then True
      else config_grammar (config_codec_from_fourcc cc) rec)"

definition multitrack_start :: "frame_type \<Rightarrow> bytes \<Rightarrow> bool" where
  "multitrack_start ft payload \<longleftrightarrow>
     (\<exists>c. wf_container c \<and> payload = encode_container c \<and> mc_packet_type c = 0 \<and>
        (\<forall>(cc, tid, body) \<in> set (mc_tracks c). start_grammar ft cc body))"

definition cacheable_video :: "bytes \<Rightarrow> bool" where
  "cacheable_video payload \<longleftrightarrow> payload \<noteq> [] \<and> \<not> is_video_command payload \<and>
     (if is_multitrack_container FVideo payload then multitrack_start FVideo payload
      else if payload ! 0 AND 0x80 \<noteq> 0
      then 5 \<le> length payload \<and> payload ! 0 AND 0x0F = 0 \<and>
        config_grammar (config_codec_from_fourcc (take 4 (drop 1 payload))) (drop 5 payload)
      else 2 \<le> length payload \<and> payload ! 0 AND 0x0F = 7 \<and> payload ! 1 = 0 \<and> avc_grammar (drop 5 payload))"

definition cacheable_audio :: "bytes \<Rightarrow> bool" where
  "cacheable_audio payload \<longleftrightarrow> payload \<noteq> [] \<and>
     (if is_multitrack_container FAudio payload then multitrack_start FAudio payload
      else if drop_bit 4 (payload ! 0) AND 0x0F = 9
      then 5 \<le> length payload \<and> payload ! 0 AND 0x0F = 0 \<and> start_grammar FAudio (take 4 (drop 1 payload)) (drop 5 payload)
      else drop_bit 4 (payload ! 0) AND 0x0F = 10 \<and> 2 \<le> length payload \<and> payload ! 1 = 0 \<and> aac_grammar (drop 2 payload))"

section \<open>Configuration records\<close>

lemma validate_config_exact:
  "length rec \<le> USIZE_MAX \<Longrightarrow> validate_config_record codec rec = Inr (config_grammar codec rec)"
  by (cases codec) (simp_all add: avc_exact hevc_exact)

lemma get_range_4: "4 \<le> length cc \<Longrightarrow> get_range cc 0 4 = Some (take 4 cc)"
  by (simp add: get_range_def)

lemma from_fourcc_take: "4 \<le> length cc \<Longrightarrow> config_codec_from_fourcc cc = config_codec_from_fourcc (take 4 cc)"
  by (simp add: config_codec_from_fourcc_def get_range_4)

lemma start_config_exact:
  assumes "4 \<le> length cc" "length rec \<le> USIZE_MAX"
  shows "sequence_start_config_valid ft cc rec = Inr (start_grammar ft (take 4 cc) rec)"
  using assms
  by (simp add: sequence_start_config_valid_def start_grammar_def get_range_4 validate_config_exact validate_aac_exact
      from_fourcc_take [of cc])

lemma rest_or_empty_eq: "n \<le> length payload \<Longrightarrow> rest_or_empty payload n = drop n payload"
  by (simp add: rest_or_empty_def get_range_def)

section \<open>Multitrack containers\<close>

lemma fold_or: "fold (\<lambda>t found. found \<or> P t) ts b = (b \<or> (\<exists>t \<in> set ts. P t))"
  by (induction ts arbitrary: b) auto

lemma fold_valid:
  assumes "\<And>t. t \<in> set ts \<Longrightarrow> Q t \<Longrightarrow> v t = Inr (g t)"
  shows "fold (\<lambda>t st. bindR st (\<lambda>ok. if Q t then bindR (v t) (\<lambda>b. Inr (if \<not> b then False else ok)) else Inr ok)) ts (Inr ok)
     = Inr (ok \<and> (\<forall>t \<in> set ts. Q t \<longrightarrow> g t))"
  using assms by (induction ts arbitrary: ok) auto

text \<open>Either the payload is a container and a visitor sees its tracks, or nothing is visited.\<close>

lemma foreach_cases:
  assumes "length payload \<le> USIZE_MAX" "is_multitrack_container ft payload"
  obtains (container) c where "wf_container c" "payload = encode_container c"
      "\<And>visit (s :: 's). foreach_track ft payload visit s = (Inr True, fold visit (track_slices ft c) s)"
    | (other) "\<nexists>c. wf_container c \<and> payload = encode_container c" "\<And>visit (s :: 's). foreach_track ft payload visit s = (Inr False, s)"
proof (cases "\<exists>c. wf_container c \<and> payload = encode_container c")
  case True
  then obtain c where c: "wf_container c" "payload = encode_container c" by blast
  have "foreach_track ft payload visit s = (Inr True, fold visit (track_slices ft c) s)" for visit and s :: 's
    unfolding c(2) by (rule foreach_encode [OF c(1)]) (use assms c(2) in simp_all)
  with c show thesis by (rule container)
next
  case False
  have "foreach_track ft payload visit s = (Inr False, s)" for visit and s :: 's
    using False by (intro foreach_other [OF assms(1)]) blast
  with False show thesis by (rule other)
qed

lemma slices_of: "set (track_slices ft c) \<subseteq> {t. ts_packet_type t = mc_packet_type c}"
  "wf_container c \<Longrightarrow> track_slices ft c \<noteq> []"
  by (auto simp: track_slices_def wf_container_def)

lemma some_slice:
  assumes "wf_container c"
  shows "(\<exists>t \<in> set (track_slices ft c). ts_packet_type t = k) \<longleftrightarrow> mc_packet_type c = k"
  using slices_of(1) [of ft c] slices_of(2) [OF assms, of ft] by (cases "track_slices ft c") auto

lemma container_packet_type: "wf_container c \<Longrightarrow> mc_packet_type c = encode_container c ! 1 AND 0x0F"
  by (simp add: encode_container_def wf_container_def kind_nibbles)

text \<open>The tracks are determined by the bytes: a visitor that collects them sees the same list.\<close>

lemma slices_unique:
  assumes "wf_container c" "wf_container c'" "encode_container c = encode_container c'"
    and "is_multitrack_container ft (encode_container c)" "length (encode_container c) \<le> USIZE_MAX"
  shows "track_slices ft c = track_slices ft c'"
proof -
  have collect: "fold (\<lambda>t ts. ts @ [t]) xs ys = ys @ xs" for xs ys :: "media_track_slice list"
    by (induction xs arbitrary: ys) simp_all
  have "fold (\<lambda>t ts. ts @ [t]) (track_slices ft c) [] = fold (\<lambda>t ts. ts @ [t]) (track_slices ft c') []"
    using foreach_encode [OF assms(1,4,5), of "\<lambda>t ts. ts @ [t]" "[]"]
      foreach_encode [OF assms(2), of ft "\<lambda>t ts. ts @ [t]" "[]"] assms(3-5) by simp
  then show ?thesis by (simp add: collect)
qed

lemma slice_bounds:
  assumes "wf_container c" "t \<in> set (track_slices ft c)"
  shows "length (ts_fourcc t) = 4" "length (ts_payload t) \<le> length (encode_container c)"
proof -
  obtain cc tid body where w: "(cc, tid, body) \<in> set (mc_tracks c)" "ts_fourcc t = cc" "ts_payload t = body"
    using assms(2) by (auto simp: track_slices_def)
  show "length (ts_fourcc t) = 4" using assms(1) w by (auto simp: wf_container_def list_all_iff)
  have "length body \<le> length (encode_track (mc_kind c) (cc, tid, body))" by simp
  also have "\<dots> \<le> length (concat (map (encode_track (mc_kind c)) (mc_tracks c)))"
    using w(1) by (simp only: length_concat) (rule member_le_sum_list, force, simp)
  also have "\<dots> \<le> length (encode_container c)" by (simp add: encode_container_def)
  finally show "length (ts_payload t) \<le> length (encode_container c)" using w(3) by simp
qed

lemma tracks_grammar:
  "(\<forall>(cc, tid, body) \<in> set (mc_tracks c). start_grammar ft cc body) \<longleftrightarrow>
     (\<forall>t \<in> set (track_slices ft c). start_grammar ft (ts_fourcc t) (ts_payload t))"
  by (auto simp: track_slices_def)

lemma multitrack_start_iff:
  assumes "wf_container c" "payload = encode_container c" "is_multitrack_container ft payload" "length payload \<le> USIZE_MAX"
  shows "multitrack_start ft payload \<longleftrightarrow> mc_packet_type c = 0 \<and>
     (\<forall>t \<in> set (track_slices ft c). start_grammar ft (ts_fourcc t) (ts_payload t))"
proof
  assume "multitrack_start ft payload"
  then obtain c' where c': "wf_container c'" "payload = encode_container c'" "mc_packet_type c' = 0"
    "\<forall>(cc, tid, body) \<in> set (mc_tracks c'). start_grammar ft cc body" unfolding multitrack_start_def by blast
  have "track_slices ft c = track_slices ft c'" using assms c' by (intro slices_unique) auto
  then show "mc_packet_type c = 0 \<and> (\<forall>t \<in> set (track_slices ft c). start_grammar ft (ts_fourcc t) (ts_payload t))"
    using c' assms(1,2) container_packet_type [of c] container_packet_type [of c'] tracks_grammar [of c' ft] by simp
qed (use assms(1,2) tracks_grammar [of c ft] in \<open>unfold multitrack_start_def, blast\<close>)

lemma has_start_eq:
  assumes "length payload \<le> USIZE_MAX" "is_multitrack_container ft payload"
  shows "\<exists>b. multitrack_has_sequence_start ft payload = Inr b \<and>
     (if b then multitrack_sequence_configs_valid ft payload = Inr (multitrack_start ft payload) else \<not> multitrack_start ft payload)"
  using assms
proof (cases rule: foreach_cases [where ?'s = "bool"])
  case (container c)
  note start = multitrack_start_iff [OF container(1,2) assms(2,1)]
  have has: "multitrack_has_sequence_start ft payload = Inr (mc_packet_type c = 0)"
    by (simp add: multitrack_has_sequence_start_def container(3) fold_or some_slice [OF container(1)])
  have ok: "sequence_start_config_valid ft (ts_fourcc t) (ts_payload t) = Inr (start_grammar ft (ts_fourcc t) (ts_payload t))"
    if "t \<in> set (track_slices ft c)" for t
    using start_config_exact [of "ts_fourcc t" "ts_payload t" ft] slice_bounds [OF container(1) that] assms(1) container(2) by simp
  have "foreach_track ft payload visit (s :: bool result) = (Inr True, fold visit (track_slices ft c) s)" for visit s
    unfolding container(2) by (rule foreach_encode [OF container(1)]) (use assms container(2) in simp_all)
  then have "multitrack_sequence_configs_valid ft payload =
      Inr (\<forall>t \<in> set (track_slices ft c). ts_packet_type t = 0 \<longrightarrow> start_grammar ft (ts_fourcc t) (ts_payload t))"
    using fold_valid [where ts = "track_slices ft c" and Q = "\<lambda>t. ts_packet_type t = 0"
      and v = "\<lambda>t. sequence_start_config_valid ft (ts_fourcc t) (ts_payload t)"
      and g = "\<lambda>t. start_grammar ft (ts_fourcc t) (ts_payload t)" and ok = True] ok
    by (simp add: multitrack_sequence_configs_valid_def)
  then show ?thesis using has start slices_of(1) [of ft c] by (cases "mc_packet_type c = 0") auto
next
  case other
  then show ?thesis by (auto simp: multitrack_has_sequence_start_def multitrack_start_def)
qed

lemma has_keyframe_total: "length payload \<le> USIZE_MAX \<Longrightarrow> \<exists>b. multitrack_has_keyframe payload = Inr b"
proof (cases "is_multitrack_container FVideo payload")
  case True
  assume len: "length payload \<le> USIZE_MAX"
  have "payload \<noteq> []" using True by (auto simp: is_multitrack_container_def)
  moreover have "\<exists>b. fst (foreach_track FVideo payload (\<lambda>_ s. s) ()) = Inr b"
    using len True by (cases rule: foreach_cases [where ?'s = unit]) auto
  ultimately show ?thesis by (auto simp: multitrack_has_keyframe_def Let_def)
qed (simp add: multitrack_has_keyframe_def, blast)

lemma classify_multitrack_exact:
  assumes "length payload \<le> USIZE_MAX" "is_multitrack_container FVideo payload"
  shows "\<exists>k. classify_multitrack_video payload = Inr k \<and> (k = VideoSequenceHeader \<longleftrightarrow> multitrack_start FVideo payload) \<and>
     k \<noteq> AudioSequenceHeader"
  using has_start_eq [OF assms] has_keyframe_total [OF assms(1)]
  by (auto simp: classify_multitrack_video_def split: if_splits)

section \<open>Single tracks\<close>

lemma exvideo_parse_ex_cases:
  assumes "payload \<noteq> []" "payload ! 0 AND 0x80 \<noteq> 0" "drop_bit 4 (payload ! 0) AND 0x07 \<noteq> VIDEO_FRAME_TYPE_COMMAND"
  shows "(\<exists>e h. exvideo_parse payload h0 = (err e, h) \<and> (length payload < 5 \<or> exvideo_has_ct payload)) \<or>
     (5 \<le> length payload \<and> exvideo_parse payload h0 = (Inr (), exvideo_value payload))"
proof -
  define h1 where "h1 = video_header_default\<lparr>vh_is_ex_header := 1, vh_frame_type := drop_bit 4 (payload ! 0) AND 0x07,
     vh_packet_type := payload ! 0 AND 0x0F\<rparr>"
  have run: "exvideo_parse payload h0 = exvideo_fourcc payload (payload ! 0 AND 0x0F) h1"
    using assms by (simp add: exvideo_parse_def op_simps Let_def h1_def is_video_command_header_def)
  show ?thesis
  proof (cases "5 \<le> length payload")
    case True
    have "vh_fourcc h1 = four_cc_default" by (simp add: h1_def video_header_default_def)
    from exvideo_fourcc_eq [OF True this] show ?thesis
      unfolding run using True by (auto simp: Let_def h1_def video_header_default_def exvideo_value_def)
  next
    case False
    then show ?thesis unfolding run by (auto simp: exvideo_fourcc_def)
  qed
qed

lemma sequence_header_kind_eq:
  "length rec \<le> USIZE_MAX \<Longrightarrow> sequence_header_kind codec rec = Inr (if config_grammar codec rec then VideoSequenceHeader else LiveOnly)"
  by (simp add: sequence_header_kind_def validate_config_exact)

lemma classify_ex_exact:
  assumes "5 \<le> length payload" "length payload \<le> USIZE_MAX"
  shows "\<exists>k. classify_ex_video payload (exvideo_value payload) = Inr k \<and> k \<noteq> AudioSequenceHeader \<and>
     (k = VideoSequenceHeader \<longleftrightarrow> payload ! 0 AND 0x0F = 0 \<and>
        config_grammar (config_codec_from_fourcc (take 4 (drop 1 payload))) (drop 5 payload))"
proof (cases "payload ! 0 AND 0x0F = 0")
  case True
  have "config_codec_from_fourcc (take 4 (drop 1 payload) @ [0]) = config_codec_from_fourcc (take 4 (drop 1 payload))"
    using assms(1) from_fourcc_take [of "take 4 (drop 1 payload) @ [0]"] by simp
  then have "classify_ex_video payload (exvideo_value payload) =
      sequence_header_kind (config_codec_from_fourcc (take 4 (drop 1 payload))) (drop 5 payload)"
    using True assms(1) by (simp add: classify_ex_video_def exvideo_value_def exvideo_has_ct_def ERTMP_PACKET_TYPE_MODEX_def rest_or_empty_eq)
  then show ?thesis using True assms(2) by (simp add: sequence_header_kind_eq)
next
  case False
  then show ?thesis by (auto simp: classify_ex_video_def exvideo_value_def)
qed

lemma classify_legacy_exact:
  assumes "payload \<noteq> []" "length payload \<le> USIZE_MAX"
  shows "\<exists>k. classify_legacy_video payload = Inr k \<and> k \<noteq> AudioSequenceHeader \<and>
     (k = VideoSequenceHeader \<longleftrightarrow> 2 \<le> length payload \<and> payload ! 0 AND 0x0F = 7 \<and> payload ! 1 = 0 \<and> avc_grammar (drop 5 payload))"
proof (cases "payload ! 0 AND 0x0F = 7 \<and> get_opt payload 1 = Some 0")
  case True
  have "rest_or_empty payload 5 = drop 5 payload"
    by (cases "5 \<le> length payload") (simp_all add: rest_or_empty_def get_range_def)
  then show ?thesis using True assms
    by (auto simp: classify_legacy_video_def sequence_header_kind_eq get_opt_def split: if_splits)
next
  case False
  then have "\<not> (2 \<le> length payload \<and> payload ! 0 AND 0x0F = 7 \<and> payload ! 1 = 0)"
    by (auto simp: get_opt_def)
  with False assms(1) show ?thesis by (auto simp: classify_legacy_video_def Let_def)
qed

lemma classify_video_exact:
  assumes "length payload \<le> USIZE_MAX"
  shows "\<exists>k. classify_video payload = Inr k \<and> (k = VideoSequenceHeader \<longleftrightarrow> cacheable_video payload) \<and> k \<noteq> AudioSequenceHeader"
proof (cases "payload = [] \<or> is_video_command payload")
  case True
  then show ?thesis
    by (auto simp: classify_video_def cacheable_video_def is_multitrack_container_def is_video_command_def parse_or_def
        exvideo_parse_def op_simps)
next
  case False
  show ?thesis
  proof (cases "is_multitrack_container FVideo payload")
    case True
    then show ?thesis using False classify_multitrack_exact [OF assms True]
      by (auto simp: classify_video_def cacheable_video_def)
  next
    case single: False
    show ?thesis
    proof (cases "payload ! 0 AND 0x80 = 0")
      case True
      obtain h where "exvideo_parse payload video_header_default = (Inr (), h)" "vh_is_ex_header h = 0"
        using exvideo_parse_legacy [of payload] False True by blast
      then have "classify_video payload = classify_legacy_video payload"
        using False single by (simp add: classify_video_def parse_or_def)
      then show ?thesis using classify_legacy_exact [OF _ assms] False single True by (auto simp: cacheable_video_def)
    next
      case ex: False
      have ne: "payload \<noteq> []" "drop_bit 4 (payload ! 0) AND 0x07 \<noteq> VIDEO_FRAME_TYPE_COMMAND"
        using False ex by (auto simp: is_video_command_def split: list.splits)
      from exvideo_parse_ex_cases [OF ne(1) ex ne(2), of video_header_default] show ?thesis
      proof (elim disjE conjE exE)
        fix e h assume "exvideo_parse payload video_header_default = (err e, h)" "length payload < 5"
        then show ?thesis using False single ex by (auto simp: classify_video_def parse_or_def cacheable_video_def)
      next
        fix e h assume "exvideo_parse payload video_header_default = (err e, h)" "exvideo_has_ct payload"
        then show ?thesis using False single ex
          by (auto simp: classify_video_def parse_or_def cacheable_video_def exvideo_has_ct_def)
      next
        assume len: "5 \<le> length payload" and p: "exvideo_parse payload video_header_default = (Inr (), exvideo_value payload)"
        then have "classify_video payload = classify_ex_video payload (exvideo_value payload)"
          using False single by (simp add: classify_video_def parse_or_def exvideo_value_def)
        then show ?thesis using classify_ex_exact [OF len assms] False single ex len by (auto simp: cacheable_video_def)
      qed
    qed
  qed
qed

lemma start_config_fourcc:
  assumes "5 \<le> length payload" "length payload \<le> USIZE_MAX"
  shows "sequence_start_config_valid FAudio (take 4 (drop 1 payload) @ [0]) (drop 5 payload) =
     Inr (start_grammar FAudio (take 4 (drop 1 payload)) (drop 5 payload))"
  using start_config_exact [of "take 4 (drop 1 payload) @ [0]" "drop 5 payload" FAudio] assms by simp

lemma classify_audio_single:
  assumes "payload \<noteq> []" "length payload \<le> USIZE_MAX"
  shows "\<exists>k. parse_or (Inr LiveOnly) (exaudio_parse payload) audio_header_default (\<lambda>hdr.
       if ah_is_ex_header hdr \<noteq> 0 then
         (if ah_packet_type hdr = ERTMP_PACKET_TYPE_MODEX then Inr LiveOnly
          else if ah_packet_type hdr = 0 then
            bindR (sequence_start_config_valid FAudio (ah_fourcc hdr) (rest_or_empty payload (ah_header_size hdr))) (\<lambda>ok.
              Inr (if ok then AudioSequenceHeader else LiveOnly))
          else Inr LiveOnly)
       else if ah_audio_codec hdr = AAac \<and> ah_aac_packet_type hdr = 0 \<and> length payload \<ge> 2 then
         bindR (bindR (subslice payload 2 (length payload)) validate_aac_config) (\<lambda>ok.
           Inr (if ok then AudioSequenceHeader else LiveOnly))
       else Inr LiveOnly) = Inr k \<and> (k = AudioSequenceHeader \<or> k = LiveOnly) \<and>
     (k = AudioSequenceHeader \<longleftrightarrow>
       (if drop_bit 4 (payload ! 0) AND 0x0F = 9
        then 5 \<le> length payload \<and> payload ! 0 AND 0x0F = 0 \<and> start_grammar FAudio (take 4 (drop 1 payload)) (drop 5 payload)
        else drop_bit 4 (payload ! 0) AND 0x0F = 10 \<and> 2 \<le> length payload \<and> payload ! 1 = 0 \<and> aac_grammar (drop 2 payload)))"
    (is "\<exists>k. parse_or _ _ _ ?f = Inr k \<and> _ k \<and> _ k")
proof (cases "drop_bit 4 (payload ! 0) AND 0x0F = 9")
  case ex: True
  show ?thesis
  proof (cases "5 \<le> length payload")
    case True
    have "parse_or (Inr LiveOnly) (exaudio_parse payload) audio_header_default ?f = ?f (exaudio_value payload)"
      by (simp add: parse_or_def exaudio_parse_ex [OF ex True])
    then show ?thesis
      using ex True start_config_fourcc [OF True assms(2)]
      by (simp add: exaudio_value_def ERTMP_PACKET_TYPE_MODEX_def rest_or_empty_eq)
  next
    case False
    then have "\<exists>h. exaudio_parse payload audio_header_default = (err EIo, h)"
      using assms(1) ex by (simp add: exaudio_parse_def op_simps Let_def)
    then show ?thesis using ex False by (auto simp: parse_or_def)
  qed
next
  case leg: False
  show ?thesis
  proof (cases "legacy_audio_codec (drop_bit 4 (payload ! 0) AND 0x0F)")
    case None
    obtain h where "exaudio_parse payload audio_header_default = (err EUnsupported, h)"
      using exaudio_parse_legacy(1) [OF assms(1) leg None, of audio_header_default]
      by (cases "exaudio_parse payload audio_header_default") simp
    moreover have "drop_bit 4 (payload ! 0) AND 0x0F \<noteq> 10" using None by (auto simp: legacy_audio_codec_def)
    ultimately show ?thesis using leg by (simp add: parse_or_def)
  next
    case (Some codec)
    obtain h where h: "exaudio_parse payload audio_header_default = (Inr (), h)" "ah_is_ex_header h = 0" "ah_audio_codec h = codec"
      "(ah_sample_rate h, ah_sample_size h, ah_channels h, ah_aac_packet_type h) = legacy_audio_fields payload codec"
      using exaudio_parse_legacy(2) [OF assms(1) leg Some, of audio_header_default] by (elim exE conjE) (rule that)
    have aac: "codec = AAac \<longleftrightarrow> drop_bit 4 (payload ! 0) AND 0x0F = 10"
      using Some by (auto simp: legacy_audio_codec_def split: if_splits)
    have "parse_or (Inr LiveOnly) (exaudio_parse payload) audio_header_default ?f = ?f h"
      by (simp add: parse_or_def h(1))
    then show ?thesis
      using h(2-4) aac leg
      by (auto simp: legacy_audio_fields_def subslice_from validate_aac_exact)
  qed
qed

lemma classify_audio_exact:
  assumes "length payload \<le> USIZE_MAX"
  shows "\<exists>k. classify_audio payload = Inr k \<and> (k = AudioSequenceHeader \<longleftrightarrow> cacheable_audio payload) \<and>
     (k = AudioSequenceHeader \<or> k = LiveOnly)"
proof (cases "payload = []")
  case True
  then show ?thesis
    by (simp add: classify_audio_def cacheable_audio_def is_multitrack_container_def parse_or_def exaudio_parse_def op_simps)
next
  case False
  note single = classify_audio_single [OF False assms]
  show ?thesis
  proof (cases "is_multitrack_container FAudio payload")
    case True
    then have nib: "payload ! 0 AND 0x0F \<noteq> 0" "drop_bit 4 (payload ! 0) AND 0x0F = 9"
      by (auto simp: is_multitrack_container_def ERTMP_AUDIO_PACKET_TYPE_MULTITRACK_def split: if_splits)
    obtain b where b: "multitrack_has_sequence_start FAudio payload = Inr b"
      "if b then multitrack_sequence_configs_valid FAudio payload = Inr (multitrack_start FAudio payload)
       else \<not> multitrack_start FAudio payload"
      using has_start_eq [OF assms True] by (elim exE conjE) (rule that)
    show ?thesis
    proof (cases b)
      case yes: True
      then show ?thesis using b True False by (simp add: classify_audio_def cacheable_audio_def)
    next
      case no: False
      from single show ?thesis
        unfolding classify_audio_def if_P [OF True] b(1) bindR_simps using no b(2) True nib
        by (elim exE conjE) (simp add: cacheable_audio_def)
    qed
  next
    case no: False
    from single show ?thesis
      unfolding classify_audio_def if_not_P [OF no] bindR_simps cacheable_audio_def using False no
      by (elim exE conjE) simp
  qed
qed

section \<open>No panic in the hints\<close>

lemma exvideo_parse_total: "fst (exvideo_parse payload h0) \<noteq> panic"
proof (cases "payload = []")
  case True
  then show ?thesis by (simp add: exvideo_parse_def op_simps)
next
  case ne: False
  show ?thesis
  proof (cases "payload ! 0 AND 0x80 = 0")
    case True
    then show ?thesis using exvideo_parse_legacy [OF ne True, of h0] by auto
  next
    case ex: False
    let ?h = "video_header_default\<lparr>vh_is_ex_header := 1, vh_frame_type := drop_bit 4 (payload ! 0) AND 0x07,
       vh_packet_type := payload ! 0 AND 0x0F\<rparr>"
    have "fst (exvideo_fourcc payload (payload ! 0 AND 0x0F) ?h) \<noteq> panic"
    proof (cases "5 \<le> length payload")
      case True
      have "vh_fourcc ?h = four_cc_default" by (simp add: video_header_default_def)
      from exvideo_fourcc_eq [OF True this] show ?thesis by (simp add: Let_def)
    qed (simp add: exvideo_fourcc_def)
    then show ?thesis using ne ex by (simp add: exvideo_parse_def op_simps Let_def)
  qed
qed

lemma exaudio_parse_total: "fst (exaudio_parse payload h0) \<noteq> panic"
proof (cases "payload = []")
  case True
  then show ?thesis by (simp add: exaudio_parse_def op_simps)
next
  case ne: False
  show ?thesis
  proof (cases "drop_bit 4 (payload ! 0) AND 0x0F = 9")
    case True
    then show ?thesis using exaudio_parse_ex [OF True, of h0] ne
      by (cases "5 \<le> length payload") (simp_all, simp add: exaudio_parse_def op_simps Let_def)
  next
    case False
    then show ?thesis using exaudio_parse_legacy(1) [OF ne False, where ?h0.0 = h0] exaudio_parse_legacy(2) [OF ne False, where ?h0.0 = h0]
      by (cases "legacy_audio_codec (drop_bit 4 (payload ! 0) AND 0x0F)") auto
  qed
qed

lemma parse_or_total:
  assumes "fst (p h0) \<noteq> panic" "\<exists>x. d = Inr x" "\<And>h. \<exists>x. f h = Inr x"
  shows "\<exists>x. parse_or d p h0 f = Inr x"
proof (cases "p h0")
  case (Pair r h)
  then show ?thesis using assms
    by (cases r) (auto simp: parse_or_def split: failure.splits)
qed

lemma foreach_total:
  assumes "length payload \<le> USIZE_MAX"
  shows "\<exists>ok s'. foreach_track ft payload visit s = (Inr ok, s')"
proof (cases "\<exists>c. wf_container c \<and> payload = encode_container c \<and> is_multitrack_container ft payload")
  case True
  then obtain c where "wf_container c" "payload = encode_container c" "is_multitrack_container ft payload" by blast
  then have "foreach_track ft payload visit s = (Inr True, fold visit (track_slices ft c) s)"
    using assms foreach_encode [of c ft visit s] by simp
  then show ?thesis by blast
next
  case False
  then show ?thesis using foreach_other [OF assms False, of visit s] by blast
qed

lemma has_metadata_total: "length payload \<le> USIZE_MAX \<Longrightarrow> \<exists>b. multitrack_has_metadata ft payload = Inr b"
proof -
  assume len: "length payload \<le> USIZE_MAX"
  have "\<exists>b. (case foreach_track ft payload (\<lambda>track found. found \<or> ts_packet_type track = k) False of
       (Inr valid, found) \<Rightarrow> Inr (valid \<and> found) | (Inl e, _) \<Rightarrow> Inl e) = (Inr b :: bool result)" for k
    using foreach_total [OF len, of ft "\<lambda>track found. found \<or> ts_packet_type track = k" False] by auto
  then show ?thesis by (cases ft) (auto simp: multitrack_has_metadata_def)
qed

lemma enhanced_tests_total:
  assumes "length payload \<le> USIZE_MAX"
  shows "\<exists>b. is_enhanced_video_metadata payload = Inr b" "\<exists>b. is_enhanced_audio_metadata payload = Inr b"
    and "\<exists>b. is_enhanced_audio_multichannel payload = Inr b"
proof -
  have a: "\<exists>b. ex_audio_packet_is k payload = Inr b" for k
    unfolding ex_audio_packet_is_def by (cases payload) (auto intro!: parse_or_total exaudio_parse_total)
  have v: "\<exists>b. (case payload of [] \<Rightarrow> Inr False | b0 # _ \<Rightarrow> if b0 AND 0x80 = 0 then Inr False
      else parse_or (Inr False) (exvideo_parse payload) video_header_default (\<lambda>hdr.
        Inr (vh_is_ex_header hdr \<noteq> 0 \<and> vh_packet_type hdr = ERTMP_PACKET_TYPE_METADATA))) = Inr b"
    by (cases payload) (auto intro!: parse_or_total exvideo_parse_total)
  show "\<exists>b. is_enhanced_video_metadata payload = Inr b"
    using v has_metadata_total [OF assms, of FVideo] unfolding is_enhanced_video_metadata_def by (simp split: if_split)
  show "\<exists>b. is_enhanced_audio_metadata payload = Inr b"
    using a has_metadata_total [OF assms, of FAudio] unfolding is_enhanced_audio_metadata_def by (simp split: if_split)
  show "\<exists>b. is_enhanced_audio_multichannel payload = Inr b"
    using a foreach_total [OF assms, of FAudio "\<lambda>track found. found \<or> ts_packet_type track = ERTMP_AUDIO_PACKET_TYPE_MULTICHANNEL" False]
    unfolding is_enhanced_audio_multichannel_def by (auto split: if_split)
qed

lemma classify_total: "length payload \<le> USIZE_MAX \<Longrightarrow> \<exists>k. classify_cache_frame ft payload = Inr k"
  using classify_video_exact [of payload] classify_audio_exact [of payload] by (cases ft) auto

section \<open>Properties\<close>

text \<open>C33: the init cache stores exactly the frames that carry a well-formed decoder configuration. Classification ends
  without a panic on every payload. A frame is a video (audio) sequence header if and only if it is a video (audio) frame
  whose legacy tag, enhanced tag or multitrack container announces a sequence start and whose configuration record is in the
  grammar of its codec, in a container for every track; so a malformed header never replaces a cached one. Only video
  frames are keyframes, and script data is never cached this way.\<close>

theorem cache_classification_exact:
  assumes "length payload \<le> USIZE_MAX"
  shows "\<exists>k. classify_cache_frame ft payload = Inr k \<and>
     (k = VideoSequenceHeader \<longleftrightarrow> ft = FVideo \<and> cacheable_video payload) \<and>
     (k = AudioSequenceHeader \<longleftrightarrow> ft = FAudio \<and> cacheable_audio payload) \<and>
     (k = VideoKeyframe \<longrightarrow> ft = FVideo)"
  using classify_video_exact [OF assms] classify_audio_exact [OF assms] by (cases ft) auto

lemma cache_classification_exact_witness:
  "\<exists>k. classify_cache_frame FAudio [0xAF, 0, 0x12, 0x10] = Inr k \<and> (k = AudioSequenceHeader \<longleftrightarrow> cacheable_audio [0xAF, 0, 0x12, 0x10])"
proof -
  have "length ([0xAF, 0, 0x12, 0x10] :: bytes) \<le> USIZE_MAX" by (simp add: USIZE_MAX_def)
  from cache_classification_exact [OF this, of FAudio] show ?thesis by blast
qed



end
