(* ===== verification/Buffer_Scan.thy ===== *)
theory Buffer_Scan
  imports Amf0
begin

text \<open>
  Readers that also fill a caller's structure (\<open>fn read_x(buf: &mut Buffer, out: &mut T)\<close>) are
  operations on the pair of the buffer and the structure. Several of them try a reading, and on
  failure put the read cursor back (\<open>buf.set_read_pos(saved)\<close>) and skip the value instead, so what
  matters of a reader is that it moves the read cursor and nothing else of the buffer:
  \<^item> \<open>scan m Q\<close>: on every input \<open>m\<close> does not panic, moves only the cursor, forwards and within the
    data, and its value satisfies \<open>Q\<close>;
  \<^item> \<open>walks I m Q\<close>: the same of an operation on the pair, with an invariant \<open>I\<close> of the structure kept
    on every path, errors included;
  \<^item> \<open>fills m s bs x s'\<close>: on a buffer that starts with \<open>bs\<close>, the operation consumes exactly these
    bytes, returns \<open>x\<close> and turns the structure \<open>s\<close> into \<open>s'\<close>.
\<close>

section \<open>Operations on a part of the pair\<close>

definition inB :: "(buffer, 'a) op \<Rightarrow> (buffer \<times> 'o, 'a) op" where
  "inB m = zoomS fst (\<lambda>b s. (b, snd s)) m"

definition inO :: "('o, 'a) op \<Rightarrow> (buffer \<times> 'o, 'a) op" where
  "inO m = zoomS snd (\<lambda>x s. (fst s, x)) m"

text \<open>An operation on the buffer and a field of the structure.\<close>

definition inF :: "('t \<Rightarrow> 'o) \<Rightarrow> ('o \<Rightarrow> 't \<Rightarrow> 't) \<Rightarrow> (buffer \<times> 'o, 'a) op \<Rightarrow> (buffer \<times> 't, 'a) op" where
  "inF get_f put_f m = zoomS (\<lambda>(b, t). (b, get_f t)) (\<lambda>(b, x) (_, t). (b, put_f x t)) m"

text \<open>\<open>if m.is_err() { handler }\<close>: a returned error is handled, a panic is not caught.\<close>

definition orElseS :: "('s, 'a) op \<Rightarrow> ('s, 'a) op \<Rightarrow> ('s, 'a) op" where
  "orElseS m h = (\<lambda>s. case m s of (Inl (Err _), s') \<Rightarrow> h s' | (r, s') \<Rightarrow> (r, s'))"

lemma part_apply [simp]:
  "inB m (b, x) = (case m b of (r, b') \<Rightarrow> (r, (b', x)))"
  "inO n (b, x) = (case n x of (r, x') \<Rightarrow> (r, (b, x')))"
  "inF g p k (b, t) = (case k (b, g t) of (r, (b', x')) \<Rightarrow> (r, (b', p x' t)))"
  by (simp_all add: inB_def inO_def inF_def zoomS_def split: prod.splits)

section \<open>Scanning\<close>

text \<open>\<open>ahead b b'\<close>: the same buffer with the read cursor at the same place or further on.\<close>

definition ahead :: "buffer \<Rightarrow> buffer \<Rightarrow> bool" where
  "ahead b b' \<longleftrightarrow> buf_rpos b \<le> buf_rpos b' \<and> buf_rpos b' \<le> buf_size b \<and> b' = b\<lparr>buf_rpos := buf_rpos b'\<rparr>"

text \<open>The general judgement, for a state \<open>s\<close> whose buffer is \<open>bf s\<close>.\<close>

definition moves :: "('s \<Rightarrow> buffer) \<Rightarrow> ('s \<Rightarrow> bool) \<Rightarrow> ('s, 'a) op \<Rightarrow> ('a \<Rightarrow> bool) \<Rightarrow> bool" where
  "moves bf I m Q \<longleftrightarrow> (\<forall>s. buf_inv (bf s) \<longrightarrow> I s \<longrightarrow>
     fst (m s) \<noteq> panic \<and> ahead (bf s) (bf (snd (m s))) \<and> I (snd (m s)) \<and> (\<forall>x. fst (m s) = Inr x \<longrightarrow> Q x))"

abbreviation scan :: "(buffer, 'a) op \<Rightarrow> ('a \<Rightarrow> bool) \<Rightarrow> bool" where
  "scan \<equiv> moves (\<lambda>b. b) (\<lambda>_. True)"

abbreviation walks :: "('o \<Rightarrow> bool) \<Rightarrow> (buffer \<times> 'o, 'a) op \<Rightarrow> ('a \<Rightarrow> bool) \<Rightarrow> bool" where
  "walks I \<equiv> moves fst (\<lambda>s. I (snd s))"

subsection \<open>The cursor\<close>

lemma ahead_refl: "buf_inv b \<Longrightarrow> ahead b b"
  by (simp add: ahead_def buf_inv_def)

lemma ahead_trans: "ahead a b \<Longrightarrow> ahead b c \<Longrightarrow> ahead a c"
  unfolding ahead_def by (metis buffer.surjective buffer.update_convs(3) buffer.ext_inject le_trans)

lemma ahead_inv: "buf_inv b \<Longrightarrow> ahead b b' \<Longrightarrow> buf_inv b'"
  unfolding ahead_def buf_inv_def by (metis buffer.ext_inject buffer.surjective buffer.update_convs(3))

lemma ahead_contents:
  assumes "buf_inv b" "ahead b b'"
  shows "contents b' = drop (buf_rpos b' - buf_rpos b) (contents b)"
proof -
  obtain p where "b' = b\<lparr>buf_rpos := p\<rparr>" "buf_rpos b \<le> p" "p \<le> buf_size b"
    using assms(2) unfolding ahead_def by metis
  then show ?thesis by (simp add: contents_def drop_take)
qed

lemma ahead_rewind: "buf_inv b \<Longrightarrow> ahead b b' \<Longrightarrow> buf_set_read_pos (buf_rpos b) b' = b"
  unfolding ahead_def buf_set_read_pos_def buf_inv_def
  by (metis buffer.surjective buffer.update_convs(3) buffer.ext_inject min.absorb1)

lemma ahead_drain: "buf_inv b \<Longrightarrow> ahead b (buf_drain n b)"
  by (auto simp: ahead_def buf_drain_def buf_available_def buf_inv_def)

subsection \<open>Composing scanners\<close>

lemma movesD:
  assumes "moves bf I m Q" "buf_inv (bf s)" "I s"
  shows "fst (m s) \<noteq> panic" "ahead (bf s) (bf (snd (m s)))" "I (snd (m s))" "fst (m s) = Inr x \<Longrightarrow> Q x"
    "buf_inv (bf (snd (m s)))"
  using assms ahead_inv [OF assms(2)] unfolding moves_def by blast+

lemma moves_mono: "moves bf I m Q \<Longrightarrow> (\<And>x. Q x \<Longrightarrow> R x) \<Longrightarrow> moves bf I m R"
  unfolding moves_def by blast

lemma moves_any: "moves bf I m Q \<Longrightarrow> moves bf I m (\<lambda>_. True)"
  by (rule moves_mono) simp_all

lemma moves_bind:
  assumes m: "moves bf I m Q" and f: "\<And>x. Q x \<Longrightarrow> moves bf I (f x) R"
  shows "moves bf I (bindS m f) R"
  unfolding moves_def
proof (intro allI impI)
  fix s assume s: "buf_inv (bf s)" "I s"
  note ms = movesD [OF m s]
  show "fst (bindS m f s) \<noteq> panic \<and> ahead (bf s) (bf (snd (bindS m f s))) \<and> I (snd (bindS m f s)) \<and>
      (\<forall>x. fst (bindS m f s) = Inr x \<longrightarrow> R x)"
  proof (cases "m s")
    case (Pair r s')
    show ?thesis
    proof (cases r)
      case (Inl e)
      with ms Pair show ?thesis by (simp add: bindS_def)
    next
      case (Inr x)
      with ms(4) Pair have "moves bf I (f x) R" by (intro f) simp
      moreover have "buf_inv (bf s')" "I s'" "ahead (bf s) (bf s')" using ms Pair by simp_all
      ultimately show ?thesis
        using movesD [of bf I "f x" R s'] ahead_trans Inr Pair by (simp add: bindS_def)
    qed
  qed
qed

lemma moves_then: "moves bf I m Q \<Longrightarrow> moves bf I n R \<Longrightarrow> moves bf I (thenS m n) R"
  unfolding thenS_def by (rule moves_bind)

lemma moves_ret: "Q x \<Longrightarrow> moves bf I (retS x) Q"
  by (simp add: moves_def ahead_refl)

lemma moves_fail: "e \<noteq> Panic \<Longrightarrow> moves bf I (failS e) Q"
  by (simp add: moves_def ahead_refl)

lemma moves_lift: "r \<noteq> panic \<Longrightarrow> (\<And>x. r = Inr x \<Longrightarrow> Q x) \<Longrightarrow> moves bf I (liftS r) Q"
  by (simp add: moves_def ahead_refl)

lemma moves_get: "(\<And>s. I s \<Longrightarrow> Q (f s)) \<Longrightarrow> moves bf I (getS f) Q"
  by (simp add: moves_def ahead_refl)

lemma moves_void: "moves bf I m Q \<Longrightarrow> R () \<Longrightarrow> moves bf I (voidS m) R"
  unfolding voidS_def by (erule moves_bind) (rule moves_ret)

lemma moves_map_err: "moves bf I m Q \<Longrightarrow> moves bf I (map_errS e m) Q"
  by (auto simp: moves_def map_errS_def split: prod.splits)

lemma moves_if: "(c \<Longrightarrow> moves bf I m Q) \<Longrightarrow> (\<not> c \<Longrightarrow> moves bf I n Q) \<Longrightarrow> moves bf I (if c then m else n) Q"
  by simp

lemma scan_read: "scan (buf_read n) (\<lambda>d. length d = n)"
  by (auto simp: moves_def buf_read_def buf_inv_def ahead_def)

lemma scan_drain: "Q () \<Longrightarrow> scan (modS (buf_drain n)) Q"
  by (simp add: moves_def ahead_drain)

lemma walks_inB: "scan m Q \<Longrightarrow> walks I (inB m) Q"
  unfolding moves_def by (auto split: prod.splits)

lemma walks_inO:
  assumes "\<And>x. I x \<Longrightarrow> fst (m x) \<noteq> panic \<and> I (snd (m x)) \<and> (\<forall>y. fst (m x) = Inr y \<longrightarrow> Q y)"
  shows "walks I (inO m) Q"
  using assms unfolding moves_def by (simp add: ahead_refl case_prod_beta split_paired_all)

text \<open>An operation on the structure alone.\<close>

abbreviation keeps :: "('o \<Rightarrow> bool) \<Rightarrow> ('o, 'a) op \<Rightarrow> ('a \<Rightarrow> bool) \<Rightarrow> bool" where
  "keeps \<equiv> moves (\<lambda>_. buf_new)"

lemma keeps_iff:
  "keeps I m Q \<longleftrightarrow> (\<forall>x. I x \<longrightarrow> fst (m x) \<noteq> panic \<and> I (snd (m x)) \<and> (\<forall>y. fst (m x) = Inr y \<longrightarrow> Q y))"
  by (simp add: moves_def ahead_refl)

lemma walks_keeps: "keeps I m Q \<Longrightarrow> walks I (inO m) Q"
  by (rule walks_inO) (simp add: keeps_iff)

lemma keeps_mod: "(\<And>x. I x \<Longrightarrow> I (f x)) \<Longrightarrow> Q () \<Longrightarrow> keeps I (modS f) Q"
  by (simp add: keeps_iff)

lemma walks_inF:
  assumes "walks J m Q" "\<And>t. I t \<Longrightarrow> J (get_f t)" "\<And>x t. I t \<Longrightarrow> J x \<Longrightarrow> I (put_f x t)"
  shows "walks I (inF get_f put_f m) Q"
  using assms unfolding moves_def by (simp add: case_prod_beta split_paired_all) blast

text \<open>Try, and on an error put the cursor back and do something else with the value.\<close>

definition orRewindS :: "(buffer \<times> 'o, 'a) op \<Rightarrow> (buffer, 'a) op \<Rightarrow> (buffer \<times> 'o, 'a) op" where
  "orRewindS m h = bindS (getS (\<lambda>s. buf_rpos (fst s))) (\<lambda>pos.
     orElseS m (thenS (inB (modS (buf_set_read_pos pos))) (inB h)))"

lemma orRewindS_ok: "m s = (Inr x, s') \<Longrightarrow> orRewindS m h s = (Inr x, s')"
  by (simp add: orRewindS_def orElseS_def bindS_def)

lemma walks_orRewind:
  assumes m: "walks I m Q" and h: "scan h Q"
  shows "walks I (orRewindS m h) Q"
  unfolding moves_def
proof (intro allI impI)
  fix s assume s: "buf_inv (fst s)" "I (snd s)"
  note ms = movesD [OF m s]
  note hs = movesD [OF h s(1) TrueI]
  show "fst (orRewindS m h s) \<noteq> panic \<and> ahead (fst s) (fst (snd (orRewindS m h s))) \<and>
      I (snd (snd (orRewindS m h s))) \<and> (\<forall>x. fst (orRewindS m h s) = Inr x \<longrightarrow> Q x)"
  proof (cases "\<exists>e. fst (m s) = err e")
    case True
    obtain r b o' where r: "m s = (r, (b, o'))" by (metis surj_pair)
    have "buf_set_read_pos (buf_rpos (fst s)) b = fst s" using ahead_rewind [OF s(1)] ms(2) r by simp
    with True r have "orRewindS m h s = (case h (fst s) of (r, b') \<Rightarrow> (r, (b', o')))"
      by (auto simp: orRewindS_def orElseS_def bindS_def thenS_def)
    with hs ms(3) r show ?thesis by (auto simp: case_prod_beta)
  next
    case False
    then have "orRewindS m h s = m s"
      by (auto simp: orRewindS_def orElseS_def bindS_def split: prod.splits sum.splits failure.splits)
    with ms show ?thesis by auto
  qed
qed

lemmas moves_intros = moves_bind moves_then moves_void moves_map_err moves_if moves_fail moves_ret moves_get
  moves_lift scan_read walks_inB

section \<open>The AMF0 readers scan\<close>

lemma scan_amf0_fixed:
  "scan amf0_read_u8 (\<lambda>_. True)" "scan amf0_read_u16 (\<lambda>_. True)" "scan amf0_read_u32 (\<lambda>_. True)"
  "scan amf0_read_double (\<lambda>_. True)"
  unfolding amf0_read_u8_def amf0_read_u16_def amf0_read_u32_def amf0_read_double_def
  by (rule moves_bind [OF moves_map_err [OF scan_read]], rule moves_lift,
      auto simp: u64_of_be_def idx_def)+

lemma scan_amf0_read_type: "scan amf0_read_type (\<lambda>_. True)"
  unfolding amf0_read_type_def
  by (rule moves_bind [OF scan_amf0_fixed(1)]) (auto intro!: moves_intros split: option.split)

lemma scan_amf0_skip_bytes: "scan (amf0_skip_bytes n) (\<lambda>_. True)"
  unfolding amf0_skip_bytes_def
  by (rule moves_bind [OF moves_get [of _ "\<lambda>_. True"]]) (auto intro!: moves_intros scan_drain)

lemma scan_is_object_end: "scan amf0_is_object_end (\<lambda>_. True)"
  by (simp add: moves_def is_object_end_apply ahead_refl)

lemma scan_amf0_read_into:
  assumes "n < length out"
  shows "scan (amf0_read_into e out n) (\<lambda>(k, o'). k = n \<and> length o' = length out)"
  unfolding amf0_read_into_def
proof (rule moves_bind [OF moves_lift [of _ "\<lambda>_. True"]], goal_cases)
  case 3
  show ?case
  proof (rule moves_bind [OF moves_map_err [OF scan_read]])
    fix d :: bytes assume d: "length d = n"
    have "bindR (copy_at out 0 d) (\<lambda>out. set_idx out n 0) = Inr ((d @ drop n out)[n := 0])"
      using d assms by simp
    then show "scan (bindS (liftS (bindR (copy_at out 0 d) (\<lambda>out. set_idx out n 0))) (\<lambda>out. retS (n, out)))
        (\<lambda>(k, o'). k = n \<and> length o' = length out)"
      using d assms by (simp add: moves_def bindS_def ahead_refl)
  qed
qed (use assms in simp_all)

lemma scan_amf0_strings:
  "scan (amf0_read_string out) (\<lambda>(k, o'). k < length out \<and> length o' = length out)"
  "scan (amf0_read_object_key out) (\<lambda>(k, o'). k < length out \<and> length o' = length out)"
  unfolding amf0_read_string_def amf0_read_object_key_def
  by (intro moves_bind [OF scan_amf0_fixed(1)] moves_bind [OF scan_amf0_fixed(2)] moves_if moves_fail
      moves_mono [OF scan_amf0_read_into]; auto)+

lemma scan_amf0_scalars:
  "scan amf0_read_number (\<lambda>_. True)" "scan amf0_read_boolean (\<lambda>_. True)"
  "scan amf0_read_string_alloc (\<lambda>_. True)" "scan amf0_read_object_begin (\<lambda>_. True)"
  unfolding amf0_read_number_def amf0_read_boolean_def amf0_read_string_alloc_def amf0_read_object_begin_def
  by (intro scan_amf0_fixed moves_bind [OF scan_amf0_fixed(1)] moves_bind [OF scan_amf0_fixed(2)]
      moves_bind [OF moves_map_err [OF scan_read]] moves_intros; simp)+

lemma scan_skip_items: "(\<And>ty. scan (f ty) (\<lambda>_. True)) \<Longrightarrow> scan (amf0_skip_items f n) (\<lambda>_. True)"
  by (induction n) (auto intro!: moves_ret moves_then moves_bind [OF scan_amf0_read_type])

lemma scan_object_end: "scan (voidS (map_errS e (buf_read 3))) (\<lambda>_. True)"
  by (rule moves_void [OF moves_map_err [OF scan_read]]) simp

lemma scan_skip_members: "(\<And>ty. scan (f ty) (\<lambda>_. True)) \<Longrightarrow> scan (amf0_skip_members f n) (\<lambda>_. True)"
  by (induction n) (auto intro!: moves_bind [OF scan_is_object_end] scan_object_end moves_fail moves_if
      moves_bind [OF scan_amf0_fixed(2)] moves_then [OF scan_amf0_skip_bytes] moves_bind [OF scan_amf0_read_type]
      moves_then)

lemma scan_skip_value_depth: "scan (amf0_skip_value_depth depth ty) (\<lambda>_. True)"
proof (induction "MAX_SKIP_DEPTH - depth" arbitrary: depth ty rule: less_induct)
  case less
  note base = moves_ret moves_fail moves_void [OF scan_amf0_fixed(4)] moves_void [OF scan_amf0_fixed(1)]
    moves_bind [OF scan_amf0_fixed(2)] moves_bind [OF scan_amf0_fixed(3)] scan_amf0_skip_bytes
    moves_then [OF scan_amf0_fixed(3)] moves_then [OF scan_amf0_skip_bytes] moves_if
  show ?case
  proof (cases "depth \<ge> MAX_SKIP_DEPTH")
    case True
    then show ?thesis
      by (subst amf0_skip_value_depth.simps) (cases ty, auto intro!: base)
  next
    case False
    then have "scan (amf0_skip_value_depth (Suc depth) c) (\<lambda>_. True)" for c
      by (intro less) simp
    note items = scan_skip_items [OF this] and members = scan_skip_members [OF this]
    show ?thesis
      by (subst amf0_skip_value_depth.simps) (cases ty, auto intro!: base items members)
  qed
qed

lemma scan_skip_value: "scan amf0_skip_value (\<lambda>_. True)"
  unfolding amf0_skip_value_def by (rule moves_bind [OF scan_amf0_read_type]) (rule scan_skip_value_depth)

lemmas scan_amf0 = scan_amf0_fixed scan_amf0_read_type scan_is_object_end scan_amf0_strings scan_amf0_scalars
  scan_object_end scan_skip_value scan_skip_value_depth

section \<open>Filling a structure\<close>

definition fills :: "(buffer \<times> 'o, 'a) op \<Rightarrow> 'o \<Rightarrow> bytes \<Rightarrow> 'a \<Rightarrow> 'o \<Rightarrow> bool" where
  "fills m x bs v x' \<longleftrightarrow> (\<forall>b rest. buf_inv b \<longrightarrow> contents b = bs @ rest \<longrightarrow>
     (\<exists>b'. m (b, x) = (Inr v, (b', x')) \<and> buf_inv b' \<and> contents b' = rest))"

lemma fillsE:
  assumes "fills m x bs v x'" "buf_inv b" "contents b = bs @ rest"
  obtains b' where "m (b, x) = (Inr v, (b', x'))" "buf_inv b'" "contents b' = rest"
  using assms unfolding fills_def by blast

lemma fills_inB: "bq.parses m bs v \<Longrightarrow> fills (inB m) x bs v x"
  unfolding fills_def bq.parses_def by fastforce

lemma fills_inO: "m x = (Inr v, x') \<Longrightarrow> fills (inO m) x [] v x'"
  by (simp add: fills_def)

lemma fills_ret: "fills (retS v) x [] v x"
  by (simp add: fills_def)

lemma fills_bind:
  assumes m: "fills m x bs v x1" and f: "fills (f v) x1 cs w x2"
  shows "fills (bindS m f) x (bs @ cs) w x2"
  unfolding fills_def
proof (intro allI impI)
  fix b rest assume b: "buf_inv b" "contents b = (bs @ cs) @ rest"
  then have "contents b = bs @ cs @ rest" by simp
  from m b(1) this obtain b1 where 1: "m (b, x) = (Inr v, (b1, x1))" "buf_inv b1" "contents b1 = cs @ rest"
    by (rule fillsE)
  from f 1(2,3) obtain b2 where "f v (b1, x1) = (Inr w, (b2, x2))" "buf_inv b2" "contents b2 = rest" by (rule fillsE)
  with 1 show "\<exists>b'. bindS m f (b, x) = (Inr w, b', x2) \<and> buf_inv b' \<and> contents b' = rest" by simp
qed

lemma fills_then: "fills m x bs v x1 \<Longrightarrow> fills n x1 cs w x2 \<Longrightarrow> fills (thenS m n) x (bs @ cs) w x2"
  unfolding thenS_def by (rule fills_bind)

lemma fills_inF: "fills m (g t) bs v x' \<Longrightarrow> fills (inF g p m) t bs v (p x' t)"
  unfolding fills_def by fastforce

lemma fills_orRewind: "fills m x bs v x' \<Longrightarrow> fills (orRewindS m h) x bs v x'"
  unfolding fills_def by (metis orRewindS_ok)

text \<open>A value is looked at, and the bytes stay where they are.\<close>

lemma fills_look:
  assumes "\<And>b rest. buf_inv b \<Longrightarrow> contents b = bs @ rest \<Longrightarrow> m b = (Inr v, b)" and "fills (f v) x bs w x'"
  shows "fills (bindS (inB m) f) x bs w x'"
  using assms unfolding fills_def by fastforce

end
