(* ===== verification/F64.thy ===== *)
theory F64
  imports Rtmp_Types
begin

text \<open>
  The double arithmetic the AMF readers and writers use, on the bit pattern of the \<open>f64\<close>: sign,
  eleven bits of exponent, fifty-two bits of fraction. Only what the code asks of a number is
  here: is it finite, is it negative, has it a fractional part, is it above \<open>u32::MAX\<close>, and the
  casts to and from 32-bit integers (\<open>as u32\<close> and \<open>as i32\<close> truncate and saturate, NaN is zero).
  The lemmas show that a 32-bit integer survives the way to a double and back.
\<close>

section \<open>Fields\<close>

definition f64_exp :: "f64 \<Rightarrow> nat" where
  "f64_exp w = unat w div 2 ^ 52 mod 2 ^ 11"

definition f64_frac :: "f64 \<Rightarrow> nat" where
  "f64_frac w = unat w mod 2 ^ 52"

definition f64_neg :: "f64 \<Rightarrow> bool" where
  "f64_neg w \<longleftrightarrow> 2 ^ 63 \<le> unat w"

section \<open>Tests\<close>

definition f64_is_finite :: "f64 \<Rightarrow> bool" where
  "f64_is_finite w \<longleftrightarrow> f64_exp w \<noteq> 2047"

definition f64_is_nan :: "f64 \<Rightarrow> bool" where
  "f64_is_nan w \<longleftrightarrow> f64_exp w = 2047 \<and> f64_frac w \<noteq> 0"

text \<open>\<open>w < 0.0\<close>: the negative zero and the NaNs are not below zero.\<close>

definition f64_lt_zero :: "f64 \<Rightarrow> bool" where
  "f64_lt_zero w \<longleftrightarrow> f64_neg w \<and> unat w \<noteq> 2 ^ 63 \<and> \<not> f64_is_nan w"

text \<open>The magnitude of a finite number rounded towards zero, and whether nothing is cut off.\<close>

definition f64_trunc :: "f64 \<Rightarrow> nat" where
  "f64_trunc w =
     (if f64_exp w = 0 then 0
      else if 1075 \<le> f64_exp w then (2 ^ 52 + f64_frac w) * 2 ^ (f64_exp w - 1075)
      else (2 ^ 52 + f64_frac w) div 2 ^ (1075 - f64_exp w))"

definition f64_is_whole :: "f64 \<Rightarrow> bool" where
  "f64_is_whole w \<longleftrightarrow>
     (if f64_exp w = 0 then f64_frac w = 0
      else 1075 \<le> f64_exp w \<or> (2 ^ 52 + f64_frac w) mod 2 ^ (1075 - f64_exp w) = 0)"

text \<open>\<open>!v.is_finite() || v < 0.0 || v > u32::MAX as f64\<close>\<close>

definition f64_outside_u32 :: "f64 \<Rightarrow> bool" where
  "f64_outside_u32 w \<longleftrightarrow> \<not> f64_is_finite w \<or> f64_lt_zero w \<or>
     (\<not> f64_neg w \<and> (2 ^ 32 \<le> f64_trunc w \<or> f64_trunc w = 2 ^ 32 - 1 \<and> \<not> f64_is_whole w))"

section \<open>Casts\<close>

definition f64_to_u32 :: "f64 \<Rightarrow> u32" where
  "f64_to_u32 w =
     (if f64_is_nan w \<or> f64_neg w then 0
      else if \<not> f64_is_finite w then 0xFFFFFFFF
      else of_nat (min (f64_trunc w) (2 ^ 32 - 1)))"

definition f64_to_i32 :: "f64 \<Rightarrow> i32" where
  "f64_to_i32 w =
     (if f64_is_nan w then 0
      else if \<not> f64_is_finite w then (if f64_neg w then 0x80000000 else 0x7FFFFFFF)
      else if f64_neg w then - of_nat (min (f64_trunc w) (2 ^ 31))
      else of_nat (min (f64_trunc w) (2 ^ 31 - 1)))"

fun top_bit :: "nat \<Rightarrow> nat" where
  "top_bit n = (if n < 2 then 0 else Suc (top_bit (n div 2)))"

declare top_bit.simps [simp del]

definition f64_of_nat :: "nat \<Rightarrow> f64" where
  "f64_of_nat n =
     (if n = 0 then 0
      else of_nat ((1023 + top_bit n) * 2 ^ 52 + (n * 2 ^ (52 - top_bit n) - 2 ^ 52)))"

definition u32_to_f64 :: "u32 \<Rightarrow> f64" where
  "u32_to_f64 n = f64_of_nat (unat n)"

text \<open>Adding the sign bit to a non-negative pattern sets it.\<close>

definition i32_to_f64 :: "i32 \<Rightarrow> f64" where
  "i32_to_f64 n =
     (if sint n < 0 then 0x8000000000000000 + f64_of_nat (nat (- sint n)) else f64_of_nat (nat (sint n)))"

section \<open>Small integers are exact\<close>

lemma top_bit_bounds: "0 < n \<Longrightarrow> 2 ^ top_bit n \<le> n \<and> n < 2 * 2 ^ top_bit n"
proof (induction n rule: top_bit.induct)
  case (1 n)
  show ?case
  proof (cases "n < 2")
    case True
    with 1(2) show ?thesis by (simp add: top_bit.simps [of n])
  next
    case False
    with 1(1) have "2 ^ top_bit (n div 2) \<le> n div 2" "n div 2 < 2 * 2 ^ top_bit (n div 2)" by auto
    with False show ?thesis by (simp add: top_bit.simps [of n]) linarith
  qed
qed

lemma top_bit_less:
  assumes "0 < n" "n < 2 ^ k" shows "top_bit n < k"
proof -
  have "(2 :: nat) ^ top_bit n < 2 ^ k" using top_bit_bounds [OF assms(1)] assms(2) by linarith
  then show ?thesis by (rule power_less_imp_less_exp [rotated]) simp
qed

lemma unat_of_nat_small64: "m < 2 ^ 64 \<Longrightarrow> unat (of_nat m :: f64) = m"
  by (simp add: unat_of_nat take_bit_nat_eq_self)

lemma fields_div_mod: "(b :: nat) < m \<Longrightarrow> (a * m + b) div m = a" "(b :: nat) < m \<Longrightarrow> (a * m + b) mod m = b"
  by simp_all

text \<open>The fields of a positive integer below \<open>2 ^ 32\<close> as a double.\<close>

lemma f64_of_nat_fields:
  assumes "0 < n" "n < 2 ^ 33"
  defines "s \<equiv> n * 2 ^ (52 - top_bit n)"
  shows "unat (f64_of_nat n) = (1023 + top_bit n) * 2 ^ 52 + (s - 2 ^ 52)" "2 ^ 52 \<le> s" "s - 2 ^ 52 < 2 ^ 52"
proof -
  let ?k = "top_bit n"
  have k: "?k < 33" using assms by (intro top_bit_less)
  have e: "(2 :: nat) ^ ?k * 2 ^ (52 - ?k) = 2 ^ 52" using k by (simp flip: power_add)
  from top_bit_bounds [OF assms(1)]
  have "2 ^ ?k * 2 ^ (52 - ?k) \<le> s" "s < 2 * 2 ^ ?k * 2 ^ (52 - ?k)"
    unfolding s_def by (intro mult_le_mono mult_strict_right_mono; simp)+
  then show s: "2 ^ 52 \<le> s" "s - 2 ^ 52 < 2 ^ 52" using e by (simp_all add: mult.assoc)
  have "(1023 + ?k) * 2 ^ 52 + (s - 2 ^ 52) < 2 ^ 64"
  proof -
    have "(1023 + ?k) * 2 ^ 52 + (s - 2 ^ 52) < (1024 + ?k) * 2 ^ 52" using s(2) by simp
    also have "\<dots> \<le> 1056 * 2 ^ 52" using k by (intro mult_le_mono1) simp
    finally show ?thesis by simp
  qed
  then show "unat (f64_of_nat n) = (1023 + ?k) * 2 ^ 52 + (s - 2 ^ 52)"
    using assms(1) by (simp only: f64_of_nat_def s_def [symmetric] unat_of_nat_small64 if_False not_True_eq_False not_gr_zero [symmetric])
qed

lemma f64_of_nat_parts:
  assumes "0 < n" "n < 2 ^ 33"
  shows "f64_exp (f64_of_nat n) = 1023 + top_bit n"
    "2 ^ 52 + f64_frac (f64_of_nat n) = n * 2 ^ (52 - top_bit n)" "\<not> f64_neg (f64_of_nat n)"
proof -
  let ?k = "top_bit n" and ?s = "n * 2 ^ (52 - top_bit n)"
  note f = f64_of_nat_fields [OF assms]
  have k: "?k < 33" using assms by (intro top_bit_less)
  have "unat (f64_of_nat n) div 2 ^ 52 = 1023 + ?k"
    unfolding f(1) by (rule fields_div_mod(1) [OF f(3)])
  with k show "f64_exp (f64_of_nat n) = 1023 + ?k" by (simp add: f64_exp_def)
  show "2 ^ 52 + f64_frac (f64_of_nat n) = ?s"
    unfolding f64_frac_def f(1) fields_div_mod(2) [OF f(3)] using f(2) by (rule le_add_diff_inverse)
  have "unat (f64_of_nat n) < (1024 + ?k) * 2 ^ 52" using f by simp
  also have "\<dots> \<le> 1057 * 2 ^ 52" using k by (intro mult_le_mono1) simp
  finally show "\<not> f64_neg (f64_of_nat n)" by (simp add: f64_neg_def)
qed

lemma f64_of_nat_exact:
  assumes "n < 2 ^ 33"
  shows "f64_trunc (f64_of_nat n) = n" "f64_is_whole (f64_of_nat n)" "f64_is_finite (f64_of_nat n)"
    "\<not> f64_neg (f64_of_nat n)" "\<not> f64_is_nan (f64_of_nat n)"
proof -
  have all: "f64_trunc (f64_of_nat n) = n \<and> f64_is_whole (f64_of_nat n) \<and> f64_exp (f64_of_nat n) \<noteq> 2047 \<and>
    \<not> f64_neg (f64_of_nat n)"
  proof (cases "n = 0")
    case True
    then show ?thesis
      by (simp add: f64_of_nat_def f64_trunc_def f64_is_whole_def f64_exp_def f64_frac_def f64_neg_def)
  next
    case False
    then have p: "0 < n" by simp
    have k: "top_bit n < 33" using p assms by (intro top_bit_less)
    then show ?thesis
      using f64_of_nat_parts [OF p assms]
      by (simp add: f64_trunc_def f64_is_whole_def)
  qed
  then show "f64_trunc (f64_of_nat n) = n" "f64_is_whole (f64_of_nat n)" "f64_is_finite (f64_of_nat n)"
    "\<not> f64_neg (f64_of_nat n)" "\<not> f64_is_nan (f64_of_nat n)"
    by (simp_all add: f64_is_finite_def f64_is_nan_def)
qed

lemma u32_f64_roundtrip:
  "f64_to_u32 (u32_to_f64 n) = n" "\<not> f64_outside_u32 (u32_to_f64 n)" "f64_is_whole (u32_to_f64 n)"
proof -
  have l: "unat n < 2 ^ 32" using unsigned_less [of n] by simp
  then have "unat n < 2 ^ 33" by simp
  note e = f64_of_nat_exact [OF this]
  show "f64_to_u32 (u32_to_f64 n) = n" "\<not> f64_outside_u32 (u32_to_f64 n)" "f64_is_whole (u32_to_f64 n)"
    using l e by (simp_all add: f64_to_u32_def u32_to_f64_def f64_outside_u32_def f64_lt_zero_def min_def)
qed

lemma f64_negate:
  assumes "\<not> f64_neg w"
  shows "f64_exp (0x8000000000000000 + w) = f64_exp w" "f64_frac (0x8000000000000000 + w) = f64_frac w"
    "f64_neg (0x8000000000000000 + w)"
proof -
  have l: "unat w < 2 ^ 63" using assms by (simp add: f64_neg_def)
  have "unat (0x8000000000000000 + w) = (2 ^ 63 + unat w) mod 2 ^ 64"
    unfolding unat_word_ariths(1) by simp
  then have u: "unat (0x8000000000000000 + w) = 2 ^ 63 + unat w" using l by simp
  have "(2 ^ 63 + unat w) div 2 ^ 52 = 2 ^ 11 + unat w div 2 ^ 52"
    using div_mult_self3 [of "2 ^ 52" "2 ^ 11" "unat w"] by simp
  then show "f64_exp (0x8000000000000000 + w) = f64_exp w" unfolding f64_exp_def u by simp
  show "f64_frac (0x8000000000000000 + w) = f64_frac w" unfolding f64_frac_def u
    using mod_mult_self3 [of "2 ^ 11" "2 ^ 52" "unat w"] by simp
  show "f64_neg (0x8000000000000000 + w)" unfolding f64_neg_def u by simp
qed

lemma i32_f64_roundtrip: "f64_to_i32 (i32_to_f64 n) = n"
proof -
  have r: "- (2 ^ 31) \<le> sint n" "sint n < 2 ^ 31" using sint_greater_eq [of n] sint_less [of n] by simp_all
  show ?thesis
  proof (cases "sint n < 0")
    case True
    let ?k = "nat (- sint n)"
    have "?k < 2 ^ 33" using r by simp
    note e = f64_of_nat_exact [OF this] and g = f64_negate [OF f64_of_nat_exact(4) [OF this]]
    have t: "f64_trunc (0x8000000000000000 + f64_of_nat ?k) = ?k" using e(1) g unfolding f64_trunc_def by (simp only:)
    have k: "?k \<le> 2 ^ 31" using r(1) by simp
    have "f64_to_i32 (i32_to_f64 n) = - of_nat (min ?k (2 ^ 31))"
      using True e g t by (simp add: i32_to_f64_def f64_to_i32_def f64_is_nan_def f64_is_finite_def)
    also have "\<dots> = of_int (sint n)" using True k by (simp add: min_def of_nat_nat)
    finally show ?thesis by simp
  next
    case False
    let ?k = "nat (sint n)"
    have "?k < 2 ^ 33" using r by simp
    note e = f64_of_nat_exact [OF this]
    have k: "?k \<le> 2 ^ 31 - 1" using r(2) by simp
    have "f64_to_i32 (i32_to_f64 n) = of_nat (min ?k (2 ^ 31 - 1))"
      using False e by (simp add: i32_to_f64_def f64_to_i32_def)
    also have "\<dots> = of_int (sint n)" using False k by (simp add: min_def of_nat_nat)
    finally show ?thesis by simp
  qed
qed

end
