(* ===== verification/Connect_Caps.thy ===== *)
theory Connect_Caps
  imports Buffer_Scan F64 Ertmp_Tags
begin

text \<open>
  The capability fields of a connect object: the binary helpers of
  \<open>src/src/ertmp/connect_caps.rs\<close> (FourCC lists, \<open>capsEx\<close>, \<open>videoFourCcInfoMap\<close>), the AMF0 readers
  and writers of \<open>src/src/ertmp/connect_amf.rs\<close>, and \<open>negotiate_caps\<close>, which intersects what a
  client offers with what the server supports. A function with an output parameter is an
  operation on that parameter, so what an error leaves in it is part of the model.

  The lemmas show that the readers never panic and keep the lists within their arrays, that
  the negotiated capabilities are exactly the supported part of the offer, and that negotiated
  capabilities written by a server are read back as they are.
\<close>

section \<open>FourCC lists\<close>

definition fourcc_list_init :: "(four_cc_list, unit) op" where
  "fourcc_list_init = modS (\<lambda>l. l\<lparr>fl_count := 0\<rparr>)"

text \<open>\<open>list.entries[i] = entry\<close>\<close>

definition put_list_entry :: "nat \<Rightarrow> four_cc \<Rightarrow> (four_cc_list, unit) op" where
  "put_list_entry i e = bindS (getS fl_entries) (\<lambda>es. bindS (liftS (set_idx es i e)) (\<lambda>es.
     modS (\<lambda>l. l\<lparr>fl_entries := es\<rparr>)))"

text \<open>\<open>entry.cc[0] = b'*'\<close> or \<open>entry.cc[..4].copy_from_slice(&cc[..4])\<close>; \<open>None\<close> for a key that is neither.\<close>

definition entry_from_key :: "four_cc \<Rightarrow> bytes \<Rightarrow> four_cc result option" where
  "entry_from_key entry cc =
     (if cc = ascii ''*'' then Some (set_idx entry 0 0x2A)
      else if 4 \<le> length cc then Some (bindR (subslice cc 0 4) (copy_at entry 0))
      else None)"

definition fourcc_list_add :: "bytes \<Rightarrow> (four_cc_list, unit) op" where
  "fourcc_list_add cc = bindS (getS fl_count) (\<lambda>n.
     if MAX_FOURCCS \<le> n then failS (Err EIo)
     else thenS (put_list_entry n four_cc_default)
       (case entry_from_key four_cc_default cc of
          None \<Rightarrow> failS (Err EIo)
        | Some r \<Rightarrow> bindS (liftS r) (\<lambda>e. thenS (put_list_entry n e) (modS (\<lambda>l. l\<lparr>fl_count := fl_count l + 1\<rparr>)))))"

text \<open>The \<open>for\<close> loop of the parser, with the rounds left.\<close>

primrec fourcc_list_parse_loop :: "bytes \<Rightarrow> nat \<Rightarrow> nat \<Rightarrow> (four_cc_list, unit) op" where
  "fourcc_list_parse_loop data 0 offset = retS ()"
| "fourcc_list_parse_loop data (Suc n) offset =
     (if offset + 2 > length data then retS ()
      else bindS (liftS (ntoh16 (drop offset data))) (\<lambda>w.
        let slen = unat w; offset = offset + 2 in
        if slen \<notin> {1, 4} \<or> offset + slen > length data then retS ()
        else bindS (liftS (subslice data offset (offset + slen))) (\<lambda>cc.
          thenS (fourcc_list_add cc) (fourcc_list_parse_loop data n (offset + slen)))))"

definition fourcc_list_parse :: "bytes \<Rightarrow> (four_cc_list, nat) op" where
  "fourcc_list_parse data =
     (if length data < 4 then failS (Err EIo)
      else thenS fourcc_list_init (bindS (liftS (ntoh32 data)) (\<lambda>count.
        thenS (fourcc_list_parse_loop data (unat (min count (of_nat MAX_FOURCCS))) 4) (getS fl_count))))"

text \<open>\<open>entries[i].cc[0] == b'*'\<close>\<close>

definition entry_wildcard :: "four_cc list \<Rightarrow> nat \<Rightarrow> bool result" where
  "entry_wildcard es i = bindR (idx es i) (\<lambda>e. bindR (idx e 0) (\<lambda>c. Inr (c = 0x2A)))"

text \<open>The sum over the entries that gives \<open>needed\<close>.\<close>

primrec entries_size :: "nat \<Rightarrow> nat \<Rightarrow> four_cc list \<Rightarrow> nat list \<Rightarrow> nat result" where
  "entries_size w f es [] = Inr 0"
| "entries_size w f es (i # is) = bindR (entry_wildcard es i) (\<lambda>star.
     bindR (entries_size w f es is) (\<lambda>n. Inr ((if star then w else f) + n)))"

text \<open>The length and the key of entry \<open>i\<close> at \<open>offset\<close>; the new offset and the buffer.\<close>

definition write_entry_key :: "four_cc list \<Rightarrow> nat \<Rightarrow> nat \<Rightarrow> bytes \<Rightarrow> (nat \<times> bytes) result" where
  "write_entry_key es i offset buf = bindR (entry_wildcard es i) (\<lambda>star.
     let len = (if star then 1 else 4) in
     bindR (copy_at buf offset (be16 (of_nat len))) (\<lambda>buf.
     bindR (if star then set_idx buf (offset + 2) 0x2A
            else bindR (idx es i) (\<lambda>e. bindR (subslice e 0 4) (copy_at buf (offset + 2)))) (\<lambda>buf.
       Inr (offset + 2 + len, buf))))"

primrec fourcc_list_write_loop :: "four_cc list \<Rightarrow> nat list \<Rightarrow> nat \<Rightarrow> bytes \<Rightarrow> (nat \<times> bytes) result" where
  "fourcc_list_write_loop es [] offset buf = Inr (offset, buf)"
| "fourcc_list_write_loop es (i # is) offset buf =
     bindR (write_entry_key es i offset buf) (\<lambda>(offset, buf). fourcc_list_write_loop es is offset buf)"

definition fourcc_list_write :: "four_cc_list \<Rightarrow> bytes \<Rightarrow> (nat \<times> bytes) result" where
  "fourcc_list_write list buf =
     bindR (entries_size 3 6 (fl_entries list) [0..<fl_count list]) (\<lambda>n.
     if length buf < 4 + n then Inr (0, buf)
     else bindR (copy_at buf 0 (be32 (of_nat (fl_count list)))) (\<lambda>buf.
       fourcc_list_write_loop (fl_entries list) [0..<fl_count list] 4 buf))"

section \<open>The legacy capsEx blob\<close>

definition caps_exit_parse :: "bytes \<Rightarrow> (caps_exit, unit) op" where
  "caps_exit_parse data =
     (if length data < 8 then failS (Err EIo)
      else thenS (modS (\<lambda>c. c\<lparr>ce_version := 1\<rparr>))
        (bindS (liftS (ntoh32 data)) (\<lambda>v. thenS (modS (\<lambda>c. c\<lparr>ce_video_codec_32 := v\<rparr>))
        (bindS (liftS (ntoh32 (drop 4 data))) (\<lambda>a. modS (\<lambda>c. c\<lparr>ce_audio_codec_32 := a\<rparr>))))))"

definition caps_exit_write :: "caps_exit \<Rightarrow> bytes \<Rightarrow> (nat \<times> bytes) result" where
  "caps_exit_write caps buf =
     (if length buf < 8 then Inr (0, buf)
      else bindR (copy_at buf 0 (be32 (ce_video_codec_32 caps))) (\<lambda>buf.
        bindR (copy_at buf 4 (be32 (ce_audio_codec_32 caps))) (\<lambda>buf. Inr (8, buf))))"

section \<open>The video FourCC info map\<close>

text \<open>The closure \<open>walk\<close>: the length of \<open>count\<close> entries with \<open>extra\<close> bytes after each key, if they fit.\<close>

primrec info_map_walk :: "bytes \<Rightarrow> nat \<Rightarrow> nat \<Rightarrow> nat \<Rightarrow> nat option result" where
  "info_map_walk data extra 0 pos = Inr (Some pos)"
| "info_map_walk data extra (Suc n) pos =
     (if pos + 2 > length data then Inr None
      else bindR (ntoh16 (drop pos data)) (\<lambda>w.
        let slen = unat w; pos = pos + 2 in
        if slen \<notin> {1, 4} \<or> pos + slen + extra > length data then Inr None
        else info_map_walk data extra n (pos + (slen + extra))))"

definition put_map_entry :: "nat \<Rightarrow> four_cc \<Rightarrow> (video_four_cc_info_map, unit) op" where
  "put_map_entry i e = bindS (getS vm_entries) (\<lambda>es. bindS (liftS (set_idx es i e)) (\<lambda>es.
     modS (\<lambda>m. m\<lparr>vm_entries := es\<rparr>)))"

text \<open>\<open>map.masks[i] = mask; map.count += 1\<close>\<close>

definition put_map_mask :: "nat \<Rightarrow> u32 \<Rightarrow> (video_four_cc_info_map, unit) op" where
  "put_map_mask i v = bindS (getS vm_masks) (\<lambda>ms. bindS (liftS (set_idx ms i v)) (\<lambda>ms.
     modS (\<lambda>m. m\<lparr>vm_masks := ms, vm_count := vm_count m + 1\<rparr>)))"

text \<open>The key at \<open>offset\<close> is stored in the entry at the map's count.\<close>

definition info_map_key :: "bytes \<Rightarrow> nat \<Rightarrow> nat \<Rightarrow> (video_four_cc_info_map, unit) op" where
  "info_map_key data slen offset = bindS (getS vm_count) (\<lambda>n. bindS (getS vm_entries) (\<lambda>es.
     bindS (liftS (idx es n)) (\<lambda>entry. bindS (liftS (idx data offset)) (\<lambda>first.
       if slen = 1 \<and> first = 0x2A then bindS (liftS (set_idx entry 0 0x2A)) (put_map_entry n)
       else if slen = 4 then
         bindS (liftS (bindR (subslice data offset (offset + 4)) (copy_at entry 0))) (put_map_entry n)
       else failS (Err EIo)))))"

primrec info_map_parse_loop :: "bytes \<Rightarrow> bool \<Rightarrow> nat \<Rightarrow> nat \<Rightarrow> (video_four_cc_info_map, unit) op" where
  "info_map_parse_loop data legacy 0 offset = retS ()"
| "info_map_parse_loop data legacy (Suc n) offset =
     (if offset + 2 > length data then failS (Err EIo)
      else bindS (liftS (ntoh16 (drop offset data))) (\<lambda>w.
        let slen = unat w; offset = offset + 2 in
        if slen \<notin> {1, 4} \<or> offset + slen > length data then failS (Err EIo)
        else thenS (info_map_key data slen offset)
          (let offset = offset + slen in
           bindS (getS vm_count) (\<lambda>i.
           if legacy then thenS (put_map_mask i FOUR_CC_INFO_ALL) (info_map_parse_loop data legacy n offset)
           else if offset + 4 > length data then failS (Err EIo)
           else bindS (liftS (ntoh32 (drop offset data))) (\<lambda>v.
             thenS (put_map_mask i v) (info_map_parse_loop data legacy n (offset + 4)))))))"

definition video_fourcc_info_map_parse :: "bytes \<Rightarrow> (video_four_cc_info_map, nat) op" where
  "video_fourcc_info_map_parse data =
     (if length data < 4 then failS (Err EIo)
      else thenS (modS (\<lambda>_. video_four_cc_info_map_default)) (bindS (liftS (ntoh32 data)) (\<lambda>w.
        let count = unat (min w (of_nat MAX_FOURCCS)) in
        bindS (liftS (info_map_walk data 4 count 4)) (\<lambda>masked.
        bindS (liftS (info_map_walk data 0 count 4)) (\<lambda>keys.
          if masked = Some (length data) then
            thenS (info_map_parse_loop data False count 4) (getS vm_count)
          else if keys = Some (length data) then
            thenS (info_map_parse_loop data True count 4) (getS vm_count)
          else failS (Err EIo))))))"

primrec info_map_write_loop :: "video_four_cc_info_map \<Rightarrow> nat list \<Rightarrow> nat \<Rightarrow> bytes \<Rightarrow> (nat \<times> bytes) result" where
  "info_map_write_loop m [] offset buf = Inr (offset, buf)"
| "info_map_write_loop m (i # is) offset buf =
     bindR (write_entry_key (vm_entries m) i offset buf) (\<lambda>(offset, buf).
     bindR (idx (vm_masks m) i) (\<lambda>v. bindR (copy_at buf offset (be32 v)) (\<lambda>buf.
       info_map_write_loop m is (offset + 4) buf)))"

definition video_fourcc_info_map_write :: "video_four_cc_info_map \<Rightarrow> bytes \<Rightarrow> (nat \<times> bytes) result" where
  "video_fourcc_info_map_write m buf =
     bindR (entries_size 7 10 (vm_entries m) [0..<vm_count m]) (\<lambda>n.
     if length buf < 4 + n then Inr (0, buf)
     else bindR (copy_at buf 0 (be32 (of_nat (vm_count m)))) (\<lambda>buf.
       info_map_write_loop m [0..<vm_count m] 4 buf))"

section \<open>AMF0 helpers\<close>

definition MAX_CAPS_BLOB_BYTES :: nat where
  "MAX_CAPS_BLOB_BYTES = 4096"

definition connect_read_u16 :: "(buffer, u16) op" where
  "connect_read_u16 = bindS (map_errS EAmf (buf_read 2)) (\<lambda>b. liftS (ntoh16 b))"

definition connect_read_u32 :: "(buffer, u32) op" where
  "connect_read_u32 = bindS (map_errS EAmf (buf_read 4)) (\<lambda>b. liftS (ntoh32 b))"

definition read_amf_binary_blob :: "amf0_type \<Rightarrow> (buffer, bytes) op" where
  "read_amf_binary_blob ty =
     bindS (if ty = A0LongString then bindS connect_read_u32 (\<lambda>w. retS (unat w))
            else if ty = A0String then bindS connect_read_u16 (\<lambda>w. retS (unat w))
            else failS (Err EAmf)) (\<lambda>len.
     bindS (getS buf_available) (\<lambda>a.
       if len > MAX_CAPS_BLOB_BYTES \<or> a < len then failS (Err EAmf)
       else map_errS EAmf (buf_read len)))"

text \<open>\<open>let mut key = [0u8; 256]\<close>: a key and its bytes.\<close>

definition read_key_bytes :: "(buffer, bytes) op" where
  "read_key_bytes = bindS (amf0_read_object_key (replicate 256 0)) (\<lambda>(n, key). liftS (subslice key 0 n))"

text \<open>
  The loop \<open>while !is_object_end(buf) { ... }\<close> over the members of an object, with a limit on the
  keys, and the three bytes of the end marker after it. The body reads the key and its value.
\<close>

primrec object_members :: "nat \<Rightarrow> (buffer \<times> 'o, unit) op \<Rightarrow> (buffer \<times> 'o, unit) op" where
  "object_members 0 body = bindS (inB amf0_is_object_end) (\<lambda>fin.
     if fin then inB (voidS (map_errS EAmf (buf_read 3))) else failS (Err EAmf))"
| "object_members (Suc keys_left) body = bindS (inB amf0_is_object_end) (\<lambda>fin.
     if fin then inB (voidS (map_errS EAmf (buf_read 3)))
     else thenS body (object_members keys_left body))"

section \<open>AMF0 readers\<close>

primrec four_cc_strict_array_loop :: "nat \<Rightarrow> (buffer \<times> four_cc_list, unit) op" where
  "four_cc_strict_array_loop 0 = retS ()"
| "four_cc_strict_array_loop (Suc left) = bindS (inB (amf0_read_string (replicate 8 0))) (\<lambda>(n, cc).
     bindS (liftS (idx cc 0)) (\<lambda>c0. bindS (liftS (subslice cc 0 n)) (\<lambda>key.
       thenS (if n = 1 \<and> c0 = 0x2A \<or> 4 \<le> n then inO (fourcc_list_add key) else retS ())
         (four_cc_strict_array_loop left))))"

definition read_four_cc_strict_array :: "(buffer \<times> four_cc_list, unit) op" where
  "read_four_cc_strict_array = bindS (inB connect_read_u32) (\<lambda>count.
     if unat count > MAX_FOURCCS then failS (Err EAmf) else four_cc_strict_array_loop (unat count))"

definition read_four_cc_list_amf :: "(buffer \<times> four_cc_list, unit) op" where
  "read_four_cc_list_amf = thenS (inO fourcc_list_init) (bindS (inB amf0_read_type) (\<lambda>ty.
     if ty = A0StrictArray then read_four_cc_strict_array
     else if ty = A0LongString then
       bindS (inB (read_amf_binary_blob ty)) (\<lambda>data. inO (voidS (fourcc_list_parse data)))
     else failS (Err EAmf)))"

definition add_video_map_entry :: "bytes \<Rightarrow> u32 \<Rightarrow> (video_four_cc_info_map, unit) op" where
  "add_video_map_entry key v = bindS (getS vm_count) (\<lambda>n.
     if MAX_FOURCCS \<le> n then failS (Err EAmf)
     else bindS (getS vm_entries) (\<lambda>es. bindS (liftS (idx es n)) (\<lambda>entry.
       case entry_from_key entry key of
         None \<Rightarrow> failS (Err EAmf)
       | Some r \<Rightarrow> bindS (liftS r) (\<lambda>e. thenS (put_map_entry n e) (put_map_mask n v)))))"

primrec video_map_array_loop :: "nat \<Rightarrow> (buffer \<times> video_four_cc_info_map, unit) op" where
  "video_map_array_loop 0 = retS ()"
| "video_map_array_loop (Suc left) = bindS (inB (amf0_read_string (replicate 8 0))) (\<lambda>(n, cc).
     bindS (liftS (subslice cc 0 n)) (\<lambda>key.
       thenS (inO (add_video_map_entry key FOUR_CC_INFO_ALL)) (video_map_array_loop left)))"

definition video_map_member :: "(buffer \<times> video_four_cc_info_map, unit) op" where
  "video_map_member = bindS (inB read_key_bytes) (\<lambda>key. bindS (inB amf0_read_type) (\<lambda>value_type.
     if value_type \<noteq> A0Number then failS (Err EAmf)
     else bindS (inB amf0_read_number) (\<lambda>value.
       if f64_outside_u32 value then failS (Err EAmf)
       else inO (add_video_map_entry key (f64_to_u32 value)))))"

definition read_video_fourcc_info_map_amf :: "(buffer \<times> video_four_cc_info_map, unit) op" where
  "read_video_fourcc_info_map_amf =
     thenS (inO (modS (\<lambda>_. video_four_cc_info_map_default))) (bindS (inB amf0_read_type) (\<lambda>ty.
       if ty = A0StrictArray then bindS (inB connect_read_u32) (\<lambda>count.
         if unat count > MAX_FOURCCS then failS (Err EAmf) else video_map_array_loop (unat count))
       else if ty = A0LongString then
         bindS (inB (read_amf_binary_blob ty)) (\<lambda>data. inO (voidS (video_fourcc_info_map_parse data)))
       else if ty = A0Object \<or> ty = A0EcmaArray then
         thenS (if ty = A0EcmaArray then voidS (inB connect_read_u32) else retS ())
           (object_members MAX_OBJECT_KEYS video_map_member)
       else failS (Err EAmf)))"

definition read_fourcc_number :: "(buffer, i32) op" where
  "read_fourcc_number = bindS amf0_read_type (\<lambda>ty.
     if ty = A0Number then bindS amf0_read_number (\<lambda>value.
       if f64_outside_u32 value \<or> \<not> f64_is_whole value then failS (Err EProtocol)
       else retS (f64_to_u32 value))
     else if ty = A0String then bindS connect_read_u16 (\<lambda>w.
       let len = unat w in
       bindS (getS buf_available) (\<lambda>a.
         if \<not> (4 \<le> len \<and> len \<le> MAX_CAPS_BLOB_BYTES) \<or> a < len then failS (Err EAmf)
         else bindS (map_errS EAmf (buf_read 4)) (\<lambda>cc.
           thenS (if len > 4 then modS (buf_drain (len - 4)) else retS ()) (liftS (ntoh32 cc)))))
     else failS (Err EAmf))"

text \<open>The structure is the pair of \<open>caps\<close> and \<open>mask\<close>.\<close>

definition caps_ex_member :: "(buffer \<times> caps_exit \<times> u32, unit) op" where
  "caps_ex_member = bindS (inB read_key_bytes) (\<lambda>key.
     let key_str = utf8_or_empty key in
     if key_str = ascii ''videoCodecId'' \<or> key_str = ascii ''videoCodecFourCC'' then
       bindS (inB read_fourcc_number) (\<lambda>v. inO (modS (\<lambda>(c, m). (c\<lparr>ce_video_codec_32 := v\<rparr>, m))))
     else if key_str = ascii ''audioCodecId'' \<or> key_str = ascii ''audioCodecFourCC'' then
       bindS (inB read_fourcc_number) (\<lambda>v. inO (modS (\<lambda>(c, m). (c\<lparr>ce_audio_codec_32 := v\<rparr>, m))))
     else inB amf0_skip_value)"

definition read_caps_ex_amf :: "(buffer \<times> caps_exit \<times> u32, unit) op" where
  "read_caps_ex_amf = bindS (inB amf0_read_type) (\<lambda>ty.
     if ty = A0Number then bindS (inB amf0_read_number) (\<lambda>value.
       if f64_outside_u32 value \<or> \<not> f64_is_whole value then failS (Err EAmf)
       else inO (modS (\<lambda>(c, m). (c, f64_to_u32 value))))
     else if ty = A0LongString then bindS (inB (read_amf_binary_blob ty)) (\<lambda>data.
       thenS (inO (zoomS fst (\<lambda>c s. (c, snd s)) (caps_exit_parse data)))
         (inO (modS (\<lambda>(c, m). (c, CAPS_EX_MASK_SERVER_DEFAULT)))))
     else if ty = A0Object then
       thenS (inO (modS (\<lambda>(c, m). (c\<lparr>ce_version := 1\<rparr>, m))))
         (thenS (object_members MAX_OBJECT_KEYS caps_ex_member)
           (inO (modS (\<lambda>(c, m). (c, CAPS_EX_MASK_SERVER_DEFAULT)))))
     else failS (Err EAmf))"

definition read_reconnect_amf :: "(buffer \<times> reconnect, unit) op" where
  "read_reconnect_amf = bindS (inB amf0_read_type) (\<lambda>ty.
     bindS (inB (read_amf_binary_blob ty)) (\<lambda>data. inO (reconnect_parse data)))"

section \<open>AMF0 writers\<close>

text \<open>The bytes of an entry that are written as a string.\<close>

definition entry_key :: "four_cc list \<Rightarrow> nat \<Rightarrow> bytes result" where
  "entry_key es i = bindR (entry_wildcard es i) (\<lambda>star.
     if star then Inr (ascii ''*'') else bindR (idx es i) (\<lambda>e. subslice e 0 4))"

primrec write_four_cc_list_loop :: "four_cc list \<Rightarrow> nat list \<Rightarrow> (buffer, unit) op" where
  "write_four_cc_list_loop es [] = retS ()"
| "write_four_cc_list_loop es (i # is) = bindS (liftS (entry_key es i)) (\<lambda>cc.
     thenS (amf0_write_string (if utf8_valid cc then cc else ascii ''????'')) (write_four_cc_list_loop es is))"

definition write_four_cc_list_amf :: "four_cc_list \<Rightarrow> (buffer, unit) op" where
  "write_four_cc_list_amf list = thenS (map_errS EInternal (buf_write [amf0_marker A0StrictArray]))
     (thenS (map_errS EInternal (buf_write (be32 (of_nat (fl_count list)))))
       (write_four_cc_list_loop (fl_entries list) [0..<fl_count list]))"

primrec write_info_map_loop :: "video_four_cc_info_map \<Rightarrow> nat list \<Rightarrow> (buffer, unit) op" where
  "write_info_map_loop m [] = retS ()"
| "write_info_map_loop m (i # is) = bindS (liftS (entry_key (vm_entries m) i)) (\<lambda>key.
     if \<not> utf8_valid key then failS (Err EAmf)
     else thenS (amf0_write_object_key key) (bindS (liftS (idx (vm_masks m) i)) (\<lambda>v.
       thenS (amf0_write_number (u32_to_f64 v)) (write_info_map_loop m is))))"

definition write_video_fourcc_info_map_amf :: "video_four_cc_info_map \<Rightarrow> (buffer, unit) op" where
  "write_video_fourcc_info_map_amf m = thenS amf0_write_object_begin
     (thenS (write_info_map_loop m [0..<vm_count m]) amf0_write_object_end)"

definition write_caps_ex_amf :: "u32 \<Rightarrow> (buffer, unit) op" where
  "write_caps_ex_amf caps_ex_mask = amf0_write_number (u32_to_f64 caps_ex_mask)"

definition write_reconnect_amf :: "reconnect \<Rightarrow> (buffer, unit) op" where
  "write_reconnect_amf rc = bindS (liftS (reconnect_write rc (replicate 8 0))) (\<lambda>(n, blob).
     if n \<noteq> 8 then failS (Err EInternal) else amf0_write_long_string_bytes blob)"

definition write_negotiated_caps :: "negotiated_caps \<Rightarrow> (buffer, unit) op" where
  "write_negotiated_caps caps =
     thenS (if nc_has_four_cc_list caps \<and> 0 < fl_count (nc_four_cc_list caps) then
         thenS (amf0_write_object_key (ascii ''fourCcList'')) (write_four_cc_list_amf (nc_four_cc_list caps))
       else retS ())
     (thenS (if nc_has_caps_ex caps then
         thenS (amf0_write_object_key (ascii ''capsEx'')) (write_caps_ex_amf (nc_caps_ex_mask caps))
       else retS ())
     (thenS (if nc_has_video_four_cc_info_map caps \<and> 0 < vm_count (nc_video_four_cc_info_map caps) then
         thenS (amf0_write_object_key (ascii ''videoFourCcInfoMap''))
           (write_video_fourcc_info_map_amf (nc_video_four_cc_info_map caps))
       else retS ())
     (if nc_has_reconnect caps then
         thenS (amf0_write_object_key (ascii ''reconnect'')) (write_reconnect_amf (nc_reconnect caps))
       else retS ())))"

section \<open>Negotiation\<close>

definition four_cc_supported :: "bytes \<Rightarrow> bool" where
  "four_cc_supported cc \<longleftrightarrow> cc = ascii ''*'' \<or>
     cc \<in> {ascii ''avc1'', ascii ''hvc1'', ascii ''av01'', ascii ''vp09'', ascii ''mp4a'', ascii ''Opus'',
       ascii ''ac-3'', ascii ''ec-3'', ascii ''.mp3'', ascii ''fLaC''}"

definition fourcc_entry_bytes :: "four_cc \<Rightarrow> bytes result" where
  "fourcc_entry_bytes entry = bindR (idx entry 0) (\<lambda>c.
     if c = 0x2A then Inr (ascii ''*'') else subslice entry 0 4)"

primrec negotiate_list :: "four_cc list \<Rightarrow> nat list \<Rightarrow> (four_cc_list, unit) op" where
  "negotiate_list es [] = retS ()"
| "negotiate_list es (i # is) = bindS (liftS (bindR (idx es i) fourcc_entry_bytes)) (\<lambda>cc.
     thenS (if four_cc_supported cc then orElseS (fourcc_list_add cc) (retS ()) else retS ())
       (negotiate_list es is))"

primrec negotiate_map :: "video_four_cc_info_map \<Rightarrow> nat list \<Rightarrow> (video_four_cc_info_map, unit) op" where
  "negotiate_map offer [] = retS ()"
| "negotiate_map offer (i # is) = bindS (liftS (bindR (idx (vm_entries offer) i) fourcc_entry_bytes)) (\<lambda>cc.
     bindS (liftS (idx (vm_masks offer) i)) (\<lambda>v.
     let negotiated = v AND FOUR_CC_INFO_CAN_FORWARD in
     thenS (if negotiated = 0 \<or> \<not> four_cc_supported cc then retS ()
       else bindS (getS vm_count) (\<lambda>n. bindS (getS vm_entries) (\<lambda>es. bindS (liftS (idx es n)) (\<lambda>entry.
         bindS (liftS (if cc = ascii ''*'' then set_idx entry 0 0x2A
                       else bindR (subslice cc 0 4) (copy_at entry 0))) (\<lambda>e.
           thenS (put_map_entry n e) (put_map_mask n negotiated))))))
       (negotiate_map offer is)))"

definition negotiate_caps :: "connect_info \<Rightarrow> negotiated_caps result" where
  "negotiate_caps client =
     bindR (if ci_has_four_cc_list client then
         let (r, l) = negotiate_list (fl_entries (ci_four_cc_list client))
               [0..<fl_count (ci_four_cc_list client)] four_cc_list_default in
         bindR r (\<lambda>_. Inr (negotiated_caps_default\<lparr>nc_four_cc_list := l, nc_has_four_cc_list := 0 < fl_count l\<rparr>))
       else Inr negotiated_caps_default) (\<lambda>out.
     let out = (if ci_has_caps_ex client then
           let requested = ci_caps_ex_mask client;
               v = requested AND CAPS_EX_MASK_SERVER_DEFAULT;
               v = (if ci_has_reconnect client then v OR (CAPS_EX_MASK_RECONNECT AND requested) else v)
           in out\<lparr>nc_caps_ex_mask := v, nc_has_caps_ex := True,
                nc_multitrack_enabled := v AND CAPS_EX_MASK_MULTITRACK \<noteq> 0\<rparr>
         else out\<lparr>nc_multitrack_enabled := True\<rparr>) in
     bindR (if ci_has_video_four_cc_info_map client then
         let (r, m) = negotiate_map (ci_video_four_cc_info_map client)
               [0..<vm_count (ci_video_four_cc_info_map client)] video_four_cc_info_map_default in
         bindR r (\<lambda>_. Inr (out\<lparr>nc_video_four_cc_info_map := m, nc_has_video_four_cc_info_map := 0 < vm_count m\<rparr>))
       else Inr out) (\<lambda>out.
     Inr (if ci_has_reconnect client
       then out\<lparr>nc_reconnect := ci_reconnect client, nc_has_reconnect := True\<rparr> else out)))"

section \<open>Well-formed lists and what they stand for\<close>

definition entries_wf :: "four_cc list \<Rightarrow> bool" where
  "entries_wf es \<longleftrightarrow> length es = MAX_FOURCCS \<and> (\<forall>e \<in> set es. length e = 5)"

definition list_wf :: "four_cc_list \<Rightarrow> bool" where
  "list_wf l \<longleftrightarrow> entries_wf (fl_entries l) \<and> fl_count l \<le> MAX_FOURCCS"

definition map_wf :: "video_four_cc_info_map \<Rightarrow> bool" where
  "map_wf m \<longleftrightarrow> entries_wf (vm_entries m) \<and> length (vm_masks m) = MAX_FOURCCS \<and> vm_count m \<le> MAX_FOURCCS"

text \<open>The name an entry stands for, and the names of a list and of a map with their masks.\<close>

definition entry_name :: "bytes \<Rightarrow> bytes" where
  "entry_name e = (if take 1 e = [0x2A] then ascii ''*'' else take 4 e)"

definition list_names :: "four_cc_list \<Rightarrow> bytes list" where
  "list_names l = map entry_name (take (fl_count l) (fl_entries l))"

definition map_names :: "video_four_cc_info_map \<Rightarrow> (bytes \<times> u32) list" where
  "map_names m = zip (map entry_name (take (vm_count m) (vm_entries m))) (take (vm_count m) (vm_masks m))"

lemma entries_wf_update: "entries_wf es \<Longrightarrow> length e = 5 \<Longrightarrow> entries_wf (es[i := e])"
  by (auto simp: entries_wf_def dest!: set_update_subset_insert [THEN subsetD])

lemma entries_wf_nth: "entries_wf es \<Longrightarrow> i < MAX_FOURCCS \<Longrightarrow> length (es ! i) = 5"
  by (simp add: entries_wf_def)

lemma defaults_wf [simp]:
  "list_wf four_cc_list_default" "map_wf video_four_cc_info_map_default"
  "list_names four_cc_list_default = []" "map_names video_four_cc_info_map_default = []"
  by (auto simp: list_wf_def map_wf_def entries_wf_def four_cc_list_default_def video_four_cc_info_map_default_def
      list_names_def map_names_def)

lemma list_names_Nil: "list_wf l \<Longrightarrow> list_names l = [] \<longleftrightarrow> fl_count l = 0"
  by (auto simp: list_names_def list_wf_def entries_wf_def MAX_FOURCCS_def)

lemma map_names_Nil: "map_wf m \<Longrightarrow> map_names m = [] \<longleftrightarrow> vm_count m = 0"
  by (auto simp: map_names_def map_wf_def entries_wf_def MAX_FOURCCS_def zip_eq_Nil_iff)

text \<open>A key that is accepted, and the entry it becomes.\<close>

definition key_ok :: "bytes \<Rightarrow> bool" where
  "key_ok cc \<longleftrightarrow> cc = ascii ''*'' \<or> 4 \<le> length cc"

lemma take_1: "xs \<noteq> [] \<Longrightarrow> take 1 xs = [xs ! 0]"
  by (cases xs) simp_all

lemma entry_from_key_cases:
  assumes "length e = 5"
  shows "if key_ok cc then \<exists>e'. entry_from_key e cc = Some (Inr e') \<and> length e' = 5 \<and> entry_name e' = entry_name cc
    else entry_from_key e cc = None"
proof (cases "cc = ascii ''*''")
  case True
  have "e[0 := 0x2A] = 0x2A # drop 1 e" using assms by (cases e) auto
  with True assms show ?thesis
    by (auto simp: entry_from_key_def key_ok_def entry_name_def ascii_def)
next
  case False
  show ?thesis
  proof (cases "4 \<le> length cc")
    case True
    with False assms show ?thesis
      by (simp add: entry_from_key_def key_ok_def entry_name_def min_def)
  next
    case f: False
    with False show ?thesis by (simp add: entry_from_key_def key_ok_def)
  qed
qed

lemma list_add_ok:
  assumes l: "list_wf l" "fl_count l < MAX_FOURCCS" and cc: "key_ok cc"
  shows "\<exists>l'. fourcc_list_add cc l = (Inr (), l') \<and> list_wf l' \<and> fl_count l' = Suc (fl_count l) \<and>
    list_names l' = list_names l @ [entry_name cc]"
proof -
  obtain e where e: "entry_from_key four_cc_default cc = Some (Inr e)" "length e = 5" "entry_name e = entry_name cc"
    using entry_from_key_cases [of four_cc_default cc] cc by auto
  have n: "fl_count l < length (fl_entries l)" using l by (simp add: list_wf_def entries_wf_def)
  then have "fourcc_list_add cc l =
      (Inr (), l\<lparr>fl_entries := (fl_entries l)[fl_count l := e], fl_count := Suc (fl_count l)\<rparr>)"
    using l e by (simp add: fourcc_list_add_def put_list_entry_def bindS_def thenS_def)
  moreover have "take (Suc (fl_count l)) ((fl_entries l)[fl_count l := e]) = take (fl_count l) (fl_entries l) @ [e]"
    using n by (simp add: take_Suc_conv_app_nth)
  ultimately show ?thesis
    using l e by (auto simp: list_wf_def entries_wf_update list_names_def)
qed

lemma list_add_full_or_bad:
  assumes "list_wf l" "\<not> (fl_count l < MAX_FOURCCS \<and> key_ok cc)"
  shows "\<exists>l'. fourcc_list_add cc l = (err EIo, l') \<and> list_wf l' \<and> list_names l' = list_names l"
proof (cases "fl_count l < MAX_FOURCCS")
  case True
  then have n: "fl_count l < length (fl_entries l)" using assms by (simp add: list_wf_def entries_wf_def)
  have "entry_from_key four_cc_default cc = None"
    using entry_from_key_cases [of four_cc_default cc] True assms(2) by simp
  then have "fourcc_list_add cc l = (err EIo, l\<lparr>fl_entries := (fl_entries l)[fl_count l := four_cc_default]\<rparr>)"
    using n True by (simp add: fourcc_list_add_def put_list_entry_def bindS_def thenS_def)
  then show ?thesis using assms(1) by (auto simp: list_wf_def entries_wf_update list_names_def)
next
  case False
  then show ?thesis using assms(1) by (auto simp: fourcc_list_add_def bindS_def)
qed

lemma map_put_ok:
  assumes m: "map_wf m" "vm_count m < MAX_FOURCCS" and e: "length e = 5"
  shows "\<exists>m'. thenS (put_map_entry (vm_count m) e) (put_map_mask (vm_count m) v) m = (Inr (), m') \<and> map_wf m' \<and>
    vm_count m' = Suc (vm_count m) \<and> map_names m' = map_names m @ [(entry_name e, v)]"
proof -
  let ?n = "vm_count m"
  have n: "?n < length (vm_entries m)" "?n < length (vm_masks m)" using m by (simp_all add: map_wf_def entries_wf_def)
  then have "thenS (put_map_entry ?n e) (put_map_mask ?n v) m =
      (Inr (), m\<lparr>vm_entries := (vm_entries m)[?n := e], vm_masks := (vm_masks m)[?n := v], vm_count := Suc ?n\<rparr>)"
    by (simp add: put_map_entry_def put_map_mask_def bindS_def thenS_def)
  moreover have "take (Suc ?n) ((vm_entries m)[?n := e]) = take ?n (vm_entries m) @ [e]"
    "take (Suc ?n) ((vm_masks m)[?n := v]) = take ?n (vm_masks m) @ [v]"
    using n by (simp_all add: take_Suc_conv_app_nth)
  moreover have "length (take ?n (vm_entries m)) = length (take ?n (vm_masks m))" using n by simp
  ultimately show ?thesis
    using m e by (auto simp: map_wf_def entries_wf_update map_names_def zip_append)
qed

section \<open>Negotiation keeps the supported part of the offer\<close>

lemma supported_cases:
  assumes "four_cc_supported cc"
  shows "key_ok cc" "entry_name cc = cc" "utf8_valid cc" "length cc \<le> 4"
proof -
  have "key_ok cc \<and> entry_name cc = cc \<and> utf8_valid cc \<and> length cc \<le> 4"
    using assms unfolding four_cc_supported_def insert_iff empty_iff
    by (elim disjE) (simp_all add: key_ok_def entry_name_def)
  then show "key_ok cc" "entry_name cc = cc" "utf8_valid cc" "length cc \<le> 4" by simp_all
qed

lemma entry_bytes_name:
  assumes "length e = 5"
  shows "fourcc_entry_bytes e = Inr (entry_name e)"
proof -
  have "e \<noteq> []" using assms by auto
  with assms take_1 [OF this] show ?thesis by (simp add: fourcc_entry_bytes_def entry_name_def)
qed

lemma map_nth_take: "n \<le> length xs \<Longrightarrow> map ((!) xs) [0..<n] = take n xs"
  by (rule nth_equalityI) simp_all

lemma negotiate_list_names:
  assumes "entries_wf es" "\<forall>i \<in> set is. i < MAX_FOURCCS" "list_wf l" "fl_count l + length is \<le> MAX_FOURCCS"
  shows "\<exists>l'. negotiate_list es is l = (Inr (), l') \<and> list_wf l' \<and>
    list_names l' = list_names l @ filter four_cc_supported (map (\<lambda>i. entry_name (es ! i)) is)"
  using assms(2-)
proof (induction "is" arbitrary: l)
  case (Cons i "is")
  have "i < length es" using Cons.prems(1) assms(1) by (simp add: entries_wf_def)
  then have i: "bindR (idx es i) fourcc_entry_bytes = Inr (entry_name (es ! i))"
    using entry_bytes_name entries_wf_nth [OF assms(1)] Cons.prems(1) by simp
  show ?case
  proof (cases "four_cc_supported (entry_name (es ! i))")
    case True
    have "fl_count l < MAX_FOURCCS" using Cons.prems(3) by simp
    from list_add_ok [OF Cons.prems(2) this supported_cases(1) [OF True]]
    obtain l1 where l1: "fourcc_list_add (entry_name (es ! i)) l = (Inr (), l1)" "list_wf l1"
      "fl_count l1 = Suc (fl_count l)" "list_names l1 = list_names l @ [entry_name (entry_name (es ! i))]"
      by (elim exE conjE) (rule that)
    then have "negotiate_list es (i # is) l = negotiate_list es is l1"
      using True i by (simp add: bindS_def thenS_def orElseS_def)
    with Cons.IH [of l1] Cons.prems l1 True supported_cases(2) [OF True] show ?thesis by simp
  next
    case False
    then have "negotiate_list es (i # is) l = negotiate_list es is l" using i by (simp add: bindS_def thenS_def)
    with Cons.IH [of l] Cons.prems False show ?thesis by simp
  qed
qed simp

text \<open>The part of an offered map a server takes: supported names that the client can receive.\<close>

definition forwardable :: "(bytes \<times> u32) list \<Rightarrow> (bytes \<times> u32) list" where
  "forwardable offer = filter (\<lambda>(cc, v). four_cc_supported cc \<and> v \<noteq> 0)
     (map (\<lambda>(cc, v). (cc, v AND FOUR_CC_INFO_CAN_FORWARD)) offer)"

lemma map_entry_new:
  assumes "length e = 5" "key_ok cc"
  shows "\<exists>e'. (if cc = ascii ''*'' then set_idx e 0 0x2A else bindR (subslice cc 0 4) (copy_at e 0)) = Inr e' \<and>
    length e' = 5 \<and> entry_name e' = entry_name cc"
  using entry_from_key_cases [OF assms(1), of cc] assms(2)
  by (auto simp: entry_from_key_def key_ok_def split: if_splits)

lemma negotiate_map_step:
  assumes offer: "map_wf offer" "i < MAX_FOURCCS" and m: "map_wf m" "vm_count m < MAX_FOURCCS"
  shows "\<exists>m'. negotiate_map offer (i # is) m = negotiate_map offer is m' \<and> map_wf m' \<and> vm_count m' \<le> Suc (vm_count m) \<and>
    map_names m' = map_names m @ forwardable [(entry_name (vm_entries offer ! i), vm_masks offer ! i)]"
proof -
  let ?cc = "entry_name (vm_entries offer ! i)" and ?v = "vm_masks offer ! i AND FOUR_CC_INFO_CAN_FORWARD"
  have i: "bindR (idx (vm_entries offer) i) fourcc_entry_bytes = Inr ?cc" "idx (vm_masks offer) i = Inr (vm_masks offer ! i)"
    using offer entry_bytes_name entries_wf_nth by (simp_all add: map_wf_def entries_wf_def)
  show ?thesis
  proof (cases "?v = 0 \<or> \<not> four_cc_supported ?cc")
    case True
    then have "negotiate_map offer (i # is) m = negotiate_map offer is m"
      using i by (simp add: bindS_def thenS_def Let_def)
    moreover have "forwardable [(?cc, vm_masks offer ! i)] = []" using True by (auto simp: forwardable_def)
    ultimately show ?thesis using m(1) by auto
  next
    case False
    let ?e = "vm_entries m ! vm_count m"
    have e: "length ?e = 5" "idx (vm_entries m) (vm_count m) = Inr ?e"
      using m entries_wf_nth by (simp_all add: map_wf_def entries_wf_def)
    obtain e' where e': "(if ?cc = ascii ''*'' then set_idx ?e 0 0x2A else bindR (subslice ?cc 0 4) (copy_at ?e 0)) = Inr e'"
      "length e' = 5" "entry_name e' = entry_name ?cc"
      using map_entry_new [OF e(1) supported_cases(1)] False by blast
    from map_put_ok [OF m e'(2), of ?v]
    obtain m' where m': "thenS (put_map_entry (vm_count m) e') (put_map_mask (vm_count m) ?v) m = (Inr (), m')"
      "map_wf m'" "vm_count m' = Suc (vm_count m)" "map_names m' = map_names m @ [(entry_name e', ?v)]"
      by (elim exE conjE) (rule that)
    have "negotiate_map offer (i # is) m = negotiate_map offer is m'"
      using False i e e'(1) m'(1) by (simp add: bindS_def thenS_def Let_def)
    moreover have "forwardable [(?cc, vm_masks offer ! i)] = [(?cc, ?v)]" using False by (simp add: forwardable_def)
    ultimately show ?thesis using m' e'(3) supported_cases(2) False by auto
  qed
qed

lemma forwardable_Cons: "forwardable (x # xs) = forwardable [x] @ forwardable xs"
  by (simp add: forwardable_def)

lemma negotiate_map_names:
  assumes "map_wf offer" "\<forall>i \<in> set is. i < MAX_FOURCCS" "map_wf m" "vm_count m + length is \<le> MAX_FOURCCS"
  shows "\<exists>m'. negotiate_map offer is m = (Inr (), m') \<and> map_wf m' \<and>
    map_names m' = map_names m @ forwardable (map (\<lambda>i. (entry_name (vm_entries offer ! i), vm_masks offer ! i)) is)"
  using assms(2-)
proof (induction "is" arbitrary: m)
  case (Cons i "is")
  have "i < MAX_FOURCCS" "vm_count m < MAX_FOURCCS" using Cons.prems by simp_all
  from negotiate_map_step [OF assms(1) this(1) Cons.prems(2) this(2), of "is"]
  obtain m1 where m1: "negotiate_map offer (i # is) m = negotiate_map offer is m1" "map_wf m1"
    "vm_count m1 \<le> Suc (vm_count m)"
    "map_names m1 = map_names m @ forwardable [(entry_name (vm_entries offer ! i), vm_masks offer ! i)]"
    by (elim exE conjE) (rule that)
  have "\<exists>m'. negotiate_map offer is m1 = (Inr (), m') \<and> map_wf m' \<and>
    map_names m' = map_names m1 @ forwardable (map (\<lambda>i. (entry_name (vm_entries offer ! i), vm_masks offer ! i)) is)"
    using Cons.prems m1 by (intro Cons.IH) auto
  then show ?case unfolding m1(1,4) list.map forwardable_Cons [of _ "map _ is"] by simp
qed (simp add: forwardable_def)

definition caps_wf :: "connect_info \<Rightarrow> bool" where
  "caps_wf ci \<longleftrightarrow> list_wf (ci_four_cc_list ci) \<and> map_wf (ci_video_four_cc_info_map ci)"

lemma default_counts [simp]: "fl_count four_cc_list_default = 0" "vm_count video_four_cc_info_map_default = 0"
  by (simp_all add: four_cc_list_default_def video_four_cc_info_map_default_def)

lemma negotiate_offer:
  assumes "list_wf l"
  shows "\<exists>l'. negotiate_list (fl_entries l) [0..<fl_count l] four_cc_list_default = (Inr (), l') \<and> list_wf l' \<and>
    list_names l' = filter four_cc_supported (list_names l)"
proof -
  have "map (\<lambda>i. entry_name (fl_entries l ! i)) [0..<fl_count l] = list_names l"
    using assms map_nth_take [of "fl_count l" "fl_entries l"]
    by (simp add: list_names_def list_wf_def entries_wf_def flip: map_map [unfolded comp_def])
  moreover have "entries_wf (fl_entries l)" "fl_count l \<le> MAX_FOURCCS" using assms by (simp_all add: list_wf_def)
  ultimately show ?thesis
    using negotiate_list_names [of "fl_entries l" "[0..<fl_count l]" four_cc_list_default] by simp
qed

lemma negotiate_map_offer:
  assumes "map_wf m"
  shows "\<exists>m'. negotiate_map m [0..<vm_count m] video_four_cc_info_map_default = (Inr (), m') \<and> map_wf m' \<and>
    map_names m' = forwardable (map_names m)"
proof -
  have "map (\<lambda>i. (entry_name (vm_entries m ! i), vm_masks m ! i)) [0..<vm_count m] = map_names m"
    using assms by (intro nth_equalityI) (simp_all add: map_names_def map_wf_def entries_wf_def)
  moreover have "vm_count m \<le> MAX_FOURCCS" using assms by (simp add: map_wf_def)
  ultimately show ?thesis
    using negotiate_map_names [OF assms, of "[0..<vm_count m]" video_four_cc_info_map_default] by simp
qed

section \<open>The readers never panic\<close>

lemma bindS_lift: "bindS (liftS (Inr x)) f = f x"
  by (rule ext) simp

lemma keeps_list_add: "keeps list_wf (fourcc_list_add cc) (\<lambda>_. True)"
  unfolding keeps_iff
proof (intro allI impI)
  fix l assume l: "list_wf l"
  show "fst (fourcc_list_add cc l) \<noteq> panic \<and> list_wf (snd (fourcc_list_add cc l)) \<and>
      (\<forall>y. fst (fourcc_list_add cc l) = Inr y \<longrightarrow> True)"
    using list_add_ok [OF l, of cc] list_add_full_or_bad [OF l, of cc] by (cases "fl_count l < MAX_FOURCCS \<and> key_ok cc") auto
qed

lemma keeps_list_init: "keeps list_wf fourcc_list_init (\<lambda>_. True)"
  unfolding fourcc_list_init_def by (rule keeps_mod) (simp_all add: list_wf_def)

lemma ntoh16_safe: "2 \<le> length xs \<Longrightarrow> ntoh16 xs \<noteq> panic"
  by (auto simp: ntoh16_def idx_def)

lemma ntoh32_safe: "4 \<le> length xs \<Longrightarrow> ntoh32 xs \<noteq> panic"
  by (auto simp: ntoh32_def idx_def)

lemma ntoh32_drop_safe: "\<not> length xs < 8 \<Longrightarrow> ntoh32 (drop 4 xs) \<noteq> panic"
  by (rule ntoh32_safe) simp

lemma keeps_list_parse_loop: "keeps list_wf (fourcc_list_parse_loop data n offset) (\<lambda>_. True)"
proof (induction n arbitrary: offset)
  case (Suc n)
  show ?case
    unfolding fourcc_list_parse_loop.simps Let_def
    by (intro moves_if moves_bind [OF moves_lift [of _ "\<lambda>_. True"]] moves_then [OF keeps_list_add] Suc moves_ret)
      (auto intro!: ntoh16_safe simp: subslice_def)
qed (simp add: moves_ret)

lemma keeps_list_parse: "keeps list_wf (fourcc_list_parse data) (\<lambda>_. True)"
  unfolding fourcc_list_parse_def
  by (intro moves_if moves_fail moves_then [OF keeps_list_init] moves_bind [OF moves_lift [of _ "\<lambda>_. True"]]
      moves_then [OF keeps_list_parse_loop] moves_get) (auto intro!: ntoh32_safe)

lemma scan_connect_ints: "scan connect_read_u16 (\<lambda>_. True)" "scan connect_read_u32 (\<lambda>_. True)"
  unfolding connect_read_u16_def connect_read_u32_def
  by (rule moves_bind [OF moves_map_err [OF scan_read]], rule moves_lift; auto intro!: ntoh16_safe ntoh32_safe)+

lemma scan_blob: "scan (read_amf_binary_blob ty) (\<lambda>_. True)"
  unfolding read_amf_binary_blob_def
  by (rule moves_bind [of _ _ _ "\<lambda>_. True"])
    (auto intro!: moves_bind [OF scan_connect_ints(1)] moves_bind [OF scan_connect_ints(2)] moves_ret moves_fail
      moves_bind [OF moves_get [of _ "\<lambda>_. True"]] moves_map_err moves_any [OF scan_read])

lemma scan_key_bytes: "scan read_key_bytes (\<lambda>_. True)"
  unfolding read_key_bytes_def
  by (rule moves_bind [OF scan_amf0_strings(2)]) (auto intro!: moves_lift)

lemma walks_members:
  assumes "walks I body (\<lambda>_. True)"
  shows "walks I (object_members n body) (\<lambda>_. True)"
  by (induction n) (auto intro!: moves_bind [OF walks_inB [OF scan_is_object_end]] walks_inB scan_object_end
      moves_fail moves_then [OF assms])

lemma walks_strict_array_loop: "walks list_wf (four_cc_strict_array_loop n) (\<lambda>_. True)"
proof (induction n)
  case (Suc n)
  show ?case
    unfolding four_cc_strict_array_loop.simps
    by (rule moves_bind [OF walks_inB [OF scan_amf0_strings(1)]], clarsimp simp del: liftS_apply,
        intro moves_bind [OF moves_lift [of _ "\<lambda>_. True"]] moves_then [of _ _ _ "\<lambda>_. True"] moves_if
        walks_keeps keeps_list_add moves_ret Suc) (auto simp: idx_def)
qed (unfold four_cc_strict_array_loop.simps, rule moves_ret, rule TrueI)

lemma walks_four_cc_list: "walks list_wf read_four_cc_list_amf (\<lambda>_. True)"
  unfolding read_four_cc_list_amf_def read_four_cc_strict_array_def
  by (intro moves_then [OF walks_keeps [OF keeps_list_init]] moves_bind [OF walks_inB [OF scan_amf0_read_type]]
      moves_if moves_fail moves_bind [OF walks_inB [OF scan_connect_ints(2)]] walks_strict_array_loop
      moves_bind [OF walks_inB [OF scan_blob]] walks_keeps moves_void [OF keeps_list_parse]) simp_all

subsection \<open>The info map\<close>

lemma put_map_entry_ok:
  assumes "map_wf m" "i < MAX_FOURCCS" "length e = 5"
  shows "\<exists>m'. put_map_entry i e m = (Inr (), m') \<and> map_wf m' \<and> vm_count m' = vm_count m"
proof -
  have "i < length (vm_entries m)" using assms by (simp add: map_wf_def entries_wf_def)
  with assms show ?thesis by (simp add: put_map_entry_def bindS_def map_wf_def entries_wf_update)
qed

lemma put_map_mask_ok:
  assumes "map_wf m" "vm_count m < MAX_FOURCCS"
  shows "\<exists>m'. put_map_mask (vm_count m) v m = (Inr (), m') \<and> map_wf m' \<and> vm_count m' = Suc (vm_count m)"
  using assms by (auto simp: put_map_mask_def bindS_def map_wf_def)

lemma keeps_add_map_entry: "keeps map_wf (add_video_map_entry key v) (\<lambda>_. True)"
  unfolding keeps_iff
proof (intro allI impI)
  fix m assume m: "map_wf m"
  let ?r = "add_video_map_entry key v m"
  let ?n = "vm_count m" and ?e = "vm_entries m ! vm_count m"
  have "\<exists>r m'. ?r = (r, m') \<and> r \<noteq> panic \<and> map_wf m'"
  proof (cases "?n < MAX_FOURCCS")
    case True
    then have e: "length ?e = 5" "idx (vm_entries m) ?n = Inr ?e"
      using m entries_wf_nth by (simp_all add: map_wf_def entries_wf_def)
    show ?thesis
    proof (cases "key_ok key")
      case k: True
      then obtain e' where e': "entry_from_key ?e key = Some (Inr e')" "length e' = 5"
        using entry_from_key_cases [OF e(1), of key] by auto
      with map_put_ok [OF m True e'(2), of v] True e show ?thesis
        by (auto simp: add_video_map_entry_def bindS_def)
    next
      case False
      then have "entry_from_key ?e key = None" using entry_from_key_cases [OF e(1), of key] by simp
      with True e m show ?thesis by (auto simp: add_video_map_entry_def bindS_def)
    qed
  qed (use m in \<open>auto simp: add_video_map_entry_def bindS_def\<close>)
  then show "fst ?r \<noteq> panic \<and> map_wf (snd ?r) \<and> (\<forall>y. fst ?r = Inr y \<longrightarrow> True)" by auto
qed

lemma info_map_key_ok:
  assumes m: "map_wf m" "vm_count m < MAX_FOURCCS" and s: "slen \<in> {1, 4}" "offset + slen \<le> length data"
  shows "\<exists>r m'. info_map_key data slen offset m = (r, m') \<and> r \<noteq> panic \<and> map_wf m' \<and> vm_count m' = vm_count m"
proof -
  let ?e = "vm_entries m ! vm_count m"
  have e: "length ?e = 5" "idx (vm_entries m) (vm_count m) = Inr ?e"
    using m entries_wf_nth by (simp_all add: map_wf_def entries_wf_def)
  have f: "idx data offset = Inr (data ! offset)" using s by auto
  consider (star) "slen = 1" "data ! offset = 0x2A" | (four) "slen = 4" | (bad) "slen = 1" "data ! offset \<noteq> 0x2A"
    using s by auto
  then show ?thesis
  proof cases
    case star
    with put_map_entry_ok [OF m(1,2), of "?e[0 := 0x2A]"] e f show ?thesis
      by (auto simp: info_map_key_def bindS_def)
  next
    case four
    then have l: "length (take 4 (drop offset data)) = 4" using s by simp
    then have "bindR (subslice data offset (offset + 4)) (copy_at ?e 0) = Inr (take 4 (drop offset data) @ drop 4 ?e)"
      using four s e by (simp add: copy_at_def)
    with put_map_entry_ok [OF m(1,2), of "take 4 (drop offset data) @ drop 4 ?e"] e f four l show ?thesis
      by (auto simp: info_map_key_def bindS_def)
  qed (use m e f in \<open>auto simp: info_map_key_def bindS_def\<close>)
qed

lemma info_map_parse_loop_ok:
  assumes "map_wf m" "vm_count m + n \<le> MAX_FOURCCS"
  shows "\<exists>r m'. info_map_parse_loop data legacy n offset m = (r, m') \<and> r \<noteq> panic \<and> map_wf m'"
  using assms
proof (induction n arbitrary: m offset)
  case (Suc n)
  show ?case
  proof (cases "offset + 2 \<le> length data")
    case True
    then obtain w where w: "ntoh16 (drop offset data) = Inr w" by (auto simp: ntoh16_def)
    show ?thesis
    proof (cases "unat w \<in> {1, 4} \<and> offset + 2 + unat w \<le> length data")
      case s: True
      then obtain r m1 where m1: "info_map_key data (unat w) (offset + 2) m = (r, m1)" "r \<noteq> panic" "map_wf m1"
          "vm_count m1 = vm_count m"
        using info_map_key_ok [of m "unat w" "offset + 2" data] Suc.prems by auto
      show ?thesis
      proof (cases r)
        case (Inl e)
        with True w s m1 show ?thesis by (auto simp: bindS_def thenS_def Let_def)
      next
        case (Inr u)
        let ?o = "offset + 2 + unat w"
        have k: "thenS (info_map_key data (unat w) (offset + 2)) K m = K m1"
          for K :: "(video_four_cc_info_map, unit) op" using m1(1) Inr by simp
        have t1: "(offset + 2 > length data) = False" using True by simp
        have s1: "(unat w \<notin> {1, 4} \<or> offset + 2 + unat w > length data) = False" using s by simp
        have put: "\<exists>m2. put_map_mask (vm_count m1) v m1 = (Inr (), m2) \<and> map_wf m2 \<and> vm_count m2 + n \<le> MAX_FOURCCS" for v
          using put_map_mask_ok [of m1 v] m1 Suc.prems by auto
        have key: "info_map_parse_loop data legacy (Suc n) offset m =
            (if legacy then thenS (put_map_mask (vm_count m1) FOUR_CC_INFO_ALL) (info_map_parse_loop data legacy n ?o)
             else if ?o + 4 > length data then failS (Err EIo)
             else bindS (liftS (ntoh32 (drop ?o data))) (\<lambda>v.
               thenS (put_map_mask (vm_count m1) v) (info_map_parse_loop data legacy n (?o + 4)))) m1"
          unfolding info_map_parse_loop.simps w bindS_lift Let_def t1 s1 if_False
            k bindS_Inr [OF getS_apply] by (rule refl)
        have go: "\<exists>r m'. thenS (put_map_mask (vm_count m1) v) (info_map_parse_loop data legacy n off) m1 = (r, m') \<and>
            r \<noteq> panic \<and> map_wf m'" for v off
          using put [of v] Suc.IH [of _ off] by (auto simp: thenS_def bindS_def)
        have nt: "\<not> ?o + 4 > length data \<Longrightarrow> ntoh32 (drop ?o data) \<noteq> panic" by (rule ntoh32_safe) simp
        show ?thesis
          using go nt m1(3) unfolding key by (auto simp: bindS_def split: sum.split)
      qed
    qed (use True w Suc.prems in \<open>auto simp: bindS_def Let_def\<close>)
  qed (use Suc.prems in auto)
qed simp

lemma info_map_walk_safe: "info_map_walk data extra n pos \<noteq> panic"
proof (induction n arbitrary: pos)
  case (Suc n)
  show ?case
  proof (cases "pos + 2 > length data")
    case False
    then obtain w where "ntoh16 (drop pos data) = Inr w" by (auto simp: ntoh16_def)
    with Suc show ?thesis by (simp add: Let_def)
  qed simp
qed simp

lemma unat_min_MAX_FOURCCS: "unat (min w (of_nat MAX_FOURCCS :: u32)) \<le> MAX_FOURCCS"
proof -
  have "min w (of_nat MAX_FOURCCS :: u32) \<le> of_nat MAX_FOURCCS" by simp
  then have "unat (min w (of_nat MAX_FOURCCS :: u32)) \<le> unat (of_nat MAX_FOURCCS :: u32)"
    by (rule word_le_nat_alt [THEN iffD1])
  then show ?thesis by (simp add: MAX_FOURCCS_def)
qed

lemma keeps_info_map_parse: "keeps map_wf (video_fourcc_info_map_parse data) (\<lambda>_. True)"
  unfolding keeps_iff
proof (intro allI impI)
  fix m assume m: "map_wf m"
  let ?r = "video_fourcc_info_map_parse data m"
  have "\<exists>r m'. ?r = (r, m') \<and> r \<noteq> panic \<and> map_wf m'"
  proof (cases "length data < 4")
    case False
    then have "idx data 0 = Inr (data ! 0)" by (intro idx_in) linarith
    with False obtain w where w: "ntoh32 data = Inr w" by (auto simp: ntoh32_def)
    let ?n = "unat (min w (of_nat MAX_FOURCCS))"
    obtain a where a: "info_map_walk data 4 ?n 4 = Inr a \<or> (\<exists>e. info_map_walk data 4 ?n 4 = err e)"
      using info_map_walk_safe [of data 4 ?n 4] by (cases "info_map_walk data 4 ?n 4") (metis failure.exhaust, metis)
    obtain k where k: "info_map_walk data 0 ?n 4 = Inr k \<or> (\<exists>e. info_map_walk data 0 ?n 4 = err e)"
      using info_map_walk_safe [of data 0 ?n 4] by (cases "info_map_walk data 0 ?n 4") (metis failure.exhaust, metis)
    have loop: "\<exists>r m'. thenS (info_map_parse_loop data legacy ?n 4) (getS vm_count) video_four_cc_info_map_default = (r, m') \<and>
        r \<noteq> panic \<and> map_wf m'" for legacy
      using info_map_parse_loop_ok [of video_four_cc_info_map_default ?n data legacy 4] unat_min_MAX_FOURCCS [of w]
      by (auto simp: thenS_def bindS_def split: sum.splits)
    show ?thesis
      using False w a k loop [of True] loop [of False]
      by (auto simp: video_fourcc_info_map_parse_def Let_def bindS_def thenS_def)
  qed (use m in \<open>simp add: video_fourcc_info_map_parse_def\<close>)
  then show "fst ?r \<noteq> panic \<and> map_wf (snd ?r) \<and> (\<forall>y. fst ?r = Inr y \<longrightarrow> True)" by auto
qed

lemma walks_video_map_array_loop: "walks map_wf (video_map_array_loop n) (\<lambda>_. True)"
proof (induction n)
  case (Suc n)
  show ?case
    unfolding video_map_array_loop.simps
    by (rule moves_bind [OF walks_inB [OF scan_amf0_strings(1)]], clarsimp simp del: liftS_apply,
        intro moves_bind [OF moves_lift [of _ "\<lambda>_. True"]] moves_then [OF walks_keeps [OF keeps_add_map_entry]] Suc) auto
qed (unfold video_map_array_loop.simps, rule moves_ret, rule TrueI)

lemma walks_video_map_member: "walks map_wf video_map_member (\<lambda>_. True)"
  unfolding video_map_member_def
  by (intro moves_bind [OF walks_inB [OF scan_key_bytes]] moves_bind [OF walks_inB [OF scan_amf0_read_type]] moves_if
      moves_fail moves_bind [OF walks_inB [OF scan_amf0_scalars(1)]] walks_keeps keeps_add_map_entry) simp_all

lemma walks_video_map: "walks map_wf read_video_fourcc_info_map_amf (\<lambda>_. True)"
  unfolding read_video_fourcc_info_map_amf_def
  by (intro moves_then [OF walks_keeps [OF keeps_mod [where Q = "\<lambda>_. True"]]] moves_bind [OF walks_inB [OF scan_amf0_read_type]]
      moves_if moves_fail moves_bind [OF walks_inB [OF scan_connect_ints(2)]] walks_video_map_array_loop
      moves_bind [OF walks_inB [OF scan_blob]] walks_keeps moves_void [OF keeps_info_map_parse]
      moves_then [of _ _ _ "\<lambda>_. True"] walks_members walks_video_map_member moves_ret
      moves_void [OF walks_inB [OF scan_connect_ints(2)]]) simp_all

lemma scan_fourcc_number: "scan read_fourcc_number (\<lambda>_. True)"
  unfolding read_fourcc_number_def Let_def
  by (intro moves_bind [OF scan_amf0_read_type] moves_if moves_bind [OF scan_amf0_scalars(1)] moves_fail moves_ret
      moves_bind [OF scan_connect_ints(1)] moves_bind [OF moves_get [of _ "\<lambda>_. True"]]
      moves_bind [OF moves_map_err [OF scan_read]] moves_then [of _ _ _ "\<lambda>_. True"] scan_drain moves_lift)
    (auto intro!: ntoh32_safe)

lemma walks_caps_ex: "walks (\<lambda>_. True) read_caps_ex_amf (\<lambda>_. True)"
proof -
  have parse: "keeps (\<lambda>_. True) (zoomS fst (\<lambda>c s. (c, snd s)) (caps_exit_parse data)) (\<lambda>_. True)"
    for data :: bytes
    using ntoh32_safe [of data] ntoh32_drop_safe [of data]
    by (auto simp: keeps_iff zoomS_def caps_exit_parse_def bindS_def thenS_def split: prod.splits sum.splits if_splits)
  have member: "walks (\<lambda>_. True) caps_ex_member (\<lambda>_. True)"
    unfolding caps_ex_member_def Let_def
    by (intro moves_bind [OF walks_inB [OF scan_key_bytes]] moves_if moves_bind [OF walks_inB [OF scan_fourcc_number]]
        walks_keeps keeps_mod walks_inB scan_skip_value) simp_all
  show ?thesis
    unfolding read_caps_ex_amf_def
    by (intro moves_bind [OF walks_inB [OF scan_amf0_read_type]] moves_if moves_fail
        moves_bind [OF walks_inB [OF scan_amf0_scalars(1)]] moves_bind [OF walks_inB [OF scan_blob]]
        moves_then [OF walks_keeps [OF parse]] moves_then [OF walks_members [OF member]]
        moves_then [OF walks_keeps [OF keeps_mod [where Q = "\<lambda>_. True"]]] walks_keeps keeps_mod) simp_all
qed

lemma walks_reconnect: "walks (\<lambda>_. True) read_reconnect_amf (\<lambda>_. True)"
proof -
  have "keeps (\<lambda>_. True) (reconnect_parse data) (\<lambda>_. True)" for data
    using ntoh32_safe [of data] ntoh32_drop_safe [of data]
    by (auto simp: keeps_iff reconnect_parse_def bindS_def thenS_def split: prod.splits sum.splits if_splits)
  then show ?thesis
    unfolding read_reconnect_amf_def
    by (intro moves_bind [OF walks_inB [OF scan_amf0_read_type]] moves_bind [OF walks_inB [OF scan_blob]] walks_keeps)
qed

section \<open>Negotiated capabilities are read back\<close>

lemma key_not_end:
  assumes "length k \<le> 0xFFFF" "mk \<noteq> 9"
  shows "take 3 (len16_bytes k @ mk # rest) \<noteq> [0, 0, 9]"
proof (cases k)
  case Nil
  then show ?thesis using assms by (simp add: len16_bytes_def be16_def)
next
  case (Cons x xs)
  then have "unat (of_nat (length k) :: u16) \<noteq> 0" using length_of_nat16 [OF assms(1)] by simp
  then have "be16 (of_nat (length k)) \<noteq> [0, 0]" by (metis be16_zero unat_0)
  then show ?thesis by (auto simp: len16_bytes_def be16_def)
qed

lemma fills_members_end: "fills (object_members n body) x [0, 0, 9] () x"
proof -
  have "fills (inB (voidS (map_errS EAmf (buf_read 3)))) x [0, 0, 9] () x"
    by (rule fills_inB [OF bq.parses_void [OF bq.parses_map_err [OF bq.parses_read]]]) simp
  then show ?thesis
    by (cases n) (auto intro!: fills_look [where v = True] simp: is_object_end_apply)
qed

lemma fills_members_step:
  assumes "\<And>rest. take 3 (bs @ rest) \<noteq> [0, 0, 9]" "fills body x bs () x1" "fills (object_members n body) x1 cs () x2"
  shows "fills (object_members (Suc n) body) x (bs @ cs) () x2"
proof -
  have "fills (thenS body (object_members n body)) x (bs @ cs) () x2" by (rule fills_then [OF assms(2,3)])
  moreover have "amf0_is_object_end b = (Inr False, b)" if "buf_inv b" "contents b = (bs @ cs) @ rest" for b rest
    using assms(1) [of "cs @ rest"] that by (simp add: is_object_end_apply del: take_append)
  ultimately show ?thesis by (auto intro!: fills_look [where v = False])
qed

lemma bindS_ret_right: "bindS m retS = m"
  by (rule ext) (auto simp: bindS_def split: prod.splits sum.splits)

lemma fills_type:
  assumes "fills (f ty) x bs v x'"
  shows "fills (bindS (inB amf0_read_type) f) x (amf0_marker ty # bs) v x'"
proof -
  have "bq.parses amf0_read_type [amf0_marker ty] ty"
    using parses_marker [where f = retS and ty = ty, OF bq.parses_ret] by (simp add: bindS_ret_right)
  from fills_bind [where f = f, OF fills_inB [OF this] assms] show ?thesis by simp
qed

lemma parses_key_bytes: "length k < 256 \<Longrightarrow> bq.parses read_key_bytes (len16_bytes k) k"
  unfolding read_key_bytes_def
  by (rule bq.parses_bind_last [OF parses_amf0_strings(4)])
    (auto intro!: bq.parses_lift simp: filled_def)

subsection \<open>FourCC lists\<close>

definition names_bytes :: "bytes list \<Rightarrow> bytes" where
  "names_bytes ns = concat (map (\<lambda>n. 2 # len16_bytes n) ns)"

lemma entry_key_name:
  assumes "entries_wf es" "i < MAX_FOURCCS"
  shows "entry_key es i = Inr (entry_name (es ! i))"
proof -
  have e: "length (es ! i) = 5" "i < length es" using assms entries_wf_nth by (auto simp: entries_wf_def)
  then have "es ! i \<noteq> []" by auto
  with e take_1 [OF this] show ?thesis by (simp add: entry_key_def entry_wildcard_def entry_name_def)
qed

lemma emits_list_loop:
  assumes "entries_wf es" "\<forall>i \<in> set is. i < MAX_FOURCCS \<and> four_cc_supported (entry_name (es ! i))"
  shows "bq.emits (write_four_cc_list_loop es is) () (names_bytes (map (\<lambda>i. entry_name (es ! i)) is))"
  using assms(2)
proof (induction "is")
  case (Cons i "is")
  let ?n = "entry_name (es ! i)"
  have n: "entry_key es i = Inr ?n" "utf8_valid ?n" "length ?n \<le> 0xFFFF"
    using entry_key_name [OF assms(1)] supported_cases [of ?n] Cons.prems by auto
  have "bq.emits (thenS (amf0_write_string ?n) (write_four_cc_list_loop es is)) ()
      ((2 # len16_bytes ?n) @ names_bytes (map (\<lambda>i. entry_name (es ! i)) is))"
    using Cons n by (intro bq.emits_then [OF emits_amf0_strings(1)]) auto
  then show ?case using n by (simp add: names_bytes_def bindS_lift)
qed (auto simp: names_bytes_def)

lemma fills_list_loop:
  assumes "list_wf l" "\<forall>n \<in> set ns. four_cc_supported n" "fl_count l + length ns \<le> MAX_FOURCCS"
  shows "\<exists>l'. fills (four_cc_strict_array_loop (length ns)) l (names_bytes ns) () l' \<and> list_wf l' \<and>
    list_names l' = list_names l @ ns"
  using assms
proof (induction ns arbitrary: l)
  case Nil
  then show ?case
    by (auto simp: names_bytes_def simp del: retS_apply intro!: exI [of _ l] fills_ret)
next
  case (Cons n ns)
  have n: "key_ok n" "entry_name n = n" "length n \<le> 4" "four_cc_supported n" using Cons.prems supported_cases by auto
  from list_add_ok [OF Cons.prems(1) _ n(1)] Cons.prems(3)
  obtain l1 where l1: "fourcc_list_add n l = (Inr (), l1)" "list_wf l1" "fl_count l1 = Suc (fl_count l)"
    "list_names l1 = list_names l @ [n]" unfolding n(2) by (elim exE conjE meta_impE) (simp, rule that)
  have IH: "\<exists>l'. fills (four_cc_strict_array_loop (length ns)) l1 (names_bytes ns) () l' \<and> list_wf l' \<and>
      list_names l' = list_names l1 @ ns"
    using Cons.prems l1 by (intro Cons.IH) auto
  then obtain l2 where l2: "fills (four_cc_strict_array_loop (length ns)) l1 (names_bytes ns) () l2" "list_wf l2"
    "list_names l2 = list_names l1 @ ns" by (elim exE conjE) (rule that)
  let ?a = "filled (replicate 8 0) n"
  have "n \<noteq> []" using n(1) by (auto simp: key_ok_def)
  have a: "idx ?a 0 = Inr (n ! 0)" "subslice ?a 0 (length n) = Inr n"
    using n(3) \<open>n \<noteq> []\<close> by (simp_all add: filled_def nth_append)
  have c: "length n = 1 \<and> n ! 0 = 0x2A \<or> 4 \<le> length n" using n(1) by (auto simp: key_ok_def)
  have "fills (thenS (inO (fourcc_list_add n)) (four_cc_strict_array_loop (length ns))) l ([] @ names_bytes ns) () l2"
    by (rule fills_then [OF fills_inO l2(1)]) (rule l1(1))
  then have "fills (four_cc_strict_array_loop (length (n # ns))) l ((2 # len16_bytes n) @ names_bytes ns) () l2"
    unfolding list.size four_cc_strict_array_loop.simps add_Suc_right add_0_right
    by (intro fills_bind [OF fills_inB [OF parses_amf0_strings(1)]])
      (use n(3) c a in \<open>simp_all add: bindS_lift\<close>)
  with l2 l1(4) show ?case by (auto simp: names_bytes_def)
qed

lemma list_names_nth: "list_wf l \<Longrightarrow> map (\<lambda>i. entry_name (fl_entries l ! i)) [0..<fl_count l] = list_names l"
  by (intro nth_equalityI) (simp_all add: list_names_def list_wf_def entries_wf_def)

lemma map_names_nth:
  "map_wf m \<Longrightarrow> map (\<lambda>i. (entry_name (vm_entries m ! i), vm_masks m ! i)) [0..<vm_count m] = map_names m"
  by (intro nth_equalityI) (simp_all add: map_names_def map_wf_def entries_wf_def)

definition list_bytes :: "bytes list \<Rightarrow> bytes" where
  "list_bytes ns = 10 # be32 (of_nat (length ns)) @ names_bytes ns"

lemma length_list_names: "list_wf l \<Longrightarrow> length (list_names l) = fl_count l"
  by (simp add: list_names_def list_wf_def entries_wf_def)

lemma emits_list:
  assumes l: "list_wf l" "\<forall>n \<in> set (list_names l). four_cc_supported n"
  shows "bq.emits (write_four_cc_list_amf l) () (list_bytes (list_names l))"
proof -
  have "\<forall>i \<in> set [0..<fl_count l]. i < MAX_FOURCCS \<and> four_cc_supported (entry_name (fl_entries l ! i))"
  proof
    fix i assume "i \<in> set [0..<fl_count l]"
    then have "entry_name (fl_entries l ! i) \<in> set (list_names l)"
      unfolding list_names_nth [OF l(1), symmetric] by auto
    with l \<open>i \<in> _\<close> show "i < MAX_FOURCCS \<and> four_cc_supported (entry_name (fl_entries l ! i))"
      by (auto simp: list_wf_def)
  qed
  then have "bq.emits (write_four_cc_list_loop (fl_entries l) [0..<fl_count l]) () (names_bytes (list_names l))"
    using emits_list_loop [of "fl_entries l"] l(1) unfolding list_names_nth [OF l(1), symmetric]
    by (simp add: list_wf_def)
  then have "bq.emits (write_four_cc_list_amf l) () ([10] @ be32 (of_nat (fl_count l)) @ names_bytes (list_names l))"
    unfolding write_four_cc_list_amf_def amf0_marker.simps by (intro bq.emits_put_then)
  then show ?thesis by (simp add: list_bytes_def length_list_names [OF l(1)])
qed

lemma parses_connect_ints: "bq.parses connect_read_u32 (be32 d) d" "bq.parses connect_read_u16 (be16 w) w"
  unfolding connect_read_u32_def connect_read_u16_def
  by (rule parses_read_lift; simp add: be32_def be16_def ntoh32_def ntoh16_def be_simps)+

lemma fills_list:
  assumes "list_wf l" "\<forall>n \<in> set ns. four_cc_supported n" "length ns \<le> MAX_FOURCCS"
  shows "\<exists>l'. fills read_four_cc_list_amf l (list_bytes ns) () l' \<and> list_wf l' \<and> list_names l' = ns"
proof -
  let ?l = "l\<lparr>fl_count := 0\<rparr>"
  have "list_wf ?l" "list_names ?l = []" using assms(1) by (simp_all add: list_wf_def list_names_def)
  with fills_list_loop [of ?l ns] assms
  obtain l' where l': "fills (four_cc_strict_array_loop (length ns)) ?l (names_bytes ns) () l'" "list_wf l'"
    "list_names l' = ns" by auto
  have n: "unat (of_nat (length ns) :: u32) = length ns"
    using assms(3) by (intro length_of_nat32) (simp add: MAX_FOURCCS_def)
  have "fills read_four_cc_strict_array ?l (be32 (of_nat (length ns)) @ names_bytes ns) () l'"
    unfolding read_four_cc_strict_array_def
    by (rule fills_bind [OF fills_inB [OF parses_connect_ints(1)]]) (use l' n assms(3) in simp)
  then have "fills (bindS (inB amf0_read_type) (\<lambda>ty.
     if ty = A0StrictArray then read_four_cc_strict_array
     else if ty = A0LongString then
       bindS (inB (read_amf_binary_blob ty)) (\<lambda>data. inO (voidS (fourcc_list_parse data)))
     else failS (Err EAmf))) ?l (amf0_marker A0StrictArray # be32 (of_nat (length ns)) @ names_bytes ns) () l'"
    by (intro fills_type) simp
  then have "fills read_four_cc_list_amf l ([] @ list_bytes ns) () l'"
    unfolding read_four_cc_list_amf_def list_bytes_def
    by (intro fills_then [OF fills_inO]) (simp_all add: fourcc_list_init_def)
  with l' show ?thesis by auto
qed

subsection \<open>Info maps, masks and reconnect requests\<close>

definition map_members :: "(bytes \<times> u32) list \<Rightarrow> bytes" where
  "map_members ps = concat (map (\<lambda>(k, v). len16_bytes k @ 0 # be64 (u32_to_f64 v)) ps)"

lemma emits_info_map_loop:
  assumes "map_wf m" "\<forall>i \<in> set is. i < MAX_FOURCCS \<and> four_cc_supported (entry_name (vm_entries m ! i))"
  shows "bq.emits (write_info_map_loop m is) ()
    (map_members (map (\<lambda>i. (entry_name (vm_entries m ! i), vm_masks m ! i)) is))"
  using assms(2)
proof (induction "is")
  case (Cons i "is")
  let ?n = "entry_name (vm_entries m ! i)" and ?v = "vm_masks m ! i"
  let ?bs = "map_members (map (\<lambda>i. (entry_name (vm_entries m ! i), vm_masks m ! i)) is)"
  have e: "entries_wf (vm_entries m)" "length (vm_masks m) = MAX_FOURCCS" using assms(1) by (simp_all add: map_wf_def)
  have n: "entry_key (vm_entries m) i = Inr ?n" "utf8_valid ?n" "length ?n \<le> 0xFFFF" "idx (vm_masks m) i = Inr ?v"
    using entry_key_name [OF e(1)] supported_cases [of ?n] Cons.prems e(2) by auto
  have "bq.emits (thenS (amf0_write_object_key ?n) (thenS (amf0_write_number (u32_to_f64 ?v)) (write_info_map_loop m is))) ()
      (len16_bytes ?n @ (0 # be64 (u32_to_f64 ?v)) @ ?bs)"
    using Cons n by (intro bq.emits_then [OF emits_amf0_strings(3)] bq.emits_then [OF emits_amf0_scalars(1)]) auto
  then show ?case using n by (simp add: map_members_def bindS_lift)
qed (auto simp: map_members_def)

lemma emits_info_map:
  assumes m: "map_wf m" "\<forall>(n, v) \<in> set (map_names m). four_cc_supported n"
  shows "bq.emits (write_video_fourcc_info_map_amf m) () (3 # map_members (map_names m) @ [0, 0, 9])"
proof -
  have "\<forall>i \<in> set [0..<vm_count m]. i < MAX_FOURCCS \<and> four_cc_supported (entry_name (vm_entries m ! i))"
  proof
    fix i assume "i \<in> set [0..<vm_count m]"
    then have "(entry_name (vm_entries m ! i), vm_masks m ! i) \<in> set (map_names m)"
      unfolding map_names_nth [OF m(1), symmetric] by auto
    with m \<open>i \<in> _\<close> show "i < MAX_FOURCCS \<and> four_cc_supported (entry_name (vm_entries m ! i))"
      by (auto simp: map_wf_def)
  qed
  from emits_info_map_loop [OF m(1) this, unfolded map_names_nth [OF m(1)]]
  have "bq.emits (write_video_fourcc_info_map_amf m) () ([3] @ map_members (map_names m) @ [0, 0, 9])"
    unfolding write_video_fourcc_info_map_amf_def
    by (rule bq.emits_then [OF emits_amf0_scalars(5) bq.emits_then [OF _ emits_amf0_scalars(6)]])
  then show ?thesis by simp
qed

lemma add_map_entry_ok:
  assumes m: "map_wf m" "vm_count m < MAX_FOURCCS" and k: "key_ok key"
  shows "\<exists>m'. add_video_map_entry key v m = (Inr (), m') \<and> map_wf m' \<and> vm_count m' = Suc (vm_count m) \<and>
    map_names m' = map_names m @ [(entry_name key, v)]"
proof -
  let ?e = "vm_entries m ! vm_count m"
  have e: "length ?e = 5" "idx (vm_entries m) (vm_count m) = Inr ?e"
    using m entries_wf_nth by (simp_all add: map_wf_def entries_wf_def)
  obtain e' where e': "entry_from_key ?e key = Some (Inr e')" "length e' = 5" "entry_name e' = entry_name key"
    using entry_from_key_cases [OF e(1), of key] k by auto
  with map_put_ok [OF m e'(2), of v] m e show ?thesis by (simp add: add_video_map_entry_def bindS_def)
qed

lemma fills_map_members:
  assumes "map_wf m" "\<forall>(k, v) \<in> set ps. four_cc_supported k" "vm_count m + length ps \<le> MAX_FOURCCS" "length ps \<le> n"
  shows "\<exists>m'. fills (object_members n video_map_member) m (map_members ps @ [0, 0, 9]) () m' \<and> map_wf m' \<and>
    map_names m' = map_names m @ ps"
  using assms
proof (induction ps arbitrary: m n)
  case Nil
  then show ?case by (auto simp: map_members_def intro!: exI [of _ m] fills_members_end)
next
  case (Cons p ps)
  obtain k v where p: "p = (k, v)" by (cases p)
  obtain n' where n': "n = Suc n'" "length ps \<le> n'" using Cons.prems(4) by (cases n) auto
  have k: "key_ok k" "entry_name k = k" "length k \<le> 4" using Cons.prems(2) supported_cases [of k] by (auto simp: p)
  have "vm_count m < MAX_FOURCCS" using Cons.prems(3) by simp
  from add_map_entry_ok [OF Cons.prems(1) this k(1), of v, unfolded k(2)]
  obtain m1 where m1: "add_video_map_entry k v m = (Inr (), m1)" "map_wf m1" "vm_count m1 = Suc (vm_count m)"
    "map_names m1 = map_names m @ [(k, v)]" by (elim exE conjE) (rule that)
  have "\<exists>m'. fills (object_members n' video_map_member) m1 (map_members ps @ [0, 0, 9]) () m' \<and> map_wf m' \<and>
      map_names m' = map_names m1 @ ps"
    using Cons.prems m1 n' by (intro Cons.IH) auto
  then obtain m2 where m2: "fills (object_members n' video_map_member) m1 (map_members ps @ [0, 0, 9]) () m2" "map_wf m2"
    "map_names m2 = map_names m1 @ ps" by (elim exE conjE) (rule that)
  have "fills (bindS (inB amf0_read_number) (\<lambda>value. if f64_outside_u32 value then failS (Err EAmf)
      else inO (add_video_map_entry k (f64_to_u32 value)))) m (be64 (u32_to_f64 v) @ []) () m1"
    by (rule fills_bind [OF fills_inB [OF parses_amf0_fixed(4) [folded amf0_read_number_def]]])
      (simp add: u32_f64_roundtrip fills_inO m1(1))
  then have "fills video_map_member m (len16_bytes k @ amf0_marker A0Number # be64 (u32_to_f64 v)) () m1"
    unfolding video_map_member_def
    by (intro fills_bind [OF fills_inB [OF parses_key_bytes]] fills_type) (use k(3) in simp_all)
  then have "fills video_map_member m (len16_bytes k @ 0 # be64 (u32_to_f64 v)) () m1" by simp
  from fills_members_step [OF _ this m2(1)] key_not_end [of k 0] k(3)
  have "fills (object_members n video_map_member) m ((len16_bytes k @ 0 # be64 (u32_to_f64 v)) @ map_members ps @ [0, 0, 9]) () m2"
    by (simp add: n'(1))
  with m2 m1(4) show ?case by (auto simp: map_members_def p)
qed

lemma fills_info_map:
  assumes "\<forall>(k, v) \<in> set ps. four_cc_supported k" "length ps \<le> MAX_FOURCCS"
  shows "\<exists>m'. fills read_video_fourcc_info_map_amf m (3 # map_members ps @ [0, 0, 9]) () m' \<and> map_wf m' \<and> map_names m' = ps"
proof -
  from fills_map_members [of video_four_cc_info_map_default ps MAX_OBJECT_KEYS] assms
  obtain m' where m': "fills (object_members MAX_OBJECT_KEYS video_map_member) video_four_cc_info_map_default
      (map_members ps @ [0, 0, 9]) () m'" "map_wf m'" "map_names m' = ps"
    by (auto simp: MAX_FOURCCS_def MAX_OBJECT_KEYS_def)
  have "fills (thenS (retS ()) (object_members MAX_OBJECT_KEYS video_map_member)) video_four_cc_info_map_default
      ([] @ map_members ps @ [0, 0, 9]) () m'"
    by (rule fills_then [OF fills_ret m'(1)])
  then have "fills read_video_fourcc_info_map_amf m ([] @ amf0_marker A0Object # map_members ps @ [0, 0, 9]) () m'"
    unfolding read_video_fourcc_info_map_amf_def
    by (intro fills_then [OF fills_inO] fills_type) (simp_all del: retS_apply)
  with m' show ?thesis by auto
qed

lemma emits_caps_ex: "bq.emits (write_caps_ex_amf v) () (0 # be64 (u32_to_f64 v))"
  unfolding write_caps_ex_amf_def by (rule emits_amf0_scalars)

lemma fills_caps_ex: "fills read_caps_ex_amf (c, m) (0 # be64 (u32_to_f64 v)) () (c, v)"
proof -
  have "fills (bindS (inB amf0_read_number) (\<lambda>value.
      if f64_outside_u32 value \<or> \<not> f64_is_whole value then failS (Err EAmf)
      else inO (modS (\<lambda>(c, m). (c, f64_to_u32 value))))) (c, m) (be64 (u32_to_f64 v) @ []) () (c, v)"
    by (rule fills_bind [OF fills_inB [OF parses_amf0_fixed(4) [folded amf0_read_number_def]]])
      (simp add: u32_f64_roundtrip fills_inO)
  then have "fills read_caps_ex_amf (c, m) (amf0_marker A0Number # be64 (u32_to_f64 v)) () (c, v)"
    unfolding read_caps_ex_amf_def by (intro fills_type) simp
  then show ?thesis by simp
qed

lemma parses_blob:
  assumes "length d \<le> MAX_CAPS_BLOB_BYTES"
  shows "bq.parses (read_amf_binary_blob A0LongString) (len32_bytes d) d"
proof -
  have "unat (of_nat (length d) :: u32) = length d"
    using assms by (intro length_of_nat32) (simp add: MAX_CAPS_BLOB_BYTES_def)
  then have len: "bq.parses (bindS connect_read_u32 (\<lambda>w. retS (unat w))) (be32 (of_nat (length d))) (length d)"
    using bq.parses_bind_last [where f = "\<lambda>w. retS (unat w)", OF parses_connect_ints(1) bq.parses_ret, of "of_nat (length d)"]
    by (simp only:)
  have "bq.parses (bindS (getS buf_available) (\<lambda>a.
      if length d > MAX_CAPS_BLOB_BYTES \<or> a < length d then failS (Err EAmf) else map_errS EAmf (buf_read (length d)))) d d"
    unfolding bq.parses_def
  proof (intro allI impI)
    fix s rest assume s: "buf_inv s" "contents s = d @ rest"
    then have "\<not> buf_available s < length d" by (simp add: bq.avail_contents)
    moreover obtain s' where "map_errS EAmf (buf_read (length d)) s = (Inr d, s')" "buf_inv s'" "contents s' = rest"
      by (rule bq.parsesE [OF bq.parses_map_err [OF bq.parses_read [OF refl]] s])
    ultimately show "\<exists>s'. bindS (getS buf_available) (\<lambda>a. if MAX_CAPS_BLOB_BYTES < length d \<or> a < length d
        then failS (Err EAmf) else map_errS EAmf (buf_read (length d))) s = (Inr d, s') \<and> buf_inv s' \<and> contents s' = rest"
      using assms by (simp add: bindS_def)
  qed
  with bq.parses_bind [OF len] show ?thesis by (simp add: read_amf_binary_blob_def len32_bytes_def)
qed

definition reconnect_blob :: "reconnect \<Rightarrow> bytes" where
  "reconnect_blob rc = be32 (rc_replay rc) @ be32 (rc_limit rc)"

lemma emits_reconnect: "bq.emits (write_reconnect_amf rc) () (12 # len32_bytes (reconnect_blob rc))"
proof -
  have "reconnect_write rc (replicate 8 0) = Inr (8, reconnect_blob rc)"
    by (simp add: reconnect_write_def reconnect_blob_def be32_def)
  then show ?thesis
    using emits_amf0_strings(2) [of "reconnect_blob rc"]
    by (simp add: write_reconnect_amf_def bindS_lift reconnect_blob_def be32_def)
qed

lemma fills_reconnect: "fills read_reconnect_amf r (12 # len32_bytes (reconnect_blob rc)) () rc"
proof -
  have l: "length (reconnect_blob rc) = 8" by (simp add: reconnect_blob_def be32_def)
  have "ntoh32 (reconnect_blob rc) = Inr (rc_replay rc)" "ntoh32 (drop 4 (reconnect_blob rc)) = Inr (rc_limit rc)"
    by (simp_all add: reconnect_blob_def be32_def ntoh32_def be_simps)
  with l have p: "reconnect_parse (reconnect_blob rc) r = (Inr (), rc)"
    by (simp add: reconnect_parse_def bindS_def thenS_def)
  have "bq.parses (read_amf_binary_blob A0LongString) (len32_bytes (reconnect_blob rc)) (reconnect_blob rc)"
    by (rule parses_blob) (simp add: l MAX_CAPS_BLOB_BYTES_def)
  then have "fills (bindS (inB (read_amf_binary_blob A0LongString)) (\<lambda>data. inO (reconnect_parse data))) r
      (len32_bytes (reconnect_blob rc) @ []) () rc"
    by (rule fills_bind [OF fills_inB fills_inO]) (rule p)
  then have "fills read_reconnect_amf r (amf0_marker A0LongString # len32_bytes (reconnect_blob rc)) () rc"
    unfolding read_reconnect_amf_def by (intro fills_type) simp
  then show ?thesis by simp
qed

section \<open>The negotiated capabilities\<close>

lemma negotiate_result:
  assumes "caps_wf ci"
  shows "\<exists>l m v. list_wf l \<and> map_wf m \<and> list_names l = filter four_cc_supported (list_names (ci_four_cc_list ci)) \<and>
    map_names m = forwardable (map_names (ci_video_four_cc_info_map ci)) \<and>
    v = (if ci_has_caps_ex ci then ci_caps_ex_mask ci AND
      (CAPS_EX_MASK_SERVER_DEFAULT OR (if ci_has_reconnect ci then CAPS_EX_MASK_RECONNECT else 0)) else 0) \<and>
    negotiate_caps ci = Inr \<lparr>
      nc_four_cc_list = (if ci_has_four_cc_list ci then l else four_cc_list_default), nc_caps_ex = caps_exit_default,
      nc_video_four_cc_info_map = (if ci_has_video_four_cc_info_map ci then m else video_four_cc_info_map_default),
      nc_reconnect = (if ci_has_reconnect ci then ci_reconnect ci else reconnect_default), nc_caps_ex_mask = v,
      nc_has_four_cc_list = ci_has_four_cc_list ci \<and> 0 < fl_count l, nc_has_caps_ex = ci_has_caps_ex ci,
      nc_has_video_four_cc_info_map = ci_has_video_four_cc_info_map ci \<and> 0 < vm_count m,
      nc_has_reconnect = ci_has_reconnect ci,
      nc_multitrack_enabled = (ci_has_caps_ex ci \<longrightarrow> v AND CAPS_EX_MASK_MULTITRACK \<noteq> 0)\<rparr>"
proof -
  obtain l where l: "negotiate_list (fl_entries (ci_four_cc_list ci)) [0..<fl_count (ci_four_cc_list ci)]
      four_cc_list_default = (Inr (), l)" "list_wf l"
    "list_names l = filter four_cc_supported (list_names (ci_four_cc_list ci))"
    using negotiate_offer assms unfolding caps_wf_def by (elim conjE) metis
  obtain m where m: "negotiate_map (ci_video_four_cc_info_map ci) [0..<vm_count (ci_video_four_cc_info_map ci)]
      video_four_cc_info_map_default = (Inr (), m)" "map_wf m"
    "map_names m = forwardable (map_names (ci_video_four_cc_info_map ci))"
    using negotiate_map_offer assms unfolding caps_wf_def by (elim conjE) metis
  have mask: "v AND a OR b AND v = v AND (a OR b)" for a b v :: u32
    by (simp add: and.commute [of b] bit.conj_disj_distrib)
  show ?thesis
    by (rule exI [of _ l], rule exI [of _ m], rule exI, intro conjI l m, rule refl)
      (unfold negotiate_caps_def l(1) m(1), simp add: negotiated_caps_default_def Let_def mask)
qed

section \<open>Properties\<close>

text \<open>C16: \<open>negotiate_caps\<close> is the intersection of the offer with what the server supports: for every well-formed
  offer it returns without a panic; the negotiated list is the supported names of the client's list in the
  client's order; the negotiated map has the supported names whose mask grants forwarding, with that flag
  alone; the \<open>capsEx\<close> mask is the requested mask cut to the server's bits, plus the reconnect bit when the
  client sent a reconnect request; the presence flags say exactly whether there is something to send.\<close>
theorem negotiate_caps_exact:
  assumes "caps_wf ci"
  shows "\<exists>out. negotiate_caps ci = Inr out \<and>
    list_wf (nc_four_cc_list out) \<and> map_wf (nc_video_four_cc_info_map out) \<and>
    list_names (nc_four_cc_list out) =
      (if ci_has_four_cc_list ci then filter four_cc_supported (list_names (ci_four_cc_list ci)) else []) \<and>
    (nc_has_four_cc_list out \<longleftrightarrow> list_names (nc_four_cc_list out) \<noteq> []) \<and>
    map_names (nc_video_four_cc_info_map out) =
      (if ci_has_video_four_cc_info_map ci then forwardable (map_names (ci_video_four_cc_info_map ci)) else []) \<and>
    (nc_has_video_four_cc_info_map out \<longleftrightarrow> map_names (nc_video_four_cc_info_map out) \<noteq> []) \<and>
    nc_has_caps_ex out = ci_has_caps_ex ci \<and>
    nc_caps_ex_mask out = (if ci_has_caps_ex ci then ci_caps_ex_mask ci AND
      (CAPS_EX_MASK_SERVER_DEFAULT OR (if ci_has_reconnect ci then CAPS_EX_MASK_RECONNECT else 0)) else 0) \<and>
    (nc_multitrack_enabled out \<longleftrightarrow>
      (ci_has_caps_ex ci \<longrightarrow> nc_caps_ex_mask out AND CAPS_EX_MASK_MULTITRACK \<noteq> 0)) \<and>
    nc_has_reconnect out = ci_has_reconnect ci \<and>
    nc_reconnect out = (if ci_has_reconnect ci then ci_reconnect ci else reconnect_default)"
proof -
  obtain l m v where wf: "list_wf l" "map_wf m" and rest: "list_names l = filter four_cc_supported (list_names (ci_four_cc_list ci))"
    "map_names m = forwardable (map_names (ci_video_four_cc_info_map ci))"
    "v = (if ci_has_caps_ex ci then ci_caps_ex_mask ci AND
      (CAPS_EX_MASK_SERVER_DEFAULT OR (if ci_has_reconnect ci then CAPS_EX_MASK_RECONNECT else 0)) else 0)"
    "negotiate_caps ci = Inr \<lparr>
      nc_four_cc_list = (if ci_has_four_cc_list ci then l else four_cc_list_default), nc_caps_ex = caps_exit_default,
      nc_video_four_cc_info_map = (if ci_has_video_four_cc_info_map ci then m else video_four_cc_info_map_default),
      nc_reconnect = (if ci_has_reconnect ci then ci_reconnect ci else reconnect_default), nc_caps_ex_mask = v,
      nc_has_four_cc_list = ci_has_four_cc_list ci \<and> 0 < fl_count l, nc_has_caps_ex = ci_has_caps_ex ci,
      nc_has_video_four_cc_info_map = ci_has_video_four_cc_info_map ci \<and> 0 < vm_count m,
      nc_has_reconnect = ci_has_reconnect ci,
      nc_multitrack_enabled = (ci_has_caps_ex ci \<longrightarrow> v AND CAPS_EX_MASK_MULTITRACK \<noteq> 0)\<rparr>"
    using negotiate_result [OF assms] by (elim exE conjE) (rule that)
  show ?thesis
    by (rule exI, rule conjI, rule rest(4))
      (use wf rest(1-3) list_names_Nil [OF wf(1)] map_names_Nil [OF wf(2)] in simp)
qed

theorem negotiate_caps_exact_witness:
  "\<exists>out. negotiate_caps (connect_info_default\<lparr>ci_has_caps_ex := True, ci_caps_ex_mask := 0xFF,
      ci_has_four_cc_list := True,
      ci_four_cc_list := \<lparr>fl_entries = [ascii ''av01'' @ [0], ascii ''zzzz'' @ [0]] @ replicate 14 four_cc_default, fl_count = 2\<rparr>\<rparr>) =
      Inr out \<and> list_names (nc_four_cc_list out) = [ascii ''av01''] \<and> nc_has_four_cc_list out \<and> \<not> nc_has_reconnect out \<and>
      nc_caps_ex_mask out = 0x0E"
proof -
  let ?l = "\<lparr>fl_entries = [ascii ''av01'' @ [0], ascii ''zzzz'' @ [0]] @ replicate 14 four_cc_default, fl_count = 2\<rparr>"
  let ?ci = "connect_info_default\<lparr>ci_has_caps_ex := True, ci_caps_ex_mask := 0xFF, ci_has_four_cc_list := True,
      ci_four_cc_list := ?l\<rparr>"
  have "list_wf ?l" by (simp add: list_wf_def entries_wf_def MAX_FOURCCS_def)
  then have "caps_wf ?ci" by (simp add: caps_wf_def connect_info_default_def)
  moreover have "filter four_cc_supported (list_names ?l) = [ascii ''av01'']"
    by (simp add: list_names_def entry_name_def four_cc_supported_def)
  moreover have "0xFF AND CAPS_EX_MASK_SERVER_DEFAULT = 0x0E"
    by (simp add: CAPS_EX_MASK_SERVER_DEFAULT_def CAPS_EX_MASK_MULTITRACK_def CAPS_EX_MASK_MODEX_def
        CAPS_EX_MASK_TIMESTAMP_NANO_def)
  ultimately show ?thesis
    using negotiate_caps_exact [of ?ci] by (auto simp: connect_info_default_def)
qed

end
