(* ===== verification/Command.thy ===== *)
theory Command
  imports Connect_Caps
begin

text \<open>
  RTMP command messages (\<open>src/src/message/command.rs\<close>): the builders of every command and response
  the library sends, and the readers of every command it receives. An \<open>f64\<close> is its bit pattern,
  an argument \<open>&str\<close> its UTF-8 bytes, a \<open>&mut [u8]\<close> output array a component of the state.

  The lemmas show that readers never panic and never lose their place, that a routing key (application
  or stream name) that is accepted is the string on the wire, unabridged, and that what
  the builders write the readers read back.
\<close>

section \<open>Encoder\<close>

definition F64_ONE :: f64 where "F64_ONE = 0x3FF0000000000000"
definition F64_TWO :: f64 where "F64_TWO = 0x4000000000000000"

text \<open>A key and its string value, as the builders of objects write them.\<close>

definition write_member :: "string \<Rightarrow> bytes \<Rightarrow> (buffer, unit) op" where
  "write_member key v = thenS (amf0_write_object_key (ascii key)) (amf0_write_string v)"

definition write_member_if :: "string \<Rightarrow> bytes \<Rightarrow> (buffer, unit) op" where
  "write_member_if key v = (if v = [] then retS () else write_member key v)"

definition build_connect ::
  "bytes \<Rightarrow> bytes \<Rightarrow> bytes \<Rightarrow> bytes \<Rightarrow> bytes \<Rightarrow> i32 \<Rightarrow> i32 \<Rightarrow> negotiated_caps option \<Rightarrow> (buffer, unit) op" where
  "build_connect app tc_url page_url swf_url flash_ver audio_codecs video_codecs caps =
     thenS (map_errS EInternal
       (thenS (amf0_write_string (ascii ''connect'')) (thenS (amf0_write_number F64_ONE)
       (thenS amf0_write_object_begin (thenS (write_member ''app'' app)
       (thenS (write_member ''type'' (ascii ''nonprivate'')) (thenS (write_member ''tcUrl'' tc_url)
       (thenS (write_member_if ''pageUrl'' page_url) (thenS (write_member_if ''swfUrl'' swf_url)
       (thenS (write_member_if ''flashVer'' flash_ver)
       (thenS (amf0_write_object_key (ascii ''audioCodecs'')) (thenS (amf0_write_number (i32_to_f64 audio_codecs))
       (thenS (amf0_write_object_key (ascii ''videoCodecs'')) (amf0_write_number (i32_to_f64 video_codecs)))))))))))))))
     (thenS (case caps of None \<Rightarrow> retS () | Some c \<Rightarrow> write_negotiated_caps c)
       (map_errS EInternal amf0_write_object_end))"

text \<open>The name, the transaction id and the null command object all other commands start with.\<close>

definition build_head :: "string \<Rightarrow> f64 \<Rightarrow> (buffer, unit) op" where
  "build_head name transaction_id =
     thenS (amf0_write_string (ascii name)) (thenS (amf0_write_number transaction_id) amf0_write_null)"

definition build_status :: "bytes \<Rightarrow> bytes \<Rightarrow> bytes \<Rightarrow> (buffer, unit) op" where
  "build_status level code description = thenS amf0_write_object_begin
     (thenS (write_member ''level'' level) (thenS (write_member ''code'' code)
       (write_member ''description'' description)))"

definition build_error :: "f64 \<Rightarrow> bytes \<Rightarrow> bytes \<Rightarrow> (buffer, unit) op" where
  "build_error transaction_id code description = thenS (build_head ''_error'' transaction_id)
     (thenS (build_status (ascii ''error'') code description) amf0_write_object_end)"

definition build_release_stream :: "bytes \<Rightarrow> (buffer, unit) op" where
  "build_release_stream stream_name = thenS (build_head ''releaseStream'' F64_TWO) (amf0_write_string stream_name)"

definition build_create_stream :: "f64 \<Rightarrow> (buffer, unit) op" where
  "build_create_stream transaction_id = build_head ''createStream'' transaction_id"

definition build_publish :: "bytes \<Rightarrow> bytes \<Rightarrow> (buffer, unit) op" where
  "build_publish stream_name publish_type = thenS (build_head ''publish'' 0) (thenS (amf0_write_string stream_name)
     (if publish_type = [] then retS () else amf0_write_string publish_type))"

definition build_play :: "bytes \<Rightarrow> (buffer, unit) op" where
  "build_play stream_name = thenS (build_head ''play'' 0) (amf0_write_string stream_name)"

definition build_fcpublish :: "bytes \<Rightarrow> (buffer, unit) op" where
  "build_fcpublish stream_name = thenS (build_head ''FCPublish'' 0) (amf0_write_string stream_name)"

definition build_fcunpublish :: "bytes \<Rightarrow> (buffer, unit) op" where
  "build_fcunpublish stream_name = thenS (build_head ''FCUnpublish'' 0) (amf0_write_string stream_name)"

definition build_deletestream :: "f64 \<Rightarrow> u32 \<Rightarrow> (buffer, unit) op" where
  "build_deletestream transaction_id stream_id =
     thenS (build_head ''deleteStream'' transaction_id) (amf0_write_number (u32_to_f64 stream_id))"

definition build_create_stream_result :: "f64 \<Rightarrow> f64 \<Rightarrow> (buffer, unit) op" where
  "build_create_stream_result transaction_id stream_id =
     thenS (build_head ''_result'' transaction_id) (amf0_write_number stream_id)"

definition build_onstatus :: "bytes \<Rightarrow> bytes \<Rightarrow> bytes \<Rightarrow> (buffer, unit) op" where
  "build_onstatus level code description = thenS (build_head ''onStatus'' 0)
     (thenS (build_status level code description) amf0_write_object_end)"

definition RECONNECT_REQUEST_CODE :: bytes where
  "RECONNECT_REQUEST_CODE = ascii ''NetConnection.Connect.ReconnectRequest''"

definition build_reconnect_request :: "bytes option \<Rightarrow> bytes option \<Rightarrow> (buffer, unit) op" where
  "build_reconnect_request tc_url description = thenS (build_head ''onStatus'' 0)
     (thenS (build_status (ascii ''status'') RECONNECT_REQUEST_CODE
         (case description of Some d \<Rightarrow> d | None \<Rightarrow> ascii ''Reconnect requested''))
       (thenS (case tc_url of Some url \<Rightarrow> write_member ''tcUrl'' url | None \<Rightarrow> retS ()) amf0_write_object_end))"

definition build_pause :: "bool \<Rightarrow> (buffer, unit) op" where
  "build_pause pause = thenS (build_head ''pause'' 0) (amf0_write_boolean pause)"

definition build_seek :: "f64 \<Rightarrow> (buffer, unit) op" where
  "build_seek millis = thenS (build_head ''seek'' 0) (amf0_write_number millis)"

text \<open>The response to \<open>connect\<close> that \<open>Conn::send_connect_response\<close> writes and sends.\<close>

definition CONNECT_FMS_VERSION :: bytes where
  "CONNECT_FMS_VERSION = ascii ''FMS/3,0,1,123''"

definition CONNECT_CAPABILITIES :: f64 where
  "CONNECT_CAPABILITIES = 0x403F000000000000"

definition connect_response_body :: "f64 \<Rightarrow> f64 \<Rightarrow> negotiated_caps option \<Rightarrow> (buffer, unit) op" where
  "connect_response_body transaction_id object_encoding caps =
     thenS (amf0_write_string (ascii ''_result'')) (thenS (amf0_write_number transaction_id)
     (thenS amf0_write_object_begin (thenS (write_member ''fmsVer'' CONNECT_FMS_VERSION)
     (thenS (thenS (amf0_write_object_key (ascii ''capabilities'')) (amf0_write_number CONNECT_CAPABILITIES))
     (thenS (thenS (amf0_write_object_key (ascii ''mode'')) (amf0_write_number F64_ONE))
     (thenS amf0_write_object_end
     (thenS amf0_write_object_begin (thenS (write_member ''level'' (ascii ''status''))
     (thenS (write_member ''code'' (ascii ''NetConnection.Connect.Success''))
     (thenS (write_member ''description'' (ascii ''Connection succeeded.''))
     (thenS (thenS (amf0_write_object_key (ascii ''objectEncoding'')) (amf0_write_number object_encoding))
     (thenS (case caps of None \<Rightarrow> retS () | Some c \<Rightarrow> write_negotiated_caps c) amf0_write_object_end))))))))))))"

section \<open>Decoder helpers\<close>

definition read_number_value :: "(buffer, f64) op" where
  "read_number_value = bindS amf0_read_type (\<lambda>ty. if ty \<noteq> A0Number then failS (Err EAmf) else amf0_read_number)"

definition read_bool_value :: "(buffer, bool) op" where
  "read_bool_value = bindS amf0_read_type (\<lambda>ty.
     if ty = A0Boolean then amf0_read_boolean
     else if ty = A0Number then bindS amf0_read_number (\<lambda>v. retS (\<not> f64_is_zero v))
     else failS (Err EAmf))"

text \<open>
  The structure is the caller's array \<open>out\<close>. \<open>checked_body\<close> is what follows the two length bytes:
  so many bytes go into the array, or nowhere.
\<close>

definition checked_body :: "nat \<Rightarrow> (buffer \<times> bytes, unit) op" where
  "checked_body slen = bindS (inB (getS buf_available)) (\<lambda>a.
     if a < slen then failS (Err EIo)
     else bindS (getS snd) (\<lambda>out.
       if out = [] then inB (modS (buf_drain slen))
       else if length out \<le> slen then thenS (inB (modS (buf_drain slen))) (failS (Err EAmf))
       else bindS (inB (map_errS EAmf (buf_read slen))) (\<lambda>d. bindS (liftS (copy_at out 0 d)) (\<lambda>out.
         thenS (inO (modS (\<lambda>_. out)))
           (if 0 \<in> set d then failS (Err EAmf)
            else bindS (liftS (set_idx out slen 0)) (\<lambda>out. inO (modS (\<lambda>_. out))))))))"

definition read_string_checked :: "(buffer \<times> bytes, unit) op" where
  "read_string_checked = bindS (inB (map_errS EAmf (buf_read 1))) (\<lambda>byte. bindS (liftS (idx byte 0)) (\<lambda>ty.
     if ty \<noteq> amf0_marker A0String then failS (Err EAmf)
     else bindS (inB (map_errS EAmf (buf_read 2))) (\<lambda>lb. bindS (liftS (ntoh16 lb)) (\<lambda>w. checked_body (unat w)))))"

definition decode_route_amf_string :: "bytes \<Rightarrow> bytes result" where
  "decode_route_amf_string out =
     (let value = take (cstr_len out) out in if utf8_valid value then Inr value else err EAmf)"

text \<open>The name (into a local array of 64 bytes), the transaction id and the skipped command object.\<close>

definition read_head :: "(buffer, f64) op" where
  "read_head = thenS (amf0_read_string (replicate 64 0))
     (bindS read_number_value (\<lambda>txn. thenS amf0_skip_value (retS txn)))"

text \<open>\<open>let type_pos = buf.read_pos(); let ty = read_type(buf)?; buf.set_read_pos(type_pos)\<close>\<close>

definition amf0_peek_type :: "(buffer, amf0_type) op" where
  "amf0_peek_type = bindS (getS buf_rpos) (\<lambda>pos. bindS amf0_read_type (\<lambda>ty.
     thenS (modS (buf_set_read_pos pos)) (retS ty)))"

text \<open>A local variable of a reader, visible to its loop; its last value is returned.\<close>

definition withLocal :: "'l \<Rightarrow> (buffer \<times> ('o \<times> 'l), unit) op \<Rightarrow> (buffer \<times> 'o, 'l) op" where
  "withLocal l m = (\<lambda>(b, x). case m (b, (x, l)) of (r, (b', (x', l'))) \<Rightarrow> (bindR r (\<lambda>_. Inr l'), (b', x')))"

section \<open>Decoder\<close>

definition peek_name :: "bytes \<Rightarrow> (buffer, nat \<times> bytes) op" where
  "peek_name out = (\<lambda>b. case amf0_read_string out b of (r, b') \<Rightarrow> (r, buf_set_read_pos (buf_rpos b) b'))"

definition MAX_CONNECT_OBJECT_KEYS :: nat where
  "MAX_CONNECT_OBJECT_KEYS = 256"

text \<open>A capability value is parsed, or skipped when it is malformed.\<close>

definition capability :: "(buffer \<times> 'o, unit) op \<Rightarrow> ('o \<Rightarrow> 'o) \<Rightarrow> (buffer \<times> 'o, unit) op" where
  "capability m seen = orRewindS (thenS m (inO (modS seen))) amf0_skip_value"

definition read_connect_ertmp_field :: "bytes \<Rightarrow> (buffer \<times> connect_info, bool) op" where
  "read_connect_ertmp_field key =
     (if key = ascii ''fourCcList'' then
        thenS (capability (inF ci_four_cc_list (\<lambda>x i. i\<lparr>ci_four_cc_list := x\<rparr>) read_four_cc_list_amf)
          (\<lambda>i. i\<lparr>ci_has_four_cc_list := True\<rparr>)) (retS True)
      else if key = ascii ''capsEx'' then
        thenS (capability (inF (\<lambda>i. (ci_caps_ex i, ci_caps_ex_mask i))
            (\<lambda>(c, m) i. i\<lparr>ci_caps_ex := c, ci_caps_ex_mask := m\<rparr>) read_caps_ex_amf)
          (\<lambda>i. i\<lparr>ci_has_caps_ex := True\<rparr>)) (retS True)
      else if key = ascii ''videoFourCcInfoMap'' then
        thenS (capability (inF ci_video_four_cc_info_map (\<lambda>x i. i\<lparr>ci_video_four_cc_info_map := x\<rparr>)
            read_video_fourcc_info_map_amf)
          (\<lambda>i. i\<lparr>ci_has_video_four_cc_info_map := True\<rparr>)) (retS True)
      else if key = ascii ''reconnect'' then
        thenS (capability (inF ci_reconnect (\<lambda>x i. i\<lparr>ci_reconnect := x\<rparr>) read_reconnect_amf)
          (\<lambda>i. i\<lparr>ci_has_reconnect := True\<rparr>)) (retS True)
      else retS False)"

text \<open>The structure is \<open>info\<close> with \<open>object_encoding\<close>.\<close>

definition read_connect_plain_field :: "bytes \<Rightarrow> (buffer \<times> (connect_info \<times> f64), unit) op" where
  "read_connect_plain_field key = bindS (inB amf0_peek_type) (\<lambda>value_type.
     if value_type = A0String then
       (if key = ascii ''app'' then
          inF (\<lambda>s. ci_app (fst s)) (\<lambda>x (i, e). (i\<lparr>ci_app := x\<rparr>, e)) read_string_checked
        else if key = ascii ''tcUrl'' then
          inF (\<lambda>s. ci_tc_url (fst s)) (\<lambda>x (i, e). (i\<lparr>ci_tc_url := x\<rparr>, e)) read_string_checked
        else if key = ascii ''pageUrl'' then
          inF (\<lambda>s. ci_page_url (fst s)) (\<lambda>x (i, e). (i\<lparr>ci_page_url := x\<rparr>, e)) read_string_checked
        else if key = ascii ''swfUrl'' then
          inF (\<lambda>s. ci_swf_url (fst s)) (\<lambda>x (i, e). (i\<lparr>ci_swf_url := x\<rparr>, e)) read_string_checked
        else if key = ascii ''flashVer'' then
          inF (\<lambda>s. ci_flash_ver (fst s)) (\<lambda>x (i, e). (i\<lparr>ci_flash_ver := x\<rparr>, e)) read_string_checked
        else inB amf0_skip_value)
     else if value_type = A0Number then
       bindS (inB read_number_value) (\<lambda>value.
         if key = ascii ''audioCodecs'' then inO (modS (\<lambda>(i, e). (i\<lparr>ci_audio_codecs := f64_to_i32 value\<rparr>, e)))
         else if key = ascii ''videoCodecs'' then inO (modS (\<lambda>(i, e). (i\<lparr>ci_video_codecs := f64_to_i32 value\<rparr>, e)))
         else if key = ascii ''objectEncoding'' then inO (modS (\<lambda>(i, e). (i, value)))
         else retS ())
     else inB amf0_skip_value)"

definition connect_member :: "(buffer \<times> (connect_info \<times> f64), unit) op" where
  "connect_member = bindS (inB read_key_bytes) (\<lambda>key.
     let key_str = utf8_or_empty key in
     bindS (inF fst (\<lambda>i s. (i, snd s)) (read_connect_ertmp_field key_str)) (\<lambda>known.
       if known then retS () else read_connect_plain_field key_str))"

text \<open>The fields after the name, and the whole command once \<open>info\<close> has been reset.\<close>

definition connect_fields :: "(buffer \<times> connect_info, f64) op" where
  "connect_fields = bindS (inB read_number_value) (\<lambda>txn.
     thenS (inO (modS (\<lambda>i. i\<lparr>ci_transaction_id := txn\<rparr>)))
       (thenS (inB amf0_read_object_begin)
         (withLocal 0 (object_members MAX_CONNECT_OBJECT_KEYS connect_member))))"

definition connect_command :: "(buffer \<times> connect_info, f64) op" where
  "connect_command = bindS (inB (amf0_read_string (replicate 64 0))) (\<lambda>(name_len, name).
     bindS (liftS (subslice name 0 name_len)) (\<lambda>n.
     bindS (getS (\<lambda>s. ci_name (snd s))) (\<lambda>dst.
     bindS (liftS (copy_at dst 0 n)) (\<lambda>dst.
       thenS (inO (modS (\<lambda>i. i\<lparr>ci_name := dst\<rparr>))) connect_fields))))"

definition read_connect_with_encoding :: "(buffer \<times> connect_info, f64) op" where
  "read_connect_with_encoding = thenS (inO (modS (\<lambda>_. connect_info_default))) connect_command"

definition read_connect :: "(buffer \<times> connect_info, unit) op" where
  "read_connect = voidS read_connect_with_encoding"

definition read_create_stream_partial :: "(buffer \<times> f64 option, unit) op" where
  "read_create_stream_partial = thenS (inB (amf0_read_string (replicate 64 0)))
     (bindS (inB read_number_value) (\<lambda>txn. thenS (inO (modS (\<lambda>_. Some txn))) (inB amf0_skip_value)))"

definition read_create_stream :: "(buffer, f64) op" where
  "read_create_stream = (\<lambda>b. case read_create_stream_partial (b, None) of
     (r, (b', txn)) \<Rightarrow> (bindR r (\<lambda>_. Inr (case txn of Some t \<Rightarrow> t | None \<Rightarrow> 0)), b'))"

text \<open>The structure is the pair of \<open>stream_name\<close> and \<open>publish_type\<close>.\<close>

definition read_publish :: "(buffer \<times> (bytes \<times> bytes), unit) op" where
  "read_publish = thenS (inB read_head) (thenS (inF fst (\<lambda>n s. (n, snd s)) read_string_checked)
     (bindS (inB (getS buf_available)) (\<lambda>a.
       if 0 < a then orElseS (inF snd (\<lambda>t s. (fst s, t)) read_string_checked) (retS ()) else retS ())))"

definition read_play :: "(buffer \<times> bytes, unit) op" where
  "read_play = thenS (inB read_head) read_string_checked"

definition read_release_stream :: "(buffer \<times> bytes, unit) op" where
  "read_release_stream = thenS (inB read_head) read_string_checked"

definition read_pause :: "(buffer, bool) op" where
  "read_pause = thenS read_head read_bool_value"

definition read_seek :: "(buffer, f64) op" where
  "read_seek = thenS read_head read_number_value"

definition read_bool_command :: "(buffer, bool) op" where
  "read_bool_command = thenS read_head read_bool_value"

definition read_close_stream :: "(buffer, u32 option) op" where
  "read_close_stream = thenS read_head (bindS (getS buf_available) (\<lambda>a.
     if a = 0 then retS None
     else bindS (getS buf_rpos) (\<lambda>type_pos. bindS amf0_read_type (\<lambda>ty.
       if ty = A0Number then bindS amf0_read_number (\<lambda>v. retS (Some (f64_to_u32 v)))
       else thenS (modS (buf_set_read_pos type_pos)) (retS None)))))"

text \<open>The structure of the loop: the arrays \<open>level\<close> and \<open>code\<close> with their lengths.\<close>

definition onstatus_member :: "(buffer \<times> ((bytes \<times> nat) \<times> (bytes \<times> nat)), unit) op" where
  "onstatus_member = bindS (inB read_key_bytes) (\<lambda>key.
     let key_str = utf8_or_empty key in
     if key_str = ascii ''level'' then
       bindS (getS (\<lambda>s. fst (fst (snd s)))) (\<lambda>level. bindS (inB (amf0_read_string level)) (\<lambda>(n, level).
         inO (modS (\<lambda>(_, c). ((level, n), c)))))
     else if key_str = ascii ''code'' then
       bindS (getS (\<lambda>s. fst (snd (snd s)))) (\<lambda>code. bindS (inB (amf0_read_string code)) (\<lambda>(n, code).
         inO (modS (\<lambda>(l, _). (l, (code, n))))))
     else inB amf0_skip_value)"

definition read_onstatus :: "bytes \<Rightarrow> (buffer, bool) op" where
  "read_onstatus expected_code = thenS read_head (thenS amf0_read_object_begin
     (\<lambda>b. case object_members MAX_OBJECT_KEYS onstatus_member (b, ((replicate 32 0, 0), (replicate 128 0, 0))) of
       (r, (b', ((level, level_len), (code, code_len)))) \<Rightarrow>
         (bindR r (\<lambda>_. bindR (subslice level 0 level_len) (\<lambda>l.
            if utf8_or_empty l \<noteq> ascii ''status'' then err EAuth
            else bindR (subslice code 0 code_len) (\<lambda>c. Inr (utf8_or_empty c = expected_code)))), b')))"

record reconnect_request =
  rr_tc_url :: "bytes option"
  rr_description :: "bytes option"

definition reconnect_member ::
  "(buffer \<times> ((bytes \<times> nat) \<times> (bytes option \<times> bytes option)), unit) op" where
  "reconnect_member = bindS (inB read_key_bytes) (\<lambda>key.
     let key_str = utf8_or_empty key in
     if key_str = ascii ''code'' then
       bindS (getS (\<lambda>s. fst (fst (snd s)))) (\<lambda>code. bindS (inB (amf0_read_string code)) (\<lambda>(n, code).
         inO (modS (\<lambda>(_, u). ((code, n), u)))))
     else if key_str = ascii ''description'' then
       bindS (inB amf0_read_string_alloc) (\<lambda>d. inO (modS (\<lambda>(c, (_, u)). (c, (Some d, u)))))
     else if key_str = ascii ''tcUrl'' then
       bindS (inB amf0_read_string_alloc) (\<lambda>u. inO (modS (\<lambda>(c, (d, _)). (c, (d, Some u)))))
     else inB amf0_skip_value)"

text \<open>\<open>value.filter(|v| !v.is_empty())\<close>\<close>

definition not_empty :: "bytes option \<Rightarrow> bytes option" where
  "not_empty v = (case v of Some [] \<Rightarrow> None | _ \<Rightarrow> v)"

definition read_reconnect_request :: "(buffer, reconnect_request option) op" where
  "read_reconnect_request = bindS (amf0_read_string (replicate 64 0)) (\<lambda>(name_len, name).
     bindS (liftS (subslice name 0 name_len)) (\<lambda>n.
     if n \<noteq> ascii ''onStatus'' then failS (Err EAmf)
     else thenS read_number_value (thenS amf0_skip_value (thenS amf0_read_object_begin
       (\<lambda>b. case object_members MAX_OBJECT_KEYS reconnect_member (b, ((replicate 128 0, 0), (None, None))) of
         (r, (b', ((code, code_len), (description, tc_url)))) \<Rightarrow>
           (bindR r (\<lambda>_. bindR (subslice code 0 code_len) (\<lambda>c.
              Inr (if c \<noteq> RECONNECT_REQUEST_CODE then None
                   else Some \<lparr>rr_tc_url = not_empty tc_url, rr_description = not_empty description\<rparr>))), b'))))))"

definition connect_result_member :: "(buffer \<times> negotiated_caps, unit) op" where
  "connect_result_member = bindS (inB read_key_bytes) (\<lambda>key.
     let key_str = utf8_or_empty key in
     if key_str = ascii ''fourCcList'' then
       capability (inF nc_four_cc_list (\<lambda>x c. c\<lparr>nc_four_cc_list := x\<rparr>) read_four_cc_list_amf)
         (\<lambda>c. c\<lparr>nc_has_four_cc_list := True\<rparr>)
     else if key_str = ascii ''capsEx'' then
       capability (inF (\<lambda>c. (nc_caps_ex c, nc_caps_ex_mask c))
           (\<lambda>(e, m) c. c\<lparr>nc_caps_ex := e, nc_caps_ex_mask := m\<rparr>) read_caps_ex_amf)
         (\<lambda>c. c\<lparr>nc_has_caps_ex := True,
            nc_multitrack_enabled := nc_caps_ex_mask c AND CAPS_EX_MASK_MULTITRACK \<noteq> 0\<rparr>)
     else if key_str = ascii ''videoFourCcInfoMap'' then
       capability (inF nc_video_four_cc_info_map (\<lambda>x c. c\<lparr>nc_video_four_cc_info_map := x\<rparr>)
           read_video_fourcc_info_map_amf)
         (\<lambda>c. c\<lparr>nc_has_video_four_cc_info_map := True\<rparr>)
     else if key_str = ascii ''reconnect'' then
       capability (inF nc_reconnect (\<lambda>x c. c\<lparr>nc_reconnect := x\<rparr>) read_reconnect_amf)
         (\<lambda>c. c\<lparr>nc_has_reconnect := True\<rparr>)
     else inB amf0_skip_value)"

definition parse_connect_result_caps :: "(buffer \<times> negotiated_caps, unit) op" where
  "parse_connect_result_caps = bindS (getS (\<lambda>s. buf_rpos (fst s))) (\<lambda>type_pos. bindS (inB amf0_read_type) (\<lambda>ty.
     if ty \<noteq> A0Object then thenS (inB (modS (buf_set_read_pos type_pos))) (inB amf0_skip_value)
     else object_members MAX_OBJECT_KEYS connect_result_member))"

definition read_connect_result_with_caps :: "(buffer \<times> negotiated_caps option, f64) op" where
  "read_connect_result_with_caps =
     thenS (inO (modS (map_option (\<lambda>_. negotiated_caps_default))))
     (bindS (inB read_head) (\<lambda>txn. bindS (getS snd) (\<lambda>caps.
       thenS (case caps of
           Some c \<Rightarrow> inF the (\<lambda>x _. Some x) parse_connect_result_caps
         | None \<Rightarrow> inB amf0_skip_value) (retS txn))))"

definition read_connect_result :: "(buffer, f64) op" where
  "read_connect_result = (\<lambda>b. case read_connect_result_with_caps (b, None) of (r, (b', _)) \<Rightarrow> (r, b'))"

definition read_create_stream_result :: "(buffer, f64 \<times> f64) op" where
  "read_create_stream_result = bindS read_head (\<lambda>txn. bindS read_number_value (\<lambda>stream_id. retS (txn, stream_id)))"

section \<open>Checked strings\<close>

lemma read_cases:
  assumes "buf_inv b"
  shows "(n \<le> length (contents b) \<and> (\<exists>b'. map_errS e (buf_read n) b = (Inr (take n (contents b)), b') \<and> buf_inv b' \<and>
      contents b' = drop n (contents b))) \<or> map_errS e (buf_read n) b = (err e, b)"
proof (cases "n \<le> length (contents b)")
  case True
  from bq.read_ok [OF assms True] True show ?thesis by (auto simp: map_errS_def)
next
  case False
  with bq.read_short [OF assms, of n] show ?thesis by (simp add: map_errS_def)
qed

lemma filled_route:
  assumes "0 \<notin> set s"
  shows "take (cstr_len (filled out s)) (filled out s) = s"
  using assms by (simp add: filled_def)

lemma length_filled: "length s < length out \<Longrightarrow> length (filled out s) = length out"
  by (simp add: filled_def)

lemma checked_store:
  assumes "length d = n" "n < length out"
  shows "bindR (copy_at out 0 d) (\<lambda>out. set_idx out n 0) = Inr (filled out d)"
    "copy_at out 0 d = Inr (d @ drop n out)" "set_idx (d @ drop n out) n 0 = Inr (filled out d)"
  using assms by (simp_all add: filled_def list_update_append Cons_nth_drop_Suc [symmetric])

lemma checked_body_cases:
  fixes n :: nat
  assumes b: "buf_inv b" and out: "out \<noteq> []" and d_def: "d = take n (contents b)"
  shows "if n \<le> length (contents b) \<and> n < length out \<and> 0 \<notin> set d
    then \<exists>b'. checked_body n (b, out) = (Inr (), (b', filled out d)) \<and> buf_inv b' \<and> contents b = d @ contents b'
    else \<exists>e b' out'. checked_body n (b, out) = (err e, (b', out')) \<and> buf_inv b' \<and> length out' = length out"
proof -
  have a: "buf_available b = length (contents b)" using b by (rule bq.avail_contents)
  show ?thesis
  proof (cases "n \<le> length (contents b) \<and> n < length out")
    case False
    with a b out show ?thesis
      by (auto simp: checked_body_def bindS_def thenS_def bq.drain_ok)
  next
    case True
    then obtain b' where r: "map_errS EAmf (buf_read n) b = (Inr d, b')" "buf_inv b'" "contents b' = drop n (contents b)"
      using bq.read_ok [OF b, of n] unfolding d_def by (auto simp: map_errS_def)
    have d: "length d = n" using True by (simp add: d_def)
    note st = checked_store [OF d conjunct2 [OF True]]
    have "checked_body n (b, out) =
        (if 0 \<in> set d then (err EAmf, (b', d @ drop n out)) else (Inr (), (b', filled out d)))"
      using True a out r(1) st(2,3) by (simp add: checked_body_def bindS_def thenS_def)
    moreover have "contents b = d @ contents b'" using r(3) by (simp add: d_def)
    moreover have "length (d @ drop n out) = length out" using d True by simp
    ultimately show ?thesis using True r(2) by auto
  qed
qed

text \<open>Everything the reader can do: it accepts exactly the strings without a NUL that fit, unabridged.\<close>

lemma string_checked_exact:
  assumes b: "buf_inv b" and out: "out \<noteq> []"
  shows "(\<exists>s b'. read_string_checked (b, out) = (Inr (), (b', filled out s)) \<and> buf_inv b' \<and>
        contents b = 2 # len16_bytes s @ contents b' \<and> 0 \<notin> set s \<and> length s < length out \<and> length s \<le> 0xFFFF) \<or>
    (\<exists>e b' out'. read_string_checked (b, out) = (err e, (b', out')) \<and> buf_inv b' \<and> length out' = length out \<and>
        (\<forall>s rest. contents b = 2 # len16_bytes s @ rest \<and> length s \<le> 0xFFFF \<longrightarrow> 0 \<in> set s \<or> length out \<le> length s))"
proof -
  consider (short) "length (contents b) < 1" | (other) t r where "contents b = t # r" "t \<noteq> 2"
    | (nolen) r where "contents b = 2 # r" "length r < 2" | (full) h l r where "contents b = 2 # h # l # r"
    by (cases "contents b"; cases "tl (contents b)"; cases "tl (tl (contents b))") (auto simp: Suc_less_eq2)
  then show ?thesis
  proof cases
    case short
    with bq.read_short [OF b, of 1] b show ?thesis
      by (auto simp: read_string_checked_def bindS_def map_errS_def)
  next
    case other
    with bq.read_ok [OF b, of 1] show ?thesis
      by (auto simp: read_string_checked_def bindS_def map_errS_def)
  next
    case nolen
    then obtain b1 where b1: "buf_read 1 b = (Inr [2], b1)" "buf_inv b1" "contents b1 = r"
      using bq.read_ok [OF b, of 1] by auto
    with nolen bq.read_short [OF b1(2), of 2] show ?thesis
      by (auto simp: read_string_checked_def bindS_def map_errS_def len16_bytes_def be16_def)
  next
    case full
    then obtain b1 where b1: "buf_read 1 b = (Inr [2], b1)" "buf_inv b1" "contents b1 = h # l # r"
      using bq.read_ok [OF b, of 1] by auto
    then obtain b2 where b2: "buf_read 2 b1 = (Inr [h, l], b2)" "buf_inv b2" "contents b2 = r"
      using bq.read_ok [OF b1(2), of 2] by auto
    let ?n = "unat (u16_be h l)"
    have eq: "read_string_checked (b, out) = checked_body ?n (b2, out)"
      using b1 b2 by (simp add: read_string_checked_def bindS_def map_errS_def ntoh16_def)
    have hl: "be16 (u16_be h l) = [h, l]" by (rule be16_u16_be)
    have len: "?n = length s \<and> r = s @ rest" if "contents b = 2 # len16_bytes s @ rest" "length s \<le> 0xFFFF" for s rest
    proof -
      have "[h, l] = be16 (of_nat (length s))" "r = s @ rest" using that(1) full by (simp_all add: len16_bytes_def be16_def)
      then have "u16_be h l = of_nat (length s)" by (simp add: be16_def be_simps)
      then show ?thesis using length_of_nat16 [OF that(2)] \<open>r = _\<close> by simp
    qed
    show ?thesis
    proof (cases "?n \<le> length r \<and> ?n < length out \<and> 0 \<notin> set (take ?n r)")
      case True
      with checked_body_cases [OF b2(2) out refl, of ?n] b2(3)
      obtain b' where "checked_body ?n (b2, out) = (Inr (), (b', filled out (take ?n r)))" "buf_inv b'" "r = take ?n r @ contents b'"
        by auto
      moreover have "length (take ?n r) = ?n" using True by simp
      then have "len16_bytes (take ?n r) = h # l # take ?n r" using hl unfolding len16_bytes_def by simp
      moreover have "?n < 2 ^ 16" using unsigned_less [of "u16_be h l"] by simp
      then have "length (take ?n r) \<le> 0xFFFF" by simp
      ultimately show ?thesis using True full eq by (intro disjI1 exI [of _ "take ?n r"] exI [of _ b']) auto
    next
      case False
      with checked_body_cases [OF b2(2) out refl, of ?n] b2(3)
      obtain e b' out' where "checked_body ?n (b2, out) = (err e, (b', out'))" "buf_inv b'" "length out' = length out"
        by auto
      with False len eq show ?thesis by (intro disjI2) auto
    qed
  qed
qed

lemma len16_cancel:
  assumes "len16_bytes s @ r = len16_bytes s' @ r'" "length s \<le> 0xFFFF" "length s' \<le> 0xFFFF"
  shows "s = s' \<and> r = r'"
proof -
  have "be16 (of_nat (length s)) = be16 (of_nat (length s'))" "s @ r = s' @ r'"
    using assms(1) by (simp_all add: len16_bytes_def be16_def)
  then have "(of_nat (length s) :: u16) = of_nat (length s')" by (metis u16_be_be16 be16_def list.inject)
  then have "length s = length s'" using length_of_nat16 assms(2,3) by metis
  with \<open>s @ r = _\<close> show ?thesis by simp
qed

lemma fills_string_checked:
  assumes s: "length s \<le> 0xFFFF" "length s < length out" "0 \<notin> set s"
  shows "fills read_string_checked out (2 # len16_bytes s) () (filled out s)"
  unfolding fills_def
proof (intro allI impI)
  fix b rest assume b: "buf_inv b" "contents b = (2 # len16_bytes s) @ rest"
  have out: "out \<noteq> []" using s(2) by auto
  from string_checked_exact [OF b(1) out] b(2) s
  obtain s' b' where r: "read_string_checked (b, out) = (Inr (), (b', filled out s'))" "buf_inv b'"
    "len16_bytes s @ rest = len16_bytes s' @ contents b'" "length s' \<le> 0xFFFF"
    by auto
  show "\<exists>b'. read_string_checked (b, out) = (Inr (), b', filled out s) \<and> buf_inv b' \<and> contents b' = rest"
    using r len16_cancel [OF r(3) s(1) r(4)] by auto
qed

section \<open>The readers never panic\<close>

lemma walks_checked_body: "walks (\<lambda>out. length out = k) (checked_body n) (\<lambda>_. True)"
  unfolding checked_body_def
  by (intro moves_bind [OF walks_inB [OF moves_get [of _ "\<lambda>_. True"]]] moves_if moves_fail
      moves_bind [OF moves_get [of _ "\<lambda>out. length out = k"]] walks_inB scan_drain
      moves_then [OF walks_inB [OF scan_drain [of "\<lambda>_. True"]]] moves_bind [OF walks_inB [OF moves_map_err [OF scan_read]]]
      moves_bind [OF moves_lift [of _ "\<lambda>out. length out = k"]]
      moves_then [OF walks_keeps [OF keeps_mod [where Q = "\<lambda>_. True"]]] walks_keeps keeps_mod)
    (auto simp: copy_at_def set_idx_def split: if_splits)

lemma walks_string_checked: "walks (\<lambda>out. length out = k) read_string_checked (\<lambda>_. True)"
  unfolding read_string_checked_def
  by (intro moves_bind [OF walks_inB [OF moves_map_err [OF scan_read]]] moves_if moves_fail walks_checked_body
      moves_bind [OF moves_lift [of _ "\<lambda>_. True"]]) (auto simp: ntoh16_safe idx_def)

lemma scan_number_value: "scan read_number_value (\<lambda>_. True)"
  unfolding read_number_value_def
  by (intro moves_bind [OF scan_amf0_read_type] moves_if moves_fail scan_amf0_scalars) simp_all

lemma scan_bool_value: "scan read_bool_value (\<lambda>_. True)"
  unfolding read_bool_value_def
  by (intro moves_bind [OF scan_amf0_read_type] moves_if moves_fail scan_amf0_scalars
      moves_bind [OF scan_amf0_scalars(1)] moves_ret) simp_all

lemma scan_head: "scan read_head (\<lambda>_. True)"
  unfolding read_head_def
  by (intro moves_then [OF scan_amf0_strings(1)] moves_bind [OF scan_number_value] moves_then [OF scan_skip_value]
      moves_ret) simp

lemma scan_peek_type: "scan amf0_peek_type (\<lambda>_. True)"
  unfolding moves_def
proof (intro allI impI)
  fix b :: buffer assume b: "buf_inv b"
  note r = movesD [OF scan_amf0_read_type b TrueI]
  have "amf0_peek_type b = (case amf0_read_type b of (Inl e, b') \<Rightarrow> (Inl e, b') | (Inr ty, b') \<Rightarrow> (Inr ty, b))"
    using ahead_rewind [OF b] r(2)
    by (auto simp: amf0_peek_type_def bindS_def thenS_def split: prod.splits sum.splits)
  then show "fst (amf0_peek_type b) \<noteq> panic \<and> ahead b (snd (amf0_peek_type b)) \<and> True \<and>
      (\<forall>x. fst (amf0_peek_type b) = Inr x \<longrightarrow> True)"
    using r(1,2) ahead_refl [OF b] by (auto split: prod.splits sum.splits)
qed

definition info_wf :: "connect_info \<Rightarrow> bool" where
  "info_wf i \<longleftrightarrow> caps_wf i \<and> length (ci_name i) = 64 \<and> length (ci_app i) = 256 \<and> length (ci_tc_url i) = 512 \<and>
     length (ci_page_url i) = 512 \<and> length (ci_swf_url i) = 512 \<and> length (ci_flash_ver i) = 64"

lemma info_wf_default: "info_wf connect_info_default"
  by (simp add: info_wf_def caps_wf_def connect_info_default_def)

lemma walks_capability:
  assumes "walks I m (\<lambda>_. True)" "\<And>x. I x \<Longrightarrow> I (seen x)"
  shows "walks I (capability m seen) (\<lambda>_. True)"
  unfolding capability_def
  by (intro walks_orRewind scan_skip_value moves_then [OF assms(1)] walks_keeps keeps_mod) (simp_all add: assms(2))

lemma walks_ertmp_field: "walks info_wf (read_connect_ertmp_field key) (\<lambda>_. True)"
  unfolding read_connect_ertmp_field_def
  by (intro moves_if moves_ret moves_then [OF walks_capability] walks_inF [OF walks_four_cc_list]
      walks_inF [OF walks_caps_ex] walks_inF [OF walks_video_map] walks_inF [OF walks_reconnect])
    (auto simp: info_wf_def caps_wf_def)

lemma walks_text_fields:
  "walks (\<lambda>s. info_wf (fst s)) (inF (\<lambda>s. ci_app (fst s)) (\<lambda>x (i, e). (i\<lparr>ci_app := x\<rparr>, e)) read_string_checked) (\<lambda>_. True)"
  "walks (\<lambda>s. info_wf (fst s)) (inF (\<lambda>s. ci_tc_url (fst s)) (\<lambda>x (i, e). (i\<lparr>ci_tc_url := x\<rparr>, e)) read_string_checked) (\<lambda>_. True)"
  "walks (\<lambda>s. info_wf (fst s)) (inF (\<lambda>s. ci_page_url (fst s)) (\<lambda>x (i, e). (i\<lparr>ci_page_url := x\<rparr>, e)) read_string_checked) (\<lambda>_. True)"
  "walks (\<lambda>s. info_wf (fst s)) (inF (\<lambda>s. ci_swf_url (fst s)) (\<lambda>x (i, e). (i\<lparr>ci_swf_url := x\<rparr>, e)) read_string_checked) (\<lambda>_. True)"
  "walks (\<lambda>s. info_wf (fst s)) (inF (\<lambda>s. ci_flash_ver (fst s)) (\<lambda>x (i, e). (i\<lparr>ci_flash_ver := x\<rparr>, e)) read_string_checked) (\<lambda>_. True)"
proof -
  show "walks (\<lambda>s. info_wf (fst s)) (inF (\<lambda>s. ci_app (fst s)) (\<lambda>x (i, e). (i\<lparr>ci_app := x\<rparr>, e)) read_string_checked) (\<lambda>_. True)"
    by (rule walks_inF [OF walks_string_checked [of 256]]) (auto simp: info_wf_def caps_wf_def)
  show "walks (\<lambda>s. info_wf (fst s)) (inF (\<lambda>s. ci_tc_url (fst s)) (\<lambda>x (i, e). (i\<lparr>ci_tc_url := x\<rparr>, e)) read_string_checked) (\<lambda>_. True)"
    by (rule walks_inF [OF walks_string_checked [of 512]]) (auto simp: info_wf_def caps_wf_def)
  show "walks (\<lambda>s. info_wf (fst s)) (inF (\<lambda>s. ci_page_url (fst s)) (\<lambda>x (i, e). (i\<lparr>ci_page_url := x\<rparr>, e)) read_string_checked) (\<lambda>_. True)"
    by (rule walks_inF [OF walks_string_checked [of 512]]) (auto simp: info_wf_def caps_wf_def)
  show "walks (\<lambda>s. info_wf (fst s)) (inF (\<lambda>s. ci_swf_url (fst s)) (\<lambda>x (i, e). (i\<lparr>ci_swf_url := x\<rparr>, e)) read_string_checked) (\<lambda>_. True)"
    by (rule walks_inF [OF walks_string_checked [of 512]]) (auto simp: info_wf_def caps_wf_def)
  show "walks (\<lambda>s. info_wf (fst s)) (inF (\<lambda>s. ci_flash_ver (fst s)) (\<lambda>x (i, e). (i\<lparr>ci_flash_ver := x\<rparr>, e)) read_string_checked) (\<lambda>_. True)"
    by (rule walks_inF [OF walks_string_checked [of 64]]) (auto simp: info_wf_def caps_wf_def)
qed

lemma walks_plain_field: "walks (\<lambda>s. info_wf (fst s)) (read_connect_plain_field key) (\<lambda>_. True)"
  unfolding read_connect_plain_field_def
  by (intro moves_bind [OF walks_inB [OF scan_peek_type]] moves_if walks_inB scan_skip_value walks_text_fields
      moves_bind [OF walks_inB [OF scan_number_value]] walks_keeps keeps_mod moves_ret)
    (simp_all add: info_wf_def caps_wf_def case_prod_beta)

lemma walks_connect_member: "walks (\<lambda>s. info_wf (fst s)) connect_member (\<lambda>_. True)"
  unfolding connect_member_def Let_def
  by (intro moves_bind [OF walks_inB [OF scan_key_bytes]] moves_bind [OF walks_inF [OF walks_ertmp_field]] moves_if
      moves_ret walks_plain_field) simp_all

lemma walks_withLocal:
  assumes "walks (\<lambda>s. I (fst s)) m (\<lambda>_. True)"
  shows "walks I (withLocal l m) (\<lambda>_. True)"
  unfolding moves_def
proof (intro allI impI)
  fix s assume s: "buf_inv (fst s)" "I (snd s)"
  from movesD [OF assms, of "(fst s, (snd s, l))"] s
  show "fst (withLocal l m s) \<noteq> panic \<and> ahead (fst s) (fst (snd (withLocal l m s))) \<and> I (snd (snd (withLocal l m s))) \<and>
      (\<forall>x. fst (withLocal l m s) = Inr x \<longrightarrow> True)"
    by (cases s) (auto simp: withLocal_def bindR_def split: prod.splits sum.splits)
qed

lemma walks_connect_fields: "walks info_wf connect_fields (\<lambda>_. True)"
  unfolding connect_fields_def
  by (intro moves_bind [OF walks_inB [OF scan_number_value]]
      moves_then [OF walks_keeps [OF keeps_mod [where Q = "\<lambda>_. True"]]] moves_then [OF walks_inB [OF scan_amf0_scalars(4)]]
      walks_withLocal walks_members walks_connect_member) (simp_all add: info_wf_def caps_wf_def)

lemma walks_connect_command: "walks info_wf connect_command (\<lambda>_. True)"
proof -
  have "walks info_wf (bindS (liftS (subslice name 0 k)) (\<lambda>n. bindS (getS (\<lambda>s. ci_name (snd s))) (\<lambda>dst.
      bindS (liftS (copy_at dst 0 n)) (\<lambda>dst. thenS (inO (modS (\<lambda>i. i\<lparr>ci_name := dst\<rparr>))) connect_fields)))) (\<lambda>_. True)"
    if k: "k < 64" "length name = 64" for k :: nat and name :: bytes
  proof (rule moves_bind [OF moves_lift [of _ "\<lambda>n. length n = k"]], goal_cases)
    case (3 n)
    show ?case
    proof (rule moves_bind [OF moves_get [of _ "\<lambda>d. length d = 64"]], goal_cases)
      case (2 dst)
      then have "copy_at dst 0 n = Inr (n @ drop k dst)" using 3 k by simp
      moreover have "length (n @ drop k dst) = 64" using 2 3 k by simp
      then have "keeps info_wf (modS (\<lambda>i. i\<lparr>ci_name := n @ drop k dst\<rparr>)) (\<lambda>_. True)"
        by (intro keeps_mod) (simp_all add: info_wf_def caps_wf_def)
      ultimately show ?case
        by (simp only: bindS_lift) (rule moves_then [OF walks_keeps walks_connect_fields])
    qed (simp add: info_wf_def)
  qed (use k in auto)
  note name = this
  show ?thesis
    unfolding connect_command_def
  proof (rule moves_bind [OF walks_inB [OF scan_amf0_strings(1)]], goal_cases)
    case (1 x)
    then obtain k nm where x: "x = (k, nm)" "k < 64" "length nm = 64" by (cases x) simp
    show ?case unfolding x(1) prod.case by (rule name [OF x(2,3)])
  qed
qed

lemma read_connect_safe:
  assumes "buf_inv b"
  shows "\<exists>r b' i'. read_connect_with_encoding (b, i) = (r, (b', i')) \<and> r \<noteq> panic \<and> ahead b b' \<and> info_wf i'"
proof -
  have "read_connect_with_encoding (b, i) = connect_command (b, connect_info_default)"
    by (simp add: read_connect_with_encoding_def thenS_def bindS_def)
  moreover obtain r b' i' where "connect_command (b, connect_info_default) = (r, (b', i'))" by (metis surj_pair)
  ultimately show ?thesis
    using movesD [OF walks_connect_command, of "(b, connect_info_default)"] assms info_wf_default by simp
qed

section \<open>What is written is read back\<close>

subsection \<open>The head of a command\<close>

definition string_bytes :: "bytes \<Rightarrow> bytes" where
  "string_bytes s = 2 # len16_bytes s"

definition number_bytes :: "f64 \<Rightarrow> bytes" where
  "number_bytes v = 0 # be64 v"

definition head_bytes :: "string \<Rightarrow> f64 \<Rightarrow> bytes" where
  "head_bytes name t = string_bytes (ascii name) @ number_bytes t @ [5]"

definition member_bytes :: "string \<Rightarrow> bytes \<Rightarrow> bytes" where
  "member_bytes key v = len16_bytes (ascii key) @ v"

lemma emits_string: "length s \<le> 0xFFFF \<Longrightarrow> bq.emits (amf0_write_string s) () (string_bytes s)"
  unfolding string_bytes_def by (rule emits_amf0_strings)

lemma emits_number: "bq.emits (amf0_write_number v) () (number_bytes v)"
  unfolding number_bytes_def by (rule emits_amf0_scalars)

lemma emits_head: "length name \<le> 0xFFFF \<Longrightarrow> bq.emits (build_head name t) () (head_bytes name t)"
  unfolding build_head_def head_bytes_def
  by (rule bq.emits_then [OF emits_string bq.emits_then [OF emits_number emits_amf0_scalars(3)]]) simp

lemma emits_member:
  "length key \<le> 0xFFFF \<Longrightarrow> length v \<le> 0xFFFF \<Longrightarrow> bq.emits (write_member key v) () (member_bytes key (string_bytes v))"
  unfolding write_member_def member_bytes_def
  by (rule bq.emits_then [OF emits_amf0_strings(3) emits_string]) simp_all

lemma parses_number: "bq.parses read_number_value (number_bytes v) v"
  unfolding number_bytes_def read_number_value_def
  using parses_marker [where ty = A0Number and bs = "be64 v" and y = v
      and f = "\<lambda>ty. if ty \<noteq> A0Number then failS (Err EAmf) else amf0_read_number"]
    parses_amf0_fixed(4) [folded amf0_read_number_def] by simp

lemma parses_skip:
  assumes "amf0_encodable v" "amf0_few_keys v" "amf0_depth v \<le> MAX_SKIP_DEPTH"
  shows "bq.parses amf0_skip_value (amf0_bytes v) ()"
  unfolding amf0_skip_value_def amf0_bytes_def
  by (rule parses_marker) (rule parses_skip_value_depth, use assms in simp_all)

lemma parses_skip_scalars:
  "bq.parses amf0_skip_value [5] ()"
  "length s \<le> 0xFFFF \<Longrightarrow> bq.parses amf0_skip_value (string_bytes s) ()"
  "bq.parses amf0_skip_value (number_bytes v) ()"
  using parses_skip [of VNull] parses_skip [of "VString s"] parses_skip [of "VNumber v"]
  by (simp_all add: amf0_bytes_def string_bytes_def number_bytes_def)

lemma parses_head: "length name < 64 \<Longrightarrow> bq.parses read_head (head_bytes name t) t"
  unfolding read_head_def head_bytes_def string_bytes_def
  by (rule bq.parses_then [OF parses_amf0_strings(1) bq.parses_bind [OF parses_number
        bq.parses_then [OF parses_skip_scalars(1) bq.parses_ret, simplified append_Nil2]]]) simp_all

subsection \<open>Members of an object\<close>

lemma member_not_end_marker: "length key \<le> 0xFFFF \<Longrightarrow> mk \<noteq> 9 \<Longrightarrow> take 3 (member_bytes key (mk # bs) @ rest) \<noteq> [0, 0, 9]"
  using key_not_end [of "ascii key" mk "bs @ rest"] by (simp add: member_bytes_def)

lemma members_mono_op:
  "object_members n body s = (Inr (), s') \<Longrightarrow> object_members (Suc n) body s = (Inr (), s')"
proof (induction n arbitrary: s)
  case 0
  then show ?case by (auto simp: bindS_def split: prod.splits sum.splits if_splits)
next
  case (Suc n)
  obtain r s1 where e: "inB amf0_is_object_end s = (r, s1)" by (metis surj_pair)
  show ?case
  proof (cases "r = Inr False")
    case True
    with Suc.prems e obtain s2 where b: "body s1 = (Inr (), s2)" "object_members n body s2 = (Inr (), s')"
      by (auto simp: bindS_def thenS_def split: prod.splits sum.splits)
    then have "object_members (Suc n) body s2 = (Inr (), s')" by (intro Suc.IH)
    with True e b show ?thesis by (subst object_members.simps) (simp add: bindS_def thenS_def)
  next
    case False
    then have "object_members (Suc (Suc n)) body s = object_members (Suc n) body s"
      using e by (cases r) (auto simp: bindS_def)
    with Suc.prems show ?thesis by simp
  qed
qed

lemma fills_members_mono: "fills (object_members n body) x bs () x' \<Longrightarrow> n \<le> m \<Longrightarrow> fills (object_members m body) x bs () x'"
proof (induction m)
  case (Suc m)
  then show ?case
    unfolding fills_def by (metis le_Suc_eq members_mono_op)
qed simp

text \<open>A member that is written only under a condition.\<close>

lemma fills_optional:
  assumes "c \<Longrightarrow> fills body x (member_bytes key (mk # bs)) () y" "\<not> c \<Longrightarrow> y = x" "length key \<le> 0xFFFF" "mk \<noteq> 9"
    "fills (object_members n body) y cs () z"
  shows "fills (object_members (Suc n) body) x ((if c then member_bytes key (mk # bs) else []) @ cs) () z"
proof (cases c)
  case True
  with fills_members_step [OF member_not_end_marker [OF assms(3,4)] assms(1,5)] show ?thesis by simp
next
  case False
  with assms(2,5) fills_members_mono [of n body x cs z "Suc n"] show ?thesis by simp
qed

lemma fills_member:
  assumes "fills body x (member_bytes key (mk # bs)) () y" "length key \<le> 0xFFFF" "mk \<noteq> 9"
    "fills (object_members n body) y cs () z"
  shows "fills (object_members (Suc n) body) x (member_bytes key (mk # bs) @ cs) () z"
  using fills_optional [of True body x key mk bs y n cs z] assms by simp

subsection \<open>Capabilities\<close>

definition caps_bytes :: "negotiated_caps \<Rightarrow> bytes" where
  "caps_bytes c =
     (if nc_has_four_cc_list c \<and> 0 < fl_count (nc_four_cc_list c)
      then member_bytes ''fourCcList'' (list_bytes (list_names (nc_four_cc_list c))) else []) @
     (if nc_has_caps_ex c then member_bytes ''capsEx'' (0 # be64 (u32_to_f64 (nc_caps_ex_mask c))) else []) @
     (if nc_has_video_four_cc_info_map c \<and> 0 < vm_count (nc_video_four_cc_info_map c)
      then member_bytes ''videoFourCcInfoMap'' (3 # map_members (map_names (nc_video_four_cc_info_map c)) @ [0, 0, 9]) else []) @
     (if nc_has_reconnect c then member_bytes ''reconnect'' (12 # len32_bytes (reconnect_blob (nc_reconnect c))) else [])"

text \<open>Capabilities as \<open>negotiate_caps\<close> makes them: lists in their arrays, of supported names.\<close>

definition caps_sound :: "negotiated_caps \<Rightarrow> bool" where
  "caps_sound c \<longleftrightarrow> list_wf (nc_four_cc_list c) \<and> (\<forall>n \<in> set (list_names (nc_four_cc_list c)). four_cc_supported n) \<and>
     map_wf (nc_video_four_cc_info_map c) \<and> (\<forall>(n, v) \<in> set (map_names (nc_video_four_cc_info_map c)). four_cc_supported n)"

lemma emits_optional: "(c \<Longrightarrow> bq.emits m () bs) \<Longrightarrow> bq.emits (if c then m else retS ()) () (if c then bs else [])"
  by auto

lemma emits_keyed:
  "length key \<le> 0xFFFF \<Longrightarrow> bq.emits m () bs \<Longrightarrow>
     bq.emits (thenS (amf0_write_object_key (ascii key)) m) () (member_bytes key bs)"
  unfolding member_bytes_def by (rule bq.emits_then [OF emits_amf0_strings(3)]) simp_all

lemma emits_caps:
  assumes "caps_sound c"
  shows "bq.emits (write_negotiated_caps c) () (caps_bytes c)"
proof -
  have "bq.emits (write_four_cc_list_amf (nc_four_cc_list c)) () (list_bytes (list_names (nc_four_cc_list c)))"
    "bq.emits (write_video_fourcc_info_map_amf (nc_video_four_cc_info_map c)) ()
      (3 # map_members (map_names (nc_video_four_cc_info_map c)) @ [0, 0, 9])"
    using assms unfolding caps_sound_def by (auto intro!: emits_list emits_info_map)
  then show ?thesis
    unfolding write_negotiated_caps_def caps_bytes_def
    by (intro bq.emits_then [OF emits_optional] emits_optional emits_keyed emits_caps_ex emits_reconnect) simp_all
qed

lemma fills_capability: "fills m x bs () x' \<Longrightarrow> fills (capability m seen) x bs () (seen x')"
  unfolding capability_def
  by (rule fills_orRewind, rule fills_then [where cs = "[]", simplified append_Nil2], assumption)
    (rule fills_inO, simp)

lemma fills_keyed:
  assumes "fills (f (ascii key)) x bs () x'" "length key < 256"
  shows "fills (bindS (inB read_key_bytes) f) x (member_bytes key bs) () x'"
  unfolding member_bytes_def by (rule fills_bind [where f = f, OF fills_inB [OF parses_key_bytes] assms(1)]) (simp add: assms(2))

lemma fills_field:
  assumes "fills m (g x) bs () y" "x' = seen (p y x)"
  shows "fills (capability (inF g p m) seen) x bs () x'"
  unfolding assms(2) by (rule fills_capability) (rule fills_inF, rule assms(1))

lemma fills_result_members:
  "fills read_four_cc_list_amf (nc_four_cc_list x) bs () l \<Longrightarrow>
     fills connect_result_member x (member_bytes ''fourCcList'' bs) () (x\<lparr>nc_four_cc_list := l, nc_has_four_cc_list := True\<rparr>)"
  "fills read_caps_ex_amf (nc_caps_ex x, nc_caps_ex_mask x) bs () (e, m) \<Longrightarrow>
     fills connect_result_member x (member_bytes ''capsEx'' bs) () (x\<lparr>nc_caps_ex := e, nc_caps_ex_mask := m,
       nc_has_caps_ex := True, nc_multitrack_enabled := m AND CAPS_EX_MASK_MULTITRACK \<noteq> 0\<rparr>)"
  "fills read_video_fourcc_info_map_amf (nc_video_four_cc_info_map x) bs () v \<Longrightarrow>
     fills connect_result_member x (member_bytes ''videoFourCcInfoMap'' bs) ()
       (x\<lparr>nc_video_four_cc_info_map := v, nc_has_video_four_cc_info_map := True\<rparr>)"
  "fills read_reconnect_amf (nc_reconnect x) bs () r \<Longrightarrow>
     fills connect_result_member x (member_bytes ''reconnect'' bs) () (x\<lparr>nc_reconnect := r, nc_has_reconnect := True\<rparr>)"
  unfolding connect_result_member_def
  by (rule fills_keyed; auto simp: utf8_or_empty_def intro!: fills_field)+

lemma fills_result_skip:
  assumes "bq.parses amf0_skip_value bs ()" "length key < 256" "utf8_valid (ascii key)"
    "ascii key \<noteq> ascii ''fourCcList''" "ascii key \<noteq> ascii ''capsEx''" "ascii key \<noteq> ascii ''videoFourCcInfoMap''"
    "ascii key \<noteq> ascii ''reconnect''"
  shows "fills connect_result_member x (member_bytes key bs) () x"
  unfolding connect_result_member_def
  by (rule fills_keyed) (use fills_inB [OF assms(1)] assms in \<open>simp_all add: utf8_or_empty_def Let_def del: ascii_simps\<close>)

text \<open>What a reader of the capabilities has in the end: the same lists, masks and flags.\<close>

definition caps_agree :: "negotiated_caps \<Rightarrow> negotiated_caps \<Rightarrow> bool" where
  "caps_agree c c' \<longleftrightarrow>
     nc_has_four_cc_list c' = (nc_has_four_cc_list c \<and> list_names (nc_four_cc_list c) \<noteq> []) \<and>
     (nc_has_four_cc_list c' \<longrightarrow> list_names (nc_four_cc_list c') = list_names (nc_four_cc_list c)) \<and>
     nc_has_caps_ex c' = nc_has_caps_ex c \<and>
     (nc_has_caps_ex c \<longrightarrow> nc_caps_ex_mask c' = nc_caps_ex_mask c \<and>
       nc_multitrack_enabled c' = (nc_caps_ex_mask c AND CAPS_EX_MASK_MULTITRACK \<noteq> 0)) \<and>
     nc_has_video_four_cc_info_map c' =
       (nc_has_video_four_cc_info_map c \<and> map_names (nc_video_four_cc_info_map c) \<noteq> []) \<and>
     (nc_has_video_four_cc_info_map c' \<longrightarrow>
       map_names (nc_video_four_cc_info_map c') = map_names (nc_video_four_cc_info_map c)) \<and>
     nc_has_reconnect c' = nc_has_reconnect c \<and> (nc_has_reconnect c \<longrightarrow> nc_reconnect c' = nc_reconnect c)"

lemma caps_pieces:
  assumes "caps_sound c" "list_wf l0"
  obtains l m where
    "fills read_four_cc_list_amf l0 (list_bytes (list_names (nc_four_cc_list c))) () l"
    "list_names l = list_names (nc_four_cc_list c)"
    "fills read_video_fourcc_info_map_amf m0 (3 # map_members (map_names (nc_video_four_cc_info_map c)) @ [0, 0, 9]) () m"
    "map_names m = map_names (nc_video_four_cc_info_map c)"
proof -
  have n: "length (list_names (nc_four_cc_list c)) \<le> MAX_FOURCCS" "length (map_names (nc_video_four_cc_info_map c)) \<le> MAX_FOURCCS"
    using assms(1) by (simp_all add: caps_sound_def list_names_def map_names_def list_wf_def map_wf_def entries_wf_def)
  have s: "\<forall>n \<in> set (list_names (nc_four_cc_list c)). four_cc_supported n"
    "\<forall>(n, v) \<in> set (map_names (nc_video_four_cc_info_map c)). four_cc_supported n"
    using assms(1) by (auto simp: caps_sound_def)
  from fills_list [OF assms(2) s(1) n(1)] fills_info_map [OF s(2) n(2), of m0] that show thesis
    by (elim exE conjE) auto
qed

text \<open>
  Two loops read the capability members: the server's over a connect object and the client's over the
  response. What both promise of one member is the interface, and the whole sequence is read once.
\<close>

locale caps_reader =
  fixes body :: "(buffer \<times> 'o, unit) op"
    and get_list :: "'o \<Rightarrow> four_cc_list" and put_list :: "four_cc_list \<Rightarrow> 'o \<Rightarrow> 'o"
    and get_mask :: "'o \<Rightarrow> caps_exit \<times> u32" and put_mask :: "caps_exit \<times> u32 \<Rightarrow> 'o \<Rightarrow> 'o"
    and get_map :: "'o \<Rightarrow> video_four_cc_info_map" and put_map :: "video_four_cc_info_map \<Rightarrow> 'o \<Rightarrow> 'o"
    and get_rc :: "'o \<Rightarrow> reconnect" and put_rc :: "reconnect \<Rightarrow> 'o \<Rightarrow> 'o"
  assumes list_member: "fills read_four_cc_list_amf (get_list x) bs () l \<Longrightarrow>
      fills body x (member_bytes ''fourCcList'' bs) () (put_list l x)"
    and mask_member: "fills read_caps_ex_amf (get_mask x) bs () e \<Longrightarrow>
      fills body x (member_bytes ''capsEx'' bs) () (put_mask e x)"
    and map_member: "fills read_video_fourcc_info_map_amf (get_map x) bs () m \<Longrightarrow>
      fills body x (member_bytes ''videoFourCcInfoMap'' bs) () (put_map m x)"
    and rc_member: "fills read_reconnect_amf (get_rc x) bs () r \<Longrightarrow>
      fills body x (member_bytes ''reconnect'' bs) () (put_rc r x)"
begin

definition received :: "negotiated_caps \<Rightarrow> four_cc_list \<Rightarrow> video_four_cc_info_map \<Rightarrow> 'o \<Rightarrow> 'o" where
  "received c l m x0 =
     (let x1 = (if nc_has_four_cc_list c \<and> 0 < fl_count (nc_four_cc_list c) then put_list l x0 else x0);
          x2 = (if nc_has_caps_ex c then put_mask (fst (get_mask x1), nc_caps_ex_mask c) x1 else x1);
          x3 = (if nc_has_video_four_cc_info_map c \<and> 0 < vm_count (nc_video_four_cc_info_map c) then put_map m x2 else x2)
      in if nc_has_reconnect c then put_rc (nc_reconnect c) x3 else x3)"

lemma fills_caps:
  assumes c: "caps_sound c" and x0: "list_wf (get_list x0)"
  shows "\<exists>l m. fills (object_members 4 body) x0 (caps_bytes c @ [0, 0, 9]) () (received c l m x0) \<and>
    list_names l = list_names (nc_four_cc_list c) \<and> map_names m = map_names (nc_video_four_cc_info_map c)"
proof -
  let ?c1 = "nc_has_four_cc_list c \<and> 0 < fl_count (nc_four_cc_list c)"
  let ?c3 = "nc_has_video_four_cc_info_map c \<and> 0 < vm_count (nc_video_four_cc_info_map c)"
  obtain l where l: "fills read_four_cc_list_amf (get_list x0) (list_bytes (list_names (nc_four_cc_list c))) () l"
      "list_names l = list_names (nc_four_cc_list c)"
    by (rule caps_pieces [OF c x0])
  define x1 where "x1 = (if ?c1 then put_list l x0 else x0)"
  define x2 where "x2 = (if nc_has_caps_ex c then put_mask (fst (get_mask x1), nc_caps_ex_mask c) x1 else x1)"
  obtain m where m: "fills read_video_fourcc_info_map_amf (get_map x2)
      (3 # map_members (map_names (nc_video_four_cc_info_map c)) @ [0, 0, 9]) () m"
      "map_names m = map_names (nc_video_four_cc_info_map c)"
    by (rule caps_pieces [OF c x0])
  define x3 where "x3 = (if ?c3 then put_map m x2 else x2)"
  define x4 where "x4 = (if nc_has_reconnect c then put_rc (nc_reconnect c) x3 else x3)"
  let ?r = "\<lambda>n. object_members n body"
  have e4: "fills (?r (Suc 0)) x3 ((if nc_has_reconnect c
      then member_bytes ''reconnect'' (12 # len32_bytes (reconnect_blob (nc_reconnect c))) else []) @ [0, 0, 9]) () x4"
    using rc_member [OF fills_reconnect, of x3 "nc_reconnect c"]
    by (intro fills_optional [where y = x4] fills_members_end) (simp_all add: x4_def)
  have e3: "fills (?r (Suc (Suc 0))) x2 ((if ?c3
      then member_bytes ''videoFourCcInfoMap'' (3 # map_members (map_names (nc_video_four_cc_info_map c)) @ [0, 0, 9]) else []) @ bs) () x4"
    if "fills (?r (Suc 0)) x3 bs () x4" for bs
    using map_member [OF m(1)] that
    by (intro fills_optional [where y = x3]) (auto simp: x3_def simp del: object_members.simps)
  have e2: "fills (?r (Suc (Suc (Suc 0)))) x1 ((if nc_has_caps_ex c
      then member_bytes ''capsEx'' (0 # be64 (u32_to_f64 (nc_caps_ex_mask c))) else []) @ bs) () x4"
    if "fills (?r (Suc (Suc 0))) x2 bs () x4" for bs
    using mask_member [of x1, OF fills_caps_ex [of "fst (get_mask x1)" "snd (get_mask x1)", unfolded prod.collapse],
        of "nc_caps_ex_mask c"] that
    by (intro fills_optional [where y = x2]) (simp_all add: x2_def)
  have e1: "fills (?r (Suc (Suc (Suc (Suc 0))))) x0 ((if ?c1
      then member_bytes ''fourCcList'' (list_bytes (list_names (nc_four_cc_list c))) else []) @ bs) () x4"
    if "fills (?r (Suc (Suc (Suc 0)))) x1 bs () x4" for bs
    unfolding list_bytes_def using list_member [OF l(1)] that
    by (intro fills_optional [where y = x1]) (auto simp: x1_def list_bytes_def simp del: object_members.simps)
  have "fills (?r (Suc (Suc (Suc (Suc 0))))) x0 (caps_bytes c @ [0, 0, 9]) () x4"
    unfolding caps_bytes_def append_assoc by (rule e1 [OF e2 [OF e3 [OF e4]]])
  moreover have "x4 = received c l m x0" by (simp add: received_def Let_def x4_def x3_def x2_def x1_def)
  ultimately show ?thesis using l(2) m(2) by (auto simp: numeral_eq_Suc)
qed

end

interpretation rr: caps_reader connect_result_member
  nc_four_cc_list "\<lambda>l x. x\<lparr>nc_four_cc_list := l, nc_has_four_cc_list := True\<rparr>"
  "\<lambda>x. (nc_caps_ex x, nc_caps_ex_mask x)"
  "\<lambda>e x. x\<lparr>nc_caps_ex := fst e, nc_caps_ex_mask := snd e, nc_has_caps_ex := True,
     nc_multitrack_enabled := snd e AND CAPS_EX_MASK_MULTITRACK \<noteq> 0\<rparr>"
  nc_video_four_cc_info_map "\<lambda>m x. x\<lparr>nc_video_four_cc_info_map := m, nc_has_video_four_cc_info_map := True\<rparr>"
  nc_reconnect "\<lambda>r x. x\<lparr>nc_reconnect := r, nc_has_reconnect := True\<rparr>"
  by unfold_locales (auto intro: fills_result_members(1,3,4) dest: fills_result_members(2))

lemma fills_caps_result:
  assumes c: "caps_sound c"
  shows "\<exists>c'. fills (object_members 4 connect_result_member) negotiated_caps_default (caps_bytes c @ [0, 0, 9]) () c' \<and>
    caps_agree c c'"
proof -
  have "list_wf (nc_four_cc_list negotiated_caps_default)" by (simp add: negotiated_caps_default_def)
  from rr.fills_caps [OF c this] obtain l m where
    f: "fills (object_members 4 connect_result_member) negotiated_caps_default (caps_bytes c @ [0, 0, 9]) ()
      (rr.received c l m negotiated_caps_default)"
    and l: "list_names l = list_names (nc_four_cc_list c)" and m: "map_names m = map_names (nc_video_four_cc_info_map c)"
    by (elim exE conjE) (rule that)
  have "caps_agree c (rr.received c l m negotiated_caps_default)"
    using c l m list_names_Nil [of "nc_four_cc_list c"] map_names_Nil [of "nc_video_four_cc_info_map c"]
    by (auto simp: caps_agree_def caps_sound_def rr.received_def Let_def negotiated_caps_default_def)
  with f show ?thesis by auto
qed

subsection \<open>The response to connect\<close>

lemma emits_object_member:
  "length key \<le> 0xFFFF \<Longrightarrow> length v \<le> 0xFFFF \<Longrightarrow> bq.emits m () bs \<Longrightarrow>
     bq.emits (thenS (write_member key v) m) () (member_bytes key (string_bytes v) @ bs)"
  by (rule bq.emits_then [OF emits_member])

lemma emits_number_member:
  "length key \<le> 0xFFFF \<Longrightarrow>
     bq.emits (thenS (amf0_write_object_key (ascii key)) (amf0_write_number v)) () (member_bytes key (number_bytes v))"
  by (rule emits_keyed [OF _ emits_number])

definition properties_value :: amf0_value where
  "properties_value = VObject [(ascii ''fmsVer'', VString CONNECT_FMS_VERSION), (ascii ''capabilities'', VNumber CONNECT_CAPABILITIES),
     (ascii ''mode'', VNumber F64_ONE)]"

lemma properties_bytes:
  "amf0_bytes properties_value = [3] @ member_bytes ''fmsVer'' (string_bytes CONNECT_FMS_VERSION) @
     member_bytes ''capabilities'' (number_bytes CONNECT_CAPABILITIES) @ member_bytes ''mode'' (number_bytes F64_ONE) @ [0, 0, 9]"
  by (simp add: properties_value_def amf0_bytes_def member_bytes_def string_bytes_def number_bytes_def)

lemma parses_properties: "bq.parses amf0_skip_value (amf0_bytes properties_value) ()"
  by (rule parses_skip) (simp_all add: properties_value_def CONNECT_FMS_VERSION_def MAX_OBJECT_KEYS_def MAX_SKIP_DEPTH_def)

definition result_bytes :: "f64 \<Rightarrow> f64 \<Rightarrow> negotiated_caps \<Rightarrow> bytes" where
  "result_bytes t enc c = (string_bytes (ascii ''_result'') @ number_bytes t @ amf0_bytes properties_value) @
     3 # member_bytes ''level'' (string_bytes (ascii ''status'')) @
     member_bytes ''code'' (string_bytes (ascii ''NetConnection.Connect.Success'')) @
     member_bytes ''description'' (string_bytes (ascii ''Connection succeeded.'')) @
     member_bytes ''objectEncoding'' (number_bytes enc) @ caps_bytes c @ [0, 0, 9]"

lemma emits_connect_response:
  assumes "caps_sound c"
  shows "bq.emits (connect_response_body t enc (Some c)) () (result_bytes t enc c)"
proof -
  have "bq.emits (connect_response_body t enc (Some c)) () (string_bytes (ascii ''_result'') @ number_bytes t @
     [3] @ member_bytes ''fmsVer'' (string_bytes CONNECT_FMS_VERSION) @
     member_bytes ''capabilities'' (number_bytes CONNECT_CAPABILITIES) @ member_bytes ''mode'' (number_bytes F64_ONE) @ [0, 0, 9] @
     [3] @ member_bytes ''level'' (string_bytes (ascii ''status'')) @
     member_bytes ''code'' (string_bytes (ascii ''NetConnection.Connect.Success'')) @
     member_bytes ''description'' (string_bytes (ascii ''Connection succeeded.'')) @
     member_bytes ''objectEncoding'' (number_bytes enc) @ caps_bytes c @ [0, 0, 9])"
    unfolding connect_response_body_def option.case
    by (intro bq.emits_then [OF emits_string] bq.emits_then [OF emits_number] bq.emits_then [OF emits_amf0_scalars(5)]
        emits_object_member bq.emits_then [OF emits_number_member] bq.emits_then [OF emits_amf0_scalars(6)]
        bq.emits_then [OF emits_caps [OF assms]] emits_amf0_scalars(6)) (simp_all add: CONNECT_FMS_VERSION_def)
  then show ?thesis by (simp add: result_bytes_def properties_bytes)
qed

lemma fills_get: "(\<And>v. fills (f v) x bs w x') \<Longrightarrow> fills (bindS (getS g) f) x bs w x'"
  by (simp add: fills_def)

lemma fills_get_snd: "fills (f x) x bs w x' \<Longrightarrow> fills (bindS (getS snd) f) x bs w x'"
  by (simp add: fills_def)

lemma fills_inF_to: "fills m (g t) bs v y \<Longrightarrow> p y t = t' \<Longrightarrow> fills (inF g p m) t bs v t'"
  using fills_inF [where g = g and t = t and p = p] by auto

lemma fills_connect_response:
  assumes c: "caps_sound c"
  shows "\<exists>c'. fills read_connect_result_with_caps (Some x) (result_bytes t enc c) t (Some c') \<and> caps_agree c c'"
proof -
  from fills_caps_result [OF c] obtain c' where
    c': "fills (object_members 4 connect_result_member) negotiated_caps_default (caps_bytes c @ [0, 0, 9]) () c'"
    "caps_agree c c'" by (elim exE conjE) (rule that)
  have s: "fills (object_members (Suc n) connect_result_member) negotiated_caps_default (member_bytes key (mk # bs) @ cs) () c'"
    if "fills (object_members n connect_result_member) negotiated_caps_default cs () c'"
      "bq.parses amf0_skip_value (mk # bs) ()" "mk \<noteq> 9" "length key < 256" "utf8_valid (ascii key)"
      "ascii key \<noteq> ascii ''fourCcList''" "ascii key \<noteq> ascii ''capsEx''" "ascii key \<noteq> ascii ''videoFourCcInfoMap''"
      "ascii key \<noteq> ascii ''reconnect''" for n key mk bs cs
    by (rule fills_member [OF fills_result_skip]) (use that in simp_all)
  note skips = parses_skip_scalars(2,3) [unfolded string_bytes_def number_bytes_def]
  have "fills (object_members (Suc (Suc (Suc (Suc 4)))) connect_result_member) negotiated_caps_default
     (member_bytes ''level'' (2 # len16_bytes (ascii ''status'')) @
      member_bytes ''code'' (2 # len16_bytes (ascii ''NetConnection.Connect.Success'')) @
      member_bytes ''description'' (2 # len16_bytes (ascii ''Connection succeeded.'')) @
      member_bytes ''objectEncoding'' (0 # be64 enc) @ caps_bytes c @ [0, 0, 9]) () c'"
    by (rule s [OF s [OF s [OF s [OF c'(1)]]]]) (simp_all add: skips)
  from fills_members_mono [OF this, of MAX_OBJECT_KEYS]
  have o: "fills parse_connect_result_caps negotiated_caps_default (amf0_marker A0Object #
      member_bytes ''level'' (2 # len16_bytes (ascii ''status'')) @
      member_bytes ''code'' (2 # len16_bytes (ascii ''NetConnection.Connect.Success'')) @
      member_bytes ''description'' (2 # len16_bytes (ascii ''Connection succeeded.'')) @
      member_bytes ''objectEncoding'' (0 # be64 enc) @ caps_bytes c @ [0, 0, 9]) () c'"
    unfolding parse_connect_result_caps_def
    by (intro fills_get fills_type) (simp add: MAX_OBJECT_KEYS_def del: object_members.simps)
  have h: "bq.parses read_head (string_bytes (ascii ''_result'') @ number_bytes t @ amf0_bytes properties_value) t"
    unfolding read_head_def string_bytes_def
    by (rule bq.parses_then [OF parses_amf0_strings(1) bq.parses_bind [OF parses_number
        bq.parses_then [OF parses_properties bq.parses_ret, simplified append_Nil2]]]) simp_all
  have "fills (thenS (inF the (\<lambda>x _. Some x) parse_connect_result_caps) (retS t)) (Some negotiated_caps_default)
      ((amf0_marker A0Object # member_bytes ''level'' (2 # len16_bytes (ascii ''status'')) @
      member_bytes ''code'' (2 # len16_bytes (ascii ''NetConnection.Connect.Success'')) @
      member_bytes ''description'' (2 # len16_bytes (ascii ''Connection succeeded.'')) @
      member_bytes ''objectEncoding'' (0 # be64 enc) @ caps_bytes c @ [0, 0, 9]) @ []) t (Some c')"
    using o by (intro fills_then [OF _ fills_ret] fills_inF_to) simp_all
  then have "fills (bindS (getS snd) (\<lambda>caps. thenS (case caps of Some c \<Rightarrow> inF the (\<lambda>x _. Some x) parse_connect_result_caps
      | None \<Rightarrow> inB amf0_skip_value) (retS t))) (Some negotiated_caps_default) (3 #
      member_bytes ''level'' (string_bytes (ascii ''status'')) @
      member_bytes ''code'' (string_bytes (ascii ''NetConnection.Connect.Success'')) @
      member_bytes ''description'' (string_bytes (ascii ''Connection succeeded.'')) @
      member_bytes ''objectEncoding'' (number_bytes enc) @ caps_bytes c @ [0, 0, 9]) t (Some c')"
    by (intro fills_get_snd) (simp add: string_bytes_def number_bytes_def del: retS_apply)
  from fills_bind [where f = "\<lambda>txn. bindS (getS snd) (\<lambda>caps. thenS (case caps of
      Some c \<Rightarrow> inF the (\<lambda>x _. Some x) parse_connect_result_caps | None \<Rightarrow> inB amf0_skip_value) (retS txn))",
      OF fills_inB [OF h] this]
  have "fills read_connect_result_with_caps (Some x) ([] @ result_bytes t enc c) t (Some c')"
    unfolding read_connect_result_with_caps_def result_bytes_def
    by (intro fills_then [OF fills_inO]) simp_all
  with c'(2) show ?thesis by auto
qed

subsection \<open>The connect command\<close>

lemma fills_ertmp_member:
  assumes "fills (read_connect_ertmp_field (ascii key)) (fst s) bs True i'" "length key < 256" "utf8_valid (ascii key)"
  shows "fills connect_member s (member_bytes key bs) () (i', snd s)"
  unfolding connect_member_def
proof (rule fills_keyed, goal_cases)
  case 1
  have "fills (inF fst (\<lambda>i s. (i, snd s)) (read_connect_ertmp_field (ascii key))) s bs True (i', snd s)"
    using assms(1) by (intro fills_inF_to) simp_all
  from fills_bind [where f = "\<lambda>known. if known then retS () else read_connect_plain_field (ascii key)", OF this, of "[]" "()" "(i', snd s)"]
  show ?case using assms(3) fills_ret [of "()" "(i', snd s)"] by (simp add: utf8_or_empty_def Let_def del: retS_apply)
qed (rule assms(2))

lemma fills_known: "fills m x bs () x' \<Longrightarrow> fills (thenS m (retS True)) x bs True x'"
  using fills_then [OF _ fills_ret, of m x bs "()" x' True] by simp

lemma fills_connect_members:
  "fills read_four_cc_list_amf (ci_four_cc_list (fst s)) bs () l \<Longrightarrow>
     fills connect_member s (member_bytes ''fourCcList'' bs) ()
       ((fst s)\<lparr>ci_four_cc_list := l, ci_has_four_cc_list := True\<rparr>, snd s)"
  "fills read_caps_ex_amf (ci_caps_ex (fst s), ci_caps_ex_mask (fst s)) bs () e \<Longrightarrow>
     fills connect_member s (member_bytes ''capsEx'' bs) ()
       ((fst s)\<lparr>ci_caps_ex := fst e, ci_caps_ex_mask := snd e, ci_has_caps_ex := True\<rparr>, snd s)"
  "fills read_video_fourcc_info_map_amf (ci_video_four_cc_info_map (fst s)) bs () m \<Longrightarrow>
     fills connect_member s (member_bytes ''videoFourCcInfoMap'' bs) ()
       ((fst s)\<lparr>ci_video_four_cc_info_map := m, ci_has_video_four_cc_info_map := True\<rparr>, snd s)"
  "fills read_reconnect_amf (ci_reconnect (fst s)) bs () r \<Longrightarrow>
     fills connect_member s (member_bytes ''reconnect'' bs) ()
       ((fst s)\<lparr>ci_reconnect := r, ci_has_reconnect := True\<rparr>, snd s)"
  by (rule fills_ertmp_member; auto simp: read_connect_ertmp_field_def case_prod_beta simp del: retS_apply
      intro!: fills_known fills_field)+

interpretation cr: caps_reader connect_member
  "\<lambda>s. ci_four_cc_list (fst s)" "\<lambda>l s. ((fst s)\<lparr>ci_four_cc_list := l, ci_has_four_cc_list := True\<rparr>, snd s)"
  "\<lambda>s. (ci_caps_ex (fst s), ci_caps_ex_mask (fst s))"
  "\<lambda>e s. ((fst s)\<lparr>ci_caps_ex := fst e, ci_caps_ex_mask := snd e, ci_has_caps_ex := True\<rparr>, snd s)"
  "\<lambda>s. ci_video_four_cc_info_map (fst s)"
  "\<lambda>m s. ((fst s)\<lparr>ci_video_four_cc_info_map := m, ci_has_video_four_cc_info_map := True\<rparr>, snd s)"
  "\<lambda>s. ci_reconnect (fst s)" "\<lambda>r s. ((fst s)\<lparr>ci_reconnect := r, ci_has_reconnect := True\<rparr>, snd s)"
  by unfold_locales (rule fills_connect_members; assumption)+

lemma fills_plain_member:
  assumes "fills (read_connect_plain_field (ascii key)) s bs () s'" "read_connect_ertmp_field (ascii key) = retS False"
    "length key < 256" "utf8_valid (ascii key)"
  shows "fills connect_member s (member_bytes key bs) () s'"
  unfolding connect_member_def
proof (rule fills_keyed, goal_cases)
  case 1
  have "fills (inF fst (\<lambda>i s. (i, snd s)) (retS False)) s [] False s"
    by (intro fills_inF_to [OF fills_ret]) simp
  from fills_bind [where f = "\<lambda>known. if known then retS () else read_connect_plain_field (ascii key)", OF this, of bs "()" s'] assms
  show ?case by (simp add: utf8_or_empty_def Let_def del: retS_apply)
qed (rule assms(3))

lemma peek_type_marker:
  assumes "buf_inv b" "contents b = amf0_marker ty # rest"
  shows "amf0_peek_type b = (Inr ty, b)"
proof -
  have "bq.parses amf0_read_type [amf0_marker ty] ty"
    using parses_marker [where f = retS and ty = ty, OF bq.parses_ret] by (simp add: bindS_ret_right)
  then obtain b' where "amf0_read_type b = (Inr ty, b')" using assms by (auto elim: bq.parsesE)
  with ahead_rewind [OF assms(1)] movesD(2) [OF scan_amf0_read_type assms(1) TrueI] show ?thesis
    by (simp add: amf0_peek_type_def bindS_def thenS_def)
qed

lemma fills_peek:
  assumes "fills (f ty) s (amf0_marker ty # bs) v s'"
  shows "fills (bindS (inB amf0_peek_type) f) s (amf0_marker ty # bs) v s'"
  by (rule fills_look [where f = f, OF _ assms]) (simp add: peek_type_marker)

text \<open>The five text members, the type tag (skipped) and the two codec numbers.\<close>

lemma fills_text_members:
  assumes v: "length v \<le> 0xFFFF" "0 \<notin> set v"
  shows "length v < length (ci_app i) \<Longrightarrow>
      fills connect_member (i, e) (member_bytes ''app'' (2 # len16_bytes v)) () (i\<lparr>ci_app := filled (ci_app i) v\<rparr>, e)"
    "length v < length (ci_tc_url i) \<Longrightarrow>
      fills connect_member (i, e) (member_bytes ''tcUrl'' (2 # len16_bytes v)) () (i\<lparr>ci_tc_url := filled (ci_tc_url i) v\<rparr>, e)"
    "length v < length (ci_page_url i) \<Longrightarrow>
      fills connect_member (i, e) (member_bytes ''pageUrl'' (2 # len16_bytes v)) () (i\<lparr>ci_page_url := filled (ci_page_url i) v\<rparr>, e)"
    "length v < length (ci_swf_url i) \<Longrightarrow>
      fills connect_member (i, e) (member_bytes ''swfUrl'' (2 # len16_bytes v)) () (i\<lparr>ci_swf_url := filled (ci_swf_url i) v\<rparr>, e)"
    "length v < length (ci_flash_ver i) \<Longrightarrow>
      fills connect_member (i, e) (member_bytes ''flashVer'' (2 # len16_bytes v)) () (i\<lparr>ci_flash_ver := filled (ci_flash_ver i) v\<rparr>, e)"
    "fills connect_member (i, e) (member_bytes ''type'' (2 # len16_bytes v)) () (i, e)"
proof -
  have arr: "fills (inF g p read_string_checked) t (2 # len16_bytes v) () t'"
    if "length v < length (g t)" "p (filled (g t) v) t = t'"
    for g :: "connect_info \<times> f64 \<Rightarrow> bytes" and p and t t' :: "connect_info \<times> f64"
    by (rule fills_inF_to [OF fills_string_checked]) (use v that in simp_all)
  note skip = fills_inB [OF parses_skip_scalars(2) [OF v(1), unfolded string_bytes_def]]
  note go = fills_plain_member fills_peek [where ty = A0String, simplified amf0_marker.simps] arr skip
  show "length v < length (ci_app i) \<Longrightarrow>
      fills connect_member (i, e) (member_bytes ''app'' (2 # len16_bytes v)) () (i\<lparr>ci_app := filled (ci_app i) v\<rparr>, e)"
    "length v < length (ci_tc_url i) \<Longrightarrow>
      fills connect_member (i, e) (member_bytes ''tcUrl'' (2 # len16_bytes v)) () (i\<lparr>ci_tc_url := filled (ci_tc_url i) v\<rparr>, e)"
    "length v < length (ci_page_url i) \<Longrightarrow>
      fills connect_member (i, e) (member_bytes ''pageUrl'' (2 # len16_bytes v)) () (i\<lparr>ci_page_url := filled (ci_page_url i) v\<rparr>, e)"
    "length v < length (ci_swf_url i) \<Longrightarrow>
      fills connect_member (i, e) (member_bytes ''swfUrl'' (2 # len16_bytes v)) () (i\<lparr>ci_swf_url := filled (ci_swf_url i) v\<rparr>, e)"
    "length v < length (ci_flash_ver i) \<Longrightarrow>
      fills connect_member (i, e) (member_bytes ''flashVer'' (2 # len16_bytes v)) () (i\<lparr>ci_flash_ver := filled (ci_flash_ver i) v\<rparr>, e)"
    "fills connect_member (i, e) (member_bytes ''type'' (2 # len16_bytes v)) () (i, e)"
    by (auto simp: read_connect_plain_field_def read_connect_ertmp_field_def intro!: go)
qed

lemma fills_number_members:
  "fills connect_member (i, e) (member_bytes ''audioCodecs'' (0 # be64 v)) () (i\<lparr>ci_audio_codecs := f64_to_i32 v\<rparr>, e)"
  "fills connect_member (i, e) (member_bytes ''videoCodecs'' (0 # be64 v)) () (i\<lparr>ci_video_codecs := f64_to_i32 v\<rparr>, e)"
proof -
  have num: "fills (bindS (inB read_number_value) f) s (0 # be64 v) () s'" if "fills (f v) s [] () s'"
    for f :: "f64 \<Rightarrow> (buffer \<times> connect_info \<times> f64, unit) op" and s s'
    using fills_bind [where f = f, OF fills_inB [OF parses_number] that] by (simp add: number_bytes_def)
  show "fills connect_member (i, e) (member_bytes ''audioCodecs'' (0 # be64 v)) () (i\<lparr>ci_audio_codecs := f64_to_i32 v\<rparr>, e)"
    "fills connect_member (i, e) (member_bytes ''videoCodecs'' (0 # be64 v)) () (i\<lparr>ci_video_codecs := f64_to_i32 v\<rparr>, e)"
    by (auto simp: read_connect_plain_field_def read_connect_ertmp_field_def
        intro!: fills_plain_member fills_peek [where ty = A0Number, simplified amf0_marker.simps] num fills_inO)
qed

definition connect_bytes ::
  "bytes \<Rightarrow> bytes \<Rightarrow> bytes \<Rightarrow> bytes \<Rightarrow> bytes \<Rightarrow> i32 \<Rightarrow> i32 \<Rightarrow> negotiated_caps \<Rightarrow> bytes" where
  "connect_bytes app tc page swf flash a v c =
     member_bytes ''app'' (2 # len16_bytes app) @ member_bytes ''type'' (2 # len16_bytes (ascii ''nonprivate'')) @
     member_bytes ''tcUrl'' (2 # len16_bytes tc) @
     (if page \<noteq> [] then member_bytes ''pageUrl'' (2 # len16_bytes page) else []) @
     (if swf \<noteq> [] then member_bytes ''swfUrl'' (2 # len16_bytes swf) else []) @
     (if flash \<noteq> [] then member_bytes ''flashVer'' (2 # len16_bytes flash) else []) @
     member_bytes ''audioCodecs'' (0 # be64 (i32_to_f64 a)) @ member_bytes ''videoCodecs'' (0 # be64 (i32_to_f64 v)) @
     caps_bytes c @ [0, 0, 9]"

lemma emits_member_if:
  assumes "length key \<le> 0xFFFF" "length v \<le> 0xFFFF"
  shows "bq.emits (write_member_if key v) () (if v \<noteq> [] then member_bytes key (2 # len16_bytes v) else [])"
  using emits_member [OF assms] by (auto simp: write_member_if_def string_bytes_def)

lemma emits_connect:
  assumes "caps_sound c" "length app \<le> 0xFFFF" "length tc \<le> 0xFFFF" "length page \<le> 0xFFFF" "length swf \<le> 0xFFFF"
    "length flash \<le> 0xFFFF"
  shows "bq.emits (build_connect app tc page swf flash a v (Some c)) ()
    (string_bytes (ascii ''connect'') @ number_bytes F64_ONE @ [3] @ connect_bytes app tc page swf flash a v c)"
proof -
  note m = emits_member [unfolded string_bytes_def]
  have "bq.emits (build_connect app tc page swf flash a v (Some c)) ()
    ((string_bytes (ascii ''connect'') @ number_bytes F64_ONE @ [3] @
      member_bytes ''app'' (2 # len16_bytes app) @ member_bytes ''type'' (2 # len16_bytes (ascii ''nonprivate'')) @
      member_bytes ''tcUrl'' (2 # len16_bytes tc) @
      (if page \<noteq> [] then member_bytes ''pageUrl'' (2 # len16_bytes page) else []) @
      (if swf \<noteq> [] then member_bytes ''swfUrl'' (2 # len16_bytes swf) else []) @
      (if flash \<noteq> [] then member_bytes ''flashVer'' (2 # len16_bytes flash) else []) @
      (len16_bytes (ascii ''audioCodecs'') @ number_bytes (i32_to_f64 a) @
      len16_bytes (ascii ''videoCodecs'') @ number_bytes (i32_to_f64 v))) @ caps_bytes c @ [0, 0, 9])"
    unfolding build_connect_def option.case
    by (intro bq.emits_then [OF bq.emits_map_err] bq.emits_map_err bq.emits_then [OF emits_caps [OF assms(1)]]
        bq.emits_then [OF emits_string] bq.emits_then [OF emits_number] bq.emits_then [OF emits_amf0_scalars(5)]
        bq.emits_then [OF m] bq.emits_then [OF emits_member_if] bq.emits_then [OF emits_amf0_strings(3)] emits_number
        emits_amf0_scalars(6)) (use assms emits_number in simp_all)
  then show ?thesis by (simp add: connect_bytes_def member_bytes_def number_bytes_def)
qed

text \<open>What the server knows after reading: every text in its array, the codec numbers, the capabilities.\<close>

definition text_is :: "bytes \<Rightarrow> bytes \<Rightarrow> bool" where
  "text_is arr s \<longleftrightarrow> decode_route_amf_string arr = (if utf8_valid s then Inr s else err EAmf)"

definition connect_agree ::
  "bytes \<Rightarrow> bytes \<Rightarrow> bytes \<Rightarrow> bytes \<Rightarrow> bytes \<Rightarrow> i32 \<Rightarrow> i32 \<Rightarrow> negotiated_caps \<Rightarrow> connect_info \<Rightarrow> bool" where
  "connect_agree app tc page swf flash a v c i \<longleftrightarrow>
     text_is (ci_name i) (ascii ''connect'') \<and> ci_transaction_id i = F64_ONE \<and>
     text_is (ci_app i) app \<and> text_is (ci_tc_url i) tc \<and> text_is (ci_page_url i) page \<and> text_is (ci_swf_url i) swf \<and>
     text_is (ci_flash_ver i) flash \<and> ci_audio_codecs i = a \<and> ci_video_codecs i = v \<and>
     caps_agree c \<lparr>nc_four_cc_list = ci_four_cc_list i, nc_caps_ex = ci_caps_ex i,
       nc_video_four_cc_info_map = ci_video_four_cc_info_map i, nc_reconnect = ci_reconnect i,
       nc_caps_ex_mask = ci_caps_ex_mask i, nc_has_four_cc_list = ci_has_four_cc_list i, nc_has_caps_ex = ci_has_caps_ex i,
       nc_has_video_four_cc_info_map = ci_has_video_four_cc_info_map i, nc_has_reconnect = ci_has_reconnect i,
       nc_multitrack_enabled = (ci_caps_ex_mask i AND CAPS_EX_MASK_MULTITRACK \<noteq> 0)\<rparr>"

lemma text_is_filled: "0 \<notin> set s \<Longrightarrow> text_is (filled arr s) s"
  using filled_route [of s arr] by (simp add: text_is_def decode_route_amf_string_def)

lemma text_is_blank: "text_is (replicate n 0) []"
  by (cases n) (simp_all add: text_is_def decode_route_amf_string_def)

definition connect_texts :: "bytes \<Rightarrow> bytes \<Rightarrow> bytes \<Rightarrow> bytes \<Rightarrow> bytes \<Rightarrow> bool" where
  "connect_texts app tc page swf flash \<longleftrightarrow> length app < 256 \<and> length tc < 512 \<and> length page < 512 \<and> length swf < 512 \<and>
     length flash < 64 \<and> 0 \<notin> set app \<and> 0 \<notin> set tc \<and> 0 \<notin> set page \<and> 0 \<notin> set swf \<and> 0 \<notin> set flash"

text \<open>The texts and numbers of the connect object, stored one after the other.\<close>

definition with_texts :: "bytes \<Rightarrow> bytes \<Rightarrow> bytes \<Rightarrow> bytes \<Rightarrow> bytes \<Rightarrow> i32 \<Rightarrow> i32 \<Rightarrow> connect_info \<Rightarrow> connect_info" where
  "with_texts app tc page swf flash a v i = i\<lparr>ci_app := filled (ci_app i) app, ci_tc_url := filled (ci_tc_url i) tc,
     ci_page_url := (if page \<noteq> [] then filled (ci_page_url i) page else ci_page_url i),
     ci_swf_url := (if swf \<noteq> [] then filled (ci_swf_url i) swf else ci_swf_url i),
     ci_flash_ver := (if flash \<noteq> [] then filled (ci_flash_ver i) flash else ci_flash_ver i),
     ci_audio_codecs := a, ci_video_codecs := v\<rparr>"

lemma fills_connect_texts:
  assumes t: "connect_texts app tc page swf flash" and i: "info_wf i"
    and rest: "fills (object_members 4 connect_member) (with_texts app tc page swf flash a v i, e) (caps_bytes c @ [0, 0, 9]) () s'"
  shows "fills (object_members MAX_CONNECT_OBJECT_KEYS connect_member) (i, e) (connect_bytes app tc page swf flash a v c) () s'"
proof -
  have l: "length app < length (ci_app i)" "length tc < length (ci_tc_url i)" "length page < length (ci_page_url i)"
    "length swf < length (ci_swf_url i)" "length flash < length (ci_flash_ver i)"
    using t i by (simp_all add: connect_texts_def info_wf_def)
  have z: "length x \<le> 0xFFFF \<and> 0 \<notin> set x" if "x \<in> {app, tc, page, swf, flash}" for x
    using t that by (auto simp: connect_texts_def)
  have np: "length (ascii ''nonprivate'') \<le> 0xFFFF" "0 \<notin> set (ascii ''nonprivate'')" by simp_all
  define i1 where "i1 = i\<lparr>ci_app := filled (ci_app i) app\<rparr>"
  define i2 where "i2 = i1\<lparr>ci_tc_url := filled (ci_tc_url i1) tc\<rparr>"
  define i3 where "i3 = (if page \<noteq> [] then i2\<lparr>ci_page_url := filled (ci_page_url i2) page\<rparr> else i2)"
  define i4 where "i4 = (if swf \<noteq> [] then i3\<lparr>ci_swf_url := filled (ci_swf_url i3) swf\<rparr> else i3)"
  define i5 where "i5 = (if flash \<noteq> [] then i4\<lparr>ci_flash_ver := filled (ci_flash_ver i4) flash\<rparr> else i4)"
  define i6 where "i6 = i5\<lparr>ci_audio_codecs := f64_to_i32 (i32_to_f64 a)\<rparr>"
  have i7: "with_texts app tc page swf flash a v i = i6\<lparr>ci_video_codecs := f64_to_i32 (i32_to_f64 v)\<rparr>"
    by (simp add: with_texts_def i6_def i5_def i4_def i3_def i2_def i1_def i32_f64_roundtrip)
  have g: "length page < length (ci_page_url i2)" "length swf < length (ci_swf_url i3)" "length flash < length (ci_flash_ver i4)"
    using l(3-) by (simp_all add: i4_def i3_def i2_def i1_def)
  let ?r = "\<lambda>n. object_members n connect_member"
  note step = fills_member [where body = connect_member]
  have e8: "fills (?r (Suc 4)) (i6, e) (member_bytes ''videoCodecs'' (0 # be64 (i32_to_f64 v)) @ caps_bytes c @ [0, 0, 9]) () s'"
    by (rule step [OF fills_number_members(2) _ _ rest [unfolded i7]]) simp_all
  have e7: "fills (?r (Suc (Suc n))) (i5, e) (member_bytes ''audioCodecs'' (0 # be64 (i32_to_f64 a)) @ bs) () s'"
    if "fills (?r (Suc n)) (i6, e) bs () s'" for n bs
    by (rule step [OF fills_number_members(1) _ _ that [unfolded i6_def]]) simp_all
  have e6: "fills (?r (Suc n)) (i4, e) ((if flash \<noteq> [] then member_bytes ''flashVer'' (2 # len16_bytes flash) else []) @ bs) () s'"
    if "fills (?r n) (i5, e) bs () s'" for n bs
    using fills_text_members(5) [of flash i4 e] z [of flash] g(3) that
    by (intro fills_optional [where y = "(i5, e)"]) (auto simp: i5_def simp del: object_members.simps)
  have e5: "fills (?r (Suc n)) (i3, e) ((if swf \<noteq> [] then member_bytes ''swfUrl'' (2 # len16_bytes swf) else []) @ bs) () s'"
    if "fills (?r n) (i4, e) bs () s'" for n bs
    using fills_text_members(4) [of swf i3 e] z [of swf] g(2) that
    by (intro fills_optional [where y = "(i4, e)"]) (auto simp: i4_def simp del: object_members.simps)
  have e4: "fills (?r (Suc n)) (i2, e) ((if page \<noteq> [] then member_bytes ''pageUrl'' (2 # len16_bytes page) else []) @ bs) () s'"
    if "fills (?r n) (i3, e) bs () s'" for n bs
    using fills_text_members(3) [of page i2 e] z [of page] g(1) that
    by (intro fills_optional [where y = "(i3, e)"]) (auto simp: i3_def simp del: object_members.simps)
  have e3: "fills (?r (Suc n)) (i1, e) (member_bytes ''tcUrl'' (2 # len16_bytes tc) @ bs) () s'"
    if "fills (?r n) (i2, e) bs () s'" for n bs
    by (rule step [OF fills_text_members(2) _ _ that [unfolded i2_def]]) (use z [of tc] l(2) in \<open>simp_all add: i1_def\<close>)
  have e2: "fills (?r (Suc n)) (i1, e) (member_bytes ''type'' (2 # len16_bytes (ascii ''nonprivate'')) @ bs) () s'"
    if "fills (?r n) (i1, e) bs () s'" for n bs
    by (rule step [OF fills_text_members(6) [OF np] _ _ that]) simp_all
  have e1: "fills (?r (Suc n)) (i, e) (member_bytes ''app'' (2 # len16_bytes app) @ bs) () s'"
    if "fills (?r n) (i1, e) bs () s'" for n bs
    by (rule step [OF fills_text_members(1) _ _ that [unfolded i1_def]]) (use z [of app] l(1) in simp_all)
  from e1 [OF e2 [OF e3 [OF e4 [OF e5 [OF e6 [OF e7 [OF e8]]]]]]]
  have "fills (?r (Suc (Suc (Suc (Suc (Suc (Suc (Suc (Suc 4))))))))) (i, e) (connect_bytes app tc page swf flash a v c) () s'"
    unfolding connect_bytes_def by (simp del: object_members.simps)
  then show ?thesis by (rule fills_members_mono) (simp add: MAX_CONNECT_OBJECT_KEYS_def)
qed

lemma fills_withLocal: "fills m (x, l) bs () (x', l') \<Longrightarrow> fills (withLocal l m) x bs l' x'"
  unfolding fills_def withLocal_def by fastforce

lemma parses_object_begin: "bq.parses amf0_read_object_begin [3] ()"
  unfolding amf0_read_object_begin_def
  by (rule bq.parses_bind_Cons [OF parses_amf0_fixed(1)]) (simp add: bq.parses_ret)

definition named_info :: connect_info where
  "named_info = connect_info_default\<lparr>ci_name := ascii ''connect'' @ replicate 57 0, ci_transaction_id := F64_ONE\<rparr>"

lemma fills_connect_start:
  assumes "fills (object_members MAX_CONNECT_OBJECT_KEYS connect_member) (named_info, 0) bs () (i, e)"
  shows "fills read_connect_with_encoding j (string_bytes (ascii ''connect'') @ number_bytes F64_ONE @ [3] @ bs) e i"
proof -
  let ?n = "ascii ''connect''"
  let ?i1 = "connect_info_default\<lparr>ci_name := ?n @ replicate 57 0\<rparr>"
  have "fills (thenS (inB amf0_read_object_begin) (withLocal 0 (object_members MAX_CONNECT_OBJECT_KEYS connect_member)))
      named_info ([3] @ bs) e i"
    by (rule fills_then [OF fills_inB [OF parses_object_begin] fills_withLocal [OF assms]])
  then have "fills (thenS (inO (modS (\<lambda>i. i\<lparr>ci_transaction_id := F64_ONE\<rparr>))) (thenS (inB amf0_read_object_begin)
      (withLocal 0 (object_members MAX_CONNECT_OBJECT_KEYS connect_member)))) ?i1 ([] @ [3] @ bs) e i"
    by (intro fills_then [OF fills_inO]) (simp_all add: named_info_def)
  then have "fills connect_fields ?i1 (number_bytes F64_ONE @ [] @ [3] @ bs) e i"
    unfolding connect_fields_def by (rule fills_bind [OF fills_inB [OF parses_number]])
  then have f: "fills (thenS (inO (modS (\<lambda>i. i\<lparr>ci_name := ?n @ replicate 57 0\<rparr>))) connect_fields)
      connect_info_default ([] @ number_bytes F64_ONE @ [3] @ bs) e i"
    by (intro fills_then [OF fills_inO]) simp_all
  have c: "subslice (filled (replicate 64 0) ?n) 0 (length ?n) = Inr ?n" by (simp add: filled_def)
  have d: "copy_at (ci_name connect_info_default) 0 ?n = Inr (?n @ replicate 57 0)" by (simp add: connect_info_default_def)
  have "fills (bindS (getS (\<lambda>s. ci_name (snd s))) (\<lambda>dst. bindS (liftS (copy_at dst 0 ?n)) (\<lambda>dst.
      thenS (inO (modS (\<lambda>i. i\<lparr>ci_name := dst\<rparr>))) connect_fields))) connect_info_default (number_bytes F64_ONE @ [3] @ bs) e i"
    using f d unfolding fills_def by (simp add: bindS_lift)
  then have "fills connect_command connect_info_default (string_bytes ?n @ number_bytes F64_ONE @ [3] @ bs) e i"
    unfolding connect_command_def string_bytes_def
    by (intro fills_bind [OF fills_inB [OF parses_amf0_strings(1)]])
      (simp_all only: prod.case c bindS_lift, simp_all)
  then have "fills read_connect_with_encoding j ([] @ string_bytes ?n @ number_bytes F64_ONE @ [3] @ bs) e i"
    unfolding read_connect_with_encoding_def by (intro fills_then [OF fills_inO]) simp_all
  then show ?thesis by simp
qed

lemma received_connect:
  fixes c :: negotiated_caps and i :: connect_info
  defines "c1 \<equiv> nc_has_four_cc_list c \<and> 0 < fl_count (nc_four_cc_list c)"
    and "c3 \<equiv> nc_has_video_four_cc_info_map c \<and> 0 < vm_count (nc_video_four_cc_info_map c)"
  shows "cr.received c l m (i, e) = (i\<lparr>
      ci_four_cc_list := if c1 then l else ci_four_cc_list i,
      ci_has_four_cc_list := if c1 then True else ci_has_four_cc_list i,
      ci_caps_ex_mask := if nc_has_caps_ex c then nc_caps_ex_mask c else ci_caps_ex_mask i,
      ci_has_caps_ex := if nc_has_caps_ex c then True else ci_has_caps_ex i,
      ci_video_four_cc_info_map := if c3 then m else ci_video_four_cc_info_map i,
      ci_has_video_four_cc_info_map := if c3 then True else ci_has_video_four_cc_info_map i,
      ci_reconnect := if nc_has_reconnect c then nc_reconnect c else ci_reconnect i,
      ci_has_reconnect := if nc_has_reconnect c then True else ci_has_reconnect i\<rparr>, e)"
  unfolding cr.received_def Let_def c1_def [symmetric] c3_def [symmetric]
  by (cases c1; cases c3; cases "nc_has_caps_ex c"; cases "nc_has_reconnect c") simp_all

lemma fills_connect:
  assumes c: "caps_sound c" and t: "connect_texts app tc page swf flash"
  shows "\<exists>i. fills read_connect_with_encoding j
      (string_bytes (ascii ''connect'') @ number_bytes F64_ONE @ [3] @ connect_bytes app tc page swf flash a v c) 0 i \<and>
    connect_agree app tc page swf flash a v c i"
proof -
  let ?i = "with_texts app tc page swf flash a v named_info"
  have w: "info_wf named_info"
    by (simp add: info_wf_def caps_wf_def named_info_def connect_info_default_def)
  then have "list_wf (ci_four_cc_list (fst (?i, 0 :: f64)))" by (simp add: with_texts_def info_wf_def caps_wf_def)
  from cr.fills_caps [OF c this] obtain l m where
    f: "fills (object_members 4 connect_member) (?i, 0) (caps_bytes c @ [0, 0, 9]) () (cr.received c l m (?i, 0))"
    and l: "list_names l = list_names (nc_four_cc_list c)" and m: "map_names m = map_names (nc_video_four_cc_info_map c)"
    by (elim exE conjE) (rule that)
  obtain i where i: "cr.received c l m (?i, 0) = (i, 0)" by (simp add: received_connect)
  have blank: "text_is (ci_page_url named_info) []" "text_is (ci_swf_url named_info) []" "text_is (ci_flash_ver named_info) []"
    by (simp_all add: named_info_def connect_info_default_def text_is_blank)
  have name: "text_is (ci_name named_info) (ascii ''connect'')"
  proof -
    have "replicate 57 (0 :: u8) = 0 # replicate 56 0" by (simp flip: replicate_Suc)
    then show ?thesis
      using text_is_filled [of "ascii ''connect''" "replicate 64 0"] by (simp add: filled_def named_info_def)
  qed
  have flags: "\<not> ci_has_four_cc_list named_info" "\<not> ci_has_caps_ex named_info" "\<not> ci_has_video_four_cc_info_map named_info"
    "\<not> ci_has_reconnect named_info" "ci_transaction_id named_info = F64_ONE"
    by (simp_all add: named_info_def connect_info_default_def)
  have i': "i = fst (cr.received c l m (?i, 0))" by (simp add: i)
  have z: "0 \<notin> set app" "0 \<notin> set tc" "0 \<notin> set page" "0 \<notin> set swf" "0 \<notin> set flash"
    using t by (simp_all add: connect_texts_def)
  have "caps_agree c \<lparr>nc_four_cc_list = ci_four_cc_list i, nc_caps_ex = ci_caps_ex i,
       nc_video_four_cc_info_map = ci_video_four_cc_info_map i, nc_reconnect = ci_reconnect i,
       nc_caps_ex_mask = ci_caps_ex_mask i, nc_has_four_cc_list = ci_has_four_cc_list i, nc_has_caps_ex = ci_has_caps_ex i,
       nc_has_video_four_cc_info_map = ci_has_video_four_cc_info_map i, nc_has_reconnect = ci_has_reconnect i,
       nc_multitrack_enabled = (ci_caps_ex_mask i AND CAPS_EX_MASK_MULTITRACK \<noteq> 0)\<rparr>"
    using c l m flags list_names_Nil [of "nc_four_cc_list c"] map_names_Nil [of "nc_video_four_cc_info_map c"]
    by (auto simp: i' received_connect caps_agree_def caps_sound_def with_texts_def)
  then have "connect_agree app tc page swf flash a v c i"
    unfolding connect_agree_def
    using blank name flags text_is_filled [OF z(1)] text_is_filled [OF z(2)] text_is_filled [OF z(3)]
      text_is_filled [OF z(4)] text_is_filled [OF z(5)]
    by (simp add: i' received_connect with_texts_def)
  with fills_connect_start [OF fills_connect_texts [OF t w f [unfolded i]]] show ?thesis by blast
qed

subsection \<open>The other commands\<close>

definition reads_into :: "(buffer, unit) op \<Rightarrow> (buffer \<times> 'o, 'a) op \<Rightarrow> 'o \<Rightarrow> 'a \<Rightarrow> 'o \<Rightarrow> buffer \<Rightarrow> bool" where
  "reads_into w r x v x' b \<longleftrightarrow> (\<exists>b1 b2. w b = (Inr (), b1) \<and> r (b1, x) = (Inr v, (b2, x')) \<and> contents b2 = [])"

lemma reads_intoI:
  assumes "bq.emits w () bs" "fills r x bs v x'" "buf_inv b" "contents b = []" "buf_room b (length bs)"
  shows "reads_into w r x v x' b"
proof -
  obtain b1 where b1: "w b = (Inr (), b1)" "buf_inv b1" "contents b1 = bs"
    by (rule bq.emitsE [OF assms(1,3,5)]) (use assms(4) in simp)
  then have "contents b1 = bs @ []" by simp
  with assms(2) b1(2) obtain b2 where "r (b1, x) = (Inr v, (b2, x'))" "contents b2 = []" by (rule fillsE)
  with b1(1) show ?thesis by (auto simp: reads_into_def)
qed

lemma parses_create_stream: "bq.parses read_create_stream (head_bytes ''createStream'' t) t"
proof -
  have "fills (thenS (inO (modS (\<lambda>_. Some t))) (inB amf0_skip_value)) None ([] @ [5]) () (Some t)"
    by (rule fills_then [OF fills_inO fills_inB [OF parses_skip_scalars(1)]]) simp
  then have "fills (bindS (inB read_number_value) (\<lambda>txn. thenS (inO (modS (\<lambda>_. Some txn))) (inB amf0_skip_value)))
      None (number_bytes t @ [] @ [5]) () (Some t)"
    by (rule fills_bind [OF fills_inB [OF parses_number]])
  then have "fills read_create_stream_partial None (head_bytes ''createStream'' t) () (Some t)"
    unfolding read_create_stream_partial_def head_bytes_def string_bytes_def
    by (intro fills_then [OF fills_inB [OF parses_amf0_strings(1)]]) simp_all
  then show ?thesis unfolding bq.parses_def fills_def read_create_stream_def by fastforce
qed

lemma parses_bool: "bq.parses read_bool_value [1, if c then 1 else 0] c"
  using parses_marker [where ty = A0Boolean and f = "\<lambda>ty. if ty = A0Boolean then amf0_read_boolean
      else if ty = A0Number then bindS amf0_read_number (\<lambda>v. retS (\<not> f64_is_zero v)) else failS (Err EAmf)"] parses_amf0_boolean
  by (simp add: read_bool_value_def)

lemma parses_headed: "length name < 64 \<Longrightarrow> bq.parses r bs x \<Longrightarrow> bq.parses (thenS read_head r) (head_bytes name t @ bs) x"
  by (rule bq.parses_then [OF parses_head])

lemma fills_play:
  assumes "length s \<le> 0xFFFF" "length s < length out" "0 \<notin> set s" "length name < 64"
  shows "fills (thenS (inB read_head) read_string_checked) out (head_bytes name t @ string_bytes s) () (filled out s)"
  unfolding string_bytes_def
  by (rule fills_then [OF fills_inB [OF parses_head] fills_string_checked]) (use assms in simp_all)

lemma publish_back:
  assumes s: "length s \<le> 0xFFFF" "length s < length n0" "0 \<notin> set s"
    and ty: "length ty \<le> 0xFFFF" "length ty < length t0" "0 \<notin> set ty"
    and b: "buf_inv b" "contents b = head_bytes ''publish'' 0 @ string_bytes s @ (if ty = [] then [] else string_bytes ty)"
  shows "\<exists>b'. read_publish (b, (n0, t0)) = (Inr (), (b', (filled n0 s, if ty = [] then t0 else filled t0 ty))) \<and> contents b' = []"
proof -
  have h: "fills (inB read_head) (n0, t0) (head_bytes ''publish'' 0) 0 (n0, t0)" by (rule fills_inB [OF parses_head]) simp
  obtain b1 where b1: "inB read_head (b, (n0, t0)) = (Inr 0, (b1, (n0, t0)))" "buf_inv b1"
      "contents b1 = string_bytes s @ (if ty = [] then [] else string_bytes ty)"
    by (rule fillsE [OF h b])
  have "fills (inF fst (\<lambda>n s. (n, snd s)) read_string_checked) (n0, t0) (string_bytes s) () (filled n0 s, t0)"
    unfolding string_bytes_def by (rule fills_inF_to [OF fills_string_checked]) (use s in simp_all)
  then obtain b2 where b2: "inF fst (\<lambda>n s. (n, snd s)) read_string_checked (b1, (n0, t0)) = (Inr (), (b2, (filled n0 s, t0)))"
      "buf_inv b2" "contents b2 = (if ty = [] then [] else string_bytes ty)" by (rule fillsE [OF _ b1(2,3)])
  have ga: "inB (getS buf_available) (b2, x) = (Inr (buf_available b2), (b2, x))" for x :: "bytes \<times> bytes" by simp
  have start: "read_publish (b, (n0, t0)) = (if 0 < buf_available b2 then orElseS (inF snd (\<lambda>t s. (fst s, t)) read_string_checked) (retS ())
      else retS ()) (b2, (filled n0 s, t0))"
    by (simp add: read_publish_def thenS_def bindS_def b1(1) b2(1) ga del: part_apply)
  show ?thesis
  proof (cases "ty = []")
    case True
    with b2 start show ?thesis by (simp add: bq.avail_contents)
  next
    case False
    have "fills (inF snd (\<lambda>t s. (fst s, t)) read_string_checked) (filled n0 s, t0) (string_bytes ty) () (filled n0 s, filled t0 ty)"
      unfolding string_bytes_def by (rule fills_inF_to [OF fills_string_checked]) (use ty in simp_all)
    moreover have "contents b2 = string_bytes ty @ []" using False b2(3) by simp
    ultimately obtain b3 where "inF snd (\<lambda>t s. (fst s, t)) read_string_checked (b2, (filled n0 s, t0)) =
        (Inr (), (b3, (filled n0 s, filled t0 ty)))" "contents b3 = []" by (rule fillsE [OF _ b2(2)])
    moreover have "0 < buf_available b2" using False b2 by (simp add: bq.avail_contents string_bytes_def)
    ultimately show ?thesis using False start by (simp add: orElseS_def)
  qed
qed

definition status_bytes :: "bytes \<Rightarrow> bytes \<Rightarrow> bytes \<Rightarrow> bytes" where
  "status_bytes level code description = member_bytes ''level'' (2 # len16_bytes level) @
     member_bytes ''code'' (2 # len16_bytes code) @ member_bytes ''description'' (2 # len16_bytes description)"

lemma emits_status:
  assumes "length level \<le> 0xFFFF" "length code \<le> 0xFFFF" "length description \<le> 0xFFFF"
  shows "bq.emits (build_status level code description) () ([3] @ status_bytes level code description)"
  unfolding build_status_def status_bytes_def
  by (rule bq.emits_then [OF emits_amf0_scalars(5) emits_object_member [unfolded string_bytes_def, OF _ _
        emits_object_member [unfolded string_bytes_def, OF _ _ emits_member [unfolded string_bytes_def]]]])
    (use assms in simp_all)

lemma subslice_filled: "length v < length arr \<Longrightarrow> subslice (filled arr v) 0 (length v) = Inr v"
  by (simp add: filled_def)

lemma fills_read_string:
  assumes "length v \<le> 0xFFFF" "length v < length arr" "fills (f (length v, filled arr v)) x [] () x'"
  shows "fills (bindS (inB (amf0_read_string arr)) f) x (2 # len16_bytes v) () x'"
  using fills_bind [where f = f, OF fills_inB [OF parses_amf0_strings(1) [OF assms(1,2)]] assms(3)] by simp

lemma fills_get_now: "fills (f (g x)) x bs w x' \<Longrightarrow> fills (bindS (getS (\<lambda>s. g (snd s))) f) x bs w x'"
  by (simp add: fills_def)

lemma fills_onstatus_members:
  assumes v: "length v \<le> 0xFFFF"
  shows "length v < length la \<Longrightarrow> fills onstatus_member ((la, ln), cc) (member_bytes ''level'' (2 # len16_bytes v)) ()
      ((filled la v, length v), cc)"
    "length v < length ca \<Longrightarrow> fills onstatus_member (ll, (ca, cn)) (member_bytes ''code'' (2 # len16_bytes v)) ()
      (ll, (filled ca v, length v))"
    "fills onstatus_member x (member_bytes ''description'' (2 # len16_bytes v)) () x"
  unfolding onstatus_member_def
  by (rule fills_keyed; auto simp: utf8_or_empty_def intro!: fills_get_now fills_read_string [OF v] fills_inO
      fills_inB [OF parses_skip_scalars(2) [OF v, unfolded string_bytes_def]])+

lemma fills_reconnect_members:
  assumes v: "length v \<le> 0xFFFF"
  shows "length v < length ca \<Longrightarrow> fills reconnect_member ((ca, cn), u) (member_bytes ''code'' (2 # len16_bytes v)) ()
      ((filled ca v, length v), u)"
    "utf8_valid v \<Longrightarrow> fills reconnect_member (c, (d, u')) (member_bytes ''description'' (2 # len16_bytes v)) () (c, (Some v, u'))"
    "utf8_valid v \<Longrightarrow> fills reconnect_member (c, (d, u')) (member_bytes ''tcUrl'' (2 # len16_bytes v)) () (c, (d, Some v))"
    "fills reconnect_member x (member_bytes ''level'' (2 # len16_bytes v)) () x"
proof -
  have alloc: "fills (bindS (inB amf0_read_string_alloc) f) x (2 # len16_bytes v) () x'" if "utf8_valid v" "fills (f v) x [] () x'"
    for f and x x' :: "(bytes \<times> nat) \<times> bytes option \<times> bytes option"
    using fills_bind [where f = f, OF fills_inB [OF parses_amf0_strings(2) [OF v that(1)]] that(2)] by simp
  note go = fills_get_now fills_read_string [OF v] alloc fills_inO fills_inB [OF parses_skip_scalars(2) [OF v, unfolded string_bytes_def]]
  show "length v < length ca \<Longrightarrow> fills reconnect_member ((ca, cn), u) (member_bytes ''code'' (2 # len16_bytes v)) ()
      ((filled ca v, length v), u)"
    "utf8_valid v \<Longrightarrow> fills reconnect_member (c, (d, u')) (member_bytes ''description'' (2 # len16_bytes v)) () (c, (Some v, u'))"
    "utf8_valid v \<Longrightarrow> fills reconnect_member (c, (d, u')) (member_bytes ''tcUrl'' (2 # len16_bytes v)) () (c, (d, Some v))"
    "fills reconnect_member x (member_bytes ''level'' (2 # len16_bytes v)) () x"
    unfolding reconnect_member_def
    by (rule fills_keyed; auto simp: utf8_or_empty_def intro!: go)+
qed

text \<open>An operation after which a structure of the reader's own is judged.\<close>

lemma parses_after:
  assumes "fills m x bs () x'" "\<And>b. g (Inr ()) b x' = (Inr v, b)"
  shows "bq.parses (\<lambda>b. case m (b, x) of (r, (b', x')) \<Rightarrow> g r b' x') bs v"
  unfolding bq.parses_def
proof (intro allI impI)
  fix b rest assume "buf_inv b" "contents b = bs @ rest"
  with assms(1) obtain b' where "m (b, x) = (Inr (), (b', x'))" "buf_inv b'" "contents b' = rest" by (rule fillsE)
  with assms(2) show "\<exists>s'. (case m (b, x) of (r, (b', x')) \<Rightarrow> g r b' x') = (Inr v, s') \<and> buf_inv s' \<and> contents s' = rest"
    by simp
qed

lemma fills_onstatus_loop:
  assumes "length level < 32" "length code < 128" "length description \<le> 0xFFFF"
  shows "fills (object_members MAX_OBJECT_KEYS onstatus_member) ((replicate 32 0, 0), (replicate 128 0, 0))
    (status_bytes level code description @ [0, 0, 9]) ()
    ((filled (replicate 32 0) level, length level), (filled (replicate 128 0) code, length code))"
proof -
  note step = fills_member [where body = onstatus_member]
  have "fills (object_members (Suc (Suc (Suc 0))) onstatus_member) ((replicate 32 0, 0), (replicate 128 0, 0))
    (member_bytes ''level'' (2 # len16_bytes level) @ member_bytes ''code'' (2 # len16_bytes code) @
     member_bytes ''description'' (2 # len16_bytes description) @ [0, 0, 9]) ()
    ((filled (replicate 32 0) level, length level), (filled (replicate 128 0) code, length code))"
    by (rule step [OF fills_onstatus_members(1) _ _ step [OF fills_onstatus_members(2) _ _
          step [OF fills_onstatus_members(3) _ _ fills_members_end]]]) (use assms in simp_all)
  then show ?thesis
    unfolding status_bytes_def append_assoc by (rule fills_members_mono) (simp add: MAX_OBJECT_KEYS_def)
qed

lemma parses_onstatus:
  assumes "length code < 128" "length description \<le> 0xFFFF" "utf8_valid code"
  shows "bq.parses (read_onstatus e) (head_bytes ''onStatus'' 0 @ [3] @ status_bytes (ascii ''status'') code description @ [0, 0, 9])
    (code = e)"
  unfolding read_onstatus_def
proof (rule bq.parses_then [OF parses_head bq.parses_then [OF parses_object_begin parses_after [OF fills_onstatus_loop]]], goal_cases)
  case (5 b)
  have "subslice (filled (replicate 32 0) (ascii ''status'')) 0 (length (ascii ''status'')) = Inr (ascii ''status'')"
    "subslice (filled (replicate 128 0) code) 0 (length code) = Inr code"
    by (rule subslice_filled; use assms in simp)+
  moreover have "utf8_or_empty (ascii ''status'') = ascii ''status''" "utf8_or_empty code = code"
    using assms by (simp_all add: utf8_or_empty_def)
  ultimately show ?case by (simp only: prod.case bindR_simps if_False simp_thms)
qed (use assms in simp_all)

text \<open>A status of another level is an authorization failure, whatever its code.\<close>

lemma onstatus_error:
  assumes "length level < 32" "length code < 128" "length description \<le> 0xFFFF" "level \<noteq> ascii ''status''"
    and b: "buf_inv b" "contents b = head_bytes ''onStatus'' 0 @ [3] @ status_bytes level code description @ [0, 0, 9]"
  shows "\<exists>b'. read_onstatus e b = (err EAuth, b')"
proof -
  obtain b1 where b1: "read_head b = (Inr 0, b1)" "buf_inv b1" "contents b1 = [3] @ status_bytes level code description @ [0, 0, 9]"
    by (rule bq.parsesE [OF parses_head b]) simp
  obtain b2 where b2: "amf0_read_object_begin b1 = (Inr (), b2)" "buf_inv b2"
      "contents b2 = status_bytes level code description @ [0, 0, 9]"
    by (rule bq.parsesE [OF parses_object_begin b1(2,3)])
  then have "contents b2 = (status_bytes level code description @ [0, 0, 9]) @ []" by simp
  from fillsE [OF fills_onstatus_loop [OF assms(1-3)] b2(2) this]
  obtain b3 where "object_members MAX_OBJECT_KEYS onstatus_member (b2, ((replicate 32 0, 0), (replicate 128 0, 0))) =
    (Inr (), (b3, ((filled (replicate 32 0) level, length level), (filled (replicate 128 0) code, length code))))" by blast
  with b1 b2 assms(1,4) show ?thesis
    by (auto simp: read_onstatus_def thenS_def bindS_def subslice_filled utf8_or_empty_def)
qed

lemma fills_reconnect_loop:
  assumes "length d \<le> 0xFFFF" "utf8_valid d" "case u of None \<Rightarrow> True | Some w \<Rightarrow> length w \<le> 0xFFFF \<and> utf8_valid w"
  shows "fills (object_members MAX_OBJECT_KEYS reconnect_member) ((replicate 128 0, 0), (None, None))
    (status_bytes (ascii ''status'') RECONNECT_REQUEST_CODE d @
      (case u of None \<Rightarrow> [] | Some w \<Rightarrow> member_bytes ''tcUrl'' (2 # len16_bytes w)) @ [0, 0, 9]) ()
    ((filled (replicate 128 0) RECONNECT_REQUEST_CODE, length RECONNECT_REQUEST_CODE), (Some d, u))"
proof -
  note step = fills_member [where body = reconnect_member]
  let ?c = "(filled (replicate 128 0) RECONNECT_REQUEST_CODE, length RECONNECT_REQUEST_CODE)"
  have code: "length RECONNECT_REQUEST_CODE < 128" by (simp add: RECONNECT_REQUEST_CODE_def)
  have url: "fills (object_members (Suc 0) reconnect_member) (?c, (Some d, None))
      ((case u of None \<Rightarrow> [] | Some w \<Rightarrow> member_bytes ''tcUrl'' (2 # len16_bytes w)) @ [0, 0, 9]) () (?c, (Some d, u))"
    by (cases u) (use assms in \<open>auto simp del: object_members.simps intro!: fills_members_end step [OF fills_reconnect_members(3)]\<close>)
  have "fills (object_members (Suc (Suc (Suc (Suc 0)))) reconnect_member) ((replicate 128 0, 0), (None, None))
    (member_bytes ''level'' (2 # len16_bytes (ascii ''status'')) @ member_bytes ''code'' (2 # len16_bytes RECONNECT_REQUEST_CODE) @
     member_bytes ''description'' (2 # len16_bytes d) @
     (case u of None \<Rightarrow> [] | Some w \<Rightarrow> member_bytes ''tcUrl'' (2 # len16_bytes w)) @ [0, 0, 9]) () (?c, (Some d, u))"
    by (rule step [OF fills_reconnect_members(4) _ _ step [OF fills_reconnect_members(1) _ _
          step [OF fills_reconnect_members(2) _ _ url]]]) (use assms code in simp_all)
  then show ?thesis
    unfolding status_bytes_def append_assoc by (rule fills_members_mono) (simp add: MAX_OBJECT_KEYS_def)
qed

lemma parses_reconnect_request:
  assumes "length d \<le> 0xFFFF" "utf8_valid d" "case u of None \<Rightarrow> True | Some w \<Rightarrow> length w \<le> 0xFFFF \<and> utf8_valid w"
  shows "bq.parses read_reconnect_request (head_bytes ''onStatus'' 0 @ [3] @
      status_bytes (ascii ''status'') RECONNECT_REQUEST_CODE d @
      (case u of None \<Rightarrow> [] | Some w \<Rightarrow> member_bytes ''tcUrl'' (2 # len16_bytes w)) @ [0, 0, 9])
    (Some \<lparr>rr_tc_url = not_empty u, rr_description = not_empty (Some d)\<rparr>)"
proof -
  have code: "subslice (filled (replicate 128 0) RECONNECT_REQUEST_CODE) 0 (length RECONNECT_REQUEST_CODE) =
      Inr RECONNECT_REQUEST_CODE"
    by (rule subslice_filled) (simp add: RECONNECT_REQUEST_CODE_def)
  have n: "subslice (filled (replicate 64 0) (ascii ''onStatus'')) 0 (length (ascii ''onStatus'')) = Inr (ascii ''onStatus'')"
    by (rule subslice_filled) simp
  let ?bs = "status_bytes (ascii ''status'') RECONNECT_REQUEST_CODE d @
      (case u of None \<Rightarrow> [] | Some w \<Rightarrow> member_bytes ''tcUrl'' (2 # len16_bytes w)) @ [0, 0, 9]"
  have "bq.parses (\<lambda>b. case object_members MAX_OBJECT_KEYS reconnect_member (b, ((replicate 128 0, 0), (None, None))) of
         (r, (b', ((code, code_len), (description, tc_url)))) \<Rightarrow>
           (bindR r (\<lambda>_. bindR (subslice code 0 code_len) (\<lambda>c.
              Inr (if c \<noteq> RECONNECT_REQUEST_CODE then None
                   else Some \<lparr>rr_tc_url = not_empty tc_url, rr_description = not_empty description\<rparr>))), b')) ?bs
      (Some \<lparr>rr_tc_url = not_empty u, rr_description = not_empty (Some d)\<rparr>)"
    by (rule parses_after [OF fills_reconnect_loop [OF assms]]) (simp add: code)
  from bq.parses_then [OF parses_number bq.parses_then [OF parses_skip_scalars(1) bq.parses_then [OF parses_object_begin this]], of 0]
  show ?thesis
    unfolding read_reconnect_request_def head_bytes_def string_bytes_def append_assoc
    by (intro bq.parses_bind [OF parses_amf0_strings(1)]) (simp_all only: prod.case n bindS_lift if_False simp_thms, simp_all)
qed

lemma negotiated_sound:
  assumes "caps_wf ci" "negotiate_caps ci = Inr c"
  shows "caps_sound c"
proof -
  obtain l m v where wf: "list_wf l" "map_wf m" and l: "list_names l = filter four_cc_supported (list_names (ci_four_cc_list ci))"
    and m: "map_names m = forwardable (map_names (ci_video_four_cc_info_map ci))"
    and c: "nc_four_cc_list c = (if ci_has_four_cc_list ci then l else four_cc_list_default)"
      "nc_video_four_cc_info_map c = (if ci_has_video_four_cc_info_map ci then m else video_four_cc_info_map_default)"
    using negotiate_result [OF assms(1)] assms(2) by auto
  have "\<forall>n \<in> set (list_names l). four_cc_supported n" "\<forall>(n, v) \<in> set (map_names m). four_cc_supported n"
    unfolding l m by (auto simp: forwardable_def)
  with wf show ?thesis by (simp add: caps_sound_def c)
qed

subsection \<open>Sizes\<close>

lemma command_lengths:
  "length (string_bytes s) = 3 + length s" "length (number_bytes v) = 9"
  "length (head_bytes name t) = 13 + length name" "length (member_bytes key bs) = 2 + length key + length bs"
  "length (status_bytes level code d) = 35 + length level + length code + length d"
  by (simp_all add: string_bytes_def number_bytes_def head_bytes_def member_bytes_def status_bytes_def len16_bytes_def)

lemma publish_roundtrip:
  assumes s: "length s \<le> 0xFFFF" "length s < length out" "0 \<notin> set s"
    and ty: "length ty \<le> 0xFFFF" "length ty < length out2" "0 \<notin> set ty"
    and b: "buf_inv b" "contents b = []" "buf_room b 400000"
  shows "reads_into (build_publish s ty) read_publish (out, out2) () (filled out s, if ty = [] then out2 else filled out2 ty) b"
proof -
  let ?bs = "head_bytes ''publish'' 0 @ string_bytes s @ (if ty = [] then [] else string_bytes ty)"
  have "bq.emits (if ty = [] then retS () else amf0_write_string ty) () (if ty = [] then [] else string_bytes ty)"
    using emits_string [OF ty(1)] by auto
  then have "bq.emits (build_publish s ty) () ?bs"
    unfolding build_publish_def by (intro bq.emits_then [OF emits_head] bq.emits_then [OF emits_string [OF s(1)]]) simp_all
  moreover have "buf_room b (length ?bs)"
    by (rule bq.room_mono [OF b(3)]) (use s ty in \<open>simp add: command_lengths\<close>)
  ultimately obtain b1 where b1: "build_publish s ty b = (Inr (), b1)" "buf_inv b1" "contents b1 = ?bs"
    using b by (auto elim!: bq.emitsE)
  obtain b2 where "read_publish (b1, (out, out2)) = (Inr (), (b2, (filled out s, if ty = [] then out2 else filled out2 ty)))"
      "contents b2 = []"
    using publish_back [OF s ty b1(2,3)] by (elim exE conjE) (rule that)
  with b1(1) show ?thesis by (auto simp: reads_into_def)
qed

lemma onstatus_rejected:
  assumes l: "length level < 32" "level \<noteq> ascii ''status''" "length code < 128" "length d \<le> 0xFFFF"
    and b: "buf_inv b" "contents b = []" "buf_room b 400000"
    and e: "bq.emits (build_onstatus level code d) () (head_bytes ''onStatus'' 0 @ [3] @ status_bytes level code d @ [0, 0, 9])"
  shows "\<exists>b1 b2. build_onstatus level code d b = (Inr (), b1) \<and> read_onstatus c b1 = (err EAuth, b2)"
proof -
  have "buf_room b (length (head_bytes ''onStatus'' 0 @ [3] @ status_bytes level code d @ [0, 0, 9]))"
    by (rule bq.room_mono [OF b(3)]) (use l in \<open>simp add: command_lengths\<close>)
  with e b obtain b1 where "build_onstatus level code d b = (Inr (), b1)" "buf_inv b1"
      "contents b1 = head_bytes ''onStatus'' 0 @ [3] @ status_bytes level code d @ [0, 0, 9]"
    by (auto elim!: bq.emitsE)
  with onstatus_error [OF l(1,3,4,2) this(2,3)] show ?thesis by blast
qed

lemma emits_reconnect_request:
  assumes "length d \<le> 0xFFFF" "case u of None \<Rightarrow> True | Some w \<Rightarrow> length w \<le> 0xFFFF \<and> utf8_valid w"
  shows "bq.emits (build_reconnect_request u (Some d)) () (head_bytes ''onStatus'' 0 @ [3] @
      status_bytes (ascii ''status'') RECONNECT_REQUEST_CODE d @
      (case u of None \<Rightarrow> [] | Some w \<Rightarrow> member_bytes ''tcUrl'' (2 # len16_bytes w)) @ [0, 0, 9])"
proof -
  have "bq.emits (case u of Some url \<Rightarrow> write_member ''tcUrl'' url | None \<Rightarrow> retS ()) ()
      (case u of None \<Rightarrow> [] | Some w \<Rightarrow> member_bytes ''tcUrl'' (2 # len16_bytes w))"
    using assms(2) emits_member [of "''tcUrl''"] by (auto simp: string_bytes_def simp del: retS_apply split: option.splits)
  from bq.emits_then [OF emits_head bq.emits_then [OF emits_status [of _ _ d] bq.emits_then [OF this emits_amf0_scalars(6)]],
      of "''onStatus''" "ascii ''status''" RECONNECT_REQUEST_CODE 0] assms(1)
  show ?thesis by (simp add: build_reconnect_request_def RECONNECT_REQUEST_CODE_def)
qed

section \<open>Properties\<close>

text \<open>C15: A routing key that is accepted is the string on the wire, unabridged. Reading a checked string (application,
  stream name, publish type) into an array succeeds exactly when the buffer starts with an AMF0 string that
  has no NUL byte and fits with its terminator; then decoding the array gives back that string (or the UTF-8
  error). In every other case an error is returned and nothing panics, so no two distinct names on the wire can
  end up as the same route.\<close>
theorem routing_key_lossless:
  assumes b: "buf_inv b" and out: "out \<noteq> []"
  shows "(\<exists>s b' out'. read_string_checked (b, out) = (Inr (), (b', out')) \<and>
        contents b = amf0_marker A0String # be16 (of_nat (length s)) @ s @ contents b' \<and> length s \<le> 0xFFFF \<and>
        0 \<notin> set s \<and> length s < length out \<and>
        decode_route_amf_string out' = (if utf8_valid s then Inr s else err EAmf)) \<or>
    (\<exists>e b' out'. read_string_checked (b, out) = (err e, (b', out')) \<and>
        (\<forall>s rest. contents b = amf0_marker A0String # be16 (of_nat (length s)) @ s @ rest \<and> length s \<le> 0xFFFF \<longrightarrow>
          0 \<in> set s \<or> length out \<le> length s))"
  using string_checked_exact [OF b out]
proof (elim disjE exE conjE, goal_cases)
  case (1 s b')
  have "decode_route_amf_string (filled out s) = (if utf8_valid s then Inr s else err EAmf)"
    using text_is_filled [OF 1(4), of out] by (simp add: text_is_def)
  with 1 show ?case by (intro disjI1 exI [of _ s] exI [of _ b'] exI [of _ "filled out s"]) (simp add: len16_bytes_def)
next
  case (2 e b' out')
  then show ?case by (intro disjI2 exI [of _ e] exI [of _ b'] exI [of _ out']) (simp add: len16_bytes_def)
qed

theorem routing_key_lossless_witness:
  "(\<exists>s b' out'. read_string_checked (buf_from_slice [2, 0, 1, 65, 9], replicate 8 0) = (Inr (), (b', out')) \<and>
        [2, 0, 1, 65, 9] = amf0_marker A0String # be16 (of_nat (length s)) @ s @ contents b' \<and> length s \<le> 0xFFFF \<and>
        0 \<notin> set s \<and> length s < length (replicate 8 (0 :: u8)) \<and>
        decode_route_amf_string out' = (if utf8_valid s then Inr s else err EAmf)) \<or>
    (\<exists>e b' out'. read_string_checked (buf_from_slice [2, 0, 1, 65, 9], replicate 8 0) = (err e, (b', out')) \<and>
        (\<forall>s rest. [2, 0, 1, 65, 9] = amf0_marker A0String # be16 (of_nat (length s)) @ s @ rest \<and> length s \<le> 0xFFFF \<longrightarrow>
          0 \<in> set s \<or> length (replicate 8 (0 :: u8)) \<le> length s))"
  using routing_key_lossless [of "buf_from_slice [2, 0, 1, 65, 9]" "replicate 8 0"] by simp

text \<open>C14: Whatever bytes a client sends as its connect command, reading it neither panics nor loses its place: the
  read cursor only moves forward within the data, malformed capability values included, and the connect
  information it leaves, on success and on every error, is one that capability negotiation accepts without
  a panic.\<close>
theorem connect_parse_total:
  assumes "buf_inv b"
  shows "\<exists>r b' i' out. read_connect_with_encoding (b, i) = (r, (b', i')) \<and> r \<noteq> panic \<and> buf_inv b' \<and>
    contents b' = drop (buf_rpos b' - buf_rpos b) (contents b) \<and> buf_rpos b \<le> buf_rpos b' \<and>
    buf_data b' = buf_data b \<and> buf_size b' = buf_size b \<and> negotiate_caps i' = Inr out"
proof -
  obtain r b' i' where r: "read_connect_with_encoding (b, i) = (r, (b', i'))" "r \<noteq> panic" "ahead b b'" "info_wf i'"
    using read_connect_safe [OF assms, of i] by (elim exE conjE) (rule that)
  then obtain out where "negotiate_caps i' = Inr out"
    using negotiate_result [of i'] unfolding info_wf_def by blast
  moreover have "buf_data b' = buf_data b" "buf_size b' = buf_size b" "buf_rpos b \<le> buf_rpos b'"
    using r(3) unfolding ahead_def by (metis buffer.select_convs buffer.surjective buffer.update_convs(3))+
  ultimately show ?thesis using r ahead_contents [OF assms r(3)] ahead_inv [OF assms r(3)] by blast
qed

theorem connect_parse_total_witness:
  "\<exists>r b' i' out. read_connect_with_encoding (buf_from_slice [2, 0, 1, 65, 0, 7], connect_info_default) = (r, (b', i')) \<and>
    r \<noteq> panic \<and> negotiate_caps i' = Inr out"
  using connect_parse_total [of "buf_from_slice [2, 0, 1, 65, 0, 7]" connect_info_default] by auto


lemma empty_offer: "negotiate_caps connect_info_default = Inr (negotiated_caps_default\<lparr>nc_multitrack_enabled := True\<rparr>)"
  by (simp add: negotiate_caps_def connect_info_default_def Let_def)




end
