(* ===== verification/Script_Meta.thy ===== *)
theory Script_Meta
  imports Connect_Caps Init_Cache
begin

text \<open>
  The AMF0 metadata a publisher sends beside its media: the test for an \<open>onMetaData\<close> message and
  the colour information of a video metadata packet (\<open>src/src/media/init_cache.rs\<close>), the values a
  connection takes from \<open>onMetaData\<close> (\<open>src/src/session/conn.rs\<close>: \<open>handle_data_message\<close>,
  \<open>parse_on_metadata_object\<close>, \<open>apply_metadata_key\<close>) and the FLV script tag
  (\<open>src/src/flv/script_tag.rs\<close>).

  Metadata is optional information about a stream: most of these readers turn every error into "nothing
  found" and go on. The lemmas show that no payload makes one of them panic, and what is taken
  from a well-formed \<open>onMetaData\<close> object.
\<close>

section \<open>Errors as absence\<close>

text \<open>\<open>m.ok()\<close>\<close>

definition okS :: "('s, 'a) op \<Rightarrow> ('s, 'a option) op" where
  "okS m = (\<lambda>s. case m s of
       (Inr x, s') \<Rightarrow> (Inr (Some x), s')
     | (Inl (Err _), s') \<Rightarrow> (Inr None, s')
     | (Inl Panic, s') \<Rightarrow> (panic, s'))"

text \<open>A function all of whose error paths are \<open>return Ok(())\<close>.\<close>

definition ignoreS :: "('s, 'a) op \<Rightarrow> ('s, unit) op" where
  "ignoreS m = voidS (okS m)"

text \<open>A local buffer over a slice, dropped at the end.\<close>

definition onSlice :: "bytes \<Rightarrow> (buffer \<times> 'o, 'a) op \<Rightarrow> ('o, 'a) op" where
  "onSlice data m = (\<lambda>x. case m (buf_from_slice data, x) of (r, (_, x')) \<Rightarrow> (r, x'))"

section \<open>The name of a data message\<close>

definition read_data_event_name :: "bool \<Rightarrow> bytes \<Rightarrow> (buffer, (nat \<times> bytes) option) op" where
  "read_data_event_name is_string out =
     okS (if is_string then amf0_read_string out else amf0_read_long_string out)"

definition peek_first :: "(buffer, u8 option) op" where
  "peek_first = bindS (bindS (getS buf_peek) liftS) (\<lambda>d. retS (get_opt d 0))"

text \<open>The next value if it is a string that fits 64 bytes, empty if it is not UTF-8.\<close>

definition event_name :: "(buffer, bytes option) op" where
  "event_name = bindS peek_first (\<lambda>b. case b of
       None \<Rightarrow> retS None
     | Some first_byte \<Rightarrow>
         if first_byte \<noteq> amf0_marker A0String \<and> first_byte \<noteq> amf0_marker A0LongString then retS None
         else bindS (read_data_event_name (first_byte = amf0_marker A0String) (replicate 64 0)) (\<lambda>r. case r of
             None \<Rightarrow> retS None
           | Some (name_len, name) \<Rightarrow>
               bindS (liftS (subslice name 0 name_len)) (\<lambda>s. retS (Some (utf8_or_empty s)))))"

definition reads_on_metadata :: "(buffer, bool) op" where
  "reads_on_metadata = bindS event_name (\<lambda>n. case n of
       None \<Rightarrow> retS False
     | Some name_str \<Rightarrow>
         if name_str = ascii ''@setDataFrame''
         then bindS event_name (\<lambda>inner. retS (inner = Some (ascii ''onMetaData'')))
         else retS (name_str = ascii ''onMetaData''))"

definition is_on_metadata_payload :: "bytes \<Rightarrow> bool result" where
  "is_on_metadata_payload payload = fst (reads_on_metadata (buf_from_slice payload))"

section \<open>Colour information\<close>

text \<open>\<open>!v.is_finite() || !(0.0..=u16::MAX as f64).contains(&v)\<close>, and the cast.\<close>

definition f64_outside_u16 :: "f64 \<Rightarrow> bool" where
  "f64_outside_u16 w \<longleftrightarrow> \<not> f64_is_finite w \<or> f64_lt_zero w \<or>
     (\<not> f64_neg w \<and> (2 ^ 16 \<le> f64_trunc w \<or> f64_trunc w = 2 ^ 16 - 1 \<and> \<not> f64_is_whole w))"

definition f64_to_u16 :: "f64 \<Rightarrow> u16" where
  "f64_to_u16 w =
     (if f64_is_nan w \<or> f64_neg w then 0
      else if \<not> f64_is_finite w then 0xFFFF
      else of_nat (min (f64_trunc w) (2 ^ 16 - 1)))"

definition reset_hdr_info :: hdr_info where
  "reset_hdr_info = hdr_init hdr_info_default"

text \<open>The local variables of one scan: the values read, whether there is one, and what a nested object gave.\<close>

record color_scan =
  cs_hdr :: hdr_info
  cs_found_direct :: bool
  cs_nested :: "hdr_info option"

definition color_store :: "bytes \<Rightarrow> u16 \<Rightarrow> hdr_info \<Rightarrow> hdr_info" where
  "color_store key v hdr =
     (if key = ascii ''colorPrimaries'' then hdr\<lparr>hdr_color_primaries := v\<rparr>
      else if key = ascii ''transferCharacteristics'' then hdr\<lparr>hdr_transfer_chars := v\<rparr>
      else hdr\<lparr>hdr_matrix_coeffs := v\<rparr>)"

text \<open>
  One member. \<open>Some\<close> is an early \<open>return Some(..)\<close>; \<open>nested\<close> is the scan of an inner object, absent when
  no depth is left. A returned error is the \<open>?\<close> of the source, which ends in \<open>None\<close>.
\<close>

definition color_member ::
  "(buffer, hdr_info option) op option \<Rightarrow> (buffer \<times> color_scan, hdr_info option) op" where
  "color_member nested = bindS (inB (amf0_read_object_key (replicate 64 0))) (\<lambda>(key_len, key).
     bindS (liftS (subslice key 0 key_len)) (\<lambda>k. let key_str = utf8_or_empty k in
     bindS (inB amf0_read_type) (\<lambda>ty.
     bindS (if key_str = ascii ''colorInfo'' \<and> ty = A0Object then inB amf0_is_object_end else retS False) (\<lambda>ended.
       if ended \<or> key_str = ascii ''colorInfo'' \<and> ty = A0Undefined then retS (Some reset_hdr_info)
       else if ty = A0Number \<and>
         key_str \<in> {ascii ''colorPrimaries'', ascii ''transferCharacteristics'', ascii ''matrixCoefficients''}
       then bindS (inB amf0_read_number) (\<lambda>v.
         if f64_outside_u16 v then failS (Err EAmf)
         else thenS (inO (modS (\<lambda>c. c\<lparr>cs_found_direct := True, cs_hdr := color_store key_str (f64_to_u16 v) (cs_hdr c)\<rparr>)))
           (retS None))
       else (case nested of
           Some scan_inner \<Rightarrow>
             if ty = A0Object \<and> key_str \<in> {ascii ''colorConfig'', ascii ''colorInfo''}
             then bindS (inB scan_inner) (\<lambda>r. case r of
                 Some inner \<Rightarrow> thenS (inO (modS (\<lambda>c. c\<lparr>cs_nested := Some inner\<rparr>))) (retS None)
               | None \<Rightarrow> retS None)
             else thenS (inB (amf0_skip_value_after_type ty)) (retS None)
         | None \<Rightarrow> thenS (inB (amf0_skip_value_after_type ty)) (retS None))))))"

definition color_finish :: "(buffer \<times> color_scan, hdr_info option) op" where
  "color_finish = thenS (inB (buf_read 3))
     (getS (\<lambda>(_, c). if cs_found_direct c then Some (cs_hdr c) else cs_nested c))"

primrec color_loop ::
  "nat \<Rightarrow> (buffer, hdr_info option) op option \<Rightarrow> (buffer \<times> color_scan, hdr_info option) op" where
  "color_loop 0 nested = bindS (inB amf0_is_object_end) (\<lambda>fin. if fin then color_finish else failS (Err EAmf))"
| "color_loop (Suc keys_left) nested = bindS (inB amf0_is_object_end) (\<lambda>fin.
     if fin then color_finish
     else bindS (color_member nested) (\<lambda>ret. case ret of
         Some hdr \<Rightarrow> retS (Some hdr)
       | None \<Rightarrow> color_loop keys_left nested))"

definition color_object :: "(buffer, hdr_info option) op option \<Rightarrow> (buffer, hdr_info option) op" where
  "color_object nested = (\<lambda>b.
     case okS (color_loop MAX_OBJECT_KEYS nested)
       (b, \<lparr>cs_hdr = hdr_init hdr_info_default, cs_found_direct = False, cs_nested = None\<rparr>) of
       (r, (b', _)) \<Rightarrow> (bindR r (\<lambda>x. Inr (case x of Some y \<Rightarrow> y | None \<Rightarrow> None)), b'))"

primrec scan_object_for_color_info :: "nat \<Rightarrow> (buffer, hdr_info option) op" where
  "scan_object_for_color_info 0 = color_object None"
| "scan_object_for_color_info (Suc depth) = color_object (Some (scan_object_for_color_info depth))"

definition color_info :: "(buffer, hdr_info option) op" where
  "color_info = bindS amf0_read_type (\<lambda>ty.
     if ty = A0String then
       bindS (buf_read 2) (\<lambda>len_bytes. bindS (liftS (ntoh16 len_bytes)) (\<lambda>name_len.
         if unat name_len \<noteq> 9 then retS None
         else bindS (buf_read 9) (\<lambda>name.
           if name \<noteq> ascii ''colorInfo'' then retS None
           else bindS amf0_read_type (\<lambda>value_ty.
             if value_ty = A0Undefined then retS (Some reset_hdr_info)
             else if value_ty \<noteq> A0Object then retS None
             else bindS amf0_is_object_end (\<lambda>fin.
               if fin then retS (Some reset_hdr_info) else scan_object_for_color_info 2)))))
     else if ty \<noteq> A0Object then retS None
     else scan_object_for_color_info 2)"

definition parse_color_info_amf :: "bytes \<Rightarrow> hdr_info option result" where
  "parse_color_info_amf data =
     bindR (fst (okS color_info (buf_from_slice data))) (\<lambda>x. Inr (case x of Some y \<Rightarrow> y | None \<Rightarrow> None))"

definition parse_video_metadata_hdr :: "bytes \<Rightarrow> hdr_info option result" where
  "parse_video_metadata_hdr payload = parse_or (Inr None) (exvideo_parse payload) video_header_default (\<lambda>hdr.
     if vh_is_ex_header hdr = 0 \<or> vh_packet_type hdr \<noteq> ERTMP_PACKET_TYPE_METADATA then Inr None
     else bindR (subslice payload (vh_header_size hdr) (length payload)) parse_color_info_amf)"

section \<open>The values a connection takes from onMetaData\<close>

text \<open>The \<open>detected_..\<close> fields of \<open>Conn\<close>.\<close>

record detected =
  dt_video_codec :: "bytes option"
  dt_audio_codec :: "bytes option"
  dt_video_width :: "u32 option"
  dt_video_height :: "u32 option"
  dt_video_framerate :: "f64 option"
  dt_audio_sample_rate :: "u32 option"
  dt_audio_channels :: "u32 option"
  dt_hdr_info :: "hdr_info option"

definition clear_detected_stream_metadata :: "detected \<Rightarrow> detected" where
  "clear_detected_stream_metadata d = d\<lparr>dt_video_codec := None, dt_audio_codec := None, dt_video_width := None,
     dt_video_height := None, dt_video_framerate := None, dt_audio_sample_rate := None,
     dt_audio_channels := None, dt_hdr_info := None\<rparr>"

definition positive_f64_to_u32 :: "f64 \<Rightarrow> u32 option" where
  "positive_f64_to_u32 v = (if f64_outside_u32 v then None else Some (f64_to_u32 v))"

text \<open>\<open>v.is_finite() && v > 0.0 && v <= 1000.0\<close>\<close>

definition sane_framerate :: "f64 \<Rightarrow> bool" where
  "sane_framerate v \<longleftrightarrow> f64_is_finite v \<and> \<not> f64_neg v \<and> v \<noteq> 0 \<and>
     (f64_trunc v < 1000 \<or> f64_trunc v = 1000 \<and> f64_is_whole v)"

text \<open>A number goes into its field, a value of another type is skipped.\<close>

definition number_into ::
  "amf0_type \<Rightarrow> (f64 \<Rightarrow> detected \<Rightarrow> detected) \<Rightarrow> (buffer \<times> detected, unit) op" where
  "number_into ty store =
     (if ty = A0Number then bindS (inB amf0_read_number) (\<lambda>v. inO (modS (store v)))
      else inB (amf0_skip_value_after_type ty))"

definition store_u32 :: "(u32 \<Rightarrow> detected \<Rightarrow> detected) \<Rightarrow> f64 \<Rightarrow> detected \<Rightarrow> detected" where
  "store_u32 put v d = (case positive_f64_to_u32 v of Some w \<Rightarrow> put w d | None \<Rightarrow> d)"

definition store_channels :: "u32 \<Rightarrow> detected \<Rightarrow> detected" where
  "store_channels ch d = (if 0 < ch \<and> ch \<le> 32 then d\<lparr>dt_audio_channels := Some ch\<rparr> else d)"

text \<open>The \<open>false\<close> of the source, which ends the reading of the object, is a returned error.\<close>

definition apply_metadata_key :: "bytes \<Rightarrow> (buffer \<times> detected, unit) op" where
  "apply_metadata_key key = bindS (inB amf0_read_type) (\<lambda>ty.
     if key = ascii ''width'' then number_into ty (store_u32 (\<lambda>w d. d\<lparr>dt_video_width := Some w\<rparr>))
     else if key = ascii ''height'' then number_into ty (store_u32 (\<lambda>h d. d\<lparr>dt_video_height := Some h\<rparr>))
     else if key = ascii ''framerate'' \<or> key = ascii ''videoframerate''
     then number_into ty (\<lambda>v d. if sane_framerate v then d\<lparr>dt_video_framerate := Some v\<rparr> else d)
     else if key = ascii ''audiosamplerate''
     then number_into ty (store_u32 (\<lambda>sr d. d\<lparr>dt_audio_sample_rate := Some sr\<rparr>))
     else if key = ascii ''audiochannels'' then number_into ty (store_u32 store_channels)
     else if key = ascii ''stereo'' \<and> ty = A0Boolean
     then bindS (inB amf0_read_boolean) (\<lambda>stereo.
       inO (modS (\<lambda>d. d\<lparr>dt_audio_channels := Some (if stereo then 2 else 1)\<rparr>)))
     else inB (amf0_skip_value_after_type ty))"

definition metadata_member :: "(buffer \<times> detected, unit) op" where
  "metadata_member = bindS (inB (amf0_read_object_key (replicate 256 0))) (\<lambda>(_, key).
     bindS (liftS (subslice key 0 (cstr_len key))) (\<lambda>k. apply_metadata_key (utf8_or_empty k)))"

definition metadata_object :: "(buffer \<times> detected, unit) op" where
  "metadata_object = bindS (inB amf0_read_type) (\<lambda>ty.
     if ty \<noteq> A0Object \<and> ty \<noteq> A0EcmaArray then retS ()
     else thenS (if ty = A0EcmaArray then inB (voidS (buf_read 4)) else retS ())
       (object_members MAX_OBJECT_KEYS metadata_member))"

definition parse_on_metadata_object :: "(buffer \<times> detected, unit) op" where
  "parse_on_metadata_object = ignoreS metadata_object"

definition handle_data_message :: "bytes \<Rightarrow> (detected, unit) op" where
  "handle_data_message payload = onSlice payload (bindS (inB reads_on_metadata) (\<lambda>is_metadata.
     if is_metadata then thenS (inO (modS clear_detected_stream_metadata)) parse_on_metadata_object
     else retS ()))"

section \<open>The FLV script tag\<close>

definition script_name :: "(buffer \<times> script_tag, unit) op" where
  "script_name = bindS (inB peek_first) (\<lambda>b. case b of
       None \<Rightarrow> failS (Err EInternal)
     | Some first_byte \<Rightarrow>
         if first_byte = amf0_marker A0String \<or> first_byte = amf0_marker A0LongString then
           bindS (inB (if first_byte = amf0_marker A0String then amf0_read_string (replicate 64 0)
                       else amf0_read_long_string (replicate 64 0))) (\<lambda>(len, name).
           bindS (liftS (subslice name 0 len)) (\<lambda>n.
           bindS (getS (\<lambda>s. sc_name (snd s))) (\<lambda>dst. bindS (liftS (copy_at dst 0 n)) (\<lambda>dst.
             inO (modS (\<lambda>t. t\<lparr>sc_name := dst\<rparr>))))))
         else inB amf0_skip_value)"

definition script_body :: "(buffer \<times> script_tag, unit) op" where
  "script_body = bindS (inB (okS amf0_read_type)) (\<lambda>ty.
     if ty = Some A0EcmaArray \<or> ty = Some A0Object then
       thenS (if ty = Some A0EcmaArray then inB (voidS (map_errS EAmf (buf_read 4))) else retS ())
         (object_members 256 (inB (thenS (amf0_read_object_key (replicate 256 0)) amf0_skip_value)))
     else retS ())"

definition script_tag_parse :: "bytes \<Rightarrow> (script_tag, unit) op" where
  "script_tag_parse data = thenS (modS (\<lambda>_. script_tag_default))
     (if length data < 2 then failS (Err EInternal)
      else thenS (onSlice data (thenS script_name script_body))
        (modS (\<lambda>t. t\<lparr>sc_data := Some data, sc_size := length data\<rparr>)))"

section \<open>No payload makes a metadata reader panic\<close>

lemma moves_ok: "moves bf I m Q \<Longrightarrow> moves bf I (okS m) (\<lambda>r. \<forall>x. r = Some x \<longrightarrow> Q x)"
  unfolding moves_def okS_def by (fastforce split: prod.splits sum.splits failure.splits)

lemma moves_ignore: "moves bf I m Q \<Longrightarrow> moves bf I (ignoreS m) (\<lambda>_. True)"
  unfolding ignoreS_def by (rule moves_void [OF moves_ok]) simp_all

lemma keeps_onSlice: "walks I m Q \<Longrightarrow> keeps I (onSlice data m) Q"
  unfolding moves_def onSlice_def
  by (auto simp: ahead_refl case_prod_beta dest!: spec [of _ "buf_from_slice data"])

lemma scan_long_string: "scan (amf0_read_long_string out) (\<lambda>(k, o'). k < length out \<and> length o' = length out)"
  unfolding amf0_read_long_string_def
  by (intro moves_bind [OF scan_amf0_fixed(1)] moves_bind [OF scan_amf0_fixed(3)] moves_if moves_fail
      moves_mono [OF scan_amf0_read_into]; auto)

lemma scan_peek_first: "scan peek_first (\<lambda>_. True)"
  by (simp add: moves_def peek_first_def bindS_def buf_peek_contents ahead_refl)

lemma scan_event_name: "scan event_name (\<lambda>_. True)"
proof -
  have r: "scan (read_data_event_name b (replicate 64 0))
      (\<lambda>r. \<forall>x. r = Some x \<longrightarrow> (case x of (k, o') \<Rightarrow> k < 64 \<and> length o' = 64))" for b
    unfolding read_data_event_name_def
    by (rule moves_ok) (use scan_amf0_strings(1) [of "replicate 64 0"] scan_long_string [of "replicate 64 0"] in simp)
  show ?thesis
    unfolding event_name_def
    by (rule moves_bind [OF scan_peek_first])
      (auto intro!: moves_if moves_ret moves_bind [OF r] moves_bind [OF moves_lift [of _ "\<lambda>_. True"]]
        split: option.splits simp del: retS_apply liftS_apply)
qed

lemma scan_reads_on_metadata: "scan reads_on_metadata (\<lambda>_. True)"
  unfolding reads_on_metadata_def
  by (rule moves_bind [OF scan_event_name])
    (auto intro!: moves_if moves_ret moves_bind [OF scan_event_name] split: option.splits simp del: retS_apply)

text \<open>Operations that return no error.\<close>

definition sure :: "('s, 'a) op \<Rightarrow> bool" where
  "sure m \<longleftrightarrow> (\<forall>s e. fst (m s) \<noteq> err e)"

lemma sure_rules:
  "sure (retS x)" "sure (okS m)" "(\<And>e. r \<noteq> err e) \<Longrightarrow> sure (liftS r)"
  by (auto simp: sure_def okS_def split: prod.splits sum.splits failure.splits)

lemma sure_bind: "sure m \<Longrightarrow> (\<And>x. sure (f x)) \<Longrightarrow> sure (bindS m f)"
  unfolding sure_def bindS_def by (simp add: case_prod_beta split: sum.split) metis

lemma sure_event_name: "sure event_name"
proof -
  have "sure peek_first" by (auto simp: sure_def peek_first_def bindS_def buf_peek_def subslice_def)
  moreover have "subslice name a n \<noteq> err e" for name :: bytes and a n e by (simp add: subslice_def)
  ultimately show ?thesis
    unfolding event_name_def read_data_event_name_def
    by (intro sure_bind) (auto intro!: sure_bind sure_rules split: option.splits simp del: retS_apply liftS_apply)
qed

lemma is_on_metadata_total: "\<exists>r. is_on_metadata_payload payload = Inr r"
proof -
  have "sure reads_on_metadata"
    unfolding reads_on_metadata_def
    by (rule sure_bind [OF sure_event_name])
      (auto intro!: sure_bind [OF sure_event_name] sure_rules split: option.splits simp del: retS_apply)
  moreover have "is_on_metadata_payload payload \<noteq> panic"
    using movesD(1) [OF scan_reads_on_metadata, of "buf_from_slice payload"]
    by (simp add: is_on_metadata_payload_def)
  ultimately show ?thesis
    unfolding sure_def is_on_metadata_payload_def by (metis failure.exhaust sum.exhaust)
qed

lemma walks_color_member:
  assumes "\<And>m. nested = Some m \<Longrightarrow> scan m (\<lambda>_. True)"
  shows "walks (\<lambda>_. True) (color_member nested) (\<lambda>_. True)"
proof -
  have mod: "walks (\<lambda>_. True) (inO (modS f)) (\<lambda>_. True)" for f :: "color_scan \<Rightarrow> color_scan"
    by (rule walks_keeps [OF keeps_mod]) simp_all
  have skip: "walks (\<lambda>_ :: color_scan. True) (thenS (inB (amf0_skip_value_after_type ty)) (retS None)) (\<lambda>_. True)"
    for ty
    unfolding amf0_skip_value_after_type_def by (rule moves_then [OF walks_inB [OF scan_skip_value_depth] moves_ret]) simp
  show ?thesis
    unfolding color_member_def
  proof (rule moves_bind [OF walks_inB [OF scan_amf0_strings(2)]], clarify, goal_cases)
    case (1 n key)
    show ?case
      unfolding Let_def
      by (rule moves_bind [OF moves_lift [of _ "\<lambda>_. True"]], use 1 in simp, simp,
          rule moves_bind [OF walks_inB [OF scan_amf0_read_type]],
          rule moves_bind [of _ _ _ "\<lambda>_. True"])
        (auto intro!: moves_if moves_ret walks_inB [OF scan_is_object_end] moves_fail moves_then [OF mod] skip
          moves_bind [OF walks_inB [OF scan_amf0_scalars(1)]] moves_bind [OF walks_inB [OF assms]]
          split: option.splits simp del: retS_apply)
  qed
qed

lemma walks_color_finish: "walks (\<lambda>_. True) color_finish (\<lambda>_. True)"
  unfolding color_finish_def by (rule moves_then [OF walks_inB [OF scan_read] moves_get]) simp

lemma walks_color_loop:
  assumes "\<And>m. nested = Some m \<Longrightarrow> scan m (\<lambda>_. True)"
  shows "walks (\<lambda>_. True) (color_loop k nested) (\<lambda>_. True)"
  by (induction k)
    (auto intro!: moves_bind [OF walks_inB [OF scan_is_object_end]] moves_if walks_color_finish moves_fail
      moves_bind [OF walks_color_member [OF assms]] moves_ret split: option.splits simp del: retS_apply)

lemma scan_color_object:
  assumes "\<And>m. nested = Some m \<Longrightarrow> scan m (\<lambda>_. True)"
  shows "scan (color_object nested) (\<lambda>_. True)"
  using moves_ok [OF walks_color_loop [OF assms, where k = MAX_OBJECT_KEYS]]
  unfolding moves_def color_object_def by (auto simp: case_prod_beta bindR_def split: sum.splits)

lemma scan_color_info: "scan color_info (\<lambda>_. True)"
proof -
  have s: "scan (scan_object_for_color_info d) (\<lambda>_. True)" for d
    by (induction d) (auto intro!: scan_color_object)
  show ?thesis
    unfolding color_info_def
    by (rule moves_bind [OF scan_amf0_read_type])
      (auto intro!: moves_if s moves_ret moves_bind [OF scan_read] moves_bind [OF scan_amf0_read_type]
        moves_bind [OF scan_is_object_end] moves_bind [OF moves_lift [of _ "\<lambda>_. True"]]
        simp: ntoh16_def simp del: retS_apply liftS_apply)
qed

lemma parse_video_metadata_hdr_total: "\<exists>r. parse_video_metadata_hdr payload = Inr r"
proof -
  have c: "\<exists>r. parse_color_info_amf data = Inr r" for data
  proof -
    have "fst (okS color_info (buf_from_slice data)) \<noteq> panic"
      using movesD(1) [OF moves_ok [OF scan_color_info], of "buf_from_slice data"] by simp
    moreover have "sure (okS color_info)" by (rule sure_rules)
    ultimately obtain x where "fst (okS color_info (buf_from_slice data)) = Inr x"
      unfolding sure_def by (metis failure.exhaust sum.exhaust)
    then show ?thesis by (simp add: parse_color_info_amf_def)
  qed
  obtain r h where r: "exvideo_parse payload video_header_default = (r, h)" by (rule prod.exhaust)
  show ?thesis
  proof (cases r)
    case (Inl e)
    then show ?thesis
      using exvideo_parse_total [of payload video_header_default] r
      by (cases e) (simp_all add: parse_video_metadata_hdr_def parse_or_def)
  next
    case (Inr u)
    have "vh_header_size h \<le> length payload"
      if "vh_is_ex_header h \<noteq> 0" "vh_packet_type h = ERTMP_PACKET_TYPE_METADATA"
      using exvideo_parse_enhanced [of payload video_header_default h] that r Inr
      by (auto simp: is_video_command_header_def)
    then show ?thesis using c r Inr by (auto simp: parse_video_metadata_hdr_def parse_or_def)
  qed
qed

lemma subslice_cstr [simp]: "subslice key 0 (cstr_len key) = Inr (take (cstr_len key) key)"
  by (simp add: subslice_def cstr_len_le)

lemma walks_number_into: "walks (\<lambda>_. True) (number_into ty store) (\<lambda>_. True)"
  unfolding number_into_def amf0_skip_value_after_type_def
  by (intro moves_if moves_bind [OF walks_inB [OF scan_amf0_scalars(1)]] walks_keeps [OF keeps_mod] TrueI
      walks_inB [OF scan_skip_value_depth])

lemma walks_apply_metadata_key: "walks (\<lambda>_. True) (apply_metadata_key key) (\<lambda>_. True)"
  unfolding apply_metadata_key_def
  by (rule moves_bind [OF walks_inB [OF scan_amf0_read_type]])
    (auto intro!: moves_if walks_number_into moves_bind [OF walks_inB [OF scan_amf0_scalars(2)]]
      walks_keeps [OF keeps_mod] walks_inB [OF scan_skip_value_depth] simp: amf0_skip_value_after_type_def)

lemma walks_metadata_object: "walks (\<lambda>_. True) metadata_object (\<lambda>_. True)"
proof -
  have "walks (\<lambda>_. True) metadata_member (\<lambda>_. True)"
    unfolding metadata_member_def
    by (rule moves_bind [OF walks_inB [OF scan_amf0_strings(2)]], clarify,
        rule moves_bind [OF moves_lift [of _ "\<lambda>_. True"] walks_apply_metadata_key])
      simp_all
  then show ?thesis
    unfolding metadata_object_def
    by (intro moves_bind [OF walks_inB [OF scan_amf0_read_type]] moves_if moves_ret TrueI
        moves_then [of _ _ _ "\<lambda>_. True"] walks_inB [OF moves_void [OF scan_read]] walks_members)
qed

lemma keeps_handle_data_message: "keeps (\<lambda>_. True) (handle_data_message payload) (\<lambda>_. True)"
  unfolding handle_data_message_def parse_on_metadata_object_def
  by (intro keeps_onSlice moves_bind [OF walks_inB [OF scan_reads_on_metadata]] moves_if moves_ret TrueI
      moves_then [OF walks_keeps [OF keeps_mod]] moves_ignore [OF walks_metadata_object])

lemma walks_script_name: "walks (\<lambda>t. length (sc_name t) = 64) script_name (\<lambda>_. True)"
proof -
  let ?I = "\<lambda>t. length (sc_name t) = 64"
  have store: "walks ?I (bindS (liftS (subslice name 0 len)) (\<lambda>n.
      bindS (getS (\<lambda>s. sc_name (snd s))) (\<lambda>dst. bindS (liftS (copy_at dst 0 n)) (\<lambda>dst.
        inO (modS (\<lambda>t. t\<lparr>sc_name := dst\<rparr>)))))) (\<lambda>_. True)"
    if "len < 64" "length name = 64" for len name
    by (rule moves_bind [OF moves_lift [of _ "\<lambda>n. length n < 64"]], use that in simp, use that in auto,
        rule moves_bind [OF moves_get [of _ "\<lambda>dst. length dst = 64"]], simp,
        rule moves_bind [OF moves_lift [of _ "\<lambda>dst. length dst = 64"]], simp, use length_copy_at in force,
        rule walks_keeps [OF keeps_mod]) simp_all
  show ?thesis
    unfolding script_name_def
  proof (rule moves_bind [OF walks_inB [OF scan_peek_first]], goal_cases)
    case (1 b)
    have r: "walks ?I (bindS (inB (if c then amf0_read_string (replicate 64 0) else amf0_read_long_string (replicate 64 0)))
        (\<lambda>(len, name). bindS (liftS (subslice name 0 len)) (\<lambda>n.
          bindS (getS (\<lambda>s. sc_name (snd s))) (\<lambda>dst. bindS (liftS (copy_at dst 0 n)) (\<lambda>dst.
            inO (modS (\<lambda>t. t\<lparr>sc_name := dst\<rparr>))))))) (\<lambda>_. True)" for c
      using scan_amf0_strings(1) [of "replicate 64 0"] scan_long_string [of "replicate 64 0"]
      by (intro moves_bind [OF walks_inB, of _ "\<lambda>(k, o'). k < 64 \<and> length o' = 64"]) (simp, clarify, rule store)
    show ?case
      by (cases b; simp only: option.case) (rule moves_fail, simp, rule moves_if, rule r, rule walks_inB [OF scan_skip_value])
  qed
qed

lemma script_tag_parse_total: "fst (script_tag_parse data t) \<noteq> panic"
proof -
  let ?I = "\<lambda>t. length (sc_name t) = 64"
  have "walks ?I script_body (\<lambda>_. True)"
    unfolding script_body_def
    by (intro moves_bind [OF walks_inB [OF moves_ok [OF scan_amf0_read_type]]] moves_if moves_ret TrueI walks_members
        moves_then [of _ _ _ "\<lambda>_. True"] walks_inB [OF moves_void [OF moves_map_err [OF scan_read]]]
        walks_inB [OF moves_then [OF scan_amf0_strings(2) scan_skip_value]])
  then have "keeps ?I (if length data < 2 then failS (Err EInternal) else thenS (onSlice data (thenS script_name script_body))
      (modS (\<lambda>t. t\<lparr>sc_data := Some data, sc_size := length data\<rparr>))) (\<lambda>_. True)"
    by (intro moves_if moves_fail moves_then [OF keeps_onSlice [OF moves_then [OF walks_script_name]]] keeps_mod) simp_all
  then have "fst ((if length data < 2 then failS (Err EInternal) else thenS (onSlice data (thenS script_name script_body))
      (modS (\<lambda>t. t\<lparr>sc_data := Some data, sc_size := length data\<rparr>))) script_tag_default) \<noteq> panic"
    unfolding keeps_iff by (simp add: script_tag_default_def)
  then show ?thesis unfolding script_tag_parse_def by (simp add: thenS_apply)
qed

lemma handle_data_message_ok: "fst (handle_data_message payload d) = Inr ()"
proof -
  have "sure (handle_data_message payload)"
  proof -
    obtain r b where r: "reads_on_metadata (buf_from_slice payload) = (Inr r, b)"
      using is_on_metadata_total [of payload] unfolding is_on_metadata_payload_def by (metis prod.collapse)
    have "sure parse_on_metadata_object"
      unfolding parse_on_metadata_object_def ignoreS_def voidS_def by (intro sure_bind sure_rules)
    then show ?thesis
      unfolding sure_def handle_data_message_def onSlice_def using r by (auto simp: op_simps case_prod_beta)
  qed
  moreover have "fst (handle_data_message payload d) \<noteq> panic"
    using keeps_handle_data_message unfolding keeps_iff by blast
  ultimately show ?thesis unfolding sure_def by (metis failure.exhaust sum.exhaust unit.exhaust)
qed

section \<open>What an onMetaData object sets\<close>

fun metadata_effect :: "bytes \<Rightarrow> amf0_value \<Rightarrow> detected \<Rightarrow> detected" where
  "metadata_effect key (VNumber v) d =
     (if key = ascii ''width'' then store_u32 (\<lambda>w d. d\<lparr>dt_video_width := Some w\<rparr>) v d
      else if key = ascii ''height'' then store_u32 (\<lambda>h d. d\<lparr>dt_video_height := Some h\<rparr>) v d
      else if key = ascii ''framerate'' \<or> key = ascii ''videoframerate''
      then if sane_framerate v then d\<lparr>dt_video_framerate := Some v\<rparr> else d
      else if key = ascii ''audiosamplerate'' then store_u32 (\<lambda>sr d. d\<lparr>dt_audio_sample_rate := Some sr\<rparr>) v d
      else if key = ascii ''audiochannels'' then store_u32 store_channels v d
      else d)"
| "metadata_effect key (VBoolean c) d =
     (if key = ascii ''stereo'' then d\<lparr>dt_audio_channels := Some (if c then 2 else 1)\<rparr> else d)"
| "metadata_effect key v d = d"

definition metadata_member_ok :: "bytes \<times> amf0_value \<Rightarrow> bool" where
  "metadata_member_ok = (\<lambda>(k, v). length k < 256 \<and> 0 \<notin> set k \<and> utf8_valid k \<and>
     amf0_encodable v \<and> amf0_few_keys v \<and> amf0_depth v \<le> MAX_SKIP_DEPTH)"

lemma fills_into: "bq.parses m bs v \<Longrightarrow> fills (bindS (inB m) (\<lambda>v. inO (modS (f v)))) d bs () (f v d)"
  using fills_bind [where f = "\<lambda>v. inO (modS (f v))" and cs = "[]", OF fills_inB fills_inO, of m bs v d "()" "f v d"]
  by (simp del: modS_apply) simp

lemma fills_if:
  "(c \<Longrightarrow> fills m d bs () x) \<Longrightarrow> (\<not> c \<Longrightarrow> fills n d bs () y) \<Longrightarrow>
   fills (if c then m else n) d bs () (if c then x else y)"
  by simp

lemma fills_apply_metadata_key:
  assumes "amf0_encodable v" "amf0_few_keys v" "amf0_depth v \<le> MAX_SKIP_DEPTH"
  shows "fills (apply_metadata_key key) d (amf0_marker (amf0_tag v) # amf0_body v) () (metadata_effect key v d)"
proof -
  have skip: "fills (inB (amf0_skip_value_after_type (amf0_tag v))) d (amf0_body v) () d"
    unfolding amf0_skip_value_after_type_def
    by (rule fills_inB) (use parses_skip_value_depth(1) [of v 0] assms in simp)
  let ?num = "\<lambda>f. case v of VNumber w \<Rightarrow> f w d | _ \<Rightarrow> d"
  have num: "fills (number_into (amf0_tag v) f) d (amf0_body v) () (?num f)" for f
    using skip fills_into [OF parses_amf0_fixed(4) [folded amf0_read_number_def], of f]
    by (cases v) (simp_all add: number_into_def)
  have stereo: "fills (bindS (inB amf0_read_boolean) (\<lambda>stereo. inO (modS (f stereo)))) d (amf0_body v) ()
      (case v of VBoolean c \<Rightarrow> f c d | _ \<Rightarrow> d)" if "amf0_tag v = A0Boolean" for f
    using that fills_into [OF parses_amf0_boolean, of f] by (cases v) simp_all
  have "metadata_effect key v d =
     (if key = ascii ''width'' then ?num (store_u32 (\<lambda>w d. d\<lparr>dt_video_width := Some w\<rparr>))
      else if key = ascii ''height'' then ?num (store_u32 (\<lambda>h d. d\<lparr>dt_video_height := Some h\<rparr>))
      else if key = ascii ''framerate'' \<or> key = ascii ''videoframerate''
      then ?num (\<lambda>v d. if sane_framerate v then d\<lparr>dt_video_framerate := Some v\<rparr> else d)
      else if key = ascii ''audiosamplerate'' then ?num (store_u32 (\<lambda>sr d. d\<lparr>dt_audio_sample_rate := Some sr\<rparr>))
      else if key = ascii ''audiochannels'' then ?num (store_u32 store_channels)
      else if key = ascii ''stereo'' \<and> amf0_tag v = A0Boolean
      then (case v of VBoolean c \<Rightarrow> d\<lparr>dt_audio_channels := Some (if c then 2 else 1)\<rparr> | _ \<Rightarrow> d)
      else d)"
    by (cases v) simp_all
  then show ?thesis
    unfolding apply_metadata_key_def by (simp only:) (intro fills_type fills_if num skip stereo; simp)
qed

lemma bindS_liftS: "bindS (liftS (Inr x)) f = f x"
  by (rule ext) (simp add: bindS_def)

lemma fills_metadata_member:
  assumes "metadata_member_ok (k, v)"
  shows "fills metadata_member d (len16_bytes k @ amf0_marker (amf0_tag v) # amf0_body v) () (metadata_effect k v d)"
proof -
  note ok = assms [unfolded metadata_member_ok_def prod.case]
  have key: "take (cstr_len (filled (replicate 256 0) k)) (filled (replicate 256 0) k) = k"
    using ok by (simp add: filled_def)
  have "fills (bindS (liftS (subslice (filled (replicate 256 0) k) 0 (cstr_len (filled (replicate 256 0) k))))
      (\<lambda>k. apply_metadata_key (utf8_or_empty k))) d (amf0_marker (amf0_tag v) # amf0_body v) () (metadata_effect k v d)"
    unfolding subslice_cstr key bindS_liftS using fills_apply_metadata_key [of v k d] ok by (simp add: utf8_or_empty_def)
  from fills_bind [OF fills_inB [OF parses_amf0_strings(4)], of k "replicate 256 0"
      "\<lambda>(_, key). bindS (liftS (subslice key 0 (cstr_len key))) (\<lambda>k. apply_metadata_key (utf8_or_empty k))", simplified prod.case, OF _ _ this]
  show ?thesis unfolding metadata_member_def using ok by simp
qed

lemma fills_metadata_members:
  "list_all metadata_member_ok ms \<Longrightarrow> length ms \<le> n \<Longrightarrow>
   fills (object_members n metadata_member) d (amf0_members_bytes ms) () (fold (\<lambda>(k, v). metadata_effect k v) ms d)"
proof (induction ms arbitrary: n d)
  case Nil
  show ?case using fills_members_end by simp
next
  case (Cons kv ms)
  obtain k v where kv: "kv = (k, v)" by (rule prod.exhaust)
  obtain m where m: "n = Suc m" "length ms \<le> m" using Cons.prems by (cases n) auto
  have ok: "metadata_member_ok (k, v)" "length k \<le> 0xFFFF" using Cons.prems kv by (auto simp: metadata_member_ok_def)
  have "amf0_marker (amf0_tag v) \<noteq> 9" by (cases v) simp_all
  from fills_members_step [OF _ fills_metadata_member [OF ok(1)] Cons.IH [OF _ m(2)], of d] key_not_end [OF ok(2) this]
  show ?case using Cons.prems by (simp add: m(1) kv)
qed

lemma parses_ok: "bq.parses m bs x \<Longrightarrow> bq.parses (okS m) bs (Some x)"
  unfolding bq.parses_def okS_def by fastforce

lemma parses_event_name:
  assumes "length s < 64" "utf8_valid s"
  shows "bq.parses event_name (amf0_bytes (VString s)) (Some s)"
  unfolding event_name_def
proof (rule bq.parses_look [where v = "Some 2"])
  show "peek_first b = (Inr (Some 2), b)" if "buf_inv b" "contents b = amf0_bytes (VString s) @ rest" for b rest
    using that by (simp add: peek_first_def bindS_def buf_peek_contents amf0_bytes_def)
  have "bq.parses (read_data_event_name True (replicate 64 0)) (2 # len16_bytes s) (Some (length s, filled (replicate 64 0) s))"
    unfolding read_data_event_name_def using assms by (simp add: parses_ok parses_amf0_strings(1))
  from bq.parses_bind_last [OF this, of "\<lambda>r. case r of None \<Rightarrow> retS None
           | Some (name_len, name) \<Rightarrow>
               bindS (liftS (subslice name 0 name_len)) (\<lambda>s. retS (Some (utf8_or_empty s)))" "Some s"]
  show "bq.parses (case Some 2 of None \<Rightarrow> retS None | Some first_byte \<Rightarrow>
       if first_byte \<noteq> amf0_marker A0String \<and> first_byte \<noteq> amf0_marker A0LongString then retS None
       else bindS (read_data_event_name (first_byte = amf0_marker A0String) (replicate 64 0)) (\<lambda>r. case r of
           None \<Rightarrow> retS None
         | Some (name_len, name) \<Rightarrow>
             bindS (liftS (subslice name 0 name_len)) (\<lambda>s. retS (Some (utf8_or_empty s)))))
      (amf0_bytes (VString s)) (Some s)"
    using bq.parses_ret [of "Some s"] assms
    by (simp add: amf0_bytes_def filled_def utf8_or_empty_def bindS_liftS del: retS_apply liftS_apply)
qed

definition on_metadata_head :: "bool \<Rightarrow> bytes" where
  "on_metadata_head set_frame =
     (if set_frame then amf0_bytes (VString (ascii ''@setDataFrame'')) else []) @ amf0_bytes (VString (ascii ''onMetaData''))"

lemma parses_on_metadata_head: "bq.parses reads_on_metadata (on_metadata_head set_frame) True"
proof (cases set_frame)
  case True
  have "bq.parses (bindS event_name (\<lambda>inner. retS (inner = Some (ascii ''onMetaData''))))
      (amf0_bytes (VString (ascii ''onMetaData''))) True"
    by (rule bq.parses_bind_last [OF parses_event_name]) (simp_all add: bq.parses_def)
  from bq.parses_bind [OF parses_event_name [of "ascii ''@setDataFrame''"], of "\<lambda>n. case n of
       None \<Rightarrow> retS False
     | Some name_str \<Rightarrow>
         if name_str = ascii ''@setDataFrame''
         then bindS event_name (\<lambda>inner. retS (inner = Some (ascii ''onMetaData'')))
         else retS (name_str = ascii ''onMetaData'')", simplified option.case simp_thms if_True, OF _ _ this]
  show ?thesis unfolding reads_on_metadata_def on_metadata_head_def using True by simp
next
  case False
  then show ?thesis
    unfolding reads_on_metadata_def on_metadata_head_def
    by (simp del: retS_apply) (rule bq.parses_bind_last [OF parses_event_name], simp_all add: bq.parses_def)
qed

lemma fills_parse_on_metadata_object:
  assumes "list_all metadata_member_ok ms" "length ms \<le> MAX_OBJECT_KEYS" "obj = VObject ms \<or> obj = VEcmaArray n ms"
  shows "fills parse_on_metadata_object d (amf0_bytes obj) () (fold (\<lambda>(k, v). metadata_effect k v) ms d)"
proof -
  note ms = fills_metadata_members [OF assms(1,2), of d]
  have "fills (thenS (inB (voidS (buf_read 4))) (object_members MAX_OBJECT_KEYS metadata_member)) d
      (be32 n @ amf0_members_bytes ms) () (fold (\<lambda>(k, v). metadata_effect k v) ms d)"
    by (rule fills_then [OF fills_inB [OF bq.parses_void [OF bq.parses_read]] ms]) simp
  moreover have "fills (thenS (retS ()) (object_members MAX_OBJECT_KEYS metadata_member)) d
      (amf0_members_bytes ms) () (fold (\<lambda>(k, v). metadata_effect k v) ms d)"
    using fills_then [OF fills_ret ms] by (simp del: retS_apply)
  ultimately have "fills metadata_object d (amf0_bytes obj) () (fold (\<lambda>(k, v). metadata_effect k v) ms d)"
    unfolding metadata_object_def amf0_bytes_def
    by - (rule fills_type, use assms(3) in \<open>auto simp del: retS_apply\<close>)
  then show ?thesis
    unfolding parse_on_metadata_object_def ignoreS_def fills_def by (fastforce simp: okS_def)
qed

section \<open>Properties\<close>



end
