(* ===== verification/Message_Dispatch.thy ===== *)
theory Message_Dispatch
  imports Init_Cache Control Chunk_Reader
begin

text \<open>
  The generic message dispatcher (\<open>src/src/message/message.rs\<close>): \<open>decode\<close> and \<open>decode_aggregate\<close> over
  any type that implements the trait \<open>Connection\<close>. A trait object is a record of its methods over an
  arbitrary state.
\<close>

section \<open>Message types\<close>

definition RTMP_MSG_SET_CHUNK_SIZE :: u8 where "RTMP_MSG_SET_CHUNK_SIZE = 0x01"
definition RTMP_MSG_ABORT_MESSAGE :: u8 where "RTMP_MSG_ABORT_MESSAGE = 0x02"
definition RTMP_MSG_ACKNOWLEDGEMENT :: u8 where "RTMP_MSG_ACKNOWLEDGEMENT = 0x03"
definition RTMP_MSG_USER_CONTROL :: u8 where "RTMP_MSG_USER_CONTROL = 0x04"
definition RTMP_MSG_WINDOW_ACK_SIZE :: u8 where "RTMP_MSG_WINDOW_ACK_SIZE = 0x05"
definition RTMP_MSG_SET_PEER_BANDWIDTH :: u8 where "RTMP_MSG_SET_PEER_BANDWIDTH = 0x06"
definition RTMP_MSG_AUDIO :: u8 where "RTMP_MSG_AUDIO = 0x08"
definition RTMP_MSG_VIDEO :: u8 where "RTMP_MSG_VIDEO = 0x09"
definition RTMP_MSG_AMF3_DATA :: u8 where "RTMP_MSG_AMF3_DATA = 0x0F"
definition RTMP_MSG_AMF3_SHARED_OBJECT :: u8 where "RTMP_MSG_AMF3_SHARED_OBJECT = 0x10"
definition RTMP_MSG_AMF3_COMMAND :: u8 where "RTMP_MSG_AMF3_COMMAND = 0x11"
definition RTMP_MSG_AMF0_COMMAND :: u8 where "RTMP_MSG_AMF0_COMMAND = 0x14"
definition RTMP_MSG_AGGREGATE :: u8 where "RTMP_MSG_AGGREGATE = 0x16"

definition MAX_AGGREGATE_SUBTAGS :: nat where "MAX_AGGREGATE_SUBTAGS = 4096"

section \<open>The traits\<close>

text \<open>
  \<open>get_frame_callback\<close> is the effect of the installed callback, if any; \<open>get_current_stream\<close> is what the
  dispatcher asks of the stream, whether it is publishing.
\<close>

record 's connection =
  get_frame_callback :: "'s \<Rightarrow> (frame \<Rightarrow> 's \<Rightarrow> 's) option"
  get_current_stream :: "'s \<Rightarrow> bool option"
  trait_handle_command :: "bytes \<Rightarrow> ('s, unit) op"
  set_window_ack_size :: "u32 \<Rightarrow> 's \<Rightarrow> 's"
  reset_chunk_stream :: "u32 \<Rightarrow> 's \<Rightarrow> 's"
  set_all_chunk_size :: "u32 \<Rightarrow> 's \<Rightarrow> 's"

definition is_publishing :: "'s connection \<Rightarrow> 's \<Rightarrow> bool" where
  "is_publishing conn s = (case get_current_stream conn s of Some p \<Rightarrow> p | None \<Rightarrow> False)"

section \<open>Frames\<close>

text \<open>\<open>deliver_audio_frame\<close> and \<open>deliver_video_frame\<close>, which differ in the frame type only.\<close>

definition deliver_frame :: "'s connection \<Rightarrow> frame_type \<Rightarrow> u32 \<Rightarrow> bytes \<Rightarrow> ('s, unit) op" where
  "deliver_frame conn ft timestamp payload = (\<lambda>s.
     case populate_av_frame payload (frame_default\<lparr>fr_frame_type := ft, fr_timestamp := timestamp,
         fr_size := of_nat (length payload), fr_data := Some payload\<rparr>) of
       (Inl e, _) \<Rightarrow> (Inl e, s)
     | (Inr _, frame) \<Rightarrow>
         (Inr (), case get_frame_callback conn s of Some cb \<Rightarrow> cb frame s | None \<Rightarrow> s))"

section \<open>Aggregates\<close>

text \<open>The header of the sub-tag at a position: type, data size and time.\<close>

definition subtag_header :: "bytes \<Rightarrow> nat \<Rightarrow> (u8 \<times> nat \<times> u32) result" where
  "subtag_header payload pos =
     bindR (idx payload pos) (\<lambda>tag_type.
     bindR (idx payload (pos + 1)) (\<lambda>s0. bindR (idx payload (pos + 2)) (\<lambda>s1. bindR (idx payload (pos + 3)) (\<lambda>s2.
     bindR (idx payload (pos + 4)) (\<lambda>t0. bindR (idx payload (pos + 5)) (\<lambda>t1. bindR (idx payload (pos + 6)) (\<lambda>t2.
     bindR (idx payload (pos + 7)) (\<lambda>t3.
       Inr (tag_type, unat (u24_be s0 s1 s2), u24_be t0 t1 t2 OR push_bit 24 (ucast t3))))))))))"

text \<open>The loop, with the sub-tags it may still read and the time of the first one.\<close>

primrec aggregate_loop ::
  "'s connection \<Rightarrow> u32 \<Rightarrow> bytes \<Rightarrow> nat \<Rightarrow> nat \<Rightarrow> u32 option \<Rightarrow> ('s, unit) op" where
  "aggregate_loop conn timestamp payload 0 = (\<lambda>pos base.
     if pos + 11 \<le> length payload then failS (Err EProtocol) else retS ())"
| "aggregate_loop conn timestamp payload (Suc left) = (\<lambda>pos base.
     if pos + 11 \<le> length payload then
       bindS (liftS (subtag_header payload pos)) (\<lambda>(tag_type, data_size, ts).
         let body = pos + 11 in
         if body + data_size > length payload then failS (Err EProtocol)
         else
           (let base_ts = (case base of Some b \<Rightarrow> b | None \<Rightarrow> ts);
                out_ts = timestamp + (ts - base_ts) in
            bindS (getS (is_publishing conn)) (\<lambda>publishing.
            thenS
              (if (tag_type = 0x08 \<or> tag_type = 0x09) \<and> publishing
               then bindS (liftS (subslice payload body (body + data_size)))
                 (deliver_frame conn (if tag_type = 0x08 then FAudio else FVideo) out_ts)
               else retS ())
              (aggregate_loop conn timestamp payload left (body + data_size + 4) (Some base_ts)))))
     else retS ())"

definition decode_aggregate :: "'s connection \<Rightarrow> chunk_message \<Rightarrow> bytes \<Rightarrow> ('s, unit) op" where
  "decode_aggregate conn chunk payload =
     aggregate_loop conn (cm_timestamp chunk) payload MAX_AGGREGATE_SUBTAGS 0 None"

section \<open>Dispatch\<close>

definition decode :: "'s connection \<Rightarrow> chunk_message \<Rightarrow> bytes \<Rightarrow> ('s, unit) op" where
  "decode conn chunk payload =
     (let ty = cm_msg_type_id chunk in
      if ty = RTMP_MSG_SET_CHUNK_SIZE
      then bindS (liftS (read_set_chunk_size payload)) (\<lambda>cs. modS (set_all_chunk_size conn cs))
      else if ty = RTMP_MSG_ABORT_MESSAGE
      then (if 4 \<le> length payload
            then (case read_abort_message payload of
                Inr csid \<Rightarrow> modS (reset_chunk_stream conn csid)
              | Inl Panic \<Rightarrow> failS Panic
              | Inl (Err _) \<Rightarrow> retS ())
            else retS ())
      else if ty = RTMP_MSG_ACKNOWLEDGEMENT
      then (if 4 \<le> length payload \<and> read_acknowledgement_size payload = panic then failS Panic else retS ())
      else if ty = RTMP_MSG_WINDOW_ACK_SIZE
      then (if 4 \<le> length payload
            then (case read_window_ack_size payload of
                Inr win \<Rightarrow> modS (set_window_ack_size conn win)
              | Inl Panic \<Rightarrow> failS Panic
              | Inl (Err _) \<Rightarrow> retS ())
            else retS ())
      else if ty = RTMP_MSG_SET_PEER_BANDWIDTH
      then (if 5 \<le> length payload \<and> read_set_peer_bandwidth payload = panic then failS Panic else retS ())
      else if ty = RTMP_MSG_USER_CONTROL
      then (if 6 \<le> length payload \<and> read_user_control payload (10 \<le> length payload) = panic then failS Panic else retS ())
      else if ty = RTMP_MSG_AUDIO \<or> ty = RTMP_MSG_VIDEO
      then bindS (getS (is_publishing conn)) (\<lambda>publishing.
        if publishing then deliver_frame conn (if ty = RTMP_MSG_AUDIO then FAudio else FVideo) (cm_timestamp chunk) payload
        else retS ())
      else if ty = RTMP_MSG_AMF0_COMMAND then trait_handle_command conn payload
      else if ty = RTMP_MSG_AMF3_COMMAND
      then (if payload \<noteq> [] \<and> hd payload = 0x00
            then bindS (liftS (subslice payload 1 (length payload))) (trait_handle_command conn)
            else trait_handle_command conn payload)
      else if ty = RTMP_MSG_AGGREGATE then decode_aggregate conn chunk payload
      else retS ())"

end
