(* ===== verification/Conn_State.thy ===== *)
theory Conn_State
  imports Script_Meta Command Shared_Object Media_Out Session Message_Dispatch Modex
begin

text \<open>
  The state of a server connection (\<open>src/src/session/conn.rs\<close>: \<open>struct Conn\<close>) and its bookkeeping
  of routes and relayed frames: the claim of a publish route in the shared registry, the queue of
  cache keys to evict, the list of abandoned routes and the queue of frames for relay, all of
  bounded size; and the timers that decide whether an idle connection is closed.

  The record has the fields of \<open>Conn\<close>; those that belong together are grouped in records of their
  own (callbacks, counters and timers, pings, authorization requests, detected metadata). What the
  connection shares with the rest of the server is part of the state: the registry of routes as the
  connection finds it.

  What the connection asks of the outside is a parameter: the readings of the clock, what a socket
  takes, and the answers of the callbacks the host installed. Each such interaction has a number, and
  its outcome may depend on it, so nothing is assumed about how often or how consistently the
  outside answers. The calls to the host with their answers and the bytes the socket accepted are kept in
  a log and in \<open>cn_wire\<close>; no operation reads them.
  Logging of messages is left out.
\<close>

section \<open>Time\<close>

text \<open>An \<open>Instant\<close> is a number of nanoseconds; \<open>duration_since\<close> saturates at zero, as subtraction on \<open>nat\<close> does.\<close>

type_synonym instant = nat

definition SECOND :: nat where "SECOND = 1000000000"

definition PING_INTERVAL :: nat where "PING_INTERVAL = 5 * SECOND"
definition PING_TIMEOUT :: nat where "PING_TIMEOUT = 10 * SECOND"
definition WRITE_STALL_TIMEOUT :: nat where "WRITE_STALL_TIMEOUT = PING_TIMEOUT"
definition INIT_REPLAY_COOLDOWN :: nat where "INIT_REPLAY_COOLDOWN = SECOND"
definition PUBLISH_MEDIA_REQUIRED_TIMEOUT :: nat where "PUBLISH_MEDIA_REQUIRED_TIMEOUT = 2 * SECOND"
definition INBOUND_PING_WINDOW :: nat where "INBOUND_PING_WINDOW = SECOND"
definition RTMP_SESSION_SETUP_TIMEOUT :: nat where "RTMP_SESSION_SETUP_TIMEOUT = 10 * SECOND"

section \<open>Limits\<close>

definition MAX_STREAMS_PER_CONN :: u32 where "MAX_STREAMS_PER_CONN = 16"
definition MAX_PENDING_RELAY_FRAMES :: nat where "MAX_PENDING_RELAY_FRAMES = 1024"
definition MAX_PENDING_RELAY_BYTES :: nat where "MAX_PENDING_RELAY_BYTES = 8 * 1024 * 1024"
definition MAX_MESSAGES_PER_READ :: nat where "MAX_MESSAGES_PER_READ = 256"
definition MAX_MESSAGES_PER_RECV :: nat where "MAX_MESSAGES_PER_RECV = 256"
definition MAX_TRACKS_PER_RECV :: nat where "MAX_TRACKS_PER_RECV = 65536"
definition MAX_PENDING_CACHE_EVICTIONS :: nat where "MAX_PENDING_CACHE_EVICTIONS = 64"
definition SERVER_WINDOW_ACK_SIZE :: u32 where "SERVER_WINDOW_ACK_SIZE = 2500000"
definition SERVER_PEER_BANDWIDTH :: u32 where "SERVER_PEER_BANDWIDTH = 2500000"
definition PEER_BANDWIDTH_DYNAMIC :: u8 where "PEER_BANDWIDTH_DYNAMIC = 2"
definition MAX_PENDING_PINGS :: nat where "MAX_PENDING_PINGS = 4"
definition SEND_PROGRESS_BYTES :: nat where "SEND_PROGRESS_BYTES = 4096"
definition MAX_INBOUND_PING_RESPONSES :: nat where "MAX_INBOUND_PING_RESPONSES = 8"
definition RESOLVED_AUTH_ID_MEMORY :: nat where "RESOLVED_AUTH_ID_MEMORY = 8"

section \<open>The host\<close>

datatype authorization_result = AuthAllow | AuthDeny | AuthPending u64

datatype role = RolePublish | RolePlay

text \<open>What the host sees: questions with the answer it gave, notifications, and the decisions it reports later.\<close>

datatype host_event =
    Asked role bytes bytes authorization_result
  | AskedMedia frame_type "bytes option" bool
  | AskedRelease bytes bytes bool
  | AskedSharedObject so_message bool
  | ToldConnect
  | ToldFrame frame
  | ToldSharedObject so_message
  | Decided role u64 bool

text \<open>The first argument of a callback is the number of the interaction.\<close>

record callbacks =
  cb_frame :: bool
  cb_media :: "(nat \<Rightarrow> u64 \<Rightarrow> frame_type \<Rightarrow> bytes option \<Rightarrow> bool) option"
  cb_connect :: bool
  cb_publish :: "(nat \<Rightarrow> u64 \<Rightarrow> bytes \<Rightarrow> bytes \<Rightarrow> bool) option"
  cb_play :: "(nat \<Rightarrow> u64 \<Rightarrow> bytes \<Rightarrow> bytes \<Rightarrow> bool) option"
  cb_publish_auth :: "(nat \<Rightarrow> u64 \<Rightarrow> bytes \<Rightarrow> bytes \<Rightarrow> authorization_result) option"
  cb_play_auth :: "(nat \<Rightarrow> u64 \<Rightarrow> bytes \<Rightarrow> bytes \<Rightarrow> authorization_result) option"
  cb_c_publish_auth :: "(nat \<Rightarrow> u64 \<Rightarrow> bytes \<Rightarrow> bytes \<Rightarrow> int) option"
  cb_c_play_auth :: "(nat \<Rightarrow> u64 \<Rightarrow> bytes \<Rightarrow> bytes \<Rightarrow> int) option"
  cb_shared_object_auth :: "(nat \<Rightarrow> u64 \<Rightarrow> so_message \<Rightarrow> bool) option"
  cb_shared_object :: bool
  cb_release_stream :: "(nat \<Rightarrow> u64 \<Rightarrow> bytes \<Rightarrow> bytes \<Rightarrow> bool) option"

text \<open>The readings of the clocks, and what the transport does with bytes to send.\<close>

record environment =
  en_now :: "nat \<Rightarrow> instant"
  en_clocks :: "nat \<Rightarrow> clocks"
  en_send :: "nat \<Rightarrow> bytes \<Rightarrow> nat result"
  en_send_vectored :: "nat \<Rightarrow> bytes list \<Rightarrow> nat \<Rightarrow> nat result"

section \<open>The connection\<close>

record relay_frame =
  rf_frame_type :: frame_type
  rf_timestamp :: u32
  rf_payload :: bytes
  rf_cache_payload :: "bytes option"
  rf_app :: bytes
  rf_stream_name :: bytes
  rf_publisher_conn_id :: u64

record pending_auth =
  pa_stream_name :: bytes
  pa_requested_at :: instant
  pa_request_id :: u64

record queued_ping =
  qp_token :: u32
  qp_queued_at :: instant
  qp_bytes_until_flushed :: nat

record relay_congestion =
  rg_min_backlog :: nat
  rg_last_progress :: instant

text \<open>Media counters with the snapshots taken of them, and the start of the current grace window.\<close>

record activity =
  ac_media_bytes_received :: u64
  ac_injected_media_bytes :: u64
  ac_injected_media_bytes_total :: u64
  ac_media_bytes_at_epoch_start :: u64
  ac_injected_bytes_at_epoch_start :: u64
  ac_teardown_grace_media_bytes_received :: u64
  ac_teardown_grace_injected_bytes :: u64
  ac_publish_media_deadline_route :: "bytes option"
  ac_media_bytes_sent :: u64
  ac_pause_grace_media_bytes_sent :: u64
  ac_session_setup_started :: instant

text \<open>
  Pings and signs of life. The hash map of pings in flight is an association list; \<open>rtt_ms\<close> is kept as the
  nanoseconds it is computed from.
\<close>

record pings =
  pg_rtt :: nat
  pg_pending_pings :: "(u32 \<times> instant) list"
  pg_send_progress_bytes :: nat
  pg_last_send_progress :: "instant option"
  pg_last_recv_progress :: "instant option"
  pg_send_stalled_since :: "instant option"
  pg_queued_ping :: "queued_ping option"
  pg_last_ping_sent :: "instant option"
  pg_next_ping_token :: u32
  pg_inbound_ping_responses :: nat
  pg_inbound_ping_window_start :: "instant option"

text \<open>The requests of one role: the one waiting for a decision, the ids already answered, the seal.\<close>

record auth =
  au_pending :: "pending_auth option"
  au_resolved_ids :: "u64 list"
  au_sealed :: bool

record conn =
  cn_base :: hs_conn
  cn_chunk_reg :: chunk_registry
  cn_chunk_size :: u32
  cn_active_chunk_size :: u32
  cn_window_ack_size :: u32
  cn_bytes_at_last_ack :: u64
  cn_activity :: activity
  cn_conn_id :: u64
  cn_app :: bytes
  cn_relay_key :: bytes
  cn_next_stream_id :: u32
  cn_active_stream_count :: u32
  cn_current_stream :: "stream option"
  cn_connect_cb_fired :: bool
  cn_pending_relay :: "relay_frame list"
  cn_needs_init_frames :: bool
  cn_compact_media_headers :: bool
  cn_media_out_headers :: media_header_tracker
  cn_relay_congestion :: "relay_congestion option"
  cn_last_init_replay_request :: "instant option"
  cn_init_replay_deferred :: bool
  cn_detected :: detected
  cn_relay_enabled :: bool
  cn_defer_media_relay :: bool
  cn_max_pending_relay_bytes :: nat
  cn_callbacks :: callbacks
  cn_publish_auth :: auth
  cn_play_auth :: auth
  cn_publish_routes :: "route_registry option"
  cn_claimed_publish_route :: "bytes option"
  cn_pending_cache_evictions :: "(bytes \<times> bytes) list"
  cn_abandoned_relay_routes :: "(bytes \<times> bytes) list"
  cn_pings :: pings
  cn_staged_media_bytes :: nat
  cn_budget_exhausted :: bool
  cn_recv_track_budget :: nat
  cn_negotiated_caps :: negotiated_caps
  cn_buffer_length_ms :: u32
  cn_connect_object_encoding :: f64
  cn_env :: environment
  cn_tick :: nat
  cn_has_transport :: bool
  cn_wire :: bytes
  cn_log :: "host_event list"

abbreviation cn_state :: "conn \<Rightarrow> conn_state" where
  "cn_state c \<equiv> hc_state (cn_base c)"

abbreviation cn_recv_buffer :: "conn \<Rightarrow> buffer" where
  "cn_recv_buffer c \<equiv> hc_recv_buffer (cn_base c)"

abbreviation cn_send_buffer :: "conn \<Rightarrow> buffer" where
  "cn_send_buffer c \<equiv> hc_send_buffer (cn_base c)"

section \<open>Parts of the state\<close>

text \<open>An interaction with the outside: its number is used up.\<close>

definition outside :: "(nat \<Rightarrow> 'a) \<Rightarrow> (conn, 'a) op" where
  "outside answer = (\<lambda>c. (Inr (answer (cn_tick c)), c\<lparr>cn_tick := Suc (cn_tick c)\<rparr>))"

text \<open>\<open>Instant::now()\<close>\<close>

definition instant_now :: "(conn, instant) op" where
  "instant_now = bindS (getS cn_env) (\<lambda>e. outside (en_now e))"

definition tell :: "host_event \<Rightarrow> (conn, unit) op" where
  "tell e = modS (\<lambda>c. c\<lparr>cn_log := cn_log c @ [e]\<rparr>)"

definition upd_base :: "(hs_conn \<Rightarrow> hs_conn) \<Rightarrow> conn \<Rightarrow> conn" where
  "upd_base f c = c\<lparr>cn_base := f (cn_base c)\<rparr>"

definition upd_activity :: "(activity \<Rightarrow> activity) \<Rightarrow> conn \<Rightarrow> conn" where
  "upd_activity f c = c\<lparr>cn_activity := f (cn_activity c)\<rparr>"

definition upd_pings :: "(pings \<Rightarrow> pings) \<Rightarrow> conn \<Rightarrow> conn" where
  "upd_pings f c = c\<lparr>cn_pings := f (cn_pings c)\<rparr>"

definition upd_detected :: "(detected \<Rightarrow> detected) \<Rightarrow> conn \<Rightarrow> conn" where
  "upd_detected f c = c\<lparr>cn_detected := f (cn_detected c)\<rparr>"

text \<open>\<open>if let Some(ref mut stream) = self.current_stream { .. }\<close>\<close>

definition upd_stream :: "(stream \<Rightarrow> stream) \<Rightarrow> conn \<Rightarrow> conn" where
  "upd_stream f c = c\<lparr>cn_current_stream := map_option f (cn_current_stream c)\<rparr>"

definition stream_is :: "(stream \<Rightarrow> bool) \<Rightarrow> conn \<Rightarrow> bool" where
  "stream_is P c = (case cn_current_stream c of Some s \<Rightarrow> P s | None \<Rightarrow> False)"

definition stream_id_or :: "u32 \<Rightarrow> conn \<Rightarrow> u32" where
  "stream_id_or d c = (case cn_current_stream c of Some s \<Rightarrow> st_stream_id s | None \<Rightarrow> d)"

definition conn_close_reason :: "log_level \<Rightarrow> bytes \<Rightarrow> conn \<Rightarrow> conn" where
  "conn_close_reason level reason = upd_base (set_close_reason level reason)"

text \<open>\<open>let _ = conn_transition(&mut self.state, s)\<close>\<close>

definition to_state :: "conn_state \<Rightarrow> conn \<Rightarrow> conn" where
  "to_state s = upd_base (\<lambda>b. b\<lparr>hc_state := snd (conn_transition s (hc_state b))\<rparr>)"

text \<open>\<open>self.session_setup_started = Instant::now()\<close>\<close>

definition restart_setup_timer :: "(conn, unit) op" where
  "restart_setup_timer = bindS instant_now (\<lambda>now. modS (upd_activity (\<lambda>a. a\<lparr>ac_session_setup_started := now\<rparr>)))"

section \<open>A new connection\<close>

definition callbacks_none :: callbacks where
  "callbacks_none = \<lparr>cb_frame = False, cb_media = None, cb_connect = False, cb_publish = None, cb_play = None,
     cb_publish_auth = None, cb_play_auth = None, cb_c_publish_auth = None, cb_c_play_auth = None,
     cb_shared_object_auth = None, cb_shared_object = False, cb_release_stream = None\<rparr>"

text \<open>\<open>Conn::new\<close> reads the clock twice; the second reading serves the log only.\<close>

definition conn_new :: "environment \<Rightarrow> conn" where
  "conn_new env = \<lparr>cn_base = hs_conn_new\<lparr>hc_has_fd := False\<rparr>, cn_chunk_reg = reg_init reg_new,
     cn_chunk_size = DEFAULT_CHUNK_SIZE, cn_active_chunk_size = DEFAULT_CHUNK_SIZE, cn_window_ack_size = 0,
     cn_bytes_at_last_ack = 0,
     cn_activity = \<lparr>ac_media_bytes_received = 0, ac_injected_media_bytes = 0, ac_injected_media_bytes_total = 0,
       ac_media_bytes_at_epoch_start = 0, ac_injected_bytes_at_epoch_start = 0,
       ac_teardown_grace_media_bytes_received = 0, ac_teardown_grace_injected_bytes = 0,
       ac_publish_media_deadline_route = None, ac_media_bytes_sent = 0, ac_pause_grace_media_bytes_sent = 0,
       ac_session_setup_started = en_now env 0\<rparr>,
     cn_conn_id = 0, cn_app = [], cn_relay_key = [], cn_next_stream_id = 0, cn_active_stream_count = 0,
     cn_current_stream = None, cn_connect_cb_fired = False, cn_pending_relay = [], cn_needs_init_frames = False,
     cn_compact_media_headers = True, cn_media_out_headers = tracker_default, cn_relay_congestion = None,
     cn_last_init_replay_request = None, cn_init_replay_deferred = False,
     cn_detected = \<lparr>dt_video_codec = None, dt_audio_codec = None, dt_video_width = None, dt_video_height = None,
       dt_video_framerate = None, dt_audio_sample_rate = None, dt_audio_channels = None, dt_hdr_info = None\<rparr>,
     cn_relay_enabled = False, cn_defer_media_relay = False, cn_max_pending_relay_bytes = MAX_PENDING_RELAY_BYTES,
     cn_callbacks = callbacks_none,
     cn_publish_auth = \<lparr>au_pending = None, au_resolved_ids = [], au_sealed = False\<rparr>,
     cn_play_auth = \<lparr>au_pending = None, au_resolved_ids = [], au_sealed = False\<rparr>,
     cn_publish_routes = None, cn_claimed_publish_route = None, cn_pending_cache_evictions = [],
     cn_abandoned_relay_routes = [],
     cn_pings = \<lparr>pg_rtt = 0, pg_pending_pings = [], pg_send_progress_bytes = 0, pg_last_send_progress = None,
       pg_last_recv_progress = None, pg_send_stalled_since = None, pg_queued_ping = None, pg_last_ping_sent = None,
       pg_next_ping_token = 1, pg_inbound_ping_responses = 0, pg_inbound_ping_window_start = None\<rparr>,
     cn_staged_media_bytes = 0, cn_budget_exhausted = False, cn_recv_track_budget = MAX_TRACKS_PER_RECV,
     cn_negotiated_caps = negotiated_caps_default, cn_buffer_length_ms = 3000, cn_connect_object_encoding = 0,
     cn_env = env, cn_tick = 2, cn_has_transport = False, cn_wire = [], cn_log = []\<rparr>"

section \<open>Media activity and the setup timeout\<close>

definition received_media_in_current_epoch :: "conn \<Rightarrow> bool" where
  "received_media_in_current_epoch c \<longleftrightarrow>
     ac_media_bytes_at_epoch_start (cn_activity c) < ac_media_bytes_received (cn_activity c)"

definition media_flowed_since_arm :: "conn \<Rightarrow> bool" where
  "media_flowed_since_arm c \<longleftrightarrow>
     ac_media_bytes_at_epoch_start (cn_activity c) < ac_media_bytes_received (cn_activity c) \<or>
     ac_injected_bytes_at_epoch_start (cn_activity c) < ac_injected_media_bytes_total (cn_activity c)"

text \<open>\<open>self.session_setup_started.elapsed()\<close>\<close>

definition setup_elapsed :: "(conn, nat) op" where
  "setup_elapsed = bindS instant_now (\<lambda>now. getS (\<lambda>c. now - ac_session_setup_started (cn_activity c)))"

definition publish_media_squat_expired :: "(conn, bool) op" where
  "publish_media_squat_expired = bindS (getS (\<lambda>c. \<not> received_media_in_current_epoch c \<and>
       ac_injected_media_bytes (cn_activity c) = 0)) (\<lambda>silent.
     if silent then bindS setup_elapsed (\<lambda>t. retS (PUBLISH_MEDIA_REQUIRED_TIMEOUT \<le> t)) else retS False)"

definition has_pending_publish_authorization :: "conn \<Rightarrow> bool" where
  "has_pending_publish_authorization c \<longleftrightarrow> au_pending (cn_publish_auth c) \<noteq> None"

definition has_pending_play_authorization :: "conn \<Rightarrow> bool" where
  "has_pending_play_authorization c \<longleftrightarrow> au_pending (cn_play_auth c) \<noteq> None"

definition has_pending_authorization :: "conn \<Rightarrow> bool" where
  "has_pending_authorization c \<longleftrightarrow> has_pending_publish_authorization c \<or> has_pending_play_authorization c"

definition session_setup_timed_out :: "(conn, bool) op" where
  "session_setup_timed_out = (\<lambda>c.
     if has_pending_authorization c then (Inr False, c)
     else case cn_current_stream c of
       None \<Rightarrow>
         if cn_claimed_publish_route c \<noteq> None then publish_media_squat_expired c
         else bindS setup_elapsed (\<lambda>t. retS (RTMP_SESSION_SETUP_TIMEOUT \<le> t)) c
     | Some stream \<Rightarrow>
         if st_is_publishing stream \<or> cn_claimed_publish_route c \<noteq> None then publish_media_squat_expired c
         else bindS (if cn_claimed_publish_route c \<noteq> None then publish_media_squat_expired else retS False) (\<lambda>expired.
           if expired then retS True
           else bindS setup_elapsed (\<lambda>t.
             if t < RTMP_SESSION_SETUP_TIMEOUT then retS False
             else if st_is_playing stream
             then bindS (getS (\<lambda>c. ac_media_bytes_sent (cn_activity c))) (\<lambda>sent.
               retS (\<not> (\<not> st_paused stream \<and> 0 < sent)))
             else retS True)) c)"

definition teardown_refreshes_setup_timer :: "conn \<Rightarrow> bool \<times> conn" where
  "teardown_refreshes_setup_timer c =
     (let a = cn_activity c;
          media_since_last_grant = (ac_teardown_grace_media_bytes_received a < ac_media_bytes_received a \<or>
            ac_teardown_grace_injected_bytes a < ac_injected_media_bytes_total a) in
      if \<not> media_since_last_grant \<and> ac_media_bytes_sent a \<le> ac_pause_grace_media_bytes_sent a then (False, c)
      else (True, upd_activity (\<lambda>a. a\<lparr>ac_teardown_grace_media_bytes_received := ac_media_bytes_received a,
        ac_teardown_grace_injected_bytes := ac_injected_media_bytes_total a,
        ac_pause_grace_media_bytes_sent := ac_media_bytes_sent a\<rparr>) c))"

section \<open>Routes and relayed frames\<close>

definition relay_cache_payload :: "relay_frame \<Rightarrow> bytes" where
  "relay_cache_payload f = (case rf_cache_payload f of Some p \<Rightarrow> p | None \<Rightarrow> rf_payload f)"

definition frame_delivery_hint :: "bool \<Rightarrow> relay_frame \<Rightarrow> delivery_hint result" where
  "frame_delivery_hint route_has_video f = delivery_classify (rf_frame_type f) (relay_cache_payload f) route_has_video"

definition retained_bytes :: "relay_frame \<Rightarrow> nat" where
  "retained_bytes f =
     sat_add (sat_add (sat_add (length (rf_payload f))
       (case rf_cache_payload f of Some p \<Rightarrow> length p | None \<Rightarrow> 0)) (length (rf_app f))) (length (rf_stream_name f))"

definition pending_relay_bytes :: "conn \<Rightarrow> nat" where
  "pending_relay_bytes c = sum_list (map retained_bytes (cn_pending_relay c))"

definition relay_route_key :: "conn \<Rightarrow> bytes" where
  "relay_route_key c =
     (if cn_relay_key c \<noteq> [] then cn_relay_key c
      else case cn_current_stream c of Some s \<Rightarrow> st_name s | None \<Rightarrow> [])"

definition accepts_multitrack :: "conn \<Rightarrow> bool" where
  "accepts_multitrack c \<longleftrightarrow>
     \<not> nc_has_caps_ex (cn_negotiated_caps c) \<or> nc_multitrack_enabled (cn_negotiated_caps c)"

definition note_abandoned_relay_route :: "bytes \<Rightarrow> bytes \<Rightarrow> conn \<Rightarrow> conn" where
  "note_abandoned_relay_route app r c =
     (let kept = filter (\<lambda>k. k \<noteq> (app, r)) (cn_abandoned_relay_routes c) in
      if MAX_PENDING_CACHE_EVICTIONS \<le> length kept then
        (case kept of
           [] \<Rightarrow> c\<lparr>cn_abandoned_relay_routes := [(app, r)]\<rparr>
         | old # kept \<Rightarrow>
             c\<lparr>cn_pending_relay := filter (\<lambda>f. (rf_app f, rf_stream_name f) \<noteq> old) (cn_pending_relay c),
               cn_abandoned_relay_routes := kept @ [(app, r)]\<rparr>)
      else c\<lparr>cn_abandoned_relay_routes := kept @ [(app, r)]\<rparr>)"

definition relay_route_abandoned :: "bytes \<Rightarrow> bytes \<Rightarrow> conn \<Rightarrow> bool" where
  "relay_route_abandoned app r c \<longleftrightarrow> (app, r) \<in> set (cn_abandoned_relay_routes c)"

definition try_push_pending_cache_eviction :: "bytes \<Rightarrow> bytes \<Rightarrow> conn \<Rightarrow> conn" where
  "try_push_pending_cache_eviction app route_key c =
     (let c = (if MAX_PENDING_CACHE_EVICTIONS \<le> length (cn_pending_cache_evictions c)
               then (case cn_pending_cache_evictions c of
                   [] \<Rightarrow> c
                 | (old_app, old_route) # rest \<Rightarrow>
                     note_abandoned_relay_route old_app old_route (c\<lparr>cn_pending_cache_evictions := rest\<rparr>))
               else c) in
      c\<lparr>cn_pending_cache_evictions := cn_pending_cache_evictions c @ [(app, route_key)]\<rparr>)"

definition push_pending_cache_eviction :: "bytes \<Rightarrow> bytes \<Rightarrow> (conn, unit) op" where
  "push_pending_cache_eviction app route_key = (\<lambda>c.
     if MAX_PENDING_CACHE_EVICTIONS \<le> length (cn_pending_cache_evictions c) then (err EProtocol, c)
     else (Inr (), c\<lparr>cn_pending_cache_evictions := cn_pending_cache_evictions c @ [(app, route_key)]\<rparr>))"

text \<open>\<open>if let Some(routes) = self.publish_routes.as_ref() { .. }\<close>\<close>

definition on_routes :: "(route_registry \<Rightarrow> route_registry) \<Rightarrow> conn \<Rightarrow> conn" where
  "on_routes f c = c\<lparr>cn_publish_routes := map_option f (cn_publish_routes c)\<rparr>"

definition release_claimed_publish_route :: "conn \<Rightarrow> conn" where
  "release_claimed_publish_route c =
     (case cn_claimed_publish_route c of
        None \<Rightarrow> c
      | Some claimed \<Rightarrow>
          on_routes (route_release (cn_conn_id c) (cn_app c) claimed) (c\<lparr>cn_claimed_publish_route := None\<rparr>))"

text \<open>The loop over route keys that skips empty and repeated ones.\<close>

primrec evict_each :: "bytes \<Rightarrow> bytes list \<Rightarrow> bytes list \<Rightarrow> conn \<Rightarrow> conn" where
  "evict_each app evicted [] c = c"
| "evict_each app evicted (k # ks) c =
     (if k \<noteq> [] \<and> k \<notin> set evicted
      then evict_each app (k # evicted) ks (try_push_pending_cache_eviction app k c)
      else evict_each app evicted ks c)"

definition evict_active_publish_route :: "conn \<Rightarrow> conn" where
  "evict_active_publish_route c =
     (let claimed_route = cn_claimed_publish_route c;
          was_publishing = stream_is st_is_publishing c;
          c = release_claimed_publish_route c;
          claimed_keys = (case claimed_route of Some k \<Rightarrow> [k] | None \<Rightarrow> []) in
      if \<not> was_publishing
      then upd_activity (\<lambda>a. a\<lparr>ac_injected_media_bytes := 0\<rparr>) (evict_each (cn_app c) [] claimed_keys c)
      else upd_activity (\<lambda>a. a\<lparr>ac_injected_media_bytes := 0\<rparr>)
        (upd_detected clear_detected_stream_metadata
          (evict_each (cn_app c) [] (claimed_keys @ [relay_route_key c]) c)))"

definition detach_lost_publish_route :: "conn \<Rightarrow> conn" where
  "detach_lost_publish_route c =
     (case cn_claimed_publish_route c of
        None \<Rightarrow> c
      | Some claimed \<Rightarrow>
          (let app = cn_app c; live = relay_route_key c in
           evict_each app [] [claimed, live]
             (c\<lparr>cn_claimed_publish_route := None, cn_relay_enabled := False,
                cn_pending_relay := filter (\<lambda>f. \<not> (rf_app f = app \<and> (rf_stream_name f = claimed \<or> rf_stream_name f = live)))
                  (cn_pending_relay c)\<rparr>)))"

datatype claim_outcome = Claimed | Contended | EvictionQueueFull

definition claim_publish_route :: "bytes \<Rightarrow> conn \<Rightarrow> claim_outcome \<times> conn" where
  "claim_publish_route strm c =
     (case cn_publish_routes c of
        None \<Rightarrow> (Claimed, c\<lparr>cn_claimed_publish_route := Some strm\<rparr>)
      | Some routes \<Rightarrow>
          (case route_claim (cn_conn_id c) (cn_app c) strm routes of
             (False, routes) \<Rightarrow> (Contended, c\<lparr>cn_publish_routes := Some routes\<rparr>)
           | (True, routes) \<Rightarrow>
               (let c = c\<lparr>cn_publish_routes := Some routes\<rparr> in
                case cn_claimed_publish_route c of
                  None \<Rightarrow> (Claimed, c\<lparr>cn_claimed_publish_route := Some strm\<rparr>)
                | Some prev \<Rightarrow>
                    if prev = strm then (Claimed, c)
                    else
                      (let c = on_routes (route_release (cn_conn_id c) (cn_app c) prev) c in
                       case (if prev = [] then (Inr (), c) else push_pending_cache_eviction (cn_app c) prev c) of
                         (Inl _, c) \<Rightarrow>
                           (EvictionQueueFull, on_routes (\<lambda>r. snd (route_claim (cn_conn_id c) (cn_app c) prev
                             (route_release (cn_conn_id c) (cn_app c) strm r))) c)
                       | (Inr _, c) \<Rightarrow> (Claimed, c\<lparr>cn_claimed_publish_route := Some strm\<rparr>)))))"

text \<open>
  A payload that was not rewritten is passed on as the same slice, and then no copy is kept for the cache; a
  rewritten one is shorter, so comparing the contents decides the same.
\<close>

definition queue_relay_frame :: "frame_type \<Rightarrow> u32 \<Rightarrow> bytes \<Rightarrow> bytes \<Rightarrow> (conn, unit) op" where
  "queue_relay_frame frame_type timestamp payload cache_payload = (\<lambda>c.
     if unat (min (reg_max_msg_length (cn_chunk_reg c)) RTMP_WIRE_MAX_MSG_LENGTH) < length payload then (err EInternal, c)
     else
       (let frame = \<lparr>rf_frame_type = frame_type, rf_timestamp = timestamp, rf_payload = payload,
              rf_cache_payload = (if cache_payload = payload then None else Some cache_payload),
              rf_app = cn_app c, rf_stream_name = relay_route_key c, rf_publisher_conn_id = cn_conn_id c\<rparr> in
        if MAX_PENDING_RELAY_FRAMES \<le> length (cn_pending_relay c) \<or>
           cn_max_pending_relay_bytes c < sat_add (pending_relay_bytes c) (retained_bytes frame)
        then (err EInternal, c)
        else (Inr (), c\<lparr>
          cn_abandoned_relay_routes := filter (\<lambda>k. k \<noteq> (cn_app c, relay_route_key c)) (cn_abandoned_relay_routes c),
          cn_pending_relay := cn_pending_relay c @ [frame]\<rparr>)))"

definition request_init_replay :: "(conn, unit) op" where
  "request_init_replay = bindS instant_now (\<lambda>now. modS (\<lambda>c.
     case cn_last_init_replay_request c of
       Some t \<Rightarrow>
         if now - t < INIT_REPLAY_COOLDOWN then c\<lparr>cn_init_replay_deferred := True\<rparr>
         else c\<lparr>cn_last_init_replay_request := Some now, cn_init_replay_deferred := False, cn_needs_init_frames := True\<rparr>
     | None \<Rightarrow>
         c\<lparr>cn_last_init_replay_request := Some now, cn_init_replay_deferred := False, cn_needs_init_frames := True\<rparr>))"

definition rearm_deferred_init_replay :: "(conn, unit) op" where
  "rearm_deferred_init_replay = (\<lambda>c.
     if \<not> cn_init_replay_deferred c then (Inr (), c)
     else if cn_needs_init_frames c then (Inr (), c\<lparr>cn_init_replay_deferred := False\<rparr>)
     else bindS instant_now (\<lambda>now. modS (\<lambda>c.
       if (case cn_last_init_replay_request c of Some t \<Rightarrow> now - t < INIT_REPLAY_COOLDOWN | None \<Rightarrow> False) then c
       else c\<lparr>cn_last_init_replay_request := Some now, cn_needs_init_frames := True, cn_init_replay_deferred := False\<rparr>)) c)"

end
