(* ===== verification/Conn_Send.thy ===== *)
theory Conn_Send
  imports Conn_State
begin

text \<open>
  The sending side of a connection (\<open>src/src/session/conn.rs\<close>): control and command messages, status
  replies, media messages, the writing of queued bytes to the socket, and the pings with which the
  connection finds out whether its peer is alive.
\<close>

section \<open>Messages\<close>

definition on_send_buffer :: "(buffer, 'a) op \<Rightarrow> (conn, 'a) op" where
  "on_send_buffer m = zoomS cn_send_buffer (\<lambda>b. upd_base (\<lambda>h. h\<lparr>hc_send_buffer := b\<rparr>)) m"

definition send_message :: "u32 \<Rightarrow> u8 \<Rightarrow> u32 \<Rightarrow> bytes \<Rightarrow> (conn, unit) op" where
  "send_message csid ty msg_stream_id data = bindS (getS (\<lambda>c. unat (cn_active_chunk_size c))) (\<lambda>size.
     on_send_buffer (chunk_write (chunk_message_default\<lparr>cm_csid := csid, cm_fmt := 0, cm_msg_length := of_nat (length data),
       cm_msg_type_id := ty, cm_msg_stream_id := msg_stream_id\<rparr>) data (length data) size))"

definition send_control :: "u8 \<Rightarrow> bytes \<Rightarrow> (conn, unit) op" where
  "send_control ty data = send_message 2 ty 0 data"

definition send_command :: "u32 \<Rightarrow> bytes \<Rightarrow> (conn, unit) op" where
  "send_command msg_stream_id amf_data = send_message 3 0x14 msg_stream_id amf_data"

text \<open>\<open>let mut buf = Buffer::with_capacity(n); build(&mut buf, ..)?;\<close> and the slice of what was written.\<close>

definition built :: "nat \<Rightarrow> (buffer, unit) op \<Rightarrow> bytes result" where
  "built capacity build = (case build (buf_with_capacity capacity) of
       (Inl e, _) \<Rightarrow> Inl e
     | (Inr _, b) \<Rightarrow> buf_as_slice b)"

definition send_acknowledgement :: "u32 \<Rightarrow> (conn, unit) op" where
  "send_acknowledgement seq = send_control 0x03 (be32 seq)"

definition send_user_control :: "nat \<Rightarrow> (buffer, unit) op \<Rightarrow> (conn, unit) op" where
  "send_user_control capacity build = bindS (liftS (built capacity build)) (send_control RTMP_MSG_USER_CONTROL)"

definition send_user_control_ping_request :: "u32 \<Rightarrow> (conn, unit) op" where
  "send_user_control_ping_request timestamp = send_user_control 6 (write_user_control_ping_request timestamp)"

definition send_user_control_ping_response :: "u32 \<Rightarrow> (conn, unit) op" where
  "send_user_control_ping_response timestamp = send_user_control 6 (write_user_control_ping_response timestamp)"

definition send_stream_lifecycle_begin :: "u32 \<Rightarrow> (conn, unit) op" where
  "send_stream_lifecycle_begin stream_id = thenS (send_user_control 14 (write_user_control_stream_begin stream_id))
     (bindS (getS cn_buffer_length_ms) (\<lambda>ms.
       send_user_control 14 (write_user_control_set_buffer_length stream_id ms)))"

definition send_stream_lifecycle_eof :: "u32 \<Rightarrow> (conn, unit) op" where
  "send_stream_lifecycle_eof stream_id = send_user_control 6 (write_user_control_stream_eof stream_id)"

definition send_built_command :: "u32 \<Rightarrow> nat \<Rightarrow> (buffer, unit) op \<Rightarrow> (conn, unit) op" where
  "send_built_command msg_stream_id capacity build =
     bindS (liftS (built capacity build)) (send_command msg_stream_id)"

definition activate_announced_chunk_size :: "conn \<Rightarrow> conn" where
  "activate_announced_chunk_size c = c\<lparr>cn_active_chunk_size := cn_chunk_size c\<rparr>"

definition apply_chunk_size :: "u32 \<Rightarrow> conn \<Rightarrow> conn" where
  "apply_chunk_size chunk_size c = c\<lparr>cn_chunk_size := chunk_size, cn_active_chunk_size := chunk_size,
     cn_chunk_reg := reg_set_all_chunk_size chunk_size (cn_chunk_reg c)\<rparr>"

definition send_connect_response :: "f64 \<Rightarrow> negotiated_caps option \<Rightarrow> (conn, unit) op" where
  "send_connect_response transaction_id caps =
     thenS (send_control 0x05 (be32 SERVER_WINDOW_ACK_SIZE))
     (thenS (send_control 0x06 (be32 SERVER_PEER_BANDWIDTH @ [PEER_BANDWIDTH_DYNAMIC]))
     (thenS (bindS (getS cn_chunk_size) (\<lambda>cs. send_control 0x01 (be32 cs)))
     (thenS (modS activate_announced_chunk_size)
       (bindS (getS cn_connect_object_encoding) (\<lambda>enc.
         send_built_command 0 512 (connect_response_body transaction_id enc caps))))))"

definition send_command_error :: "f64 \<Rightarrow> string \<Rightarrow> string \<Rightarrow> (conn, unit) op" where
  "send_command_error transaction_id code description =
     send_built_command 0 256 (build_error transaction_id (ascii code) (ascii description))"

definition send_create_stream_response :: "f64 \<Rightarrow> u32 \<Rightarrow> (conn, unit) op" where
  "send_create_stream_response transaction_id stream_id =
     send_built_command 0 256 (build_create_stream_result transaction_id (u32_to_f64 stream_id))"

definition send_onstatus :: "u32 \<Rightarrow> string \<Rightarrow> string \<Rightarrow> string \<Rightarrow> (conn, unit) op" where
  "send_onstatus stream_id level code description =
     send_built_command stream_id 512 (build_onstatus (ascii level) (ascii code) (ascii description))"

definition send_publish_denied :: "(conn, unit) op" where
  "send_publish_denied = send_onstatus 0 ''error'' ''NetStream.Publish.BadName'' ''Publish not authorized''"

definition send_play_denied :: "(conn, unit) op" where
  "send_play_denied = send_onstatus 0 ''error'' ''NetStream.Play.Failed'' ''Play not authorized''"

definition send_reconnect_request :: "bytes option \<Rightarrow> bytes option \<Rightarrow> (conn, unit) op" where
  "send_reconnect_request tc_url description =
     send_built_command 0 512 (build_reconnect_request tc_url description)"

definition send_shared_object :: "so_message \<Rightarrow> (conn, unit) op" where
  "send_shared_object so = bindS (liftS (built 256 (so_write so))) (\<lambda>amf.
     send_message 3 RTMP_MSG_AMF3_SHARED_OBJECT 0 (0x00 # amf))"

section \<open>Media\<close>

definition media_chunk_size :: "conn \<Rightarrow> nat" where
  "media_chunk_size c = (if cn_active_chunk_size c = 0 then 128 else unat (cn_active_chunk_size c))"

definition media_stream_id :: "conn \<Rightarrow> u32" where
  "media_stream_id c = stream_id_or 1 c"

definition on_media_out :: "(media_out, 'a) op \<Rightarrow> (conn, 'a) op" where
  "on_media_out m = zoomS (\<lambda>c. (cn_send_buffer c, cn_media_out_headers c))
     (\<lambda>(b, t) c. upd_base (\<lambda>h. h\<lparr>hc_send_buffer := b\<rparr>) (c\<lparr>cn_media_out_headers := t\<rparr>)) m"

definition count_media_sent :: "nat \<Rightarrow> conn \<Rightarrow> conn" where
  "count_media_sent n = upd_activity (\<lambda>a. a\<lparr>ac_media_bytes_sent := sat_add64 (ac_media_bytes_sent a) n\<rparr>)"

definition media_info :: "frame_type \<Rightarrow> u32 \<Rightarrow> conn \<Rightarrow> media_message_info" where
  "media_info ft timestamp c = \<lparr>mi_frame_type = ft, mi_msg_stream_id = media_stream_id c, mi_timestamp = timestamp\<rparr>"

definition send_frame :: "frame_type \<Rightarrow> u32 \<Rightarrow> bytes \<Rightarrow> (conn, unit) op" where
  "send_frame ft timestamp payload = (\<lambda>c.
     thenS (on_media_out (write_media_message (cn_compact_media_headers c) (media_info ft timestamp c) payload
       (media_chunk_size c))) (modS (count_media_sent (length payload))) c)"

definition send_data_message :: "u32 \<Rightarrow> bytes \<Rightarrow> (conn, unit) op" where
  "send_data_message = send_frame FScript"

definition send_encoded_media_body :: "frame_type \<Rightarrow> u32 \<Rightarrow> nat \<Rightarrow> bytes \<Rightarrow> (conn, unit) op" where
  "send_encoded_media_body ft timestamp payload_len body = (\<lambda>c.
     thenS (on_media_out (write_media_message_with_body (cn_compact_media_headers c) (media_info ft timestamp c)
       payload_len body)) (modS (count_media_sent payload_len)) c)"

section \<open>Writing to the socket\<close>

text \<open>The bytes go out; the ping that waits for them is counted down.\<close>

definition note_bytes_sent :: "nat \<Rightarrow> (conn, unit) op" where
  "note_bytes_sent n =
     thenS (modS (upd_pings (\<lambda>p. p\<lparr>pg_send_stalled_since := (if 0 < n then None else pg_send_stalled_since p),
       pg_send_progress_bytes := sat_add (pg_send_progress_bytes p) n\<rparr>)))
     (thenS (bindS (getS (\<lambda>c. pg_send_progress_bytes (cn_pings c))) (\<lambda>total.
        if SEND_PROGRESS_BYTES \<le> total
        then bindS instant_now (\<lambda>now. modS (upd_pings (\<lambda>p. p\<lparr>pg_send_progress_bytes := 0, pg_last_send_progress := Some now\<rparr>)))
        else retS ()))
       (modS (upd_pings (\<lambda>p. p\<lparr>pg_queued_ping := map_option (\<lambda>q. q\<lparr>qp_bytes_until_flushed := qp_bytes_until_flushed q - n\<rparr>)
         (pg_queued_ping p)\<rparr>))))"

text \<open>The hash map \<open>insert\<close>.\<close>

definition put_ping :: "u32 \<Rightarrow> instant \<Rightarrow> (u32 \<times> instant) list \<Rightarrow> (u32 \<times> instant) list" where
  "put_ping token now ps = (token, now) # filter (\<lambda>(t, _). t \<noteq> token) ps"

definition commit_flushed_ping :: "(conn, unit) op" where
  "commit_flushed_ping = (\<lambda>c. case pg_queued_ping (cn_pings c) of
       None \<Rightarrow> (Inr (), c)
     | Some queued \<Rightarrow>
         if 0 < qp_bytes_until_flushed queued then (Inr (), c)
         else bindS instant_now (\<lambda>now. modS (upd_pings (\<lambda>p. p\<lparr>
           pg_pending_pings := put_ping (qp_token queued) now (pg_pending_pings p),
           pg_last_ping_sent := Some now, pg_queued_ping := None\<rparr>))) c)"

text \<open>\<open>transport.try_send(buf, ..)?\<close>\<close>

definition try_send :: "bytes \<Rightarrow> (conn, nat) op" where
  "try_send data = bindS (getS cn_env) (\<lambda>e. bindS (outside (\<lambda>t. en_send e t data)) (\<lambda>r. bindS (liftS r) (\<lambda>n.
     thenS (modS (\<lambda>c. c\<lparr>cn_wire := cn_wire c @ take n data\<rparr>)) (retS n))))"

text \<open>Each round drains at least one byte, so the number of bytes queued is enough rounds.\<close>

primrec flush_loop :: "nat \<Rightarrow> (conn, unit) op" where
  "flush_loop 0 = retS ()"
| "flush_loop (Suc left) = (\<lambda>c.
     if buf_available (cn_send_buffer c) = 0 \<or> \<not> cn_has_transport c then (Inr (), c)
     else bindS (liftS (buf_peek (cn_send_buffer c))) (\<lambda>data. bindS (try_send data) (\<lambda>n.
       if n = 0 then retS ()
       else thenS (on_send_buffer (modS (buf_drain n))) (thenS (note_bytes_sent n) (flush_loop left)))) c)"

definition note_stall :: "(conn, unit) op" where
  "note_stall = (\<lambda>c.
     if buf_available (cn_send_buffer c) = 0
     then (Inr (), upd_pings (\<lambda>p. p\<lparr>pg_send_stalled_since := None\<rparr>)
       (upd_base (\<lambda>h. h\<lparr>hc_send_buffer := buf_reset (hc_send_buffer h)\<rparr>) c))
     else if cn_has_transport c \<and> pg_send_stalled_since (cn_pings c) = None
     then bindS instant_now (\<lambda>now. modS (upd_pings (\<lambda>p. p\<lparr>pg_send_stalled_since := Some now\<rparr>))) c
     else (Inr (), c))"

definition flush :: "(conn, unit) op" where
  "flush = (\<lambda>c.
     if \<not> hc_has_fd (cn_base c) \<or> buf_available (cn_send_buffer c) = 0 then commit_flushed_ping c
     else thenS (flush_loop (buf_available (cn_send_buffer c))) (thenS note_stall commit_flushed_ping) c)"

definition disconnect_transport :: "conn \<Rightarrow> conn" where
  "disconnect_transport c = upd_base (\<lambda>h. h\<lparr>hc_has_fd := False\<rparr>) (c\<lparr>cn_has_transport := False\<rparr>)"

section \<open>Staged media\<close>

text \<open>Whether the transport is encrypted is a fact about the transport.\<close>

definition can_stage_media :: "bool \<Rightarrow> conn \<Rightarrow> bool" where
  "can_stage_media is_tls c \<longleftrightarrow>
     buf_available (cn_send_buffer c) = 0 \<and> hc_has_fd (cn_base c) \<and> cn_has_transport c \<and> \<not> is_tls"

text \<open>The state is the connection and the caller's buffer of headers.\<close>

definition stage_encoded_media_body :: "frame_type \<Rightarrow> u32 \<Rightarrow> nat \<Rightarrow> nat \<Rightarrow> (conn \<times> buffer, nat) op" where
  "stage_encoded_media_body ft timestamp payload_len body_len = (\<lambda>(c, headers).
     case tracker_choose (cn_media_out_headers c) (cn_compact_media_headers c) ft (media_stream_id c) timestamp payload_len of
       Inl e \<Rightarrow> (Inl e, (c, headers))
     | Inr header \<Rightarrow>
         (let head_len = media_first_encoded_len header in
          case thenS (buf_reserve head_len) (media_first_write header) headers of
            (Inl e, headers) \<Rightarrow> (Inl e, (c, headers))
          | (Inr _, headers) \<Rightarrow>
              (case tracker_commit header (cn_media_out_headers c) of
                 Inl e \<Rightarrow> (Inl e, (c, headers))
               | Inr t \<Rightarrow> (Inr head_len, (count_media_sent payload_len (c\<lparr>cn_media_out_headers := t,
                   cn_staged_media_bytes := sat_add (cn_staged_media_bytes c) (head_len + body_len)\<rparr>), headers)))))"

text \<open>\<open>transport.try_send_vectored(&parts[next..], offset, ..)?\<close>\<close>

definition try_send_vectored :: "bytes list \<Rightarrow> nat \<Rightarrow> (conn, nat) op" where
  "try_send_vectored parts offset = bindS (getS cn_env) (\<lambda>e.
     bindS (outside (\<lambda>t. en_send_vectored e t parts offset)) (\<lambda>r. bindS (liftS r) (\<lambda>n.
       thenS (modS (\<lambda>c. c\<lparr>cn_wire := cn_wire c @ take n (drop offset (concat parts))\<rparr>)) (retS n))))"

text \<open>The parts from \<open>next\<close> on and the offset into the first of them, after some bytes went out.\<close>

fun advance_parts :: "nat \<Rightarrow> bytes list \<Rightarrow> nat \<Rightarrow> (bytes list \<times> nat) result" where
  "advance_parts 0 parts offset = Inr (parts, offset)"
| "advance_parts (Suc n) [] offset = panic"
| "advance_parts (Suc n) (p # ps) offset =
     (if length p < offset then panic
      else if Suc n < length p - offset then Inr (p # ps, offset + Suc n)
      else advance_parts (Suc n - (length p - offset)) ps 0)"

primrec staged_loop :: "nat \<Rightarrow> bytes list \<Rightarrow> nat \<Rightarrow> (conn, bytes list \<times> nat) op" where
  "staged_loop 0 = (\<lambda>parts offset. retS (parts, offset))"
| "staged_loop (Suc left) = (\<lambda>parts offset c.
     if parts = [] \<or> \<not> cn_has_transport c then (Inr (parts, offset), c)
     else bindS (try_send_vectored parts offset) (\<lambda>n.
       if n = 0 then retS (parts, offset)
       else thenS (note_bytes_sent n) (bindS (liftS (advance_parts n parts offset)) (\<lambda>(parts, offset).
         staged_loop left parts offset))) c)"

primrec write_parts :: "bytes list \<Rightarrow> (buffer, unit) op" where
  "write_parts [] = retS ()"
| "write_parts (p # ps) = thenS (buf_write p) (write_parts ps)"

definition queue_parts :: "bytes list \<Rightarrow> nat \<Rightarrow> (buffer, unit) op" where
  "queue_parts parts offset = (case parts of
       [] \<Rightarrow> retS ()
     | p # ps \<Rightarrow>
         bindS (liftS (subslice p offset (length p))) (\<lambda>d.
           thenS (buf_reserve (length p - offset + sum_list (map length ps)))
             (thenS (buf_write d) (write_parts ps))))"

text \<open>Every round sends at least one byte, so the bytes of all parts are enough rounds.\<close>

definition send_staged_media :: "bytes list \<Rightarrow> (conn, unit) op" where
  "send_staged_media parts = thenS (modS (\<lambda>c. c\<lparr>cn_staged_media_bytes := 0\<rparr>))
     (bindS (staged_loop (Suc (length (concat parts))) parts 0) (\<lambda>(parts, offset).
       on_send_buffer (queue_parts parts offset)))"

section \<open>Pings\<close>

definition within_timeout :: "nat \<Rightarrow> instant \<Rightarrow> instant option \<Rightarrow> bool" where
  "within_timeout limit now t = (case t of Some t \<Rightarrow> now - t < limit | None \<Rightarrow> False)"

definition peer_is_draining :: "instant \<Rightarrow> conn \<Rightarrow> bool" where
  "peer_is_draining now c = within_timeout PING_TIMEOUT now (pg_last_send_progress (cn_pings c))"

definition peer_is_sending :: "instant \<Rightarrow> conn \<Rightarrow> bool" where
  "peer_is_sending now c = within_timeout PING_TIMEOUT now (pg_last_recv_progress (cn_pings c))"

text \<open>\<open>pending_pings.retain(|_, sent| now.duration_since(*sent) < PING_TIMEOUT)\<close>\<close>

definition drop_stale_pings :: "instant \<Rightarrow> conn \<Rightarrow> conn" where
  "drop_stale_pings now = upd_pings (\<lambda>p. p\<lparr>pg_pending_pings := filter (\<lambda>(_, sent). now - sent < PING_TIMEOUT) (pg_pending_pings p)\<rparr>)"

definition queue_ping :: "instant \<Rightarrow> (conn, unit) op" where
  "queue_ping now = bindS (getS (\<lambda>c. pg_next_ping_token (cn_pings c))) (\<lambda>token.
     thenS (modS (upd_pings (\<lambda>p. p\<lparr>pg_next_ping_token := pg_next_ping_token p + 1\<rparr>)))
     (thenS (send_user_control_ping_request token)
       (modS (\<lambda>c. upd_pings (\<lambda>p. p\<lparr>pg_queued_ping := Some \<lparr>qp_token = token, qp_queued_at = now,
         qp_bytes_until_flushed = buf_available (cn_send_buffer c)\<rparr>\<rparr>) c))))"

definition ping_due :: "instant \<Rightarrow> (conn, unit) op" where
  "ping_due now = (\<lambda>c.
     let media_to_peer = peer_is_draining now c;
         data_from_peer = peer_is_sending now c;
         draining = media_to_peer \<or> data_from_peer;
         c = (if data_from_peer \<and> \<not> media_to_peer then drop_stale_pings now c else c) in
     case pg_queued_ping (cn_pings c) of
       Some queued \<Rightarrow>
         if \<not> draining \<and> PING_TIMEOUT \<le> now - qp_queued_at queued then (err EProtocol, c) else (Inr (), c)
     | None \<Rightarrow>
         if draining \<and> pg_pending_pings (cn_pings c) \<noteq> [] then (Inr (), c)
         else
           (let had_stale_ping = (\<not> draining \<and> (\<exists>(_, sent) \<in> set (pg_pending_pings (cn_pings c)). PING_TIMEOUT \<le> now - sent));
                c = (if \<not> draining then drop_stale_pings now c else c) in
            if had_stale_ping then (err EProtocol, c)
            else if MAX_PENDING_PINGS \<le> length (pg_pending_pings (cn_pings c)) then (err EProtocol, c)
            else queue_ping now c))"

definition maybe_send_ping :: "(conn, unit) op" where
  "maybe_send_ping = (\<lambda>c.
     if cn_state c < AppConnected then (Inr (), c)
     else bindS instant_now (\<lambda>now c.
       if (case pg_send_stalled_since (cn_pings c) of Some t \<Rightarrow> WRITE_STALL_TIMEOUT \<le> now - t | None \<Rightarrow> False)
       then (err EProtocol, c)
       else if within_timeout PING_INTERVAL now (pg_last_ping_sent (cn_pings c)) then (Inr (), c)
       else ping_due now c) c)"

section \<open>Control messages from the peer\<close>

definition answer_ping :: "u32 \<Rightarrow> (conn, unit) op" where
  "answer_ping param = bindS instant_now (\<lambda>now.
     thenS (modS (upd_pings (\<lambda>p. case pg_inbound_ping_window_start p of
         Some start \<Rightarrow>
           if INBOUND_PING_WINDOW \<le> now - start
           then p\<lparr>pg_inbound_ping_window_start := Some now, pg_inbound_ping_responses := 0\<rparr> else p
       | None \<Rightarrow> p\<lparr>pg_inbound_ping_window_start := Some now\<rparr>)))
     (bindS (getS (\<lambda>c. pg_inbound_ping_responses (cn_pings c))) (\<lambda>n.
       if MAX_INBOUND_PING_RESPONSES \<le> n then failS (Err EProtocol)
       else thenS (modS (upd_pings (\<lambda>p. p\<lparr>pg_inbound_ping_responses := pg_inbound_ping_responses p + 1\<rparr>)))
         (send_user_control_ping_response param))))"

definition ping_answered :: "u32 \<Rightarrow> (conn, unit) op" where
  "ping_answered token = (\<lambda>c. case map_of (pg_pending_pings (cn_pings c)) token of
       None \<Rightarrow> (Inr (), c)
     | Some sent_at \<Rightarrow>
         bindS instant_now (\<lambda>now. modS (upd_pings (\<lambda>p. p\<lparr>pg_rtt := now - sent_at,
           pg_pending_pings := filter (\<lambda>(t, _). t \<noteq> token) (pg_pending_pings p)\<rparr>))) c)"

definition handle_user_control :: "bytes \<Rightarrow> (conn, unit) op" where
  "handle_user_control payload =
     (if length payload < 6 then retS ()
      else bindS (liftS (idx payload 0)) (\<lambda>b0. bindS (liftS (idx payload 1)) (\<lambda>b1.
        let event_type = push_bit 8 (ucast b0) OR ucast b1 in
        bindS (liftS (read_user_control payload (event_type = UCTRL_SET_BUFFER_LENGTH))) (\<lambda>(ty, param1, p2).
          let param2 = (if event_type = UCTRL_SET_BUFFER_LENGTH then p2 else None) in
          if ty = UCTRL_PING_RESPONSE then ping_answered param1
          else if ty = UCTRL_PING_REQUEST then answer_ping param1
          else if ty = UCTRL_SET_BUFFER_LENGTH
          then (case param2 of Some ms \<Rightarrow> modS (\<lambda>c. c\<lparr>cn_buffer_length_ms := ms\<rparr>) | None \<Rightarrow> retS ())
          else retS ()))))"

text \<open>\<open>format!("invalid SetChunkSize {raw:?} from peer")\<close>\<close>

definition bad_chunk_size_reason :: "bytes \<Rightarrow> bytes" where
  "bad_chunk_size_reason payload = ascii ''invalid SetChunkSize '' @
     (case ntoh32 payload of
        Inr raw \<Rightarrow> if 4 \<le> length payload then ascii ''Some('' @ dec_digits (unat raw) @ ascii '')'' else ascii ''None''
      | Inl _ \<Rightarrow> ascii ''None'') @ ascii '' from peer''"

definition handle_control :: "u8 \<Rightarrow> bytes \<Rightarrow> (conn, unit) op" where
  "handle_control ty payload =
     (if ty = RTMP_MSG_SET_CHUNK_SIZE
      then (case read_set_chunk_size payload of
          Inr cs \<Rightarrow> modS (\<lambda>c. c\<lparr>cn_chunk_reg := reg_set_all_chunk_size cs (cn_chunk_reg c)\<rparr>)
        | Inl e \<Rightarrow> thenS (modS (conn_close_reason LogWarn (bad_chunk_size_reason payload))) (failS e))
      else if ty = RTMP_MSG_ABORT_MESSAGE
      then (if 4 \<le> length payload
            then (case read_abort_message payload of
                Inr csid \<Rightarrow> zoomS cn_chunk_reg (\<lambda>r c. c\<lparr>cn_chunk_reg := r\<rparr>) (reg_abort_stream csid)
              | Inl Panic \<Rightarrow> failS Panic
              | Inl (Err _) \<Rightarrow> retS ())
            else retS ())
      else if ty = RTMP_MSG_WINDOW_ACK_SIZE
      then (if 4 \<le> length payload
            then (case read_window_ack_size payload of
                Inr win \<Rightarrow> modS (\<lambda>c. c\<lparr>cn_window_ack_size := win\<rparr>)
              | Inl Panic \<Rightarrow> failS Panic
              | Inl (Err _) \<Rightarrow> retS ())
            else retS ())
      else if ty = RTMP_MSG_ACKNOWLEDGEMENT
      then (if 4 \<le> length payload \<and> read_acknowledgement_size payload = panic then failS Panic else retS ())
      else if ty = RTMP_MSG_SET_PEER_BANDWIDTH
      then (if 5 \<le> length payload \<and> read_set_peer_bandwidth payload = panic then failS Panic else retS ())
      else retS ())"

end
