(* ===== verification/Conn_Inv.thy ===== *)
theory Conn_Inv
  imports Conn_Send
begin

text \<open>
  The invariant of a server connection, and what its sending side keeps. The lemmas have the form
  \<open>keeps I m Q\<close>: from a state with \<open>I\<close> the operation \<open>m\<close> does not panic and ends in a state with \<open>I\<close>,
  whether it returns or fails, and what it returns has \<open>Q\<close>.

  \<open>quiet k\<close> is the invariant together with a fixed value of everything that decides about sessions,
  routes and relayed frames (\<open>core\<close>), so \<open>keeps (quiet k) m Q\<close> for all \<open>k\<close> says that \<open>m\<close> changes
  nothing of that.
\<close>

section \<open>Messages only append\<close>

lemma appends_lift [intro]: "r \<noteq> panic \<Longrightarrow> bq.appends (liftS r)"
  by (simp add: bq.appends_def)

lemma appends_get [intro]: "bq.appends (getS f)"
  by (simp add: bq.appends_def)

lemma appends_amf0_put [intro]: "bq.appends (amf0_put d)"
  unfolding amf0_put_def by (intro bq.appends_void bq.appends_map_err bq.appends_write)

lemmas appends_rules = bq.appends_then bq.appends_void bq.appends_map_err bq.appends_if bq.appends_ret bq.appends_fail
  bq.appends_write bq.appends_reserve appends_amf0_put appends_lift appends_get

lemma appends_amf0_writers:
  "bq.appends (amf0_write_number v)" "bq.appends (amf0_write_boolean t)" "bq.appends amf0_write_null"
  "bq.appends (amf0_write_string s)" "bq.appends (amf0_write_object_key s)"
  "bq.appends amf0_write_object_begin" "bq.appends amf0_write_object_end"
  unfolding amf0_write_number_def amf0_write_boolean_def amf0_write_null_def amf0_write_string_def
    amf0_write_object_key_def amf0_write_object_begin_def amf0_write_object_end_def
  by (intro appends_rules; simp)+

lemma appends_members:
  "bq.appends (write_member key v)" "bq.appends (build_head name t)" "bq.appends (build_status level code description)"
  unfolding write_member_def build_head_def build_status_def
  by (intro appends_rules appends_amf0_writers)+

lemma appends_builders:
  "bq.appends (build_error t code description)" "bq.appends (build_create_stream_result t sid)"
  "bq.appends (build_onstatus level code description)" "bq.appends (build_reconnect_request tc_url description')"
  unfolding build_error_def build_create_stream_result_def build_onstatus_def build_reconnect_request_def
    build_status_def
  by (intro appends_rules appends_amf0_writers appends_members; auto split: option.split intro!: appends_rules appends_amf0_writers appends_members)+

lemma appends_user_control:
  "bq.appends (write_user_control_ping_request t)" "bq.appends (write_user_control_ping_response t)"
  "bq.appends (write_user_control_stream_begin sid)" "bq.appends (write_user_control_stream_eof sid)"
  "bq.appends (write_user_control_set_buffer_length sid ms)"
  unfolding control_write_defs by (intro appends_rules)+

lemma appends_list_loop:
  "entries_wf es \<Longrightarrow> \<forall>i \<in> set is. i < MAX_FOURCCS \<Longrightarrow> bq.appends (write_four_cc_list_loop es is)"
  by (induction "is")
    (auto simp: entry_key_name bindS_lift simp del: retS_apply intro!: appends_rules appends_amf0_writers)

lemma appends_info_map_loop:
  "map_wf m \<Longrightarrow> \<forall>i \<in> set is. i < MAX_FOURCCS \<Longrightarrow> bq.appends (write_info_map_loop m is)"
  by (induction "is")
    (auto simp: entry_key_name bindS_lift map_wf_def simp del: retS_apply intro!: appends_rules appends_amf0_writers)

lemma appends_caps:
  assumes "caps_sound c"
  shows "bq.appends (write_negotiated_caps c)"
proof -
  have "bq.appends (write_four_cc_list_amf (nc_four_cc_list c))"
    "bq.appends (write_video_fourcc_info_map_amf (nc_video_four_cc_info_map c))"
    using assms unfolding write_four_cc_list_amf_def write_video_fourcc_info_map_amf_def
    by (auto simp: caps_sound_def list_wf_def map_wf_def
        intro!: appends_rules appends_amf0_writers appends_list_loop appends_info_map_loop)
  moreover have "bq.appends (write_reconnect_amf rc)" for rc
    unfolding write_reconnect_amf_def reconnect_write_def
    by (auto simp: amf0_write_long_string_bytes_def copy_at_def bindS_lift intro!: appends_rules)
  ultimately show ?thesis
    unfolding write_negotiated_caps_def write_caps_ex_amf_def by (intro appends_rules appends_amf0_writers)
qed

lemma appends_connect_response:
  assumes "\<And>c. caps = Some c \<Longrightarrow> caps_sound c"
  shows "bq.appends (connect_response_body t enc caps)"
proof -
  have "bq.appends (case caps of None \<Rightarrow> retS () | Some c \<Rightarrow> write_negotiated_caps c)"
    using assms by (cases caps) (simp_all del: retS_apply add: bq.appends_ret appends_caps)
  then show ?thesis
    unfolding connect_response_body_def by (intro appends_rules appends_amf0_writers appends_members)
qed

lemma appends_so_write: "bq.appends (so_write m)"
proof -
  have "bq.appends (so_write_events es)" for es
    by (induction es) (auto simp del: retS_apply intro!: appends_rules)
  then show ?thesis unfolding so_write_def by (intro appends_rules) simp_all
qed

lemma built_no_panic:
  assumes "bq.appends m"
  shows "built n m \<noteq> panic"
  using bq.appendsD(1,2) [OF assms, of "buf_with_capacity n"]
  by (auto simp: built_def buf_as_slice_def subslice_def buf_inv_def [of "snd _"] split: prod.split sum.split)

section \<open>The invariant\<close>

text \<open>What the sockets promise: a call takes at most the bytes it was offered, and comes back.\<close>

definition honest :: "environment \<Rightarrow> bool" where
  "honest e \<longleftrightarrow>
     (\<forall>t d. en_send e t d \<noteq> panic \<and> (\<forall>n. en_send e t d = Inr n \<longrightarrow> n \<le> length d)) \<and>
     (\<forall>t ps off. en_send_vectored e t ps off \<noteq> panic \<and>
        (\<forall>n. en_send_vectored e t ps off = Inr n \<longrightarrow> n \<le> length (drop off (concat ps))))"

text \<open>The pings in flight and the one waiting in the send buffer share one limit.\<close>

definition pings_ok :: "pings \<Rightarrow> bool" where
  "pings_ok p \<longleftrightarrow> length (pg_pending_pings p) + (if pg_queued_ping p = None then 0 else 1) \<le> MAX_PENDING_PINGS \<and>
     pg_inbound_ping_responses p \<le> MAX_INBOUND_PING_RESPONSES"

definition relay_ok :: "conn \<Rightarrow> bool" where
  "relay_ok c \<longleftrightarrow> length (cn_pending_relay c) \<le> MAX_PENDING_RELAY_FRAMES \<and>
     (cn_max_pending_relay_bytes c < USIZE_MAX \<longrightarrow> pending_relay_bytes c \<le> cn_max_pending_relay_bytes c) \<and>
     length (cn_pending_cache_evictions c) \<le> MAX_PENDING_CACHE_EVICTIONS \<and>
     length (cn_abandoned_relay_routes c) \<le> MAX_PENDING_CACHE_EVICTIONS"

definition auth_ok :: "auth \<Rightarrow> bool" where
  "auth_ok a \<longleftrightarrow> length (au_resolved_ids a) \<le> RESOLVED_AUTH_ID_MEMORY"

definition conn_inv :: "conn \<Rightarrow> bool" where
  "conn_inv c \<longleftrightarrow> buf_inv (cn_recv_buffer c) \<and> buf_inv (cn_send_buffer c) \<and> buf_inv (hs_out (hc_handshake (cn_base c))) \<and>
     reg_inv (cn_chunk_reg c) \<and> tracker_ok (cn_media_out_headers c) \<and> honest (cn_env c) \<and> pings_ok (cn_pings c) \<and>
     relay_ok c \<and> auth_ok (cn_publish_auth c) \<and> auth_ok (cn_play_auth c)"

text \<open>What decides about sessions, routes and relayed frames.\<close>

definition core ::
  "conn \<Rightarrow> conn_state \<times> stream option \<times> auth \<times> auth \<times> bool \<times> bool \<times> relay_frame list \<times> nat \<times> route_registry option \<times>
     bytes option \<times> (bytes \<times> bytes) list \<times> (bytes \<times> bytes) list \<times> host_event list \<times> callbacks \<times> bytes \<times> bytes \<times> u64" where
  "core c = (cn_state c, cn_current_stream c, cn_publish_auth c, cn_play_auth c, cn_relay_enabled c, cn_defer_media_relay c,
     cn_pending_relay c, cn_max_pending_relay_bytes c, cn_publish_routes c, cn_claimed_publish_route c,
     cn_pending_cache_evictions c, cn_abandoned_relay_routes c, cn_log c, cn_callbacks c, cn_app c, cn_relay_key c, cn_conn_id c)"

abbreviation quiet ::
  "conn_state \<times> stream option \<times> auth \<times> auth \<times> bool \<times> bool \<times> relay_frame list \<times> nat \<times> route_registry option \<times>
     bytes option \<times> (bytes \<times> bytes) list \<times> (bytes \<times> bytes) list \<times> host_event list \<times> callbacks \<times> bytes \<times> bytes \<times> u64 \<Rightarrow>
   conn \<Rightarrow> bool" where
  "quiet k c \<equiv> conn_inv c \<and> core c = k"

lemma keeps_frame:
  assumes "\<And>k. keeps (\<lambda>c. I c \<and> f c = k) m Q"
  shows "keeps (\<lambda>c. I c \<and> P (f c)) m Q"
  using assms unfolding keeps_iff by metis

text \<open>The judgement without a condition on the result, and its rules.\<close>

abbreviation safe :: "('s \<Rightarrow> bool) \<Rightarrow> ('s, 'a) op \<Rightarrow> bool" where
  "safe I m \<equiv> keeps I m (\<lambda>_. True)"

lemma safe_then: "safe I m \<Longrightarrow> safe I n \<Longrightarrow> safe I (thenS m n)"
  by (rule moves_then)

lemma safe_bind: "safe I m \<Longrightarrow> (\<And>x. safe I (f x)) \<Longrightarrow> safe I (bindS m f)"
  by (rule moves_bind)

lemma safe_get: "safe I (getS f)"
  by (rule moves_get) simp

lemma safe_ret: "safe I (retS x)"
  by (rule moves_ret) simp

lemma safe_lift: "r \<noteq> panic \<Longrightarrow> safe I (liftS r)"
  by (rule moves_lift) simp_all

lemma safe_point: "(\<And>c. safe I (f c)) \<Longrightarrow> safe I (\<lambda>c. f c c)"
  unfolding keeps_iff by blast

lemmas safe_rules = safe_then safe_bind safe_get safe_ret moves_if

lemma relay_ok_core: "core c = core c' \<Longrightarrow> relay_ok c = relay_ok c'"
  by (simp add: core_def relay_ok_def pending_relay_bytes_def)

lemmas upd_defs = upd_base_def upd_activity_def upd_pings_def upd_detected_def upd_stream_def

lemmas conn_inv_defs = conn_inv_def relay_ok_def pending_relay_bytes_def core_def

section \<open>Interactions\<close>

lemma conn_inv_tick [simp]: "conn_inv (c\<lparr>cn_tick := n\<rparr>) = conn_inv c" "core (c\<lparr>cn_tick := n\<rparr>) = core c"
  by (simp_all add: conn_inv_defs)

lemma conn_inv_wire [simp]: "conn_inv (c\<lparr>cn_wire := n\<rparr>) = conn_inv c" "core (c\<lparr>cn_wire := n\<rparr>) = core c"
  by (simp_all add: conn_inv_defs)

lemma conn_inv_activity [simp]: "conn_inv (upd_activity f c) = conn_inv c" "core (upd_activity f c) = core c"
  by (simp_all add: conn_inv_defs upd_activity_def)

lemma conn_inv_pings:
  "conn_inv c \<Longrightarrow> pings_ok (f (cn_pings c)) \<Longrightarrow> conn_inv (upd_pings f c)" "core (upd_pings f c) = core c"
  by (simp_all add: conn_inv_defs upd_pings_def)

lemma conn_invD:
  assumes "conn_inv c"
  shows "buf_inv (cn_recv_buffer c)" "buf_inv (cn_send_buffer c)" "reg_inv (cn_chunk_reg c)" "tracker_ok (cn_media_out_headers c)"
    "honest (cn_env c)" "pings_ok (cn_pings c)" "relay_ok c" "auth_ok (cn_publish_auth c)" "auth_ok (cn_play_auth c)"
  using assms by (simp_all add: conn_inv_def)

text \<open>Invariants that do not depend on the pings, apart from their limits, nor on the interaction number.\<close>

definition stable :: "(conn \<Rightarrow> bool) \<Rightarrow> bool" where
  "stable I \<longleftrightarrow> (\<forall>c. I c \<longrightarrow> conn_inv c) \<and> (\<forall>c n. I c \<longrightarrow> I (c\<lparr>cn_tick := n\<rparr>)) \<and>
     (\<forall>c f. I c \<longrightarrow> pings_ok (f (cn_pings c)) \<longrightarrow> I (upd_pings f c))"

lemma stable_quiet: "stable (quiet k)"
  by (simp add: stable_def conn_inv_pings)

lemma stableD: "stable I \<Longrightarrow> I c \<Longrightarrow> conn_inv c"
  by (simp add: stable_def)

lemma safe_outside: "stable I \<Longrightarrow> safe I (outside answer)"
  by (simp add: keeps_iff outside_def stable_def)

lemma safe_now: "stable I \<Longrightarrow> safe I instant_now"
  unfolding instant_now_def by (intro safe_rules safe_outside)

lemma safe_pings: "stable I \<Longrightarrow> (\<And>p. pings_ok p \<Longrightarrow> pings_ok (f p)) \<Longrightarrow> safe I (modS (upd_pings f))"
  by (rule keeps_mod) (simp_all add: stable_def conn_invD(6))

lemma length_filter_le_trans: "length xs \<le> n \<Longrightarrow> length (filter P xs) \<le> n"
  by (rule le_trans [OF length_filter_le])

lemma pings_ok_fields [simp]:
  "pings_ok (p\<lparr>pg_send_stalled_since := a\<rparr>) = pings_ok p" "pings_ok (p\<lparr>pg_send_progress_bytes := n\<rparr>) = pings_ok p"
  "pings_ok (p\<lparr>pg_last_send_progress := a\<rparr>) = pings_ok p" "pings_ok (p\<lparr>pg_last_recv_progress := a\<rparr>) = pings_ok p"
  "pings_ok (p\<lparr>pg_last_ping_sent := a\<rparr>) = pings_ok p" "pings_ok (p\<lparr>pg_next_ping_token := t\<rparr>) = pings_ok p"
  "pings_ok (p\<lparr>pg_inbound_ping_window_start := a\<rparr>) = pings_ok p" "pings_ok (p\<lparr>pg_rtt := n\<rparr>) = pings_ok p"
  "pings_ok (p\<lparr>pg_queued_ping := map_option f (pg_queued_ping p)\<rparr>) = pings_ok p"
  by (simp_all add: pings_ok_def)

lemma safe_note_bytes_sent: "stable I \<Longrightarrow> safe I (note_bytes_sent n)"
  unfolding note_bytes_sent_def by (intro safe_rules safe_now safe_pings) simp_all

lemma pings_ok_commit:
  assumes "pings_ok p" "pg_queued_ping p \<noteq> None"
  shows "pings_ok (p\<lparr>pg_pending_pings := put_ping t now (pg_pending_pings p), pg_last_ping_sent := s, pg_queued_ping := None\<rparr>)"
proof -
  have "Suc (length (pg_pending_pings p)) \<le> MAX_PENDING_PINGS"
    using assms by (simp add: pings_ok_def)
  then have "Suc (length (filter (\<lambda>(u, _). u \<noteq> t) (pg_pending_pings p))) \<le> MAX_PENDING_PINGS"
    by (rule le_trans [OF Suc_le_mono [THEN iffD2, OF length_filter_le]])
  with assms(1) show ?thesis by (simp add: pings_ok_def put_ping_def)
qed

lemma safe_commit_flushed_ping:
  assumes "stable I"
  shows "safe I commit_flushed_ping"
proof (unfold keeps_iff, intro allI impI)
  fix c assume c: "I c"
  show "fst (commit_flushed_ping c) \<noteq> panic \<and> I (snd (commit_flushed_ping c)) \<and>
      (\<forall>y. fst (commit_flushed_ping c) = Inr y \<longrightarrow> True)"
  proof (cases "pg_queued_ping (cn_pings c)")
    case None
    then show ?thesis using c by (simp add: commit_flushed_ping_def)
  next
    case (Some q)
    have "I (upd_pings (\<lambda>p. p\<lparr>pg_pending_pings := put_ping t n (pg_pending_pings p), pg_last_ping_sent := s,
        pg_queued_ping := None\<rparr>) (c\<lparr>cn_tick := m\<rparr>))" for t n s m
      using assms c Some pings_ok_commit [of "cn_pings c"] conn_invD(6) [OF stableD [OF assms c]] unfolding stable_def
      by simp
    then show ?thesis
      using c Some by (simp add: commit_flushed_ping_def instant_now_def outside_def op_simps)
  qed
qed

lemma keeps_activity: "safe (quiet k) (modS (upd_activity f))"
  by (rule keeps_mod) simp_all

section \<open>Sending\<close>

lemma conn_inv_send:
  "conn_inv c \<Longrightarrow> buf_inv b \<Longrightarrow> conn_inv (upd_base (\<lambda>h. h\<lparr>hc_send_buffer := b\<rparr>) c)"
  "core (upd_base (\<lambda>h. h\<lparr>hc_send_buffer := b\<rparr>) c) = core c"
  by (simp_all add: conn_inv_defs upd_base_def)

lemma keeps_send:
  assumes "bq.appends m"
  shows "safe (quiet k) (on_send_buffer m)"
proof (unfold keeps_iff, intro allI impI)
  fix c assume c: "quiet k c"
  obtain r b where "m (cn_send_buffer c) = (r, b)" by (cases "m (cn_send_buffer c)")
  with c bq.appendsD(1,2) [OF assms, of "cn_send_buffer c"]
  show "fst (on_send_buffer m c) \<noteq> panic \<and> quiet k (snd (on_send_buffer m c)) \<and>
      (\<forall>y. fst (on_send_buffer m c) = Inr y \<longrightarrow> True)"
    by (auto simp: on_send_buffer_def zoomS_def conn_invD conn_inv_send)
qed

lemma keeps_send_message: "safe (quiet k) (send_message csid ty sid data)"
  unfolding send_message_def
  by (rule moves_bind [OF moves_get [where Q = "\<lambda>_. True"] keeps_send [OF appends_chunk_write]]) simp

lemma keeps_built:
  assumes "bq.appends m" "\<And>d. keeps (quiet k) (f d) Q"
  shows "keeps (quiet k) (bindS (liftS (built n m)) f) Q"
  by (rule moves_bind [OF moves_lift [OF built_no_panic [OF assms(1)] TrueI] assms(2)])

lemma keeps_commands:
  "bq.appends m \<Longrightarrow> safe (quiet k) (send_built_command sid n m)"
  "bq.appends m \<Longrightarrow> safe (quiet k) (send_user_control n m)"
  unfolding send_built_command_def send_user_control_def send_command_def send_control_def
  by (intro keeps_built keeps_send_message; assumption)+

lemma keeps_controls:
  "safe (quiet k) (send_control ty data)" "safe (quiet k) (send_acknowledgement seq)"
  "safe (quiet k) (send_user_control_ping_request t)"
  "safe (quiet k) (send_user_control_ping_response t)"
  "safe (quiet k) (send_stream_lifecycle_eof sid)"
  "safe (quiet k) (send_stream_lifecycle_begin sid)"
  unfolding send_acknowledgement_def send_control_def send_user_control_ping_request_def
    send_user_control_ping_response_def send_stream_lifecycle_eof_def send_stream_lifecycle_begin_def
  by (intro keeps_send_message keeps_commands appends_user_control safe_rules)+

lemma keeps_replies:
  "safe (quiet k) (send_command_error t code description)"
  "safe (quiet k) (send_create_stream_response t sid)"
  "safe (quiet k) (send_onstatus sid level code description)"
  "safe (quiet k) send_publish_denied" "safe (quiet k) send_play_denied"
  "safe (quiet k) (send_reconnect_request tc_url description')"
  unfolding send_command_error_def send_create_stream_response_def send_onstatus_def send_publish_denied_def
    send_play_denied_def send_reconnect_request_def
  by (intro keeps_commands appends_builders)+

lemma keeps_send_connect_response:
  assumes "\<And>c. caps = Some c \<Longrightarrow> caps_sound c"
  shows "safe (quiet k) (send_connect_response t caps)"
proof -
  have "safe (quiet k) (modS activate_announced_chunk_size)"
    by (rule keeps_mod) (simp_all add: activate_announced_chunk_size_def conn_inv_defs)
  then show ?thesis
    unfolding send_connect_response_def
    by (intro safe_rules keeps_controls keeps_commands appends_connect_response assms)
qed

lemma keeps_send_shared_object: "safe (quiet k) (send_shared_object so)"
  unfolding send_shared_object_def by (intro keeps_built appends_so_write keeps_send_message)

lemma keeps_media_core:
  assumes "bq.emits put_body () body"
  shows "safe (quiet k) (on_media_out (media_write_core compact msg len (length body) put_body))"
proof (unfold keeps_iff, intro allI impI)
  fix c assume c: "quiet k c"
  let ?m = "media_write_core compact msg len (length body) put_body"
  obtain b t r where m: "?m (cn_send_buffer c, cn_media_out_headers c) = (r, (b, t))" "buf_inv b" "r \<noteq> panic" "tracker_ok t"
    using media_write_core_result [OF _ _ assms, of "cn_send_buffer c" "cn_media_out_headers c" compact msg len]
      conn_invD [OF conjunct1 [OF c]] by fastforce
  then show "fst (on_media_out ?m c) \<noteq> panic \<and> quiet k (snd (on_media_out ?m c)) \<and>
      (\<forall>y. fst (on_media_out ?m c) = Inr y \<longrightarrow> True)"
    using c by (simp add: on_media_out_def zoomS_def conn_inv_defs upd_base_def)
qed

lemma keeps_media:
  "safe (quiet k) (send_frame ft ts payload)"
  "safe (quiet k) (send_encoded_media_body ft ts len body)"
proof -
  have "safe (quiet k) (thenS (on_media_out (write_media_message compact msg payload n)) (modS (count_media_sent m)))"
    "safe (quiet k) (thenS (on_media_out (write_media_message_with_body compact msg len body)) (modS (count_media_sent m)))"
    for compact msg n m
    unfolding write_media_message_core write_media_message_with_body_core count_media_sent_def
    by (intro safe_then keeps_media_core keeps_activity emits_encode_media_body bq.emits_void [OF bq.emits_write])+
  then show "safe (quiet k) (send_frame ft ts payload)"
    "safe (quiet k) (send_encoded_media_body ft ts len body)"
    unfolding send_frame_def send_encoded_media_body_def keeps_iff by blast+
qed

section \<open>Nothing is lost on the way to the socket\<close>

definition outbound :: "conn \<Rightarrow> bytes" where
  "outbound c = cn_wire c @ contents (cn_send_buffer c)"

abbreviation steady ::
  "conn_state \<times> stream option \<times> auth \<times> auth \<times> bool \<times> bool \<times> relay_frame list \<times> nat \<times> route_registry option \<times>
     bytes option \<times> (bytes \<times> bytes) list \<times> (bytes \<times> bytes) list \<times> host_event list \<times> callbacks \<times> bytes \<times> bytes \<times> u64 \<Rightarrow>
   bytes \<Rightarrow> conn \<Rightarrow> bool" where
  "steady k w c \<equiv> quiet k c \<and> outbound c = w"

lemma stable_steady: "stable (steady k w)"
  using stable_quiet [of k] by (auto simp: stable_def outbound_def upd_pings_def)

text \<open>The state after a round of the loop in which the socket took some bytes.\<close>

definition sent_out :: "nat \<Rightarrow> conn \<Rightarrow> conn" where
  "sent_out n c = upd_base (\<lambda>h. h\<lparr>hc_send_buffer := buf_drain n (hc_send_buffer h)\<rparr>)
     (c\<lparr>cn_tick := Suc (cn_tick c), cn_wire := cn_wire c @ take n (contents (cn_send_buffer c))\<rparr>)"

lemma flush_step:
  assumes "conn_inv c" "buf_available (cn_send_buffer c) \<noteq> 0" "cn_has_transport c"
  shows "flush_loop (Suc n) c = (case en_send (cn_env c) (cn_tick c) (contents (cn_send_buffer c)) of
     Inl e \<Rightarrow> (Inl e, c\<lparr>cn_tick := Suc (cn_tick c)\<rparr>)
   | Inr m \<Rightarrow> if m = 0 then (Inr (), c\<lparr>cn_tick := Suc (cn_tick c), cn_wire := cn_wire c\<rparr>)
       else thenS (note_bytes_sent m) (flush_loop n) (sent_out m c))"
  using assms
  by (auto simp: try_send_def outside_def on_send_buffer_def zoomS_def sent_out_def buf_peek_contents [OF conn_invD(2)]
      op_simps upd_base_def split: sum.split)

lemma steady_sent_out: "steady k w c \<Longrightarrow> steady k w (sent_out n c)"
  by (auto simp: sent_out_def outbound_def upd_base_def conn_inv_defs bq.drain_ok bq.drain_contents)

lemma safe_flush_loop: "safe (steady k w) (flush_loop n)"
proof (induction n)
  case (Suc n)
  show ?case
  proof (unfold keeps_iff, intro allI impI)
    fix c assume c: "steady k w c"
    let ?P = "\<lambda>x. fst x \<noteq> panic \<and> steady k w (snd x) \<and> (\<forall>y. fst x = Inr y \<longrightarrow> True)"
    have "safe (steady k w) (thenS (note_bytes_sent m) (flush_loop n))" for m
      by (intro safe_then safe_note_bytes_sent stable_steady Suc)
    with steady_sent_out [OF c] have rest: "?P (thenS (note_bytes_sent m) (flush_loop n) (sent_out m c))" for m
      unfolding keeps_iff by blast
    show "?P (flush_loop (Suc n) c)"
    proof (cases "buf_available (cn_send_buffer c) = 0 \<or> \<not> cn_has_transport c")
      case False
      with c have "flush_loop (Suc n) c = (case en_send (cn_env c) (cn_tick c) (contents (cn_send_buffer c)) of
           Inl e \<Rightarrow> (Inl e, c\<lparr>cn_tick := Suc (cn_tick c)\<rparr>)
         | Inr m \<Rightarrow> if m = 0 then (Inr (), c\<lparr>cn_tick := Suc (cn_tick c), cn_wire := cn_wire c\<rparr>)
             else thenS (note_bytes_sent m) (flush_loop n) (sent_out m c))"
        by (intro flush_step) auto
      moreover have "en_send (cn_env c) t d \<noteq> panic" for t d
        using conn_invD(5) [of c] c by (simp add: honest_def)
      ultimately show ?thesis using c rest
        by (simp only:) (auto simp: outbound_def simp del: thenS_def split: sum.split)
    qed (use c in simp)
  qed
qed (simp add: keeps_iff)

lemma safe_flush: "safe (steady k w) flush"
proof -
  have stall: "safe (steady k w) note_stall"
  proof (unfold keeps_iff, intro allI impI)
    fix c assume c: "steady k w c"
    then have "contents (cn_send_buffer c) = []" if "buf_available (cn_send_buffer c) = 0"
      using that by (simp add: buf_available_contents conn_invD)
    with c show "fst (note_stall c) \<noteq> panic \<and> steady k w (snd (note_stall c)) \<and> (\<forall>y. fst (note_stall c) = Inr y \<longrightarrow> True)"
      by (auto simp: note_stall_def instant_now_def outside_def op_simps conn_inv_defs upd_defs outbound_def)
  qed
  have "safe (steady k w) (thenS (flush_loop n) (thenS note_stall commit_flushed_ping))" for n
    by (intro safe_then safe_flush_loop stall safe_commit_flushed_ping stable_steady)
  with safe_commit_flushed_ping [OF stable_steady, of k w] show ?thesis
    unfolding keeps_iff flush_def by simp
qed

text \<open>The number of rounds the model allows is not a limit: a longer loop does the same.\<close>

lemma flush_loop_enough:
  assumes "conn_inv c" "buf_available (cn_send_buffer c) \<le> n"
  shows "flush_loop (n + m) c = flush_loop n c"
  using assms
proof (induction n arbitrary: c)
  case 0
  then show ?case by (cases m) simp_all
next
  case (Suc n)
  show ?case
  proof (cases "buf_available (cn_send_buffer c) = 0 \<or> \<not> cn_has_transport c")
    case False
    have "flush_loop (n + m) c' = flush_loop n c'" if "note_bytes_sent j (sent_out j c) = (r, c')" "0 < j" for j r c'
    proof (rule Suc.IH)
      have "steady (core c) (outbound c) (sent_out j c)" using Suc.prems(1) by (intro steady_sent_out) simp
      with safe_note_bytes_sent [OF stable_steady, of "core c" "outbound c" j] that(1)
      show "conn_inv c'" unfolding keeps_iff by fastforce
      have "cn_send_buffer c' = cn_send_buffer (sent_out j c)"
        using that(1) by (auto simp: note_bytes_sent_def instant_now_def outside_def op_simps upd_pings_def split: if_splits)
      also have "\<dots> = buf_drain j (cn_send_buffer c)" by (simp add: sent_out_def upd_base_def)
      finally show "buf_available (cn_send_buffer c') \<le> n"
        using Suc.prems False that(2)
        by (simp add: buf_available_contents conn_invD bq.drain_ok bq.drain_contents)
    qed
    with False Suc.prems(1) show ?thesis
      by (simp only: add_Suc flush_step de_Morgan_disj not_not simp_thms)
        (auto simp: thenS_def bindS_def split: sum.split prod.split)
  qed auto
qed


subsection \<open>Staged media\<close>

definition parts_ok :: "bytes list \<Rightarrow> nat \<Rightarrow> bool" where
  "parts_ok ps off \<longleftrightarrow> (case ps of [] \<Rightarrow> off = 0 | p # _ \<Rightarrow> off \<le> length p)"

lemma advance_parts_ok:
  "parts_ok ps off \<Longrightarrow> n \<le> length (drop off (concat ps)) \<Longrightarrow>
   \<exists>ps' off'. advance_parts n ps off = Inr (ps', off') \<and> parts_ok ps' off' \<and>
     drop off' (concat ps') = drop n (drop off (concat ps))"
proof (induction n ps off rule: advance_parts.induct)
  case (3 n p ps off)
  show ?case
  proof (cases "Suc n < length p - off")
    case True
    then show ?thesis using 3(2) by (auto simp: parts_ok_def add.commute)
  next
    case False
    let ?m = "Suc n - (length p - off)"
    have off: "\<not> length p < off" using 3(2) by (simp add: parts_ok_def)
    have "\<exists>ps' off'. advance_parts ?m ps 0 = Inr (ps', off') \<and> parts_ok ps' off' \<and>
        drop off' (concat ps') = drop ?m (drop 0 (concat ps))"
      using 3(3) False by (intro 3(1) [OF off False]) (auto simp: parts_ok_def split: list.split)
    moreover have "drop ?m (concat ps) = drop (Suc n) (drop off (concat (p # ps)))"
      using False off by (simp add: add.commute)
    ultimately show ?thesis using False off by simp
  qed
qed (auto simp: parts_ok_def)

lemma staged_loop_result:
  assumes "quiet k c" "parts_ok ps off"
  shows "\<exists>r c' u v. staged_loop n ps off c = (r, c') \<and> r \<noteq> panic \<and> quiet k c' \<and> cn_send_buffer c' = cn_send_buffer c \<and>
    cn_wire c' = cn_wire c @ u \<and> drop off (concat ps) = u @ v \<and>
    (\<forall>ps' off'. r = Inr (ps', off') \<longrightarrow> parts_ok ps' off' \<and> v = drop off' (concat ps'))"
  using assms
proof (induction n arbitrary: c ps off)
  case 0
  then show ?case by auto
next
  case (Suc n)
  show ?case
  proof (cases "ps = [] \<or> \<not> cn_has_transport c")
    case True
    then show ?thesis using Suc.prems by auto
  next
    case False
    let ?d = "drop off (concat ps)" and ?t = "c\<lparr>cn_tick := Suc (cn_tick c)\<rparr>"
    have honest: "en_send_vectored (cn_env c) (cn_tick c) ps off \<noteq> panic"
      "en_send_vectored (cn_env c) (cn_tick c) ps off = Inr m \<Longrightarrow> m \<le> length ?d" for m
      using conn_invD(5) [OF conjunct1 [OF Suc.prems(1)]] unfolding honest_def by blast+
    show ?thesis
    proof (cases "en_send_vectored (cn_env c) (cn_tick c) ps off")
      case (Inl e)
      with False Suc.prems honest(1) show ?thesis
        by (auto simp: try_send_vectored_def outside_def op_simps intro!: exI [of _ "[]"])
    next
      case (Inr m)
      let ?c = "?t\<lparr>cn_wire := cn_wire c @ take m ?d\<rparr>"
      obtain ps' off' where adv: "advance_parts m ps off = Inr (ps', off')" "parts_ok ps' off'"
          "drop off' (concat ps') = drop m ?d"
        using advance_parts_ok [OF Suc.prems(2) honest(2) [OF Inr]] by blast
      obtain c' where note': "note_bytes_sent m ?c = (Inr (), c')" "quiet k c'" "cn_send_buffer c' = cn_send_buffer c"
          "cn_wire c' = cn_wire c @ take m ?d"
      proof -
        let ?r = "note_bytes_sent m ?c"
        have "quiet k ?c" using Suc.prems(1) by simp
        with safe_note_bytes_sent [OF stable_quiet, of k m] have "quiet k (snd ?r)" unfolding keeps_iff by blast
        moreover have "fst ?r = Inr ()" "cn_send_buffer (snd ?r) = cn_send_buffer c" "cn_wire (snd ?r) = cn_wire c @ take m ?d"
          by (simp_all add: note_bytes_sent_def instant_now_def outside_def op_simps upd_pings_def)
        ultimately show thesis using that [of "snd ?r"] by (metis prod.collapse)
      qed
      show ?thesis
      proof (cases "m = 0")
        case True
        with False Suc.prems Inr show ?thesis
          by (auto simp: try_send_vectored_def outside_def op_simps intro!: exI [of _ "[]"])
      next
        case nz: False
        from Suc.IH [OF note'(2) adv(2)] obtain r c2 u v where
          ih: "staged_loop n ps' off' c' = (r, c2)" "r \<noteq> panic" "quiet k c2" "cn_send_buffer c2 = cn_send_buffer c'"
            "cn_wire c2 = cn_wire c' @ u" "drop off' (concat ps') = u @ v"
            "\<forall>ps2 off2. r = Inr (ps2, off2) \<longrightarrow> parts_ok ps2 off2 \<and> v = drop off2 (concat ps2)"
          by (elim exE conjE) (rule that; blast)
        have "staged_loop (Suc n) ps off c = (r, c2)"
          using False Inr nz note'(1) adv(1) ih(1) by (simp add: try_send_vectored_def outside_def op_simps)
        moreover have "?d = (take m ?d @ u) @ v" using ih(6) adv(3) by (metis append.assoc append_take_drop_id)
        ultimately show ?thesis
          using ih(2,3,4,5,7) note'(3,4) by (intro exI [of _ r] exI [of _ c2] exI [of _ "take m ?d @ u"] exI [of _ v]) simp
      qed
    qed
  qed
qed

lemma emits_write_parts: "bq.emits (write_parts ps) () (concat ps)"
proof (induction ps)
  case (Cons p ps)
  then show ?case using bq.emits_then [OF bq.emits_write] by simp
qed (simp del: retS_apply add: bq.emits_ret)

lemma queue_parts_result:
  assumes "buf_inv b" "parts_ok ps off"
  shows "\<exists>b'. buf_inv b' \<and> (queue_parts ps off b = (Inr (), b') \<and> contents b' = contents b @ drop off (concat ps) \<or>
    queue_parts ps off b = (err EInternal, b') \<and> contents b' = contents b)"
proof (cases ps)
  case Nil
  then show ?thesis using assms by (auto simp: queue_parts_def parts_ok_def)
next
  case (Cons p qs)
  let ?d = "drop off p" and ?n = "length p - off + sum_list (map length qs)"
  let ?m = "thenS (buf_reserve ?n) (thenS (buf_write ?d) (write_parts qs))"
  have q: "queue_parts ps off b = ?m b"
    using assms(2) Cons by (simp add: queue_parts_def parts_ok_def subslice_def bindS_lift)
  have d: "drop off (concat ps) = ?d @ concat qs" using assms(2) Cons by (simp add: parts_ok_def)
  have n: "?n = length (?d @ concat qs)" by (simp add: length_concat)
  have "bq.emits ?m () (?d @ concat qs)"
    by (rule bq.emits_reserve_plain) (simp_all add: n bq.emits_then [OF bq.emits_write emits_write_parts] del: length_append)
  then show ?thesis
    unfolding q d using bq.emitsE [OF _ assms(1)] bq.reserve_plain_fails [OF assms(1)] n by metis
qed

text \<open>
  Staged media goes out in order, and what the socket does not take is queued: nothing when it all
  fits, all of the rest otherwise. Only an error can cut the sequence short.
\<close>

lemma send_staged_media_result:
  assumes "quiet k c" "contents (cn_send_buffer c) = []"
  shows "\<exists>r c' u v. send_staged_media parts c = (r, c') \<and> r \<noteq> panic \<and> quiet k c' \<and>
    outbound c' = outbound c @ u \<and> concat parts = u @ v \<and> (r = Inr () \<longrightarrow> v = [])"
proof -
  let ?c = "c\<lparr>cn_staged_media_bytes := 0\<rparr>"
  define N where "N = Suc (length (concat parts))"
  have "quiet k ?c" "parts_ok parts 0" using assms(1) by (auto simp: conn_inv_defs parts_ok_def split: list.split)
  from staged_loop_result [OF this, of N] obtain r c' u v where
    loop: "staged_loop N parts 0 ?c = (r, c')" "r \<noteq> panic" "quiet k c'"
      "cn_send_buffer c' = cn_send_buffer c" "cn_wire c' = cn_wire c @ u" "concat parts = u @ v"
      "\<forall>ps' off'. r = Inr (ps', off') \<longrightarrow> parts_ok ps' off' \<and> v = drop off' (concat ps')"
    by (elim exE conjE) (rule that; simp)
  show ?thesis
  proof (cases r)
    case (Inl e)
    then show ?thesis
      using loop assms(2) unfolding send_staged_media_def N_def [symmetric] by (auto simp: outbound_def op_simps)
  next
    case (Inr s)
    obtain ps off where s: "s = (ps, off)" by (cases s)
    with Inr loop(7) have ps: "parts_ok ps off" "v = drop off (concat ps)" by simp_all
    obtain b where b: "buf_inv b" "queue_parts ps off (cn_send_buffer c') = (Inr (), b) \<and> contents b = contents (cn_send_buffer c') @ v \<or>
        queue_parts ps off (cn_send_buffer c') = (err EInternal, b) \<and> contents b = contents (cn_send_buffer c')"
      using queue_parts_result [OF conn_invD(2) [OF conjunct1 [OF loop(3)]] ps(1)] ps(2) by blast
    let ?q = "upd_base (\<lambda>h. h\<lparr>hc_send_buffer := b\<rparr>) c'"
    have run: "send_staged_media parts c = (fst (queue_parts ps off (cn_send_buffer c')), ?q)"
      using loop(1) Inr s b(2) unfolding send_staged_media_def N_def [symmetric]
      by (auto simp: on_send_buffer_def zoomS_def op_simps)
    have q: "quiet k ?q" using conn_inv_send(1) [OF _ b(1)] loop(3) by (simp add: conn_inv_send(2))
    have out: "outbound ?q = outbound c @ u @ contents b"
      using loop(4,5) assms(2) by (simp add: outbound_def upd_base_def)
    from b(2) show ?thesis
    proof
      assume "queue_parts ps off (cn_send_buffer c') = (Inr (), b) \<and> contents b = contents (cn_send_buffer c') @ v"
      with run q out loop(4,6) assms(2) show ?thesis
        by (intro exI [of _ "Inr ()"] exI [of _ ?q] exI [of _ "u @ v"] exI [of _ "[]"]) simp
    next
      assume "queue_parts ps off (cn_send_buffer c') = (err EInternal, b) \<and> contents b = contents (cn_send_buffer c')"
      with run q out loop(4,6) assms(2) show ?thesis
        by (intro exI [of _ "err EInternal"] exI [of _ ?q] exI [of _ u] exI [of _ v]) simp
    qed
  qed
qed

section \<open>Pings and control messages\<close>

lemma pings_ok_drop: "pings_ok p \<Longrightarrow> pings_ok (p\<lparr>pg_pending_pings := filter P (pg_pending_pings p)\<rparr>)"
  unfolding pings_ok_def
  by (auto intro: le_trans [OF length_filter_le] le_trans [OF Suc_le_mono [THEN iffD2, OF length_filter_le]])

lemma quiet_drop_stale: "quiet k c \<Longrightarrow> quiet k (drop_stale_pings now c)"
  unfolding drop_stale_pings_def by (simp add: conn_inv_pings pings_ok_drop conn_invD)

lemma queue_ping_safe:
  assumes "quiet k c" "length (pg_pending_pings (cn_pings c)) < MAX_PENDING_PINGS"
  shows "fst (queue_ping now c) \<noteq> panic \<and> quiet k (snd (queue_ping now c))"
proof -
  let ?c = "upd_pings (\<lambda>p. p\<lparr>pg_next_ping_token := pg_next_ping_token p + 1\<rparr>) c" and ?t = "pg_next_ping_token (cn_pings c)"
  let ?few = "\<lambda>c. length (pg_pending_pings (cn_pings c)) < MAX_PENDING_PINGS"
  have "quiet k ?c" using assms(1) by (simp add: conn_inv_pings conn_invD)
  with keeps_controls(3) [of k ?t] have s: "fst (send_user_control_ping_request ?t ?c) \<noteq> panic"
    "quiet k (snd (send_user_control_ping_request ?t ?c))" unfolding keeps_iff by blast+
  have "cn_pings (snd (send_user_control_ping_request ?t ?c)) = cn_pings ?c"
    by (simp add: send_user_control_ping_request_def send_user_control_def send_control_def send_message_def
        on_send_buffer_def zoomS_def op_simps upd_base_def split: sum.split prod.split)
  then have few: "?few (snd (send_user_control_ping_request ?t ?c))" using assms(2) by (simp add: upd_pings_def)
  have "quiet k (upd_pings (\<lambda>p. p\<lparr>pg_queued_ping := Some q\<rparr>) d)" if "quiet k d" "?few d" for q d
    using that by (intro conjI conn_inv_pings) (auto simp: conn_inv_pings pings_ok_def dest!: conn_invD(6))
  with s few show ?thesis
    by (cases "send_user_control_ping_request ?t ?c") (auto simp: queue_ping_def op_simps split: sum.split)
qed

lemma case_if: "(b \<Longrightarrow> P x) \<Longrightarrow> (\<not> b \<Longrightarrow> P y) \<Longrightarrow> P (if b then x else y)"
  by simp

lemma safe_ping_due: "safe (quiet k) (ping_due now)"
proof (unfold keeps_iff, intro allI impI)
  fix c assume c: "quiet k c"
  define d where "d = (if peer_is_sending now c \<and> \<not> peer_is_draining now c then drop_stale_pings now c else c)"
  let ?ok = "\<lambda>x :: unit result \<times> conn. fst x \<noteq> panic \<and> quiet k (snd x)"
  define e where "e = (if \<not> (peer_is_draining now c \<or> peer_is_sending now c) then drop_stale_pings now d else d)"
  have d: "quiet k d" using c quiet_drop_stale by (simp add: d_def)
  then have e: "quiet k e" using quiet_drop_stale by (simp add: e_def)
  have stop: "?ok (err EProtocol, x)" "?ok (Inr (), x)" if "quiet k x" for x using that by simp_all
  have "?ok (ping_due now c)"
    unfolding ping_due_def Let_def d_def [symmetric] e_def [symmetric]
    by (cases "pg_queued_ping (cn_pings d)"; simp only: option.case)
      (intro case_if [where P = ?ok] stop d e queue_ping_safe; simp add: not_le)+
  then show "fst (ping_due now c) \<noteq> panic \<and> quiet k (snd (ping_due now c)) \<and> (\<forall>y. fst (ping_due now c) = Inr y \<longrightarrow> True)"
    by simp
qed

lemma safe_maybe_send_ping: "safe (quiet k) maybe_send_ping"
proof -
  have "safe (quiet k) (bindS instant_now (\<lambda>now c.
       if (case pg_send_stalled_since (cn_pings c) of Some t \<Rightarrow> WRITE_STALL_TIMEOUT \<le> now - t | None \<Rightarrow> False)
       then (err EProtocol, c)
       else if within_timeout PING_INTERVAL now (pg_last_ping_sent (cn_pings c)) then (Inr (), c)
       else ping_due now c))"
    using safe_ping_due by (intro safe_bind safe_now stable_quiet) (auto simp: keeps_iff split: option.split)
  then show ?thesis unfolding maybe_send_ping_def keeps_iff by simp
qed

lemma safe_answer_ping: "safe (quiet k) (answer_ping t)"
proof -
  have rest: "safe (quiet k) (bindS (getS (\<lambda>c. pg_inbound_ping_responses (cn_pings c))) (\<lambda>n.
       if MAX_INBOUND_PING_RESPONSES \<le> n then failS (Err EProtocol)
       else thenS (modS (upd_pings (\<lambda>p. p\<lparr>pg_inbound_ping_responses := pg_inbound_ping_responses p + 1\<rparr>)))
         (send_user_control_ping_response t)))" (is "safe _ ?m")
  proof (unfold keeps_iff, intro allI impI)
    fix c assume c: "quiet k c"
    let ?d = "upd_pings (\<lambda>p. p\<lparr>pg_inbound_ping_responses := pg_inbound_ping_responses p + 1\<rparr>) c"
    have "quiet k ?d" if "\<not> MAX_INBOUND_PING_RESPONSES \<le> pg_inbound_ping_responses (cn_pings c)"
      using c that conn_invD(6) [of c] by (intro conjI conn_inv_pings) (auto simp: conn_inv_pings pings_ok_def)
    with c keeps_controls(4) [of k t] show "fst (?m c) \<noteq> panic \<and> quiet k (snd (?m c)) \<and> (\<forall>y. fst (?m c) = Inr y \<longrightarrow> True)"
      unfolding keeps_iff by (auto simp: op_simps)
  qed
  show ?thesis
    unfolding answer_ping_def
    by (rule safe_bind [OF safe_now [OF stable_quiet]], rule safe_then [OF safe_pings [OF stable_quiet] rest])
      (auto simp: pings_ok_def split: option.split)
qed

lemma safe_ping_answered: "safe (quiet k) (ping_answered t)"
proof -
  have "safe (quiet k) (bindS instant_now (\<lambda>now. modS (upd_pings (\<lambda>p. p\<lparr>pg_rtt := now - sent,
      pg_pending_pings := filter P (pg_pending_pings p)\<rparr>))))" for sent P
    by (intro safe_bind safe_now safe_pings stable_quiet) (use pings_ok_drop pings_ok_fields(8) in fastforce)
  then show ?thesis unfolding ping_answered_def keeps_iff by (simp split: option.split)
qed

lemma conn_inv_chunk_reg:
  "conn_inv c \<Longrightarrow> reg_inv r \<Longrightarrow> conn_inv (c\<lparr>cn_chunk_reg := r\<rparr>)" "core (c\<lparr>cn_chunk_reg := r\<rparr>) = core c"
  by (simp_all add: conn_inv_defs)

lemma conn_inv_base_reason [simp]:
  "conn_inv (conn_close_reason level reason c) = conn_inv c" "core (conn_close_reason level reason c) = core c"
  by (simp_all add: conn_close_reason_def set_close_reason_def upd_base_def conn_inv_defs)

lemma conn_inv_plain [simp]:
  "conn_inv (c\<lparr>cn_buffer_length_ms := ms\<rparr>) = conn_inv c" "core (c\<lparr>cn_buffer_length_ms := ms\<rparr>) = core c"
  "conn_inv (c\<lparr>cn_window_ack_size := w\<rparr>) = conn_inv c" "core (c\<lparr>cn_window_ack_size := w\<rparr>) = core c"
  by (simp_all add: conn_inv_defs)

lemma read_no_panic: "read_user_control d f \<noteq> panic" "read_set_chunk_size d \<noteq> panic" "read_abort_message d \<noteq> panic"
  "read_window_ack_size d \<noteq> panic" "read_acknowledgement_size d \<noteq> panic" "read_set_peer_bandwidth d \<noteq> panic"
  using control_readers_bounded by blast+

lemma safe_handle_user_control: "safe (quiet k) (handle_user_control payload)"
proof (cases "length payload < 6")
  case False
  have "safe (quiet k) (modS (\<lambda>c. c\<lparr>cn_buffer_length_ms := ms\<rparr>))" for ms by (rule keeps_mod) simp_all
  then show ?thesis
    unfolding handle_user_control_def Let_def using False read_no_panic(1)
    by (auto intro!: safe_bind safe_lift moves_if safe_ping_answered safe_answer_ping safe_ret
        simp: idx_def simp del: retS_apply liftS_apply split: option.split)
qed (simp add: handle_user_control_def keeps_iff)

lemma safe_handle_control: "safe (quiet k) (handle_control ty payload)"
proof -
  have size: "safe (quiet k) (modS (\<lambda>c. c\<lparr>cn_chunk_reg := reg_set_all_chunk_size n (cn_chunk_reg c)\<rparr>))" for n
    by (rule keeps_mod) (auto intro!: conn_inv_chunk_reg reg_inv_set_all_chunk_size dest: conn_invD simp: conn_inv_chunk_reg)
  have abort: "safe (quiet k) (zoomS cn_chunk_reg (\<lambda>r c. c\<lparr>cn_chunk_reg := r\<rparr>) (reg_abort_stream csid))" for csid
    unfolding keeps_iff zoomS_def
    using reg_inv_abort_stream by (auto simp: reg_abort_stream_eq conn_invD conn_inv_chunk_reg split: prod.split)
  have misc: "safe (quiet k) (modS (\<lambda>c. c\<lparr>cn_window_ack_size := w\<rparr>))" "safe (quiet k) (modS (conn_close_reason l r))" for w l r
    by (rule keeps_mod; simp)+
  show ?thesis
    unfolding handle_control_def
    using read_no_panic size abort misc
    by (auto intro!: moves_if safe_then moves_fail safe_ret simp del: retS_apply failS_apply split: sum.split failure.split)
qed


section \<open>Nothing is lost on the way to the socket\<close>

lemma conn_inv_new: "honest env \<Longrightarrow> conn_inv (conn_new env)"
  by (simp add: conn_inv_defs conn_new_def hs_conn_new_def handshake_default_def tracker_ok_def tracker_default_def
      pings_ok_def auth_ok_def reg_inv_init)

definition ex_clock :: clock where
  "ex_clock = \<lparr>clk_secs = 1700000000, clk_nanos = 5, clk_counter = 1\<rparr>"

definition ex_env :: environment where
  "ex_env = \<lparr>en_now = (\<lambda>t. t), en_clocks = (\<lambda>_. (ex_clock, ex_clock, ex_clock)), en_send = (\<lambda>_ d. Inr (min 3 (length d))),
     en_send_vectored = (\<lambda>_ ps off. Inr (min 3 (length (drop off (concat ps)))))\<rparr>"

lemma honest_ex_env: "honest ex_env"
  by (simp add: honest_def ex_env_def)


definition ex_conn :: conn where
  "ex_conn = upd_base (\<lambda>h. h\<lparr>hc_has_fd := True\<rparr>) ((conn_new ex_env)\<lparr>cn_has_transport := True\<rparr>)"

lemma conn_inv_ex_conn: "conn_inv ex_conn"
  using conn_inv_new [OF honest_ex_env] by (simp add: ex_conn_def conn_inv_defs upd_base_def)


end
