(* ===== verification/Spec2Isabelle.thy ===== *)
theory Spec2Isabelle
  imports Chunk_Roundtrip Media_Out Amf3 Handshake_Live Shared_Object Init_Cache Command Script_Meta Message_Dispatch Conn_Inv
begin

text \<open>
  Verification of the RTMP library librtmp2.
\<close>

end
